(* ===== verification/Py.thy ===== *)
theory Py
  imports Complex_Main "HOL-Library.Monad_Syntax" "HOL-Library.Sublist" "HOL-Library.Multiset"
begin

text \<open>
  The prelude: what the components use of Python itself. Exceptions are values of
  \<open>pyerr\<close>, a computation that may raise is a value of \<open>'a py\<close> (\<open>Inl\<close> the exception,
  \<open>Inr\<close> the result), sequencing is \<open>bind_e\<close>, a \<open>for\<close> loop that may raise is \<open>fold_e\<close>.
  Lists are read with Python's index and slice rules, and strings with the methods of
  \<open>str\<close> the scripts call. The collections \<open>py_defs\<close> and \<open>py_intros\<close> gather the hints
  the component theories share.
\<close>

named_theorems py_defs \<open>definitions of the Python runtime model that automation may unfold\<close>
named_theorems py_intros \<open>introduction rules for runs that do not raise\<close>

section \<open>Exceptions as values\<close>

datatype pyerr =
    AttributeError
  | KeyError
  | IndexError
  | ValueError
  | ZeroDivisionError
  | UnboundLocalError
  | NameError
  | TypeError
  | IOError
  | OSError
  | StopIteration
  | AssertionError
  | SystemExit int
  | PyException

type_synonym 'a py = "pyerr + 'a"

definition bind_e :: "'e + 'a \<Rightarrow> ('a \<Rightarrow> 'e + 'b) \<Rightarrow> 'e + 'b" where
  "bind_e m f = (case m of Inl e \<Rightarrow> Inl e | Inr x \<Rightarrow> f x)"

lemma bind_e_Inl [simp]: "bind_e (Inl e) f = Inl e"
  by (simp add: bind_e_def)

lemma bind_e_Inr [simp]: "bind_e (Inr x) f = f x"
  by (simp add: bind_e_def)

lemma bind_e_Inr_iff: "bind_e m f = Inr y \<longleftrightarrow> (\<exists>x. m = Inr x \<and> f x = Inr y)"
  by (cases m) auto

lemma bind_e_Inl_iff: "bind_e m f = Inl e \<longleftrightarrow> m = Inl e \<or> (\<exists>x. m = Inr x \<and> f x = Inl e)"
  by (cases m) auto

lemma bind_e_InrE:
  assumes "bind_e m f = Inr y"
  obtains x where "m = Inr x" and "f x = Inr y"
  using assms by (auto simp: bind_e_Inr_iff)

lemma bind_e_assoc: "bind_e (bind_e m f) g = bind_e m (\<lambda>x. bind_e (f x) g)"
  by (cases m) auto

lemma bind_e_cong [fundef_cong]:
  "m = m' \<Longrightarrow> (\<And>x. m' = Inr x \<Longrightarrow> f x = g x) \<Longrightarrow> bind_e m f = bind_e m' g"
  by (cases m') auto

text \<open>For evaluation: the first computation is reduced before the continuation is looked at.\<close>

lemma bind_e_weak_cong: "m = m' \<Longrightarrow> bind_e m f = bind_e m' f"
  by simp

definition is_ok :: "'e + 'a \<Rightarrow> bool" where
  "is_ok m = (case m of Inl _ \<Rightarrow> False | Inr _ \<Rightarrow> True)"

lemma is_ok_simps [simp]: "is_ok (Inr x)" "\<not> is_ok (Inl e)"
  by (simp_all add: is_ok_def)

lemma is_ok_iff: "is_ok m \<longleftrightarrow> (\<exists>x. m = Inr x)"
  by (cases m) auto

lemma is_ok_bind [py_intros]:
  assumes "is_ok m" and "\<And>x. m = Inr x \<Longrightarrow> is_ok (f x)"
  shows "is_ok (bind_e m f)"
  using assms by (cases m) auto

text \<open>A \<open>for\<close> loop whose body may raise: the first exception leaves the loop.\<close>

fun fold_e :: "('s \<Rightarrow> 'a \<Rightarrow> 'e + 's) \<Rightarrow> 's \<Rightarrow> 'a list \<Rightarrow> 'e + 's" where
  "fold_e f s [] = Inr s"
| "fold_e f s (x # xs) = bind_e (f s x) (\<lambda>s'. fold_e f s' xs)"

lemma fold_e_append: "fold_e f s (xs @ ys) = bind_e (fold_e f s xs) (\<lambda>s'. fold_e f s' ys)"
  by (induction xs arbitrary: s) (auto simp: bind_e_assoc)

lemma fold_e_invariant:
  assumes "fold_e f s xs = Inr t" and "P s"
    and "\<And>s x s'. P s \<Longrightarrow> x \<in> set xs \<Longrightarrow> f s x = Inr s' \<Longrightarrow> P s'"
  shows "P t"
  using assms
proof (induction xs arbitrary: s)
  case Nil
  then show ?case by simp
next
  case (Cons x xs)
  from Cons.prems(1) have "bind_e (f s x) (\<lambda>s'. fold_e f s' xs) = Inr t" by simp
  then obtain s' where s': "f s x = Inr s'" "fold_e f s' xs = Inr t"
    by (rule bind_e_InrE)
  show ?case
  proof (rule Cons.IH)
    show "fold_e f s' xs = Inr t" by (rule s')
    show "P s'" by (rule Cons.prems(3) [OF Cons.prems(2) _ s'(1)]) simp
    show "\<And>s y s''. P s \<Longrightarrow> y \<in> set xs \<Longrightarrow> f s y = Inr s'' \<Longrightarrow> P s''"
      by (rule Cons.prems(3)) simp_all
  qed
qed

lemma fold_e_is_ok:
  assumes "P s" and "\<And>s x. P s \<Longrightarrow> x \<in> set xs \<Longrightarrow> \<exists>s'. f s x = Inr s' \<and> P s'"
  shows "\<exists>t. fold_e f s xs = Inr t \<and> P t"
  using assms
proof (induction xs arbitrary: s)
  case Nil
  then show ?case by simp
next
  case (Cons x xs)
  from Cons.prems(1) Cons.prems(2)[of s x] obtain s' where s': "f s x = Inr s'" and "P s'"
    by (meson list.set_intros(1))
  have "\<exists>t. fold_e f s' xs = Inr t \<and> P t"
    by (rule Cons.IH [OF \<open>P s'\<close> Cons.prems(2)]) simp_all
  with s' show ?case by simp
qed

text \<open>An attribute that \<open>__init__\<close> does not set: reading it before it is set raises.\<close>

definition attr :: "'a option \<Rightarrow> 'a py" where
  "attr x = (case x of None \<Rightarrow> Inl AttributeError | Some v \<Rightarrow> Inr v)"

lemma attr_simps [simp]: "attr None = Inl AttributeError" "attr (Some v) = Inr v"
  by (simp_all add: attr_def)

lemma attr_Inr_iff: "attr x = Inr v \<longleftrightarrow> x = Some v"
  by (cases x) auto

section \<open>Lists\<close>

text \<open>Indexing: a negative index counts from the end, an index out of range raises.\<close>

definition norm_index :: "nat \<Rightarrow> int \<Rightarrow> int" where
  "norm_index n i = (if i < 0 then i + int n else i)"

definition py_get :: "'a list \<Rightarrow> int \<Rightarrow> 'a py" where
  "py_get xs i =
     (if norm_index (length xs) i \<in> {0 ..< int (length xs)}
      then Inr (xs ! nat (norm_index (length xs) i)) else Inl IndexError)"

lemma py_get_nonneg: "0 \<le> i \<Longrightarrow> i < int (length xs) \<Longrightarrow> py_get xs i = Inr (xs ! nat i)"
  by (simp add: py_get_def norm_index_def)

lemma py_get_nat: "i < length xs \<Longrightarrow> py_get xs (int i) = Inr (xs ! i)"
  by (simp add: py_get_def norm_index_def)

lemma py_get_last: "xs \<noteq> [] \<Longrightarrow> py_get xs (-1) = Inr (last xs)"
  by (cases xs rule: rev_cases) (auto simp: py_get_def norm_index_def nat_add_distrib)

text \<open>Slicing \<open>xs[i:j]\<close>: negative bounds count from the end, and both are clamped.\<close>

definition slice_bound :: "nat \<Rightarrow> int \<Rightarrow> nat" where
  "slice_bound n i = nat (min (int n) (max 0 (if i < 0 then int n + i else i)))"

definition py_slice :: "'a list \<Rightarrow> int \<Rightarrow> int \<Rightarrow> 'a list" where
  "py_slice xs i j =
     (let a = slice_bound (length xs) i; b = slice_bound (length xs) j
      in take (b - a) (drop a xs))"

definition py_slice_from :: "'a list \<Rightarrow> int \<Rightarrow> 'a list" where
  "py_slice_from xs i = drop (slice_bound (length xs) i) xs"

lemma slice_bound_le: "slice_bound n i \<le> n"
  by (auto simp: slice_bound_def)

lemma slice_bound_nat [simp]: "slice_bound n (int i) = min n i"
  by (auto simp: slice_bound_def min_def)

lemma py_slice_nat: "py_slice xs (int i) (int j) = take (j - i) (drop i xs)"
  by (auto simp: py_slice_def Let_def min_def)

lemma py_slice_from_neg: "0 < k \<Longrightarrow> py_slice_from xs (- int k) = drop (length xs - k) xs"
  by (auto simp: py_slice_from_def slice_bound_def min_def max_def nat_diff_distrib')

lemma py_slice_subset: "set (py_slice xs i j) \<subseteq> set xs"
  by (auto simp: py_slice_def Let_def dest!: in_set_takeD in_set_dropD)

lemma filter_eq_slice:
  assumes "\<And>j. j < length xs \<Longrightarrow> P (xs ! j) \<longleftrightarrow> s \<le> j \<and> j < e"
  shows "filter P xs = take (e - s) (drop s xs)"
  using assms
proof (induction xs arbitrary: s e)
  case Nil
  then show ?case by simp
next
  case (Cons x xs)
  have tail: "P (xs ! j) \<longleftrightarrow> s \<le> Suc j \<and> Suc j < e" if "j < length xs" for j
    using Cons.prems [of "Suc j"] that by simp
  have "filter P xs = take (e - 1 - (s - 1)) (drop (s - 1) xs)"
    by (rule Cons.IH) (use tail in auto)
  moreover have "P x \<longleftrightarrow> s = 0 \<and> 0 < e" using Cons.prems [of 0] by simp
  ultimately show ?case by (cases s; cases e) auto
qed

text \<open>
  \<open>sorted(xs, key=f)\<close> and \<open>xs.sort(cmp)\<close> are stable: elements that compare equal keep
  their order. \<open>sort_key\<close> of the HOL library is that sort.
\<close>

lemma sort_key_id: "sorted (map f xs) \<Longrightarrow> sort_key f xs = xs"
  by (simp add: sorted_sort_id sort_key_id_if_sorted)

section \<open>Strings\<close>

definition nl :: char where "nl = CHR 0x0A"
definition tab :: char where "tab = CHR 0x09"

text \<open>\<open>pat in s\<close>, \<open>s.startswith(p)\<close>, \<open>s.endswith(p)\<close>.\<close>

fun str_in :: "string \<Rightarrow> string \<Rightarrow> bool" where
  "str_in pat [] = (pat = [])"
| "str_in pat (c # cs) = (prefix pat (c # cs) \<or> str_in pat cs)"

lemma str_in_iff: "str_in pat s \<longleftrightarrow> (\<exists>a b. s = a @ pat @ b)"
proof (induction s)
  case Nil
  then show ?case by simp
next
  case (Cons c cs)
  show ?case
  proof
    assume "str_in pat (c # cs)"
    then consider "prefix pat (c # cs)" | "str_in pat cs" by auto
    then show "\<exists>a b. c # cs = a @ pat @ b"
    proof cases
      case 1
      then show ?thesis by (metis append_Nil prefixE)
    next
      case 2
      with Cons.IH obtain a b where "cs = a @ pat @ b" by blast
      then have "c # cs = (c # a) @ pat @ b" by simp
      then show ?thesis by blast
    qed
  next
    assume "\<exists>a b. c # cs = a @ pat @ b"
    then obtain a b where ab: "c # cs = a @ pat @ b" by blast
    show "str_in pat (c # cs)"
    proof (cases a)
      case Nil
      with ab have "prefix pat (c # cs)" by simp
      then show ?thesis by simp
    next
      case (Cons d a')
      with ab have "cs = a' @ pat @ b" by simp
      with Cons.IH show ?thesis by auto
    qed
  qed
qed

definition starts_with :: "string \<Rightarrow> string \<Rightarrow> bool" where
  "starts_with s p = prefix p s"

definition ends_with :: "string \<Rightarrow> string \<Rightarrow> bool" where
  "ends_with s p = suffix p s"

text \<open>
  \<open>s.strip()\<close> drops the whitespace at both ends, \<open>s.split(sep)\<close> cuts at every occurrence
  of a one-character separator (so the result is never empty).
\<close>

definition is_space :: "char \<Rightarrow> bool" where
  "is_space c = (c \<in> {CHR '' '', CHR 0x09, CHR 0x0A, CHR 0x0B, CHR 0x0C, CHR 0x0D})"

definition lstrip :: "string \<Rightarrow> string" where
  "lstrip s = dropWhile is_space s"

definition rstrip :: "string \<Rightarrow> string" where
  "rstrip s = rev (dropWhile is_space (rev s))"

definition strip :: "string \<Rightarrow> string" where
  "strip s = rstrip (lstrip s)"

fun split_on :: "char \<Rightarrow> string \<Rightarrow> string list" where
  "split_on sep [] = [[]]"
| "split_on sep (c # cs) =
     (if c = sep then [] # split_on sep cs
      else (case split_on sep cs of [] \<Rightarrow> [[c]] | w # ws \<Rightarrow> (c # w) # ws))"

lemma split_on_not_Nil [simp]: "split_on sep s \<noteq> []"
  by (induction s) (auto split: list.splits)

section \<open>Numerals in text\<close>

definition is_digit :: "char \<Rightarrow> bool" where
  "is_digit c = (c \<in> set ''0123456789'')"

definition digit_table :: "(char \<times> nat) list" where
  "digit_table = zip ''0123456789abcdef'' [0..<16] @ zip ''ABCDEF'' [10..<16]"

definition digit_val :: "char \<Rightarrow> nat" where
  "digit_val c = (case map_of digit_table c of None \<Rightarrow> 0 | Some d \<Rightarrow> d)"

definition is_hex :: "char \<Rightarrow> bool" where
  "is_hex c = (map_of digit_table c \<noteq> None)"

definition nat_of_base :: "nat \<Rightarrow> string \<Rightarrow> nat" where
  "nat_of_base b s = foldl (\<lambda>a c. b * a + digit_val c) 0 s"

definition nat_of_digits :: "string \<Rightarrow> nat" where
  "nat_of_digits s = nat_of_base 10 s"

definition digit_char :: "nat \<Rightarrow> char" where
  "digit_char d = ''0123456789'' ! d"

fun str_of_nat :: "nat \<Rightarrow> string" where
  "str_of_nat n = (if n < 10 then [digit_char n] else str_of_nat (n div 10) @ [digit_char (n mod 10)])"

declare str_of_nat.simps [simp del]

definition str_of_int :: "int \<Rightarrow> string" where
  "str_of_int i = (if i < 0 then ''-'' @ str_of_nat (nat (- i)) else str_of_nat (nat i))"

lemma less_10_cases:
  "(d::nat) < 10 \<Longrightarrow> d = 0 \<or> d = 1 \<or> d = 2 \<or> d = 3 \<or> d = 4 \<or> d = 5 \<or> d = 6 \<or> d = 7 \<or> d = 8 \<or> d = 9"
  by arith

lemma digit_table_eq: "digit_table =
  [(CHR ''0'', 0), (CHR ''1'', 1), (CHR ''2'', 2), (CHR ''3'', 3), (CHR ''4'', 4), (CHR ''5'', 5),
   (CHR ''6'', 6), (CHR ''7'', 7), (CHR ''8'', 8), (CHR ''9'', 9), (CHR ''a'', 10), (CHR ''b'', 11),
   (CHR ''c'', 12), (CHR ''d'', 13), (CHR ''e'', 14), (CHR ''f'', 15), (CHR ''A'', 10),
   (CHR ''B'', 11), (CHR ''C'', 12), (CHR ''D'', 13), (CHR ''E'', 14), (CHR ''F'', 15)]"
  by (simp add: digit_table_def upt_rec numeral_eq_Suc)

lemma digit_val_digit_char: "d < 10 \<Longrightarrow> digit_val (digit_char d) = d"
  by (drule less_10_cases) (elim disjE; simp add: digit_val_def digit_char_def digit_table_eq)

lemma is_digit_digit_char: "d < 10 \<Longrightarrow> is_digit (digit_char d)"
  by (drule less_10_cases) (elim disjE; simp add: is_digit_def digit_char_def)

lemma str_of_nat_digits: "c \<in> set (str_of_nat n) \<Longrightarrow> is_digit c"
proof (induction n rule: str_of_nat.induct)
  case (1 n)
  then show ?case
    by (subst (asm) str_of_nat.simps) (auto split: if_splits simp: is_digit_digit_char)
qed

lemma str_of_nat_not_Nil: "str_of_nat n \<noteq> []"
  by (subst str_of_nat.simps) simp

lemma nat_of_base_snoc: "nat_of_base b (s @ [c]) = b * nat_of_base b s + digit_val c"
  by (simp add: nat_of_base_def)

lemma nat_of_digits_str_of_nat [simp]: "nat_of_digits (str_of_nat n) = n"
proof (induction n rule: str_of_nat.induct)
  case (1 n)
  show ?case
  proof (cases "n < 10")
    case True
    then show ?thesis
      by (subst str_of_nat.simps) (simp add: nat_of_digits_def nat_of_base_def digit_val_digit_char)
  next
    case False
    with 1 have "nat_of_base 10 (str_of_nat (n div 10)) = n div 10"
      by (simp add: nat_of_digits_def)
    with False show ?thesis
      by (subst str_of_nat.simps) (simp add: nat_of_digits_def nat_of_base_snoc digit_val_digit_char)
  qed
qed

text \<open>
  The pieces of the regular expressions the scripts match: a literal, a non-empty maximal run
  of a character class, and one character of a class. Each takes the text still to be matched
  and returns what it matched with the rest.
\<close>

definition lit :: "string \<Rightarrow> string \<Rightarrow> string option" where
  "lit p s = (if prefix p s then Some (drop (length p) s) else None)"

definition run1 :: "(char \<Rightarrow> bool) \<Rightarrow> string \<Rightarrow> (string \<times> string) option" where
  "run1 P s = (let w = takeWhile P s in if w = [] then None else Some (w, dropWhile P s))"

fun one :: "(char \<Rightarrow> bool) \<Rightarrow> string \<Rightarrow> (char \<times> string) option" where
  "one P [] = None"
| "one P (c # cs) = (if P c then Some (c, cs) else None)"

lemma lit_append [simp]: "lit p (p @ s) = Some s"
  by (simp add: lit_def)

lemma run1_append:
  assumes "w \<noteq> []" and "\<And>c. c \<in> set w \<Longrightarrow> P c" and "s = [] \<or> \<not> P (hd s)"
  shows "run1 P (w @ s) = Some (w, s)"
proof -
  have "takeWhile P (w @ s) = w" and "dropWhile P (w @ s) = s"
    using assms by (cases s; auto simp: takeWhile_append2 dropWhile_append2 takeWhile_append1)+
  with assms(1) show ?thesis by (simp add: run1_def)
qed

end
