(* ===== verification/Py2Num.thy ===== *)
theory Py2Num
  imports Py
begin

text \<open>
  The numbers of Python 2, which \<open>utils/grid.py\<close> computes with: an \<open>int\<close> or a \<open>float\<close>.
  Mixed arithmetic gives a \<open>float\<close>; \<open>/\<close> on two integers rounds towards minus infinity and
  on anything else is the true quotient; a zero divisor raises. A \<open>float\<close> is represented by
  the rational it stands for: rounding to 53 bits, overflow to infinity and NaN are not modelled.
  The arithmetic and order classes of HOL are instantiated so that the renderers read like the
  source.
\<close>

datatype pynum = I int | F rat

fun nval :: "pynum \<Rightarrow> rat" where
  "nval (I i) = of_int i"
| "nval (F r) = r"

text \<open>\<open>int(x)\<close> truncates towards zero, \<open>float(x)\<close> converts.\<close>

fun py_int :: "pynum \<Rightarrow> int" where
  "py_int (I i) = i"
| "py_int (F r) = (if 0 \<le> r then \<lfloor>r\<rfloor> else \<lceil>r\<rceil>)"

definition py_float :: "pynum \<Rightarrow> pynum" where
  "py_float x = F (nval x)"

lemma nval_py_float [simp]: "nval (py_float x) = nval x"
  by (simp add: py_float_def)

instantiation pynum :: "{plus, minus, times, uminus, ord}"
begin

fun plus_pynum :: "pynum \<Rightarrow> pynum \<Rightarrow> pynum" where
  "plus_pynum (I a) (I b) = I (a + b)"
| "plus_pynum a b = F (nval a + nval b)"

fun minus_pynum :: "pynum \<Rightarrow> pynum \<Rightarrow> pynum" where
  "minus_pynum (I a) (I b) = I (a - b)"
| "minus_pynum a b = F (nval a - nval b)"

fun times_pynum :: "pynum \<Rightarrow> pynum \<Rightarrow> pynum" where
  "times_pynum (I a) (I b) = I (a * b)"
| "times_pynum a b = F (nval a * nval b)"

fun uminus_pynum :: "pynum \<Rightarrow> pynum" where
  "uminus_pynum (I a) = I (- a)"
| "uminus_pynum (F a) = F (- a)"

definition less_eq_pynum :: "pynum \<Rightarrow> pynum \<Rightarrow> bool" where
  "less_eq_pynum a b \<longleftrightarrow> nval a \<le> nval b"

definition less_pynum :: "pynum \<Rightarrow> pynum \<Rightarrow> bool" where
  "less_pynum a b \<longleftrightarrow> nval a < nval b"

instance ..

end

instance pynum :: preorder
  by standard (auto simp: less_eq_pynum_def less_pynum_def)

lemma nval_plus [simp]: "nval (a + b) = nval a + nval b"
  by (cases a; cases b) simp_all

lemma nval_minus [simp]: "nval (a - b) = nval a - nval b"
  by (cases a; cases b) simp_all

lemma nval_times [simp]: "nval (a * b) = nval a * nval b"
  by (cases a; cases b) simp_all

lemma nval_uminus [simp]: "nval (- (a :: pynum)) = - nval a"
  by (cases a) simp_all

lemma pynum_le_iff: "a \<le> b \<longleftrightarrow> nval a \<le> nval b"
  by (simp add: less_eq_pynum_def)

lemma pynum_less_iff: "a < b \<longleftrightarrow> nval a < nval b"
  by (simp add: less_pynum_def)

lemmas pynum_order = pynum_le_iff pynum_less_iff

definition num_eq :: "pynum \<Rightarrow> pynum \<Rightarrow> bool" where
  "num_eq a b \<longleftrightarrow> nval a = nval b"

definition num_div :: "pynum \<Rightarrow> pynum \<Rightarrow> pynum py" where
  "num_div a b =
     (if nval b = 0 then Inl ZeroDivisionError
      else Inr (case (a, b) of (I x, I y) \<Rightarrow> I (x div y) | _ \<Rightarrow> F (nval a / nval b)))"

definition num_mod :: "pynum \<Rightarrow> pynum \<Rightarrow> pynum py" where
  "num_mod a b =
     (if nval b = 0 then Inl ZeroDivisionError
      else Inr (case (a, b) of
        (I x, I y) \<Rightarrow> I (x mod y)
      | _ \<Rightarrow> F (nval a - nval b * of_int \<lfloor>nval a / nval b\<rfloor>)))"

text \<open>\<open>max(a, b)\<close> and \<open>min(a, b)\<close> return one of the arguments, the first one when equal.\<close>

definition num_max :: "pynum \<Rightarrow> pynum \<Rightarrow> pynum" where
  "num_max a b = (if a < b then b else a)"

definition num_min :: "pynum \<Rightarrow> pynum \<Rightarrow> pynum" where
  "num_min a b = (if b < a then b else a)"

definition num_abs :: "pynum \<Rightarrow> pynum" where
  "num_abs a = (case a of I i \<Rightarrow> I \<bar>i\<bar> | F r \<Rightarrow> F \<bar>r\<bar>)"

lemma nval_max [simp]: "nval (num_max a b) = max (nval a) (nval b)"
  by (auto simp: num_max_def pynum_order)

lemma nval_min [simp]: "nval (num_min a b) = min (nval a) (nval b)"
  by (auto simp: num_min_def pynum_order)

lemma nval_abs [simp]: "nval (num_abs a) = \<bar>nval a\<bar>"
  by (cases a) (simp_all add: num_abs_def)

lemma num_div_float: "nval b \<noteq> 0 \<Longrightarrow> num_div (F a) b = Inr (F (a / nval b))"
  by (simp add: num_div_def)

lemma num_div_is_ok: "is_ok (num_div a b) \<longleftrightarrow> nval b \<noteq> 0"
  by (simp add: num_div_def)

lemma num_mod_is_ok: "is_ok (num_mod a b) \<longleftrightarrow> nval b \<noteq> 0"
  by (simp add: num_mod_def)

text \<open>Dividing by two never raises; the quotient is exact on floats and rounded on integers.\<close>

definition half :: "pynum \<Rightarrow> pynum" where
  "half x = (case x of I i \<Rightarrow> I (i div 2) | F r \<Rightarrow> F (r / 2))"

lemma num_div_2: "num_div x (I 2) = Inr (half x)"
  by (cases x) (simp_all add: num_div_def half_def)

lemma nval_half_F [simp]: "nval (half (F r)) = r / 2"
  by (simp add: half_def)

text \<open>
  Truncation is monotone and moves a value by less than one, so pixel positions computed from
  ordered coordinates are ordered.
\<close>

lemma py_int_mono: "nval a \<le> nval b \<Longrightarrow> py_int a \<le> py_int b"
proof (cases a; cases b)
  fix i j assume "nval a \<le> nval b" "a = I i" "b = I j"
  then show ?thesis by simp
next
  fix i r assume "nval a \<le> nval b" "a = I i" "b = F r"
  then show ?thesis by (auto simp: le_floor_iff le_ceiling_iff; linarith)
next
  fix r j assume "nval a \<le> nval b" "a = F r" "b = I j"
  then show ?thesis by (auto simp: floor_le_iff ceiling_le_iff; linarith)
next
  fix r q assume "nval a \<le> nval b" "a = F r" "b = F q"
  moreover have "\<lceil>r\<rceil> \<le> \<lfloor>q\<rfloor>" if "r < 0" "0 \<le> q"
  proof -
    have "\<lceil>r\<rceil> \<le> 0" using that(1) by (simp add: ceiling_le_iff)
    also have "0 \<le> \<lfloor>q\<rfloor>" using that(2) by simp
    finally show ?thesis .
  qed
  ultimately show ?thesis by (simp add: floor_mono ceiling_mono)
qed

lemma py_int_F_of_int [simp]: "py_int (F (of_int i)) = i"
  by simp

end
