(* ===== verification/Bisect.thy ===== *)
theory Bisect
  imports Py
begin

text \<open>
  The interface of a binary search over a Python list: a key lies left of an element, right of
  it, or hits it, and the loop over the index window \<open>[l, u]\<close> halves the window until it hits
  or the window is empty. The two searches of \<open>utils/grid.py\<close> differ in what they compare and
  in what they return on a miss. The client lemmas are proved here once, from the loop's equation
  and the order of the list.
\<close>

locale bisection =
  fixes left right :: "'k \<Rightarrow> 'a \<Rightarrow> bool"
    and search :: "'a list \<Rightarrow> 'k \<Rightarrow> int \<Rightarrow> int \<Rightarrow> int py"
    and miss :: "int \<Rightarrow> int"
  assumes loop: "search xs k l u =
      (if l \<le> u then
         bind_e (py_get xs ((l + u) div 2)) (\<lambda>x.
           if \<not> left k x \<and> \<not> right k x then Inr ((l + u) div 2)
           else if left k x then search xs k l ((l + u) div 2 - 1)
           else search xs k ((l + u) div 2 + 1) u)
       else Inr (miss l))"
    and excl: "left k x \<Longrightarrow> \<not> right k x"
begin

text \<open>What the order of the list means for a key: right elements first, then hits, then left.\<close>

definition ordered_for :: "'k \<Rightarrow> 'a list \<Rightarrow> bool" where
  "ordered_for k xs \<longleftrightarrow>
     (\<forall>i j. i < j \<longrightarrow> j < length xs \<longrightarrow>
        (left k (xs ! i) \<longrightarrow> left k (xs ! j)) \<and> (right k (xs ! j) \<longrightarrow> right k (xs ! i)))"

definition hits :: "'k \<Rightarrow> 'a \<Rightarrow> bool" where
  "hits k x \<longleftrightarrow> \<not> left k x \<and> \<not> right k x"

lemma ordered_left: "ordered_for k xs \<Longrightarrow> left k (xs ! i) \<Longrightarrow> i \<le> j \<Longrightarrow> j < length xs \<Longrightarrow> left k (xs ! j)"
  unfolding ordered_for_def by (metis le_neq_implies_less)

lemma ordered_right: "ordered_for k xs \<Longrightarrow> right k (xs ! j) \<Longrightarrow> i \<le> j \<Longrightarrow> j < length xs \<Longrightarrow> right k (xs ! i)"
  unfolding ordered_for_def by (metis le_neq_implies_less)

text \<open>
  The result of the loop: an index that hits, or a miss at the border between the elements the
  key lies right of and those it lies left of. In particular no index is out of range.
\<close>

definition search_post :: "'a list \<Rightarrow> 'k \<Rightarrow> int py \<Rightarrow> bool" where
  "search_post xs k res \<longleftrightarrow>
     (\<exists>i < length xs. res = Inr (int i) \<and> hits k (xs ! i)) \<or>
     (\<exists>p \<le> length xs. res = Inr (miss (int p)) \<and>
        (\<forall>i < p. right k (xs ! i)) \<and> (\<forall>i. p \<le> i \<longrightarrow> i < length xs \<longrightarrow> left k (xs ! i)))"

lemma search_window:
  assumes "ordered_for k xs" and "0 \<le> l" and "l \<le> u + 1" and "u < int (length xs)"
    and "\<forall>i. int i < l \<longrightarrow> right k (xs ! i)"
    and "\<forall>i. u < int i \<longrightarrow> i < length xs \<longrightarrow> left k (xs ! i)"
  shows "search_post xs k (search xs k l u)"
  using assms
proof (induction "nat (u + 1 - l)" arbitrary: l u rule: less_induct)
  case less
  show ?case
  proof (cases "l \<le> u")
    case False
    with less.prems have "l = u + 1" by simp
    with False less.prems have "search xs k l u = Inr (miss l)"
      by (subst loop) simp
    with less.prems \<open>l = u + 1\<close> show ?thesis
      unfolding search_post_def
      by (intro disjI2 exI [of _ "nat l"]) (auto simp: nat_less_iff)
  next
    case True
    define i where "i = nat ((l + u) div 2)"
    from True less.prems have i: "l \<le> int i" "int i \<le> u" "(l + u) div 2 = int i"
      unfolding i_def by linarith+
    with less.prems have il: "i < length xs" by linarith
    note step = loop [of xs k l u, unfolded i(3)]
    have get: "py_get xs (int i) = Inr (xs ! i)" using il by (simp add: py_get_nat)
    consider (hit) "\<not> left k (xs ! i)" "\<not> right k (xs ! i)" | (left) "left k (xs ! i)"
      | (right) "right k (xs ! i)" "\<not> left k (xs ! i)" using excl by blast
    then show ?thesis
    proof cases
      case hit
      with True get step il show ?thesis by (auto simp: search_post_def hits_def)
    next
      case left
      have "search_post xs k (search xs k l (int i - 1))"
      proof (rule less.hyps)
        show "\<forall>j. int i - 1 < int j \<longrightarrow> j < length xs \<longrightarrow> left k (xs ! j)"
          using ordered_left [OF less.prems(1) left] by auto
      qed (use i True less.prems in auto)
      with True get step left show ?thesis using excl by auto
    next
      case right
      have "search_post xs k (search xs k (int i + 1) u)"
      proof (rule less.hyps)
        show "\<forall>j. int j < int i + 1 \<longrightarrow> right k (xs ! j)"
          using ordered_right [OF less.prems(1) right(1)] il by auto
      qed (use i True less.prems in auto)
      with True get step right show ?thesis by auto
    qed
  qed
qed

lemma search_correct:
  assumes "ordered_for k xs"
  shows "search_post xs k (search xs k 0 (int (length xs) - 1))"
  by (rule search_window) (use assms in auto)

end

end
