(* ===== verification/GridData.thy ===== *)
theory GridData
  imports Py2Num Bisect
begin

text \<open>
  The data of \<open>utils/grid.py\<close>: the ranges and events of a trace and the two kinds of line that hold
  them, with their binary searches. An object reference that \<open>get\<close>, \<open>get_range\<close>,
  \<open>get_event_str\<close> and \<open>get_event_int\<close> return is the index of the object in its list, so that
  the caller's mutation through the reference is an update of that list. The program is
  Python 2 (\<open>has_key\<close>, \<open>sort(cmp)\<close>), and its integers are unbounded.
\<close>

section \<open>Ranges and events\<close>

record DataRange =
  dr_start :: int
  dr_end :: int
  dr_value :: string

datatype event_value = EvStr string | EvInt int

record event =
  ev_at :: int
  ev_value :: event_value

definition EventString :: "int \<Rightarrow> string \<Rightarrow> event" where
  "EventString t v = \<lparr>ev_at = t, ev_value = EvStr v\<rparr>"

definition EventInt :: "int \<Rightarrow> int \<Rightarrow> event" where
  "EventInt t v = \<lparr>ev_at = t, ev_value = EvInt v\<rparr>"

definition ranges_cmp :: "DataRange \<Rightarrow> DataRange \<Rightarrow> int" where
  "ranges_cmp a b =
     (let diff = dr_start a - dr_start b
      in if diff < 0 then -1 else if diff > 0 then 1 else 0)"

definition events_cmp :: "event \<Rightarrow> event \<Rightarrow> int" where
  "events_cmp a b =
     (let diff = ev_at a - ev_at b
      in if diff < 0 then -1 else if diff > 0 then 1 else 0)"

text \<open>
  The comparison functions order by \<open>start\<close> and by \<open>at\<close>, so the stable \<open>list.sort\<close> they are
  given to is \<open>sort_key\<close> on those fields.
\<close>

lemma ranges_cmp_le: "ranges_cmp a b \<le> 0 \<longleftrightarrow> dr_start a \<le> dr_start b"
  by (auto simp: ranges_cmp_def Let_def)

lemma events_cmp_le: "events_cmp a b \<le> 0 \<longleftrightarrow> ev_at a \<le> ev_at b"
  by (auto simp: events_cmp_def Let_def)

section \<open>TimelineDataRange\<close>

record TimelineDataRange =
  td_name :: string
  td_ranges :: "DataRange list"

definition new_data_range :: "string \<Rightarrow> TimelineDataRange" where
  "new_data_range name = \<lparr>td_name = name, td_ranges = []\<rparr>"

function range_search_loop :: "DataRange list \<Rightarrow> pynum \<Rightarrow> int \<Rightarrow> int \<Rightarrow> int py" where
  "range_search_loop rs key l u =
     (if l \<le> u then
        (let i = (l + u) div 2 in
         bind_e (py_get rs i) (\<lambda>r.
           if key \<ge> I (dr_start r) \<and> key \<le> I (dr_end r) then Inr i
           else if key < I (dr_start r) then range_search_loop rs key l (i - 1)
           else range_search_loop rs key (i + 1) u))
      else Inr (-1))"
  by pat_completeness auto
termination
  by (relation "measure (\<lambda>(rs, key, l, u). nat (u + 1 - l))") (auto simp: zdiv_mono1)

declare range_search_loop.simps [simp del]

definition range_left :: "pynum \<Rightarrow> DataRange \<Rightarrow> bool" where
  "range_left key r \<longleftrightarrow> key < I (dr_start r)"

definition range_right :: "pynum \<Rightarrow> DataRange \<Rightarrow> bool" where
  "range_right key r \<longleftrightarrow> I (dr_start r) \<le> key \<and> I (dr_end r) < key"

interpretation rs: bisection range_left range_right range_search_loop "\<lambda>_. -1"
proof
  fix xs key l u
  show "range_search_loop xs key l u =
    (if l \<le> u then
       bind_e (py_get xs ((l + u) div 2)) (\<lambda>x.
         if \<not> range_left key x \<and> \<not> range_right key x then Inr ((l + u) div 2)
         else if range_left key x then range_search_loop xs key l ((l + u) div 2 - 1)
         else range_search_loop xs key ((l + u) div 2 + 1) u)
     else Inr (-1))"
    by (subst range_search_loop.simps)
      (auto simp: Let_def range_left_def range_right_def pynum_order intro!: bind_e_cong)
next
  fix k x
  assume "range_left k x"
  then show "\<not> range_right k x" by (auto simp: range_left_def range_right_def pynum_order)
qed

definition range_search :: "TimelineDataRange \<Rightarrow> pynum \<Rightarrow> int py" where
  "range_search t key = range_search_loop (td_ranges t) key 0 (int (length (td_ranges t)) - 1)"

definition add_range :: "TimelineDataRange \<Rightarrow> DataRange \<Rightarrow> TimelineDataRange" where
  "add_range t r = t\<lparr>td_ranges := td_ranges t @ [r]\<rparr>"

definition get_all_ranges :: "TimelineDataRange \<Rightarrow> DataRange list" where
  "get_all_ranges t = td_ranges t"

definition get_ranges :: "TimelineDataRange \<Rightarrow> pynum \<Rightarrow> pynum \<Rightarrow> DataRange list py" where
  "get_ranges t start end =
     bind_e (range_search t start) (\<lambda>s.
     bind_e (range_search t end) (\<lambda>e.
       Inr (if s = -1 \<and> e = -1 then []
            else if s = -1 then py_slice (td_ranges t) 0 (e + 1)
            else if e = -1 then py_slice (td_ranges t) s (int (length (td_ranges t)))
            else py_slice (td_ranges t) s (e + 1))))"

definition get_ranges_bounds :: "TimelineDataRange \<Rightarrow> pynum \<Rightarrow> pynum \<Rightarrow> (int \<times> int) py" where
  "get_ranges_bounds t start end =
     bind_e (range_search t start) (\<lambda>s.
     bind_e (range_search t end) (\<lambda>e.
       Inr (if s = -1 \<and> e = -1 then (0, 0)
            else if s = -1 then (0, e + 1)
            else if e = -1 then (s, int (length (td_ranges t)))
            else (s, e + 1))))"

definition sort_ranges :: "TimelineDataRange \<Rightarrow> TimelineDataRange" where
  "sort_ranges t = t\<lparr>td_ranges := sort_key dr_start (td_ranges t)\<rparr>"

definition data_range_bounds :: "TimelineDataRange \<Rightarrow> int \<times> int" where
  "data_range_bounds t =
     (if length (td_ranges t) > 0
      then (dr_start (hd (td_ranges t)), dr_end (last (td_ranges t)))
      else (0, 0))"

section \<open>TimelineEvent\<close>

record TimelineEvent =
  te_name :: string
  te_events :: "event list"

definition new_event_line :: "string \<Rightarrow> TimelineEvent" where
  "new_event_line name = \<lparr>te_name = name, te_events = []\<rparr>"

function event_search_loop :: "event list \<Rightarrow> pynum \<Rightarrow> int \<Rightarrow> int \<Rightarrow> int py" where
  "event_search_loop es key l u =
     (if l \<le> u then
        (let i = (l + u) div 2 in
         bind_e (py_get es i) (\<lambda>ev.
           if num_eq key (I (ev_at ev)) then Inr i
           else if key < I (ev_at ev) then event_search_loop es key l (i - 1)
           else event_search_loop es key (i + 1) u))
      else Inr l)"
  by pat_completeness auto
termination
  by (relation "measure (\<lambda>(es, key, l, u). nat (u + 1 - l))") (auto simp: zdiv_mono1)

declare event_search_loop.simps [simp del]

definition event_left :: "pynum \<Rightarrow> event \<Rightarrow> bool" where
  "event_left key ev \<longleftrightarrow> key < I (ev_at ev)"

definition event_right :: "pynum \<Rightarrow> event \<Rightarrow> bool" where
  "event_right key ev \<longleftrightarrow> I (ev_at ev) < key"

interpretation es: bisection event_left event_right event_search_loop "\<lambda>l. l"
proof
  fix xs key l u
  show "event_search_loop xs key l u =
    (if l \<le> u then
       bind_e (py_get xs ((l + u) div 2)) (\<lambda>x.
         if \<not> event_left key x \<and> \<not> event_right key x then Inr ((l + u) div 2)
         else if event_left key x then event_search_loop xs key l ((l + u) div 2 - 1)
         else event_search_loop xs key ((l + u) div 2 + 1) u)
     else Inr l)"
    by (subst event_search_loop.simps)
      (auto simp: Let_def event_left_def event_right_def num_eq_def pynum_order intro!: bind_e_cong)
next
  fix k x
  assume "event_left k x"
  then show "\<not> event_right k x" by (auto simp: event_left_def event_right_def pynum_order)
qed

definition event_search :: "TimelineEvent \<Rightarrow> pynum \<Rightarrow> int py" where
  "event_search t key = event_search_loop (te_events t) key 0 (int (length (te_events t)) - 1)"

definition add_event :: "TimelineEvent \<Rightarrow> event \<Rightarrow> TimelineEvent" where
  "add_event t ev = t\<lparr>te_events := te_events t @ [ev]\<rparr>"

definition get_events :: "TimelineEvent \<Rightarrow> pynum \<Rightarrow> pynum \<Rightarrow> event list py" where
  "get_events t start end =
     bind_e (event_search t start) (\<lambda>s.
     bind_e (event_search t end) (\<lambda>e.
       Inr (py_slice (te_events t) s (e + 1))))"

definition get_events_bounds :: "TimelineEvent \<Rightarrow> pynum \<Rightarrow> pynum \<Rightarrow> (int \<times> int) py" where
  "get_events_bounds t start end =
     bind_e (event_search t start) (\<lambda>s.
     bind_e (event_search t end) (\<lambda>e. Inr (s, e + 1)))"

definition sort_events :: "TimelineEvent \<Rightarrow> TimelineEvent" where
  "sort_events t = t\<lparr>te_events := sort_key ev_at (te_events t)\<rparr>"

definition event_bounds :: "TimelineEvent \<Rightarrow> int \<times> int" where
  "event_bounds t =
     (if length (te_events t) > 0
      then (ev_at (hd (te_events t)), ev_at (last (te_events t)))
      else (0, 0))"

section \<open>What the searches return\<close>

text \<open>
  A range list as \<open>sort\<close> leaves the reader's data when the intervals of a line do not
  overlap: every interval is non-empty and lies before the next one.
\<close>

definition ranges_wf :: "DataRange list \<Rightarrow> bool" where
  "ranges_wf rs \<longleftrightarrow> (\<forall>r \<in> set rs. dr_start r \<le> dr_end r) \<and> sorted_wrt (\<lambda>a b. dr_end a < dr_start b) rs"

definition in_range :: "pynum \<Rightarrow> DataRange \<Rightarrow> bool" where
  "in_range key r \<longleftrightarrow> I (dr_start r) \<le> key \<and> key \<le> I (dr_end r)"

definition overlaps :: "pynum \<Rightarrow> pynum \<Rightarrow> DataRange \<Rightarrow> bool" where
  "overlaps start end r \<longleftrightarrow> I (dr_start r) \<le> end \<and> start \<le> I (dr_end r)"

lemma ranges_wf_before:
  "ranges_wf rs \<Longrightarrow> i < j \<Longrightarrow> j < length rs \<Longrightarrow> dr_end (rs ! i) < dr_start (rs ! j)"
  by (simp add: ranges_wf_def sorted_wrt_iff_nth_less)

lemma ranges_wf_nonempty: "ranges_wf rs \<Longrightarrow> i < length rs \<Longrightarrow> dr_start (rs ! i) \<le> dr_end (rs ! i)"
  by (simp add: ranges_wf_def)

lemma ranges_wf_chain:
  assumes "ranges_wf rs" "i < j" "j < length rs"
  shows "dr_start (rs ! i) < dr_start (rs ! j)" and "dr_end (rs ! i) < dr_end (rs ! j)"
  using ranges_wf_before [OF assms] ranges_wf_nonempty [OF assms(1), of i]
    ranges_wf_nonempty [OF assms(1), of j] assms by simp_all

lemma ranges_wf_ordered:
  assumes wf: "ranges_wf rs"
  shows "rs.ordered_for key rs"
  unfolding rs.ordered_for_def
proof (intro allI impI)
  fix i j assume ij: "i < j" "j < length rs"
  have "of_int (dr_start (rs ! i)) < (of_int (dr_start (rs ! j)) :: rat)"
    "of_int (dr_end (rs ! i)) < (of_int (dr_end (rs ! j)) :: rat)"
    "of_int (dr_end (rs ! i)) < (of_int (dr_start (rs ! j)) :: rat)"
    "of_int (dr_start (rs ! i)) \<le> (of_int (dr_end (rs ! i)) :: rat)"
    using ranges_wf_chain [OF wf ij] ranges_wf_before [OF wf ij] ranges_wf_nonempty [OF wf, of i] ij
    by (simp_all only: of_int_less_iff of_int_le_iff)
  then show "(range_left key (rs ! i) \<longrightarrow> range_left key (rs ! j)) \<and>
      (range_right key (rs ! j) \<longrightarrow> range_right key (rs ! i))"
    unfolding range_left_def range_right_def pynum_less_iff pynum_le_iff nval.simps by linarith
qed

lemma rs_hits: "rs.hits key r \<longleftrightarrow> in_range key r"
  by (auto simp: rs.hits_def range_left_def range_right_def in_range_def pynum_order)

lemma in_range_unique:
  assumes "ranges_wf rs" "i < length rs" "j < length rs" "in_range key (rs ! i)" "in_range key (rs ! j)"
  shows "i = j"
proof (rule linorder_cases [of i j])
  assume "i < j"
  then show ?thesis using ranges_wf_before [OF assms(1) \<open>i < j\<close> assms(3)] assms(4,5)
    by (simp add: in_range_def pynum_order; linarith)
next
  assume "j < i"
  then show ?thesis using ranges_wf_before [OF assms(1) \<open>j < i\<close> assms(2)] assms(4,5)
    by (simp add: in_range_def pynum_order; linarith)
qed

lemma range_search_result:
  assumes "ranges_wf (td_ranges t)"
  shows "(\<exists>i < length (td_ranges t). range_search t key = Inr (int i) \<and> in_range key (td_ranges t ! i))
    \<or> (range_search t key = Inr (-1) \<and> (\<forall>r \<in> set (td_ranges t). \<not> in_range key r))"
proof -
  have "rs.search_post (td_ranges t) key (range_search t key)"
    unfolding range_search_def by (rule rs.search_correct) (rule ranges_wf_ordered [OF assms])
  then show ?thesis
    unfolding rs.search_post_def rs_hits
  proof (elim disjE exE conjE)
    fix p
    assume p: "p \<le> length (td_ranges t)" and res: "range_search t key = Inr (- 1)"
      and r: "\<forall>i<p. range_right key (td_ranges t ! i)"
      and l: "\<forall>i. p \<le> i \<longrightarrow> i < length (td_ranges t) \<longrightarrow> range_left key (td_ranges t ! i)"
    have "\<not> in_range key (td_ranges t ! i)" if "i < length (td_ranges t)" for i
      using r l that by (cases "i < p")
        (auto simp: range_left_def range_right_def in_range_def pynum_order not_less)
    with res show ?thesis by (auto simp: in_set_conv_nth)
  qed auto
qed

lemma range_search_hit:
  assumes "ranges_wf (td_ranges t)" "i < length (td_ranges t)" "in_range key (td_ranges t ! i)"
  shows "range_search t key = Inr (int i)"
  using range_search_result [OF assms(1), of key] in_range_unique [OF assms(1)] assms(2,3)
  by (metis nth_mem)

lemma range_search_miss:
  assumes "ranges_wf (td_ranges t)" "\<forall>r \<in> set (td_ranges t). \<not> in_range key r"
  shows "range_search t key = Inr (-1)"
  using range_search_result [OF assms(1), of key] assms(2) by auto

text \<open>The renderer draws \<open>ranges[lo:hi]\<close> for the bounds; that is the list \<open>get_ranges\<close> returns.\<close>

lemma get_ranges_eq_slice:
  "get_ranges t s e = bind_e (get_ranges_bounds t s e) (\<lambda>(lo, hi). Inr (py_slice (td_ranges t) lo hi))"
proof -
  have "py_slice (td_ranges t) 0 0 = []" by (simp add: py_slice_def slice_bound_def Let_def)
  then show ?thesis
    unfolding get_ranges_def get_ranges_bounds_def bind_e_assoc
    by (intro bind_e_cong refl) auto
qed

lemma overlaps_iff_index:
  assumes wf: "ranges_wf rs" and "i < length rs" "j < length rs" "k < length rs"
    and "in_range s (rs ! i)" "in_range e (rs ! j)" "s \<le> e"
  shows "overlaps s e (rs ! k) \<longleftrightarrow> i \<le> k \<and> k < Suc j"
proof -
  have before: "\<not> overlaps s e (rs ! k)" if "k < i"
    using ranges_wf_before [OF wf that assms(2)] assms(5)
    by (simp add: overlaps_def in_range_def pynum_order; linarith)
  have after: "\<not> overlaps s e (rs ! k)" if "j < k"
    using ranges_wf_before [OF wf that assms(4)] assms(6)
    by (simp add: overlaps_def in_range_def pynum_order; linarith)
  have between: "overlaps s e (rs ! k)" if "i \<le> k" "k \<le> j"
  proof -
    have "dr_end (rs ! i) \<le> dr_end (rs ! k)"
      using ranges_wf_chain(2) [OF wf, of i k] that assms(4) by (cases "i = k") auto
    moreover have "dr_start (rs ! k) \<le> dr_start (rs ! j)"
      using ranges_wf_chain(1) [OF wf, of k j] that assms(3) by (cases "k = j") auto
    ultimately show ?thesis using assms(5,6)
      by (simp add: overlaps_def in_range_def pynum_order; linarith)
  qed
  show ?thesis using before after between by (meson less_Suc_eq_le not_le)
qed

text \<open>C25: when both ends of the rendered window fall inside a range of a line,
  \<open>get_ranges\<close> returns exactly the ranges that overlap the window, in order.\<close>

theorem get_ranges_exact:
  assumes "ranges_wf (td_ranges t)" and "s \<le> e"
    and "\<exists>r \<in> set (td_ranges t). in_range s r" and "\<exists>r \<in> set (td_ranges t). in_range e r"
  shows "get_ranges t s e = Inr (filter (overlaps s e) (td_ranges t))"
proof -
  obtain i where i: "i < length (td_ranges t)" "in_range s (td_ranges t ! i)"
    using assms(3) by (auto simp: in_set_conv_nth)
  obtain j where j: "j < length (td_ranges t)" "in_range e (td_ranges t ! j)"
    using assms(4) by (auto simp: in_set_conv_nth)
  have "get_ranges t s e = Inr (py_slice (td_ranges t) (int i) (int (Suc j)))"
    by (simp add: get_ranges_def range_search_hit [OF assms(1) i] range_search_hit [OF assms(1) j]
        add.commute)
  also have "py_slice (td_ranges t) (int i) (int (Suc j)) = take (Suc j - i) (drop i (td_ranges t))"
    by (rule py_slice_nat)
  also have "\<dots> = filter (overlaps s e) (td_ranges t)"
    by (rule filter_eq_slice [symmetric])
      (use overlaps_iff_index [OF assms(1) i(1) j(1) _ i(2) j(2) assms(2)] in auto)
  finally show ?thesis .
qed

definition sample_line :: TimelineDataRange where
  "sample_line = \<lparr>td_name = ''cpu'', td_ranges =
     [\<lparr>dr_start = 0, dr_end = 4, dr_value = ''a''\<rparr>, \<lparr>dr_start = 6, dr_end = 8, dr_value = ''b''\<rparr>,
      \<lparr>dr_start = 12, dr_end = 15, dr_value = ''c''\<rparr>]\<rparr>"

lemma sample_line_wf: "ranges_wf (td_ranges sample_line)"
  by (simp add: sample_line_def ranges_wf_def)

theorem get_ranges_exact_witness:
  "get_ranges sample_line (F (1/2)) (I 7) =
     Inr [\<lparr>dr_start = 0, dr_end = 4, dr_value = ''a''\<rparr>, \<lparr>dr_start = 6, dr_end = 8, dr_value = ''b''\<rparr>]"
proof -
  have "get_ranges sample_line (F (1/2)) (I 7) = Inr (filter (overlaps (F (1/2)) (I 7)) (td_ranges sample_line))"
    by (rule get_ranges_exact [OF sample_line_wf])
      (simp_all add: sample_line_def in_range_def pynum_order)
  then show ?thesis by (simp add: sample_line_def overlaps_def pynum_order)
qed

text \<open>When both ends of the window fall into gaps of a line, \<open>get_ranges\<close> returns
  nothing, whatever ranges lie inside the window: zoomed so that its ends miss every range, the
  line is drawn empty.\<close>

theorem get_ranges_gap:
  assumes "ranges_wf (td_ranges t)"
    and "\<forall>r \<in> set (td_ranges t). \<not> in_range s r \<and> \<not> in_range e r"
  shows "get_ranges t s e = Inr []"
  using assms by (simp add: get_ranges_def range_search_miss)

theorem get_ranges_gap_witness:
  "get_ranges sample_line (I 5) (I 10) = Inr [] \<and>
   filter (overlaps (I 5) (I 10)) (td_ranges sample_line) = [\<lparr>dr_start = 6, dr_end = 8, dr_value = ''b''\<rparr>]"
proof
  show "get_ranges sample_line (I 5) (I 10) = Inr []"
    by (rule get_ranges_gap [OF sample_line_wf]) (simp add: sample_line_def in_range_def pynum_order)
qed (simp add: sample_line_def overlaps_def pynum_order)

section \<open>What the event search returns\<close>

definition events_wf :: "event list \<Rightarrow> bool" where
  "events_wf es \<longleftrightarrow> sorted_wrt (\<lambda>a b. ev_at a < ev_at b) es"

definition in_window :: "pynum \<Rightarrow> pynum \<Rightarrow> event \<Rightarrow> bool" where
  "in_window start end ev \<longleftrightarrow> start \<le> I (ev_at ev) \<and> I (ev_at ev) \<le> end"

lemma events_wf_less: "events_wf es \<Longrightarrow> i < j \<Longrightarrow> j < length es \<Longrightarrow> ev_at (es ! i) < ev_at (es ! j)"
  by (simp add: events_wf_def sorted_wrt_iff_nth_less)

lemma events_wf_ordered:
  assumes wf: "events_wf es"
  shows "es.ordered_for key es"
  unfolding es.ordered_for_def
proof (intro allI impI)
  fix i j assume ij: "i < j" "j < length es"
  have "of_int (ev_at (es ! i)) < (of_int (ev_at (es ! j)) :: rat)"
    using events_wf_less [OF wf ij] by (simp only: of_int_less_iff)
  then show "(event_left key (es ! i) \<longrightarrow> event_left key (es ! j)) \<and>
      (event_right key (es ! j) \<longrightarrow> event_right key (es ! i))"
    unfolding event_left_def event_right_def pynum_less_iff nval.simps by linarith
qed

text \<open>The search returns the first position whose event is not before the key.\<close>

lemma event_search_result:
  assumes wf: "events_wf (te_events t)"
  obtains p where "p \<le> length (te_events t)" and "event_search t key = Inr (int p)"
    and "\<And>i. i < p \<Longrightarrow> I (ev_at (te_events t ! i)) < key"
    and "\<And>i. p \<le> i \<Longrightarrow> i < length (te_events t) \<Longrightarrow> key \<le> I (ev_at (te_events t ! i))"
proof -
  let ?es = "te_events t"
  have ord: "es.ordered_for key ?es" by (rule events_wf_ordered [OF wf])
  have "es.search_post ?es key (event_search t key)"
    unfolding event_search_def by (rule es.search_correct [OF ord])
  then show thesis
    unfolding es.search_post_def
  proof (elim disjE exE conjE)
    fix i assume i: "i < length ?es" "event_search t key = Inr (int i)" "es.hits key (?es ! i)"
    show thesis
    proof (rule that [of i])
      show "I (ev_at (?es ! j)) < key" if "j < i" for j
        using events_wf_less [OF wf that i(1)] i(3)
        by (simp add: es.hits_def event_left_def event_right_def pynum_order; linarith)
      show "key \<le> I (ev_at (?es ! j))" if "i \<le> j" "j < length ?es" for j
        using events_wf_less [OF wf, of i j] that i(3)
        by (cases "i = j") (simp_all add: es.hits_def event_left_def event_right_def pynum_order; linarith)+
    qed (use i in auto)
  next
    fix p assume "p \<le> length ?es" "event_search t key = Inr (int p)"
      "\<forall>i<p. event_right key (?es ! i)" "\<forall>i. p \<le> i \<longrightarrow> i < length ?es \<longrightarrow> event_left key (?es ! i)"
    then show thesis
      by (intro that [of p]) (auto simp: event_left_def event_right_def intro: less_imp_le)
  qed
qed

text \<open>On a line whose events are strictly ordered in time, \<open>get_events\<close>
  returns all events of the window, in order, and at most one event more, which lies after it.\<close>

theorem get_events_window:
  assumes wf: "events_wf (te_events t)" and "s \<le> e"
  shows "\<exists>extra. get_events t s e = Inr (filter (in_window s e) (te_events t) @ extra)
    \<and> length extra \<le> 1 \<and> list_all (\<lambda>ev. e < I (ev_at ev)) extra"
proof -
  let ?es = "te_events t"
  obtain p where p: "p \<le> length ?es" "event_search t s = Inr (int p)"
      "\<And>i. i < p \<Longrightarrow> I (ev_at (?es ! i)) < s"
      "\<And>i. p \<le> i \<Longrightarrow> i < length ?es \<Longrightarrow> s \<le> I (ev_at (?es ! i))"
    using event_search_result [OF wf, of s] by metis
  obtain q where q: "q \<le> length ?es" "event_search t e = Inr (int q)"
      "\<And>i. i < q \<Longrightarrow> I (ev_at (?es ! i)) < e"
      "\<And>i. q \<le> i \<Longrightarrow> i < length ?es \<Longrightarrow> e \<le> I (ev_at (?es ! i))"
    using event_search_result [OF wf, of e] by metis
  have "p \<le> q"
  proof (rule ccontr)
    assume "\<not> p \<le> q"
    then have "q < p" by simp
    with p(1) have "q < length ?es" by simp
    then show False using p(3) [OF \<open>q < p\<close>] q(4) [of q] \<open>s \<le> e\<close> by (simp add: pynum_order)
  qed
  have "get_events t s e = Inr (py_slice ?es (int p) (int (q + 1)))"
    by (simp add: get_events_def p(2) q(2) add.commute)
  then have res: "get_events t s e = Inr (take (q + 1 - p) (drop p ?es))"
    by (simp only: py_slice_nat)
  show ?thesis
  proof (cases "q < length ?es \<and> I (ev_at (?es ! q)) \<le> e")
    case True
    have "in_window s e (?es ! j) \<longleftrightarrow> p \<le> j \<and> j < q + 1" if "j < length ?es" for j
    proof -
      have "\<not> I (ev_at (?es ! j)) \<le> e" if "q < j"
        using events_wf_less [OF wf that \<open>j < length ?es\<close>] q(4) [of q] True
        by (simp add: pynum_order; linarith)
      moreover have "I (ev_at (?es ! j)) \<le> e" if "j \<le> q"
        using q(3) [of j] True that by (cases "j = q") (auto simp: pynum_order)
      ultimately show ?thesis using p(3) [of j] p(4) [of j] \<open>j < length ?es\<close>
        by (auto simp: in_window_def pynum_order not_less less_Suc_eq_le) (meson leD leI)+
    qed
    then have "filter (in_window s e) ?es = take (q + 1 - p) (drop p ?es)"
      by (rule filter_eq_slice)
    with res show ?thesis by (intro exI [of _ "[]"]) simp
  next
    case False
    have late: "e < I (ev_at (?es ! j))" if "q \<le> j" "j < length ?es" for j
      using events_wf_less [OF wf, of q j] False that
      by (cases "q = j") (auto simp: pynum_order)
    have "in_window s e (?es ! j) \<longleftrightarrow> p \<le> j \<and> j < q" if "j < length ?es" for j
      using p(3) [of j] p(4) [of j] q(3) [of j] late [of j] that
      by (auto simp: in_window_def pynum_order not_less) (meson leD leI less_imp_le)+
    then have "filter (in_window s e) ?es = take (q - p) (drop p ?es)"
      by (rule filter_eq_slice)
    moreover have "take (q + 1 - p) (drop p ?es) = take (q - p) (drop p ?es) @ take 1 (drop q ?es)"
      using \<open>p \<le> q\<close> take_add [of "q - p" 1 "drop p ?es"] by (simp add: Suc_diff_le)
    moreover have "list_all (\<lambda>ev. e < I (ev_at ev)) (take 1 (drop q ?es))"
      using late [of q] by (cases "q < length ?es") (auto simp: take_Suc hd_drop_conv_nth)
    ultimately show ?thesis using res by (intro exI [of _ "take 1 (drop q ?es)"]) simp
  qed
qed

definition sample_events :: TimelineEvent where
  "sample_events = \<lparr>te_name = ''tx'', te_events = [EventInt 1 7, EventInt 4 8, EventInt 9 9]\<rparr>"

theorem get_events_window_witness:
  "\<exists>extra. get_events sample_events (I 2) (I 5) = Inr ([EventInt 4 8] @ extra)
    \<and> length extra \<le> 1 \<and> list_all (\<lambda>ev. I 5 < I (ev_at ev)) extra"
proof -
  have "filter (in_window (I 2) (I 5)) (te_events sample_events) = [EventInt 4 8]"
    by (simp add: sample_events_def EventInt_def in_window_def pynum_order)
  moreover have "events_wf (te_events sample_events)" and "I 2 \<le> I 5"
    by (simp_all add: sample_events_def events_wf_def EventInt_def pynum_order)
  ultimately show ?thesis using get_events_window [of sample_events "I 2" "I 5"] by simp
qed

end
