(* ===== verification/NamedStore.thy ===== *)
theory NamedStore
  imports Py
begin

text \<open>
  The interface of a list of named objects with a get-or-create lookup, which \<open>utils/grid.py\<close>
  writes four times (\<open>Timelines.get\<close>, \<open>Timeline.get_range\<close>, \<open>Timeline.get_event_str\<close>,
  \<open>Timeline.get_event_int\<close>): \<open>get\<close> walks the list and returns the first object of the name, or
  appends a fresh one. A returned reference is an index, and a mutation through it replaces the
  object at that index.
\<close>

fun index_of_name :: "('a \<Rightarrow> string) \<Rightarrow> string \<Rightarrow> 'a list \<Rightarrow> nat option" where
  "index_of_name nm n [] = None"
| "index_of_name nm n (x # xs) = (if nm x = n then Some 0 else map_option Suc (index_of_name nm n xs))"

lemma index_of_name_None: "index_of_name nm n xs = None \<longleftrightarrow> n \<notin> nm ` set xs"
  by (induction xs) auto

lemma index_of_name_Some:
  "index_of_name nm n xs = Some i \<longleftrightarrow> i < length xs \<and> nm (xs ! i) = n \<and> (\<forall>j < i. nm (xs ! j) \<noteq> n)"
proof (induction xs arbitrary: i)
  case Nil
  then show ?case by simp
next
  case (Cons x xs)
  show ?case
  proof (cases i)
    case 0
    then show ?thesis by simp
  next
    case (Suc k)
    have "(\<forall>j < Suc k. nm ((x # xs) ! j) \<noteq> n) \<longleftrightarrow> nm x \<noteq> n \<and> (\<forall>j < k. nm (xs ! j) \<noteq> n)"
      by (auto simp: less_Suc_eq_0_disj)
    with Suc Cons.IH [of k] show ?thesis by auto
  qed
qed

definition find_named :: "('a \<Rightarrow> string) \<Rightarrow> string \<Rightarrow> 'a list \<Rightarrow> 'a option" where
  "find_named nm n xs = List.find (\<lambda>x. nm x = n) xs"

lemma find_named_simps [simp]:
  "find_named nm n [] = None"
  "find_named nm n (x # xs) = (if nm x = n then Some x else find_named nm n xs)"
  by (simp_all add: find_named_def)

lemma find_named_append:
  "find_named nm n (xs @ ys) = (case find_named nm n xs of None \<Rightarrow> find_named nm n ys | Some x \<Rightarrow> Some x)"
  by (induction xs) auto

lemma find_named_None: "find_named nm n xs = None \<longleftrightarrow> n \<notin> nm ` set xs"
  by (induction xs) auto

lemma find_named_Some: "find_named nm n xs = Some x \<Longrightarrow> x \<in> set xs \<and> nm x = n"
  by (induction xs) (auto split: if_splits)

lemma find_named_update:
  assumes "i < length xs" "nm (xs ! i) = n" "\<forall>j < i. nm (xs ! j) \<noteq> n" "nm y = n"
  shows "find_named nm m (xs[i := y]) = (if m = n then Some y else find_named nm m xs)"
  using assms
proof (induction xs arbitrary: i)
  case Nil
  then show ?case by simp
next
  case (Cons x xs)
  show ?case
  proof (cases i)
    case 0
    with Cons.prems show ?thesis by auto
  next
    case (Suc k)
    with Cons.prems have "nm x \<noteq> n" by auto
    moreover have "find_named nm m (xs[k := y]) = (if m = n then Some y else find_named nm m xs)"
      using Cons.prems Suc by (intro Cons.IH) auto
    ultimately show ?thesis using Suc by auto
  qed
qed

lemma find_named_index:
  "index_of_name nm n xs = Some i \<Longrightarrow> find_named nm n xs = Some (xs ! i)"
  by (induction xs arbitrary: i) (auto split: if_splits)

lemma find_named_map: "(\<And>x. nm (f x) = nm x) \<Longrightarrow> find_named nm n (map f xs) = map_option f (find_named nm n xs)"
  by (induction xs) auto

locale named_store =
  fixes nm :: "'a \<Rightarrow> string"
    and fresh :: "string \<Rightarrow> 'a"
    and items :: "'s \<Rightarrow> 'a list"
    and put :: "'a list \<Rightarrow> 's \<Rightarrow> 's"
    and get :: "'s \<Rightarrow> string \<Rightarrow> nat \<times> 's"
  assumes fresh_name: "nm (fresh n) = n"
    and items_put: "items (put xs s) = xs"
    and get_found: "index_of_name nm n (items s) = Some i \<Longrightarrow> get s n = (i, s)"
    and get_new: "index_of_name nm n (items s) = None \<Longrightarrow>
      get s n = (length (items s), put (items s @ [fresh n]) s)"
begin

text \<open>The returned reference is valid and names the object asked for.\<close>

lemma get_ref:
  assumes "get s n = (i, s')"
  shows "i < length (items s')" and "nm (items s' ! i) = n"
    and "\<forall>j < i. nm (items s' ! j) \<noteq> n"
    and "items s' ! i = (case find_named nm n (items s) of None \<Rightarrow> fresh n | Some x \<Rightarrow> x)"
proof -
  have "i < length (items s') \<and> nm (items s' ! i) = n \<and> (\<forall>j < i. nm (items s' ! j) \<noteq> n)
    \<and> items s' ! i = (case find_named nm n (items s) of None \<Rightarrow> fresh n | Some x \<Rightarrow> x)"
  proof (cases "index_of_name nm n (items s)")
    case None
    with assms get_new [OF None] have "i = length (items s)" "items s' = items s @ [fresh n]"
      by (auto simp: items_put)
    moreover have "\<forall>j < length (items s). nm (items s ! j) \<noteq> n" and "find_named nm n (items s) = None"
      using None by (auto simp: index_of_name_None find_named_None)
    ultimately show ?thesis by (auto simp: nth_append fresh_name)
  next
    case (Some k)
    with assms get_found [OF Some] have "i = k" "s' = s" by auto
    with Some show ?thesis by (auto simp: index_of_name_Some find_named_index [OF Some])
  qed
  then show "i < length (items s')" and "nm (items s' ! i) = n"
    and "\<forall>j < i. nm (items s' ! j) \<noteq> n"
    and "items s' ! i = (case find_named nm n (items s) of None \<Rightarrow> fresh n | Some x \<Rightarrow> x)"
    by auto
qed

lemma get_find:
  assumes "get s n = (i, s')"
  shows "find_named nm m (items s') =
    (if m = n then Some (items s' ! i) else find_named nm m (items s))"
proof (cases "index_of_name nm n (items s)")
  case None
  with assms get_new [OF None] have "i = length (items s)" "items s' = items s @ [fresh n]"
    by (auto simp: items_put)
  moreover have "find_named nm n (items s) = None"
    using None by (simp add: index_of_name_None find_named_None)
  ultimately show ?thesis
    by (auto simp: find_named_append fresh_name split: option.splits)
next
  case (Some k)
  with assms get_found [OF Some] have "i = k" "s' = s" by auto
  then show ?thesis using find_named_index [OF Some] by auto
qed

text \<open>A mutation through the reference changes what its name finds and nothing else.\<close>

lemma get_update:
  assumes "get s n = (i, s')" and "nm y = n"
  shows "find_named nm m ((items s')[i := y]) = (if m = n then Some y else find_named nm m (items s))"
  using find_named_update [OF get_ref(1-3) [OF assms(1)] assms(2), of m] get_find [OF assms(1), of m]
  by auto

lemma get_distinct:
  assumes "distinct (map nm (items s))" and "get s n = (i, s')"
  shows "distinct (map nm (items s'))"
proof (cases "index_of_name nm n (items s)")
  case None
  with assms get_new [OF None] have "items s' = items s @ [fresh n]"
    by (auto simp: items_put)
  with assms(1) None show ?thesis by (simp add: index_of_name_None fresh_name)
next
  case (Some k)
  with assms get_found [OF Some] show ?thesis by auto
qed

lemma update_distinct:
  assumes "distinct (map nm (items s))" and "get s n = (i, s')" and "nm y = n"
  shows "distinct (map nm ((items s')[i := y]))"
proof -
  have "map nm ((items s')[i := y]) = map nm (items s')"
    using get_ref(1,2) [OF assms(2)] assms(3) by (simp add: map_update list_update_same_conv)
  with get_distinct [OF assms(1,2)] show ?thesis by simp
qed

end

end
