(* ===== verification/GridStore.thy ===== *)
theory GridStore
  imports GridData NamedStore
begin

text \<open>
  The timelines of \<open>utils/grid.py\<close> (\<open>Timeline\<close>, \<open>Timelines\<close>), its colour table (\<open>Color\<close>,
  \<open>Colors\<close>) and \<open>read_data\<close>, which fills both from the lines of a trace. The iteration order of a
  Python 2 dictionary is not specified; \<open>get_all_range_values\<close> takes it as a parameter.
\<close>

section \<open>Timeline\<close>

record Timeline =
  tl_name :: string
  tl_ranges :: "TimelineDataRange list"
  tl_event_str :: "TimelineEvent list"
  tl_event_int :: "TimelineEvent list"

definition new_timeline :: "string \<Rightarrow> Timeline" where
  "new_timeline name = \<lparr>tl_name = name, tl_ranges = [], tl_event_str = [], tl_event_int = []\<rparr>"

definition get_range :: "Timeline \<Rightarrow> string \<Rightarrow> nat \<times> Timeline" where
  "get_range tln name =
     (case index_of_name td_name name (tl_ranges tln) of
        Some i \<Rightarrow> (i, tln)
      | None \<Rightarrow> (length (tl_ranges tln), tln\<lparr>tl_ranges := tl_ranges tln @ [new_data_range name]\<rparr>))"

definition get_event_str :: "Timeline \<Rightarrow> string \<Rightarrow> nat \<times> Timeline" where
  "get_event_str tln name =
     (case index_of_name te_name name (tl_event_str tln) of
        Some i \<Rightarrow> (i, tln)
      | None \<Rightarrow> (length (tl_event_str tln), tln\<lparr>tl_event_str := tl_event_str tln @ [new_event_line name]\<rparr>))"

definition get_event_int :: "Timeline \<Rightarrow> string \<Rightarrow> nat \<times> Timeline" where
  "get_event_int tln name =
     (case index_of_name te_name name (tl_event_int tln) of
        Some i \<Rightarrow> (i, tln)
      | None \<Rightarrow> (length (tl_event_int tln), tln\<lparr>tl_event_int := tl_event_int tln @ [new_event_line name]\<rparr>))"

definition timeline_sort :: "Timeline \<Rightarrow> Timeline" where
  "timeline_sort tln = tln\<lparr>tl_ranges := map sort_ranges (tl_ranges tln),
     tl_event_int := map sort_events (tl_event_int tln),
     tl_event_str := map sort_events (tl_event_str tln)\<rparr>"

definition widen :: "int \<times> int \<Rightarrow> int \<times> int \<Rightarrow> int \<times> int" where
  "widen b c = (if fst c < fst b then fst c else fst b, if snd c > snd b then snd c else snd b)"

definition timeline_bounds :: "Timeline \<Rightarrow> int \<times> int" where
  "timeline_bounds tln =
     foldl widen
       (foldl widen
         (foldl widen (0, 0) (map data_range_bounds (tl_ranges tln)))
         (map event_bounds (tl_event_str tln)))
       (map event_bounds (tl_event_int tln))"

section \<open>Timelines\<close>

record Timelines =
  timelines :: "Timeline list"

definition new_timelines :: Timelines where
  "new_timelines = \<lparr>timelines = []\<rparr>"

definition timelines_get :: "Timelines \<Rightarrow> string \<Rightarrow> nat \<times> Timelines" where
  "timelines_get ts name =
     (case index_of_name tl_name name (timelines ts) of
        Some i \<Rightarrow> (i, ts)
      | None \<Rightarrow> (length (timelines ts), ts\<lparr>timelines := timelines ts @ [new_timeline name]\<rparr>))"

definition timelines_sort :: "Timelines \<Rightarrow> Timelines" where
  "timelines_sort ts = ts\<lparr>timelines := map timeline_sort (timelines ts)\<rparr>"

definition timelines_bounds :: "Timelines \<Rightarrow> int \<times> int" where
  "timelines_bounds ts = foldl widen (0, 0) (map timeline_bounds (timelines ts))"

definition all_values :: "Timelines \<Rightarrow> string list" where
  "all_values ts = concat (map (\<lambda>tln. concat (map (\<lambda>rs. map dr_value (get_all_ranges rs)) (tl_ranges tln)))
     (timelines ts))"

text \<open>\<open>kord\<close> is the order in which the dictionary yields its keys.\<close>

definition get_all_range_values :: "(string list \<Rightarrow> string list) \<Rightarrow> Timelines \<Rightarrow> string list" where
  "get_all_range_values kord ts = kord (remdups (all_values ts))"

interpretation timelines_store: named_store tl_name new_timeline timelines "\<lambda>xs ts. ts\<lparr>timelines := xs\<rparr>" timelines_get
  by unfold_locales (auto simp: new_timeline_def timelines_get_def)

interpretation range_store: named_store td_name new_data_range tl_ranges "\<lambda>xs tln. tln\<lparr>tl_ranges := xs\<rparr>" get_range
  by unfold_locales (auto simp: new_data_range_def get_range_def)

interpretation str_store: named_store te_name new_event_line tl_event_str "\<lambda>xs tln. tln\<lparr>tl_event_str := xs\<rparr>" get_event_str
  by unfold_locales (auto simp: new_event_line_def get_event_str_def)

interpretation int_store: named_store te_name new_event_line tl_event_int "\<lambda>xs tln. tln\<lparr>tl_event_int := xs\<rparr>" get_event_int
  by unfold_locales (auto simp: new_event_line_def get_event_int_def)

section \<open>Colours\<close>

record Color =
  col_r :: pynum
  col_g :: pynum
  col_b :: pynum

definition mk_color :: "pynum \<Rightarrow> pynum \<Rightarrow> pynum \<Rightarrow> Color" where
  "mk_color r g b = \<lparr>col_r = r, col_g = g, col_b = b\<rparr>"

text \<open>\<open>default_colors\<close> is a class attribute: a list that \<open>lookup\<close> pops from its end.\<close>

record Colors =
  colors_map :: "string \<Rightarrow> Color option"
  default_colors :: "Color list"

definition new_colors :: Colors where
  "new_colors = \<lparr>colors_map = Map.empty, default_colors =
     [mk_color (I 1) (I 0) (I 0), mk_color (I 0) (I 1) (I 0), mk_color (I 0) (I 0) (I 1),
      mk_color (I 1) (I 1) (I 0), mk_color (I 1) (I 0) (I 1), mk_color (I 0) (I 1) (I 1)]\<rparr>"

definition colors_add :: "Colors \<Rightarrow> string \<Rightarrow> Color \<Rightarrow> Colors" where
  "colors_add cs name c = cs\<lparr>colors_map := (colors_map cs)(name \<mapsto> c)\<rparr>"

definition pop_default :: "Colors \<Rightarrow> (Color \<times> Colors) py" where
  "pop_default cs =
     (if default_colors cs = [] then Inl IndexError
      else Inr (last (default_colors cs), cs\<lparr>default_colors := butlast (default_colors cs)\<rparr>))"

definition colors_lookup :: "Colors \<Rightarrow> string \<Rightarrow> (Color option \<times> Colors) py" where
  "colors_lookup cs name =
     bind_e (if colors_map cs name = None
             then bind_e (pop_default cs) (\<lambda>(c, cs'). Inr (colors_add cs' name c))
             else Inr cs)
       (\<lambda>cs'. Inr (colors_map cs' name, cs'))"

section \<open>read_data\<close>

text \<open>The four regular expressions, matched at the start of a line.\<close>

definition not_blank :: "char \<Rightarrow> bool" where
  "not_blank c = (c \<noteq> CHR '' '')"

definition match_range :: "string \<Rightarrow> (string \<times> string \<times> string \<times> int \<times> int) option" where
  "match_range line = do {
     s \<leftarrow> lit ''range '' line;
     (g1, s) \<leftarrow> run1 not_blank s; s \<leftarrow> lit '' '' s;
     (g2, s) \<leftarrow> run1 not_blank s; s \<leftarrow> lit '' '' s;
     (g3, s) \<leftarrow> run1 not_blank s; s \<leftarrow> lit '' '' s;
     (g4, s) \<leftarrow> run1 is_digit s; s \<leftarrow> lit '' '' s;
     (g5, s) \<leftarrow> run1 is_digit s;
     Some (g1, g2, g3, int (nat_of_digits g4), int (nat_of_digits g5)) }"

definition match_event_str :: "string \<Rightarrow> (string \<times> string \<times> string \<times> int) option" where
  "match_event_str line = do {
     s \<leftarrow> lit ''event-str '' line;
     (g1, s) \<leftarrow> run1 not_blank s; s \<leftarrow> lit '' '' s;
     (g2, s) \<leftarrow> run1 not_blank s; s \<leftarrow> lit '' '' s;
     (g3, s) \<leftarrow> run1 not_blank s; s \<leftarrow> lit '' '' s;
     (g4, s) \<leftarrow> run1 is_digit s;
     Some (g1, g2, g3, int (nat_of_digits g4)) }"

definition match_event_int :: "string \<Rightarrow> (string \<times> string \<times> int \<times> int) option" where
  "match_event_int line = do {
     s \<leftarrow> lit ''event-int '' line;
     (g1, s) \<leftarrow> run1 not_blank s; s \<leftarrow> lit '' '' s;
     (g2, s) \<leftarrow> run1 not_blank s; s \<leftarrow> lit '' '' s;
     (g3, s) \<leftarrow> run1 is_digit s; s \<leftarrow> lit '' '' s;
     (g4, s) \<leftarrow> run1 is_digit s;
     Some (g1, g2, int (nat_of_digits g3), int (nat_of_digits g4)) }"

definition match_color :: "string \<Rightarrow> (string \<times> int \<times> int \<times> int) option" where
  "match_color line = do {
     s \<leftarrow> lit ''color '' line;
     (g1, s) \<leftarrow> run1 not_blank s; s \<leftarrow> lit '' #'' s;
     (r1, s) \<leftarrow> one is_hex s; (r2, s) \<leftarrow> one is_hex s;
     (b1, s) \<leftarrow> one is_hex s; (b2, s) \<leftarrow> one is_hex s;
     (c1, s) \<leftarrow> one is_hex s; (c2, s) \<leftarrow> one is_hex s;
     Some (g1, int (nat_of_base 16 [r1, r2]), int (nat_of_base 16 [b1, b2]),
       int (nat_of_base 16 [c1, c2])) }"

definition put_range :: "string \<Rightarrow> string \<Rightarrow> DataRange \<Rightarrow> Timelines \<Rightarrow> Timelines" where
  "put_range n1 n2 r ts =
     (let (i, ts1) = timelines_get ts n1;
          (j, tln) = get_range (timelines ts1 ! i) n2;
          tln' = tln\<lparr>tl_ranges := (tl_ranges tln)[j := add_range (tl_ranges tln ! j) r]\<rparr>
      in ts1\<lparr>timelines := (timelines ts1)[i := tln']\<rparr>)"

definition put_event_str :: "string \<Rightarrow> string \<Rightarrow> event \<Rightarrow> Timelines \<Rightarrow> Timelines" where
  "put_event_str n1 n2 ev ts =
     (let (i, ts1) = timelines_get ts n1;
          (j, tln) = get_event_str (timelines ts1 ! i) n2;
          tln' = tln\<lparr>tl_event_str := (tl_event_str tln)[j := add_event (tl_event_str tln ! j) ev]\<rparr>
      in ts1\<lparr>timelines := (timelines ts1)[i := tln']\<rparr>)"

definition put_event_int :: "string \<Rightarrow> string \<Rightarrow> event \<Rightarrow> Timelines \<Rightarrow> Timelines" where
  "put_event_int n1 n2 ev ts =
     (let (i, ts1) = timelines_get ts n1;
          (j, tln) = get_event_int (timelines ts1 ! i) n2;
          tln' = tln\<lparr>tl_event_int := (tl_event_int tln)[j := add_event (tl_event_int tln ! j) ev]\<rparr>
      in ts1\<lparr>timelines := (timelines ts1)[i := tln']\<rparr>)"

definition read_line :: "Colors \<times> Timelines \<Rightarrow> string \<Rightarrow> (Colors \<times> Timelines) py" where
  "read_line st line =
     (case match_range line of
        Some (g1, g2, g3, s, e) \<Rightarrow>
          Inr (fst st, put_range g1 g2 \<lparr>dr_start = s, dr_end = e, dr_value = g3\<rparr> (snd st))
      | None \<Rightarrow>
     (case match_event_str line of
        Some (g1, g2, g3, t) \<Rightarrow> Inr (fst st, put_event_str g1 g2 (EventString t g3) (snd st))
      | None \<Rightarrow>
     (case match_event_int line of
        Some (g1, g2, v, t) \<Rightarrow> Inr (fst st, put_event_int g1 g2 (EventInt t v) (snd st))
      | None \<Rightarrow>
     (case match_color line of
        Some (g1, r, g, b) \<Rightarrow>
          bind_e (num_div (I r) (I 255)) (\<lambda>r'.
          bind_e (num_div (I g) (I 255)) (\<lambda>g'.
          bind_e (num_div (I b) (I 255)) (\<lambda>b'.
            Inr (colors_add (fst st) g1 (mk_color r' g' b'), snd st))))
      | None \<Rightarrow> Inr st))))"

definition read_data :: "string list \<Rightarrow> (Colors \<times> Timelines) py" where
  "read_data lines =
     bind_e (fold_e read_line (new_colors, new_timelines) lines) (\<lambda>(colors, ts).
       Inr (colors, timelines_sort ts))"

section \<open>What the reader stores\<close>

text \<open>The abstract content of a store: the list kept under a timeline name and a line name.\<close>

definition ranges_of :: "Timelines \<Rightarrow> string \<Rightarrow> string \<Rightarrow> DataRange list" where
  "ranges_of ts n1 n2 =
     (case find_named tl_name n1 (timelines ts) of None \<Rightarrow> []
      | Some tln \<Rightarrow> (case find_named td_name n2 (tl_ranges tln) of None \<Rightarrow> [] | Some d \<Rightarrow> td_ranges d))"

definition strs_of :: "Timelines \<Rightarrow> string \<Rightarrow> string \<Rightarrow> event list" where
  "strs_of ts n1 n2 =
     (case find_named tl_name n1 (timelines ts) of None \<Rightarrow> []
      | Some tln \<Rightarrow> (case find_named te_name n2 (tl_event_str tln) of None \<Rightarrow> [] | Some d \<Rightarrow> te_events d))"

definition ints_of :: "Timelines \<Rightarrow> string \<Rightarrow> string \<Rightarrow> event list" where
  "ints_of ts n1 n2 =
     (case find_named tl_name n1 (timelines ts) of None \<Rightarrow> []
      | Some tln \<Rightarrow> (case find_named te_name n2 (tl_event_int tln) of None \<Rightarrow> [] | Some d \<Rightarrow> te_events d))"

lemmas content_defs = ranges_of_def strs_of_def ints_of_def

lemma timeline_find_update:
  assumes "timelines_get ts n1 = (i, ts1)" and "tl_name tln' = n1"
  shows "find_named tl_name m (timelines (ts1\<lparr>timelines := (timelines ts1)[i := tln']\<rparr>)) =
    (if m = n1 then Some tln' else find_named tl_name m (timelines ts))"
  using timelines_store.get_update [OF assms] by simp

lemma timelines_get_elem:
  assumes "timelines_get ts n1 = (i, ts1)"
  shows "timelines ts1 ! i =
      (case find_named tl_name n1 (timelines ts) of None \<Rightarrow> new_timeline n1 | Some x \<Rightarrow> x)"
    and "tl_name (timelines ts1 ! i) = n1"
  using timelines_store.get_ref [OF assms] by auto

lemma get_range_frame:
  assumes "get_range tln n = (j, tln')"
  shows "tl_name tln' = tl_name tln" "tl_event_str tln' = tl_event_str tln" "tl_event_int tln' = tl_event_int tln"
  using assms by (auto simp: get_range_def split: option.splits)

lemma get_event_str_frame:
  assumes "get_event_str tln n = (j, tln')"
  shows "tl_name tln' = tl_name tln" "tl_ranges tln' = tl_ranges tln" "tl_event_int tln' = tl_event_int tln"
  using assms by (auto simp: get_event_str_def split: option.splits)

lemma get_event_int_frame:
  assumes "get_event_int tln n = (j, tln')"
  shows "tl_name tln' = tl_name tln" "tl_ranges tln' = tl_ranges tln" "tl_event_str tln' = tl_event_str tln"
  using assms by (auto simp: get_event_int_def split: option.splits)

lemma put_range_content:
  "ranges_of (put_range n1 n2 r ts) m1 m2 =
     ranges_of ts m1 m2 @ (if m1 = n1 \<and> m2 = n2 then [r] else [])"
  "strs_of (put_range n1 n2 r ts) m1 m2 = strs_of ts m1 m2"
  "ints_of (put_range n1 n2 r ts) m1 m2 = ints_of ts m1 m2"
proof -
  obtain i ts1 where g: "timelines_get ts n1 = (i, ts1)" by fastforce
  obtain j tln where h: "get_range (timelines ts1 ! i) n2 = (j, tln)" by fastforce
  let ?d = "add_range (tl_ranges tln ! j) r"
  let ?tln = "tln\<lparr>tl_ranges := (tl_ranges tln)[j := ?d]\<rparr>"
  have put: "put_range n1 n2 r ts = ts1\<lparr>timelines := (timelines ts1)[i := ?tln]\<rparr>"
    by (simp add: put_range_def g h)
  have nm: "tl_name ?tln = n1" using get_range_frame [OF h] timelines_get_elem(2) [OF g] by simp
  have dn: "td_name ?d = n2" using range_store.get_ref(2) [OF h] by (simp add: add_range_def)
  note inner = range_store.get_update [OF h dn]
  note elem = range_store.get_ref(4) [OF h] and old = timelines_get_elem(1) [OF g]
  note frame = get_range_frame [OF h]
  show "ranges_of (put_range n1 n2 r ts) m1 m2 =
      ranges_of ts m1 m2 @ (if m1 = n1 \<and> m2 = n2 then [r] else [])"
    unfolding put ranges_of_def timeline_find_update [OF g nm] using inner elem old
    by (auto simp: add_range_def new_data_range_def new_timeline_def split: option.splits)
  show "strs_of (put_range n1 n2 r ts) m1 m2 = strs_of ts m1 m2"
    unfolding put strs_of_def timeline_find_update [OF g nm] using frame old
    by (auto simp: new_timeline_def split: option.splits)
  show "ints_of (put_range n1 n2 r ts) m1 m2 = ints_of ts m1 m2"
    unfolding put ints_of_def timeline_find_update [OF g nm] using frame old
    by (auto simp: new_timeline_def split: option.splits)
qed

lemma put_event_str_content:
  "strs_of (put_event_str n1 n2 ev ts) m1 m2 =
     strs_of ts m1 m2 @ (if m1 = n1 \<and> m2 = n2 then [ev] else [])"
  "ranges_of (put_event_str n1 n2 ev ts) m1 m2 = ranges_of ts m1 m2"
  "ints_of (put_event_str n1 n2 ev ts) m1 m2 = ints_of ts m1 m2"
proof -
  obtain i ts1 where g: "timelines_get ts n1 = (i, ts1)" by fastforce
  obtain j tln where h: "get_event_str (timelines ts1 ! i) n2 = (j, tln)" by fastforce
  let ?d = "add_event (tl_event_str tln ! j) ev"
  let ?tln = "tln\<lparr>tl_event_str := (tl_event_str tln)[j := ?d]\<rparr>"
  have put: "put_event_str n1 n2 ev ts = ts1\<lparr>timelines := (timelines ts1)[i := ?tln]\<rparr>"
    by (simp add: put_event_str_def g h)
  have nm: "tl_name ?tln = n1" using get_event_str_frame [OF h] timelines_get_elem(2) [OF g] by simp
  have dn: "te_name ?d = n2" using str_store.get_ref(2) [OF h] by (simp add: add_event_def)
  note inner = str_store.get_update [OF h dn]
  note elem = str_store.get_ref(4) [OF h] and old = timelines_get_elem(1) [OF g]
  note frame = get_event_str_frame [OF h]
  show "strs_of (put_event_str n1 n2 ev ts) m1 m2 =
      strs_of ts m1 m2 @ (if m1 = n1 \<and> m2 = n2 then [ev] else [])"
    unfolding put strs_of_def timeline_find_update [OF g nm] using inner elem old
    by (auto simp: add_event_def new_event_line_def new_timeline_def split: option.splits)
  show "ranges_of (put_event_str n1 n2 ev ts) m1 m2 = ranges_of ts m1 m2"
    unfolding put ranges_of_def timeline_find_update [OF g nm] using frame old
    by (auto simp: new_timeline_def split: option.splits)
  show "ints_of (put_event_str n1 n2 ev ts) m1 m2 = ints_of ts m1 m2"
    unfolding put ints_of_def timeline_find_update [OF g nm] using frame old
    by (auto simp: new_timeline_def split: option.splits)
qed

lemma put_event_int_content:
  "ints_of (put_event_int n1 n2 ev ts) m1 m2 =
     ints_of ts m1 m2 @ (if m1 = n1 \<and> m2 = n2 then [ev] else [])"
  "ranges_of (put_event_int n1 n2 ev ts) m1 m2 = ranges_of ts m1 m2"
  "strs_of (put_event_int n1 n2 ev ts) m1 m2 = strs_of ts m1 m2"
proof -
  obtain i ts1 where g: "timelines_get ts n1 = (i, ts1)" by fastforce
  obtain j tln where h: "get_event_int (timelines ts1 ! i) n2 = (j, tln)" by fastforce
  let ?d = "add_event (tl_event_int tln ! j) ev"
  let ?tln = "tln\<lparr>tl_event_int := (tl_event_int tln)[j := ?d]\<rparr>"
  have put: "put_event_int n1 n2 ev ts = ts1\<lparr>timelines := (timelines ts1)[i := ?tln]\<rparr>"
    by (simp add: put_event_int_def g h)
  have nm: "tl_name ?tln = n1" using get_event_int_frame [OF h] timelines_get_elem(2) [OF g] by simp
  have dn: "te_name ?d = n2" using int_store.get_ref(2) [OF h] by (simp add: add_event_def)
  note inner = int_store.get_update [OF h dn]
  note elem = int_store.get_ref(4) [OF h] and old = timelines_get_elem(1) [OF g]
  note frame = get_event_int_frame [OF h]
  show "ints_of (put_event_int n1 n2 ev ts) m1 m2 =
      ints_of ts m1 m2 @ (if m1 = n1 \<and> m2 = n2 then [ev] else [])"
    unfolding put ints_of_def timeline_find_update [OF g nm] using inner elem old
    by (auto simp: add_event_def new_event_line_def new_timeline_def split: option.splits)
  show "ranges_of (put_event_int n1 n2 ev ts) m1 m2 = ranges_of ts m1 m2"
    unfolding put ranges_of_def timeline_find_update [OF g nm] using frame old
    by (auto simp: new_timeline_def split: option.splits)
  show "strs_of (put_event_int n1 n2 ev ts) m1 m2 = strs_of ts m1 m2"
    unfolding put strs_of_def timeline_find_update [OF g nm] using frame old
    by (auto simp: new_timeline_def split: option.splits)
qed

text \<open>What a line of the trace is, the first expression that matches deciding.\<close>

datatype entry =
    ERange string string DataRange
  | EStr string string event
  | EIntE string string event
  | EColor string int int int
  | EOther

definition classify :: "string \<Rightarrow> entry" where
  "classify line =
     (case match_range line of
        Some (g1, g2, g3, s, e) \<Rightarrow> ERange g1 g2 \<lparr>dr_start = s, dr_end = e, dr_value = g3\<rparr>
      | None \<Rightarrow> (case match_event_str line of
        Some (g1, g2, g3, t) \<Rightarrow> EStr g1 g2 (EventString t g3)
      | None \<Rightarrow> (case match_event_int line of
        Some (g1, g2, v, t) \<Rightarrow> EIntE g1 g2 (EventInt t v)
      | None \<Rightarrow> (case match_color line of
        Some (g1, r, g, b) \<Rightarrow> EColor g1 r g b
      | None \<Rightarrow> EOther))))"

definition range_entries :: "string \<Rightarrow> string \<Rightarrow> string list \<Rightarrow> DataRange list" where
  "range_entries n1 n2 lines = concat (map (\<lambda>line. case classify line of
     ERange a b r \<Rightarrow> (if n1 = a \<and> n2 = b then [r] else []) | _ \<Rightarrow> []) lines)"

definition str_entries :: "string \<Rightarrow> string \<Rightarrow> string list \<Rightarrow> event list" where
  "str_entries n1 n2 lines = concat (map (\<lambda>line. case classify line of
     EStr a b r \<Rightarrow> (if n1 = a \<and> n2 = b then [r] else []) | _ \<Rightarrow> []) lines)"

definition int_entries :: "string \<Rightarrow> string \<Rightarrow> string list \<Rightarrow> event list" where
  "int_entries n1 n2 lines = concat (map (\<lambda>line. case classify line of
     EIntE a b r \<Rightarrow> (if n1 = a \<and> n2 = b then [r] else []) | _ \<Rightarrow> []) lines)"

lemma read_line_classify:
  "read_line st line =
     (case classify line of
        ERange a b r \<Rightarrow> Inr (fst st, put_range a b r (snd st))
      | EStr a b ev \<Rightarrow> Inr (fst st, put_event_str a b ev (snd st))
      | EIntE a b ev \<Rightarrow> Inr (fst st, put_event_int a b ev (snd st))
      | EColor n r g b \<Rightarrow>
          Inr (colors_add (fst st) n (mk_color (I (r div 255)) (I (g div 255)) (I (b div 255))), snd st)
      | EOther \<Rightarrow> Inr st)"
  by (simp add: read_line_def classify_def num_div_def split: option.split)

lemma read_lines_content:
  "\<exists>cs' ts'. fold_e read_line (cs, ts) lines = Inr (cs', ts') \<and>
     (\<forall>n1 n2. ranges_of ts' n1 n2 = ranges_of ts n1 n2 @ range_entries n1 n2 lines) \<and>
     (\<forall>n1 n2. strs_of ts' n1 n2 = strs_of ts n1 n2 @ str_entries n1 n2 lines) \<and>
     (\<forall>n1 n2. ints_of ts' n1 n2 = ints_of ts n1 n2 @ int_entries n1 n2 lines)"
proof (induction lines arbitrary: cs ts)
  case Nil
  show ?case by (simp add: range_entries_def str_entries_def int_entries_def)
next
  case (Cons line lines)
  obtain cs1 ts1 where step: "read_line (cs, ts) line = Inr (cs1, ts1)"
    and content: "\<And>n1 n2. ranges_of ts1 n1 n2 = ranges_of ts n1 n2 @ range_entries n1 n2 [line]"
      "\<And>n1 n2. strs_of ts1 n1 n2 = strs_of ts n1 n2 @ str_entries n1 n2 [line]"
      "\<And>n1 n2. ints_of ts1 n1 n2 = ints_of ts n1 n2 @ int_entries n1 n2 [line]"
    by (cases "classify line")
      (auto simp: read_line_classify range_entries_def str_entries_def int_entries_def
        put_range_content put_event_str_content put_event_int_content)
  show ?case using Cons.IH [of cs1 ts1] content
    by (auto simp: step range_entries_def str_entries_def int_entries_def)
qed

lemma sort_content:
  "ranges_of (timelines_sort ts) n1 n2 = sort_key dr_start (ranges_of ts n1 n2)"
  "strs_of (timelines_sort ts) n1 n2 = sort_key ev_at (strs_of ts n1 n2)"
  "ints_of (timelines_sort ts) n1 n2 = sort_key ev_at (ints_of ts n1 n2)"
  by (auto simp: content_defs timelines_sort_def timeline_sort_def find_named_map
      sort_ranges_def sort_events_def split: option.splits)

lemma new_timelines_content:
  "ranges_of new_timelines n1 n2 = []" "strs_of new_timelines n1 n2 = []" "ints_of new_timelines n1 n2 = []"
  by (simp_all add: content_defs new_timelines_def)

text \<open>C18: \<open>read_data\<close> never raises, and afterwards every line of every timeline
  holds exactly the entries of its two names in the trace, stably sorted by time: no entry is
  lost, duplicated or filed under another name.\<close>

theorem read_data_content:
  "\<exists>cs ts. read_data lines = Inr (cs, ts) \<and>
     (\<forall>n1 n2. ranges_of ts n1 n2 = sort_key dr_start (range_entries n1 n2 lines)) \<and>
     (\<forall>n1 n2. strs_of ts n1 n2 = sort_key ev_at (str_entries n1 n2 lines)) \<and>
     (\<forall>n1 n2. ints_of ts n1 n2 = sort_key ev_at (int_entries n1 n2 lines))"
proof -
  obtain cs ts where "fold_e read_line (new_colors, new_timelines) lines = Inr (cs, ts)"
    and "\<And>n1 n2. ranges_of ts n1 n2 = range_entries n1 n2 lines"
    and "\<And>n1 n2. strs_of ts n1 n2 = str_entries n1 n2 lines"
    and "\<And>n1 n2. ints_of ts n1 n2 = int_entries n1 n2 lines"
    using read_lines_content [of new_colors new_timelines lines]
    by (auto simp: new_timelines_content)
  then show ?thesis by (auto simp: read_data_def sort_content)
qed

section \<open>The colour table\<close>

text \<open>The loop of \<open>main\<close> that looks up a colour for every value of a range.\<close>

definition lookup_step :: "Color option list \<times> Colors \<Rightarrow> string \<Rightarrow> (Color option list \<times> Colors) py" where
  "lookup_step st v = bind_e (colors_lookup (snd st) v) (\<lambda>(c, cs). Inr (fst st @ [c], cs))"

definition range_colors :: "Colors \<Rightarrow> string list \<Rightarrow> (Color option list \<times> Colors) py" where
  "range_colors cs values = fold_e lookup_step ([], cs) values"

lemma colors_lookup_known:
  "colors_map cs n = Some c \<Longrightarrow> colors_lookup cs n = Inr (Some c, cs)"
  by (simp add: colors_lookup_def)

lemma colors_lookup_fresh:
  "colors_map cs n = None \<Longrightarrow> default_colors cs \<noteq> [] \<Longrightarrow>
   colors_lookup cs n = Inr (Some (last (default_colors cs)),
     cs\<lparr>default_colors := butlast (default_colors cs),
        colors_map := (colors_map cs)(n \<mapsto> last (default_colors cs))\<rparr>)"
  by (simp add: colors_lookup_def pop_default_def colors_add_def)

lemma colors_lookup_exhausted:
  "colors_map cs n = None \<Longrightarrow> default_colors cs = [] \<Longrightarrow> colors_lookup cs n = Inl IndexError"
  by (simp add: colors_lookup_def pop_default_def)

lemma range_colors_ok_iff:
  assumes "distinct names"
  shows "is_ok (fold_e lookup_step (acc, cs) names) \<longleftrightarrow>
    length (filter (\<lambda>n. colors_map cs n = None) names) \<le> length (default_colors cs)"
  using assms
proof (induction names arbitrary: acc cs)
  case Nil
  then show ?case by simp
next
  case (Cons n names)
  show ?case
  proof (cases "colors_map cs n")
    case (Some c)
    then show ?thesis using Cons by (simp add: lookup_step_def colors_lookup_known)
  next
    case None
    show ?thesis
    proof (cases "default_colors cs = []")
      case True
      with None show ?thesis by (simp add: lookup_step_def colors_lookup_exhausted)
    next
      case False
      let ?cs = "cs\<lparr>default_colors := butlast (default_colors cs),
        colors_map := (colors_map cs)(n \<mapsto> last (default_colors cs))\<rparr>"
      have "filter (\<lambda>m. colors_map ?cs m = None) names = filter (\<lambda>m. colors_map cs m = None) names"
        using Cons.prems by (intro filter_cong) auto
      then have "is_ok (fold_e lookup_step (acc @ [Some (last (default_colors cs))], ?cs) names) \<longleftrightarrow>
          length (filter (\<lambda>m. colors_map cs m = None) names) \<le> length (default_colors cs) - 1"
        using Cons.IH [of "acc @ [Some (last (default_colors cs))]" ?cs] Cons.prems by simp
      moreover obtain k where "length (default_colors cs) = Suc k"
        using False by (cases "default_colors cs") auto
      moreover have "lookup_step (acc, cs) n = Inr (acc @ [Some (last (default_colors cs))], ?cs)"
        using None False by (simp add: lookup_step_def colors_lookup_fresh)
      ultimately show ?thesis using None by simp
    qed
  qed
qed

text \<open>With \<open>k\<close> default colours left, the colour lookups of \<open>main\<close> succeed for
  distinct values exactly when at most \<open>k\<close> of them have no \<open>color\<close> line: the seventh uncoloured
  value of a trace pops from an empty list and the program ends with \<open>IndexError\<close>.\<close>

theorem range_colors_six:
  assumes "distinct values"
  shows "is_ok (range_colors cs values) \<longleftrightarrow>
    length (filter (\<lambda>v. colors_map cs v = None) values) \<le> length (default_colors cs)"
  unfolding range_colors_def by (rule range_colors_ok_iff [OF assms])

theorem range_colors_six_witness:
  "\<not> is_ok (range_colors new_colors [''a'', ''b'', ''c'', ''d'', ''e'', ''f'', ''g'']) \<and>
   is_ok (range_colors new_colors [''a'', ''b'', ''c'', ''d'', ''e'', ''f''])"
  by (subst (1 2) range_colors_six) (simp_all add: new_colors_def)

lemma hex_pair_bound: "nat_of_base 16 [a, b] \<le> 255" if "is_hex a" "is_hex b"
proof -
  have "digit_val c \<le> 15" for c
    by (auto simp: digit_val_def digit_table_eq split: option.splits if_splits)
  then have "digit_val a \<le> 15" "digit_val b \<le> 15" by auto
  then show ?thesis by (simp add: nat_of_base_def)
qed

lemma one_Some: "one P s = Some (c, s') \<Longrightarrow> P c"
  by (cases s) (auto split: if_splits)

lemma match_color_bound:
  "match_color line = Some (n, r, g, b) \<Longrightarrow> 0 \<le> r \<and> r \<le> 255 \<and> 0 \<le> g \<and> g \<le> 255 \<and> 0 \<le> b \<and> b \<le> 255"
  unfolding match_color_def
  by (auto simp: bind_eq_Some_conv dest!: one_Some intro: hex_pair_bound)

definition zero_one :: "Color \<Rightarrow> bool" where
  "zero_one c \<longleftrightarrow> col_r c \<in> {I 0, I 1} \<and> col_g c \<in> {I 0, I 1} \<and> col_b c \<in> {I 0, I 1}"

definition zero_one_table :: "Colors \<Rightarrow> bool" where
  "zero_one_table cs \<longleftrightarrow> (\<forall>n c. colors_map cs n = Some c \<longrightarrow> zero_one c)"

lemma read_line_colors:
  assumes "read_line st line = Inr st'" and "zero_one_table (fst st)"
  shows "zero_one_table (fst st')"
proof (cases "classify line")
  case (EColor n r g b)
  then have "match_color line = Some (n, r, g, b)"
    by (auto simp: classify_def split: option.splits)
  then have "r div 255 \<in> {0, 1}" "g div 255 \<in> {0, 1}" "b div 255 \<in> {0, 1}"
    using match_color_bound [of line n r g b] by auto
  then have "zero_one (mk_color (I (r div 255)) (I (g div 255)) (I (b div 255)))"
    by (simp add: zero_one_def mk_color_def)
  with assms EColor show ?thesis
    by (auto simp: read_line_classify zero_one_table_def colors_add_def split: if_splits)
qed (use assms in \<open>auto simp: read_line_classify\<close>)

text \<open>The components of a \<open>color\<close> line are divided by 255 with Python 2's integer
  division, so every colour \<open>read_data\<close> stores has components 0 or 1 only; a component below
  \<open>ff\<close> is read as 0.\<close>

theorem read_data_colors:
  assumes "read_data lines = Inr (cs, ts)" and "colors_map cs n = Some c"
  shows "col_r c \<in> {I 0, I 1} \<and> col_g c \<in> {I 0, I 1} \<and> col_b c \<in> {I 0, I 1}"
proof -
  obtain ts0 where run: "fold_e read_line (new_colors, new_timelines) lines = Inr (cs, ts0)"
    using assms(1) by (auto simp: read_data_def bind_e_Inr_iff)
  have "zero_one_table (fst (cs, ts0))"
    by (rule fold_e_invariant [OF run])
      (use read_line_colors in \<open>auto simp: zero_one_table_def new_colors_def\<close>)
  with assms(2) show ?thesis by (simp add: zero_one_table_def zero_one_def)
qed

theorem read_data_colors_witness:
  "read_data [''color cpu #80ff7f''] =
     Inr (colors_add new_colors ''cpu'' (mk_color (I 0) (I 1) (I 0)), new_timelines) \<and>
   col_r (mk_color (I 0) (I 1) (I 0)) \<in> {I 0, I 1}"
proof -
  have run: "read_data [''color cpu #80ff7f''] =
      Inr (colors_add new_colors ''cpu'' (mk_color (I 0) (I 1) (I 0)), new_timelines)"
    by (simp add: read_data_def read_line_def match_range_def match_event_str_def match_event_int_def
        match_color_def lit_def run1_def not_blank_def is_hex_def digit_table_eq nat_of_base_def
        digit_val_def num_div_def timelines_sort_def new_timelines_def)
  show ?thesis using read_data_colors [OF run, of "''cpu''" "mk_color (I 0) (I 1) (I 0)"] run
    by (simp add: colors_add_def)
qed

section \<open>The bounds of a trace\<close>

lemma foldl_widen:
  "fst (foldl widen a bs) \<le> fst a \<and> snd a \<le> snd (foldl widen a bs) \<and>
   (\<forall>b \<in> set bs. fst (foldl widen a bs) \<le> fst b \<and> snd b \<le> snd (foldl widen a bs))"
proof (induction bs arbitrary: a)
  case Nil
  then show ?case by simp
next
  case (Cons b bs)
  have "fst (widen a b) \<le> fst a" "snd a \<le> snd (widen a b)"
    "fst (widen a b) \<le> fst b" "snd b \<le> snd (widen a b)"
    by (auto simp: widen_def)
  with Cons.IH [of "widen a b"] show ?case by fastforce
qed

lemmas foldl_widen_base = foldl_widen [THEN conjunct1] foldl_widen [THEN conjunct2, THEN conjunct1]
lemmas foldl_widen_elem = foldl_widen [THEN conjunct2, THEN conjunct2, rule_format]

definition inside :: "int \<times> int \<Rightarrow> int \<times> int \<Rightarrow> bool" where
  "inside b c \<longleftrightarrow> fst c \<le> fst b \<and> snd b \<le> snd c"

lemma inside_trans: "inside a b \<Longrightarrow> inside b c \<Longrightarrow> inside a c"
  by (auto simp: inside_def)

lemma timeline_bounds_parts:
  "d \<in> set (tl_ranges tln) \<Longrightarrow> inside (data_range_bounds d) (timeline_bounds tln)"
  "e \<in> set (tl_event_str tln) \<Longrightarrow> inside (event_bounds e) (timeline_bounds tln)"
  "e \<in> set (tl_event_int tln) \<Longrightarrow> inside (event_bounds e) (timeline_bounds tln)"
proof -
  let ?b1 = "foldl widen (0, 0) (map data_range_bounds (tl_ranges tln))"
  let ?b2 = "foldl widen ?b1 (map event_bounds (tl_event_str tln))"
  have tb: "timeline_bounds tln = foldl widen ?b2 (map event_bounds (tl_event_int tln))"
    by (simp add: timeline_bounds_def)
  have b12: "inside ?b1 ?b2" unfolding inside_def by (intro conjI foldl_widen_base)
  have b23: "inside ?b2 (timeline_bounds tln)" unfolding tb inside_def by (intro conjI foldl_widen_base)
  show "inside (data_range_bounds d) (timeline_bounds tln)" if "d \<in> set (tl_ranges tln)"
    using that foldl_widen_elem [of "data_range_bounds d" "map data_range_bounds (tl_ranges tln)" "(0,0)"]
    by (intro inside_trans [OF _ inside_trans [OF b12 b23]]) (auto simp: inside_def)
  show "inside (event_bounds e) (timeline_bounds tln)" if "e \<in> set (tl_event_str tln)"
    using that foldl_widen_elem [of "event_bounds e" "map event_bounds (tl_event_str tln)" ?b1]
    by (intro inside_trans [OF _ b23]) (auto simp: inside_def)
  show "inside (event_bounds e) (timeline_bounds tln)" if "e \<in> set (tl_event_int tln)"
    unfolding tb using that foldl_widen_elem [of "event_bounds e" "map event_bounds (tl_event_int tln)" ?b2]
    by (auto simp: inside_def)
qed

lemma timelines_bounds_parts: "tln \<in> set (timelines ts) \<Longrightarrow> inside (timeline_bounds tln) (timelines_bounds ts)"
  using foldl_widen_elem [of "timeline_bounds tln" "map timeline_bounds (timelines ts)" "(0,0)"]
  by (auto simp: inside_def timelines_bounds_def)

lemma event_bounds_sorted:
  assumes "sorted (map ev_at (te_events t))" and "ev \<in> set (te_events t)"
  shows "inside (ev_at ev, ev_at ev) (event_bounds t)"
proof -
  obtain i where i: "i < length (te_events t)" "ev = te_events t ! i"
    using assms(2) by (auto simp: in_set_conv_nth)
  with sorted_nth_mono [OF assms(1), of 0 i] sorted_nth_mono [OF assms(1), of i "length (te_events t) - 1"]
  show ?thesis by (auto simp: inside_def event_bounds_def hd_conv_nth last_conv_nth)
qed

lemma range_bounds_sorted:
  assumes "sorted (map dr_start (td_ranges t))" and "r \<in> set (td_ranges t)"
  shows "fst (data_range_bounds t) \<le> dr_start r"
    and "ranges_wf (td_ranges t) \<Longrightarrow> dr_end r \<le> snd (data_range_bounds t)"
proof -
  obtain i where i: "i < length (td_ranges t)" "r = td_ranges t ! i"
    using assms(2) by (auto simp: in_set_conv_nth)
  with sorted_nth_mono [OF assms(1), of 0 i] show "fst (data_range_bounds t) \<le> dr_start r"
    by (auto simp: data_range_bounds_def hd_conv_nth)
  show "dr_end r \<le> snd (data_range_bounds t)" if wf: "ranges_wf (td_ranges t)"
    using ranges_wf_chain(2) [OF wf, of i "length (td_ranges t) - 1"] i
    by (cases "i = length (td_ranges t) - 1") (auto simp: data_range_bounds_def last_conv_nth intro: less_imp_le)
qed

lemma strs_of_elem:
  assumes "x \<in> set (strs_of ts n1 n2)"
  obtains tln d where "tln \<in> set (timelines ts)" "d \<in> set (tl_event_str tln)" "strs_of ts n1 n2 = te_events d"
proof -
  obtain tln where t: "find_named tl_name n1 (timelines ts) = Some tln"
    using assms by (cases "find_named tl_name n1 (timelines ts)") (simp_all add: strs_of_def)
  moreover obtain d where d: "find_named te_name n2 (tl_event_str tln) = Some d"
    using assms t by (cases "find_named te_name n2 (tl_event_str tln)") (simp_all add: strs_of_def)
  ultimately show thesis using that [of tln d]
    by (simp add: find_named_Some strs_of_def)
qed

lemma ints_of_elem:
  assumes "x \<in> set (ints_of ts n1 n2)"
  obtains tln d where "tln \<in> set (timelines ts)" "d \<in> set (tl_event_int tln)" "ints_of ts n1 n2 = te_events d"
proof -
  obtain tln where t: "find_named tl_name n1 (timelines ts) = Some tln"
    using assms by (cases "find_named tl_name n1 (timelines ts)") (simp_all add: ints_of_def)
  moreover obtain d where d: "find_named te_name n2 (tl_event_int tln) = Some d"
    using assms t by (cases "find_named te_name n2 (tl_event_int tln)") (simp_all add: ints_of_def)
  ultimately show thesis using that [of tln d]
    by (simp add: find_named_Some ints_of_def)
qed

lemma ranges_of_elem:
  assumes "x \<in> set (ranges_of ts n1 n2)"
  obtains tln d where "tln \<in> set (timelines ts)" "d \<in> set (tl_ranges tln)" "ranges_of ts n1 n2 = td_ranges d"
proof -
  obtain tln where t: "find_named tl_name n1 (timelines ts) = Some tln"
    using assms by (cases "find_named tl_name n1 (timelines ts)") (simp_all add: ranges_of_def)
  moreover obtain d where d: "find_named td_name n2 (tl_ranges tln) = Some d"
    using assms t by (cases "find_named td_name n2 (tl_ranges tln)") (simp_all add: ranges_of_def)
  ultimately show thesis using that [of tln d]
    by (simp add: find_named_Some ranges_of_def)
qed

lemma content_bounds:
  assumes "sorted (map dr_start (ranges_of ts n1 n2))"
    and "sorted (map ev_at (strs_of ts n1 n2))" and "sorted (map ev_at (ints_of ts n1 n2))"
  shows "ev \<in> set (strs_of ts n1 n2) \<Longrightarrow> inside (ev_at ev, ev_at ev) (timelines_bounds ts)"
    and "ev \<in> set (ints_of ts n1 n2) \<Longrightarrow> inside (ev_at ev, ev_at ev) (timelines_bounds ts)"
    and "r \<in> set (ranges_of ts n1 n2) \<Longrightarrow> fst (timelines_bounds ts) \<le> dr_start r"
    and "r \<in> set (ranges_of ts n1 n2) \<Longrightarrow> ranges_wf (ranges_of ts n1 n2) \<Longrightarrow>
      dr_end r \<le> snd (timelines_bounds ts)"
proof -
  show "inside (ev_at ev, ev_at ev) (timelines_bounds ts)" if ev: "ev \<in> set (strs_of ts n1 n2)"
  proof -
    obtain tln d where d: "tln \<in> set (timelines ts)" "d \<in> set (tl_event_str tln)"
        "strs_of ts n1 n2 = te_events d"
      using ev by (rule strs_of_elem)
    show ?thesis
      by (rule inside_trans [OF event_bounds_sorted [of d] inside_trans
          [OF timeline_bounds_parts(2) [OF d(2)] timelines_bounds_parts [OF d(1)]]])
        (use ev assms(2) d in simp_all)
  qed
  show "inside (ev_at ev, ev_at ev) (timelines_bounds ts)" if ev: "ev \<in> set (ints_of ts n1 n2)"
  proof -
    obtain tln d where d: "tln \<in> set (timelines ts)" "d \<in> set (tl_event_int tln)"
        "ints_of ts n1 n2 = te_events d"
      using ev by (rule ints_of_elem)
    show ?thesis
      by (rule inside_trans [OF event_bounds_sorted [of d] inside_trans
          [OF timeline_bounds_parts(3) [OF d(2)] timelines_bounds_parts [OF d(1)]]])
        (use ev assms(3) d in simp_all)
  qed
  assume r: "r \<in> set (ranges_of ts n1 n2)"
  then obtain tln d where d: "tln \<in> set (timelines ts)" "d \<in> set (tl_ranges tln)"
      "ranges_of ts n1 n2 = td_ranges d"
    by (rule ranges_of_elem)
  have w: "inside (data_range_bounds d) (timelines_bounds ts)"
    using inside_trans [OF timeline_bounds_parts(1) [OF d(2)] timelines_bounds_parts [OF d(1)]] .
  show "fst (timelines_bounds ts) \<le> dr_start r"
    using range_bounds_sorted(1) [of d r] r assms(1) d w by (simp add: inside_def)
  show "dr_end r \<le> snd (timelines_bounds ts)" if "ranges_wf (ranges_of ts n1 n2)"
    using range_bounds_sorted(2) [of d r] r assms(1) d w that by (simp add: inside_def)
qed

text \<open>The bounds \<open>main\<close> gives to the renderer, \<open>Timelines.get_bounds\<close> of what
  \<open>read_data\<close> stored, contain every event of the trace and the start of every range, and also the
  end of every range of a line whose ranges do not overlap.\<close>

theorem read_data_bounds:
  assumes "read_data lines = Inr (cs, ts)" and "timelines_bounds ts = (lo, hi)"
  shows "(ev \<in> set (str_entries n1 n2 lines) \<union> set (int_entries n1 n2 lines) \<longrightarrow> lo \<le> ev_at ev \<and> ev_at ev \<le> hi)
    \<and> (r \<in> set (range_entries n1 n2 lines) \<longrightarrow> lo \<le> dr_start r)
    \<and> (r \<in> set (range_entries n1 n2 lines) \<longrightarrow> ranges_wf (sort_key dr_start (range_entries n1 n2 lines)) \<longrightarrow>
         dr_end r \<le> hi)"
proof -
  have c: "ranges_of ts n1 n2 = sort_key dr_start (range_entries n1 n2 lines)"
    "strs_of ts n1 n2 = sort_key ev_at (str_entries n1 n2 lines)"
    "ints_of ts n1 n2 = sort_key ev_at (int_entries n1 n2 lines)"
  proof -
    obtain cs0 ts0 where "fold_e read_line (new_colors, new_timelines) lines = Inr (cs0, ts0)"
      and "ts = timelines_sort ts0"
      using assms(1) by (auto simp: read_data_def bind_e_Inr_iff)
    with read_lines_content [of new_colors new_timelines lines]
    show "ranges_of ts n1 n2 = sort_key dr_start (range_entries n1 n2 lines)"
      "strs_of ts n1 n2 = sort_key ev_at (str_entries n1 n2 lines)"
      "ints_of ts n1 n2 = sort_key ev_at (int_entries n1 n2 lines)"
      by (auto simp: sort_content new_timelines_content)
  qed
  have s: "sorted (map dr_start (ranges_of ts n1 n2))" "sorted (map ev_at (strs_of ts n1 n2))"
    "sorted (map ev_at (ints_of ts n1 n2))"
    by (simp_all add: c)
  show ?thesis using content_bounds [OF s] assms(2) by (auto simp: c inside_def)
qed

definition sample_trace :: "string list" where
  "sample_trace = [''range n0 cpu busy 10 20'', ''event-int n0 q 4 12'', ''range n0 cpu idle 0 5'']"

lemma sample_trace_read:
  "read_data sample_trace = Inr (new_colors, \<lparr>timelines = [\<lparr>tl_name = ''n0'',
     tl_ranges = [\<lparr>td_name = ''cpu'', td_ranges = [\<lparr>dr_start = 0, dr_end = 5, dr_value = ''idle''\<rparr>,
       \<lparr>dr_start = 10, dr_end = 20, dr_value = ''busy''\<rparr>]\<rparr>], tl_event_str = [],
     tl_event_int = [\<lparr>te_name = ''q'', te_events = [EventInt 12 4]\<rparr>]\<rparr>]\<rparr>)"
  by (simp add: read_data_def sample_trace_def read_line_def match_range_def match_event_str_def
      match_event_int_def lit_def run1_def not_blank_def is_digit_def nat_of_digits_def nat_of_base_def
      digit_val_def digit_table_eq put_range_def put_event_int_def timelines_get_def get_range_def
      get_event_int_def new_timeline_def new_timelines_def new_data_range_def new_event_line_def
      add_range_def add_event_def timelines_sort_def timeline_sort_def sort_ranges_def sort_events_def)

theorem read_data_bounds_witness:
  "\<exists>cs ts. read_data sample_trace = Inr (cs, ts) \<and> timelines_bounds ts = (0, 20) \<and>
     EventInt 12 4 \<in> set (int_entries ''n0'' ''q'' sample_trace) \<and>
     0 \<le> ev_at (EventInt 12 4) \<and> ev_at (EventInt 12 4) \<le> 20"
proof (intro exI conjI)
  show run: "read_data sample_trace = Inr (fst (projr (read_data sample_trace)), snd (projr (read_data sample_trace)))"
    by (simp add: sample_trace_read)
  show b: "timelines_bounds (snd (projr (read_data sample_trace))) = (0, 20)"
    by (simp add: sample_trace_read timelines_bounds_def timeline_bounds_def data_range_bounds_def
        event_bounds_def widen_def EventInt_def)
  show e: "EventInt 12 4 \<in> set (int_entries ''n0'' ''q'' sample_trace)"
    by (simp add: int_entries_def sample_trace_def classify_def match_range_def match_event_str_def
      match_event_int_def lit_def run1_def not_blank_def is_digit_def nat_of_digits_def nat_of_base_def
      digit_val_def digit_table_eq)
  show "0 \<le> ev_at (EventInt 12 4)" "ev_at (EventInt 12 4) \<le> 20"
    using read_data_bounds [OF run b, of "EventInt 12 4" "''n0''" "''q''"] e by auto
qed

end
