(* ===== verification/GridScale.thy ===== *)
theory GridScale
  imports GridStore "HOL-Library.While_Combinator"
begin

text \<open>
  The drawing commands of \<open>utils/grid.py\<close> and its two small renderers: the legend
  (\<open>TopLegendRenderer\<close>) and a scale with ticks (\<open>ScaleRenderer\<close>). Cairo is not part of the
  repository: a \<open>draw\<close> method is modelled by the list of context calls it makes, and the text
  extents cairo reports are a parameter \<open>te\<close>. Attributes that \<open>__init__\<close> does not set are
  options.
\<close>

section \<open>The drawing context\<close>

datatype cairo =
    Rectangle pynum pynum pynum pynum
  | SetSourceRgb pynum pynum pynum
  | SetLineWidth pynum
  | StrokePreserve
  | Fill
  | Stroke
  | MoveTo pynum pynum
  | LineTo pynum pynum
  | RelLineTo pynum pynum
  | ClosePath
  | ShowText string
  | SetOperatorSource
  | Save
  | Restore
  | Translate pynum pynum
  | SetDash "pynum list" pynum

record extents =
  y_bearing :: rat
  t_width :: rat
  t_height :: rat

type_synonym text_extents = "string \<Rightarrow> extents"

definition all_letters :: string where
  "all_letters = ''ABCDEFGHIJKLMNOPQRSTUVWXYZabcedefghijklmnopqrstuvwxyz0123456789''"

text \<open>\<open>range(a, b, s)\<close>: a zero step raises.\<close>

definition py_range :: "int \<Rightarrow> int \<Rightarrow> int \<Rightarrow> int list py" where
  "py_range a b s =
     (if s = 0 then Inl ValueError
      else if s > 0 then Inr (map (\<lambda>k. a + s * int k) [0 ..< nat ((b - a + s - 1) div s)])
      else Inr (map (\<lambda>k. a + s * int k) [0 ..< nat ((a - b - s - 1) div (- s))]))"

lemma py_range_elem:
  assumes "py_range a b s = Inr xs" and "x \<in> set xs" and "0 < s"
  shows "a \<le> x \<and> x < b \<and> (x - a) mod s = 0"
proof -
  obtain k where k: "x = a + s * int k" "k < nat ((b - a + s - 1) div s)"
    using assms by (auto simp: py_range_def)
  then have "int k + 1 \<le> (b - a + s - 1) div s" by linarith
  then have "s * (int k + 1) \<le> s * ((b - a + s - 1) div s)"
    using assms(3) by (intro mult_left_mono) auto
  also have "\<dots> \<le> b - a + s - 1" using pos_mod_sign [OF assms(3), of "b - a + s - 1"]
    by (simp add: minus_mod_eq_mult_div [symmetric])
  finally have "s * int k < b - a" by (simp add: algebra_simps)
  with k assms(3) show ?thesis by simp
qed

section \<open>TopLegendRenderer\<close>

record TopLegendRenderer =
  lg_padding :: pynum
  lg_legends :: "string list option"
  lg_colors :: "Color option list option"
  lg_width :: "pynum option"
  lg_height :: "pynum option"

definition new_legend :: TopLegendRenderer where
  "new_legend = \<lparr>lg_padding = I 10, lg_legends = None, lg_colors = None, lg_width = None, lg_height = None\<rparr>"

definition set_padding :: "pynum \<Rightarrow> TopLegendRenderer \<Rightarrow> TopLegendRenderer" where
  "set_padding p lg = lg\<lparr>lg_padding := p\<rparr>"

definition set_legends :: "string list \<Rightarrow> Color option list \<Rightarrow> TopLegendRenderer \<Rightarrow> TopLegendRenderer" where
  "set_legends ls cs lg = lg\<lparr>lg_legends := Some ls, lg_colors := Some cs\<rparr>"

text \<open>
  One turn of the loop that \<open>layout\<close> and \<open>draw\<close> share: the line height, the top of the current
  line and the width used on it, and the x position of the item.
\<close>

record legend_pos =
  line_height :: pynum
  total_height :: pynum
  line_used :: pynum
  item_x :: pynum

definition legend_start :: "pynum \<Rightarrow> legend_pos" where
  "legend_start p = \<lparr>line_height = I 0, total_height = p, line_used = p, item_x = I 0\<rparr>"

definition legend_item :: "text_extents \<Rightarrow> pynum \<Rightarrow> pynum \<Rightarrow> legend_pos \<Rightarrow> string \<Rightarrow> legend_pos" where
  "legend_item te p width pos legend =
     (let item_width = p + p + F (t_width (te legend)) + p;
          item_height = F (t_height (te legend)) + p;
          lh = (if item_height > line_height pos then item_height else line_height pos);
          wrap = line_used pos + item_width > width;
          lu = (if wrap then p + item_width else line_used pos + item_width);
          th = (if wrap then total_height pos + lh else total_height pos)
      in \<lparr>line_height = lh, total_height = th, line_used = lu, item_x = lu - item_width\<rparr>)"

definition legend_layout :: "text_extents \<Rightarrow> pynum \<Rightarrow> TopLegendRenderer \<Rightarrow> TopLegendRenderer py" where
  "legend_layout te width lg =
     bind_e (attr (lg_legends lg)) (\<lambda>legends.
       let pos = foldl (legend_item te (lg_padding lg) width) (legend_start (lg_padding lg)) legends
       in Inr (lg\<lparr>lg_width := Some width, lg_height := Some (total_height pos + line_height pos)\<rparr>))"

definition legend_get_height :: "TopLegendRenderer \<Rightarrow> pynum py" where
  "legend_get_height lg = attr (lg_height lg)"

definition draw_item :: "text_extents \<Rightarrow> pynum \<Rightarrow> legend_pos \<Rightarrow> Color \<Rightarrow> string \<Rightarrow> cairo list" where
  "draw_item te p pos c legend =
     [Rectangle (item_x pos) (total_height pos) p p, SetSourceRgb (I 0) (I 0) (I 0), SetLineWidth (I 2),
      StrokePreserve, SetSourceRgb (col_r c) (col_g c) (col_b c), Fill,
      MoveTo (item_x pos + p * I 2) (total_height pos + F (t_height (te legend))),
      SetSourceRgb (I 0) (I 0) (I 0), ShowText legend]"

definition legend_draw_step ::
  "text_extents \<Rightarrow> TopLegendRenderer \<Rightarrow> int \<times> legend_pos \<times> cairo list \<Rightarrow> string \<Rightarrow> (int \<times> legend_pos \<times> cairo list) py" where
  "legend_draw_step te lg st legend =
     (let (i, pos, cmds) = st in
      bind_e (attr (lg_width lg)) (\<lambda>width.
        let pos' = legend_item te (lg_padding lg) width pos legend in
        bind_e (attr (lg_colors lg)) (\<lambda>colors.
        bind_e (py_get colors i) (\<lambda>entry.
        bind_e (attr entry) (\<lambda>c.
          Inr (i + 1, pos', cmds @ draw_item te (lg_padding lg) pos' c legend))))))"

definition legend_draw :: "text_extents \<Rightarrow> TopLegendRenderer \<Rightarrow> cairo list py" where
  "legend_draw te lg =
     bind_e (attr (lg_legends lg)) (\<lambda>legends.
     bind_e (fold_e (legend_draw_step te lg) (0, legend_start (lg_padding lg), []) legends)
       (\<lambda>(i, pos, cmds). Inr cmds))"

section \<open>ScaleRenderer\<close>

record ScaleRenderer =
  sc_top :: int
  sc_lo :: "pynum option"
  sc_hi :: "pynum option"
  sc_delta :: "pynum option"
  sc_width :: "pynum option"
  sc_height :: "pynum option"
  sc_max_text_height :: "pynum option"

definition new_scale :: ScaleRenderer where
  "new_scale = \<lparr>sc_top = 0, sc_lo = None, sc_hi = None, sc_delta = None, sc_width = None,
     sc_height = None, sc_max_text_height = None\<rparr>"

definition set_bounds :: "pynum \<Rightarrow> pynum \<Rightarrow> ScaleRenderer \<Rightarrow> ScaleRenderer" where
  "set_bounds lo hi sc = sc\<lparr>sc_lo := Some lo, sc_hi := Some hi\<rparr>"

text \<open>\<open>(x - lo) * width / (hi - lo)\<close>, which \<open>get_position\<close> and the tick loops compute.\<close>

definition scale_pos :: "ScaleRenderer \<Rightarrow> pynum \<Rightarrow> pynum py" where
  "scale_pos sc x =
     bind_e (attr (sc_lo sc)) (\<lambda>lo. bind_e (attr (sc_width sc)) (\<lambda>w. bind_e (attr (sc_hi sc)) (\<lambda>hi.
       num_div ((x - lo) * w) (hi - lo))))"

definition get_position :: "ScaleRenderer \<Rightarrow> pynum \<Rightarrow> pynum py" where
  "get_position sc x = scale_pos sc x"

definition set_top :: "ScaleRenderer \<Rightarrow> ScaleRenderer" where
  "set_top sc = sc\<lparr>sc_top := 1\<rparr>"

definition set_bot :: "ScaleRenderer \<Rightarrow> ScaleRenderer" where
  "set_bot sc = sc\<lparr>sc_top := 0\<rparr>"

definition closest_power :: "pynum \<Rightarrow> int" where
  "closest_power data_delta = while (\<lambda>c. I (c * 10) < data_delta) (\<lambda>c. c * 10) 1"

definition scale_delta :: "pynum \<Rightarrow> pynum py" where
  "scale_delta data_delta =
     (let closest = I (closest_power data_delta) in
      bind_e (num_div data_delta closest) (\<lambda>q.
        if num_eq q (I 0) then Inr closest
        else if num_eq q (I 1) then num_div closest (I 10)
        else Inr closest))"

text \<open>The first and the last tick for a spacing.\<close>

definition tick_start :: "pynum \<Rightarrow> pynum \<Rightarrow> pynum py" where
  "tick_start lo delta = bind_e (num_mod lo delta) (\<lambda>m. Inr (lo - m + delta))"

definition tick_end :: "pynum \<Rightarrow> pynum \<Rightarrow> pynum py" where
  "tick_end hi delta = bind_e (num_mod hi delta) (\<lambda>m. Inr (hi - m))"

definition scale_layout :: "text_extents \<Rightarrow> pynum \<Rightarrow> ScaleRenderer \<Rightarrow> ScaleRenderer py" where
  "scale_layout te width sc =
     bind_e (attr (sc_hi sc)) (\<lambda>hi. bind_e (attr (sc_lo sc)) (\<lambda>lo.
     bind_e (scale_delta (hi - lo)) (\<lambda>delta.
     bind_e (tick_start lo delta) (\<lambda>_. bind_e (tick_end hi delta) (\<lambda>_.
       let h = F (t_height (te all_letters)) in
       Inr (sc\<lparr>sc_delta := Some delta, sc_width := Some width, sc_max_text_height := Some h,
         sc_height := Some (h + I 10)\<rparr>))))))"

definition scale_get_height :: "ScaleRenderer \<Rightarrow> pynum py" where
  "scale_get_height sc = attr (sc_height sc)"

definition draw_tick :: "text_extents \<Rightarrow> ScaleRenderer \<Rightarrow> pynum \<Rightarrow> cairo list \<Rightarrow> int \<Rightarrow> cairo list py" where
  "draw_tick te sc s cmds x =
     bind_e (scale_pos sc (I x)) (\<lambda>real_x.
       let ext = te (str_of_int x);
           text_delta = (if sc_top sc \<noteq> 0 then F (t_height ext) + F (y_bearing ext) else - F (y_bearing ext))
       in Inr (cmds @ [MoveTo real_x (I 0), LineTo real_x (I 5 * s), ClosePath, Stroke,
            MoveTo (real_x - half (F (t_width ext))) ((I 5 + I 5 + text_delta) * s),
            ShowText (str_of_int x)]))"

definition draw_subtick :: "ScaleRenderer \<Rightarrow> pynum \<Rightarrow> cairo list \<Rightarrow> int \<Rightarrow> cairo list py" where
  "draw_subtick sc s cmds x =
     bind_e (scale_pos sc (I x)) (\<lambda>real_x.
       Inr (cmds @ [MoveTo real_x (I 0), LineTo real_x (I 3 * s), ClosePath, Stroke]))"

text \<open>The tick values for a spacing: \<open>range(int(start), int(end + delta), int(delta))\<close>.\<close>

definition tick_values :: "pynum \<Rightarrow> pynum \<Rightarrow> pynum \<Rightarrow> int list py" where
  "tick_values lo hi delta =
     bind_e (tick_start lo delta) (\<lambda>start. bind_e (tick_end hi delta) (\<lambda>end.
       py_range (py_int start) (py_int (end + delta)) (py_int delta)))"

definition scale_draw :: "text_extents \<Rightarrow> ScaleRenderer \<Rightarrow> cairo list py" where
  "scale_draw te sc =
     bind_e (attr (sc_delta sc)) (\<lambda>delta. bind_e (attr (sc_lo sc)) (\<lambda>lo. bind_e (attr (sc_hi sc)) (\<lambda>hi.
       let s = (if sc_top sc = 1 then I (- 1) else I 1) in
       bind_e (tick_values lo hi delta) (\<lambda>ticks.
       bind_e (fold_e (draw_tick te sc s) [SetSourceRgb (I 0) (I 0) (I 0), SetLineWidth (F 1)] ticks) (\<lambda>cmds.
       bind_e (num_div delta (I 10)) (\<lambda>sub.
         if sub > I 0
         then bind_e (tick_values lo hi sub) (\<lambda>subs. fold_e (draw_subtick sc s) cmds subs)
         else Inr cmds))))))"

section \<open>The legend fits its height\<close>

definition legend_inv :: "pynum \<Rightarrow> legend_pos \<Rightarrow> bool" where
  "legend_inv p pos \<longleftrightarrow> p \<le> total_height pos \<and> I 0 \<le> line_height pos"

lemma legend_item_grows:
  assumes "legend_inv p pos"
  shows "legend_inv p (legend_item te p w pos l)"
    and "nval (total_height pos) + nval (line_height pos)
      \<le> nval (total_height (legend_item te p w pos l)) + nval (line_height (legend_item te p w pos l))"
    and "nval p + t_height (te l) \<le> nval (line_height (legend_item te p w pos l))"
  using assms by (auto simp: legend_inv_def legend_item_def Let_def pynum_order)

lemma legend_item_top:
  assumes "legend_inv p pos" and "0 \<le> t_height (te l)"
  shows "nval p \<le> nval (total_height (legend_item te p w pos l))"
    and "nval (total_height (legend_item te p w pos l)) + nval p
      \<le> nval (total_height (legend_item te p w pos l)) + nval (line_height (legend_item te p w pos l))"
  using legend_item_grows [OF assms(1), where te = te and l = l and w = w] assms by (auto simp: legend_inv_def pynum_order)

definition boxes_fit :: "pynum \<Rightarrow> pynum \<Rightarrow> cairo list \<Rightarrow> bool" where
  "boxes_fit y0 y1 cmds \<longleftrightarrow> (\<forall>x y w h. Rectangle x y w h \<in> set cmds \<longrightarrow> y0 \<le> y \<and> y + h \<le> y1)"

lemma boxes_fit_mono: "boxes_fit a b cmds \<Longrightarrow> b \<le> c \<Longrightarrow> boxes_fit a c cmds"
  by (fastforce simp: boxes_fit_def pynum_order)

lemma legend_draw_step_Inr:
  assumes "legend_draw_step te lg (i, pos, cmds) l = Inr st" and "lg_width lg = Some w"
  shows "\<exists>c. st = (i + 1, legend_item te (lg_padding lg) w pos l,
    cmds @ draw_item te (lg_padding lg) (legend_item te (lg_padding lg) w pos l) c l)"
  using assms by (auto simp: legend_draw_step_def bind_e_Inr_iff Let_def)

lemma legend_draw_fold:
  assumes "fold_e (legend_draw_step te lg) (i, pos, cmds) ls = Inr (j, pos', cmds')"
    and "lg_width lg = Some w" and "\<forall>l \<in> set ls. 0 \<le> t_height (te l)"
    and "legend_inv (lg_padding lg) pos"
    and "boxes_fit (lg_padding lg) (total_height pos + line_height pos) cmds"
  shows "pos' = foldl (legend_item te (lg_padding lg) w) pos ls
    \<and> boxes_fit (lg_padding lg) (total_height pos' + line_height pos') cmds'"
  using assms
proof (induction ls arbitrary: i pos cmds)
  case Nil
  then show ?case by simp
next
  case (Cons l ls)
  let ?p = "lg_padding lg"
  let ?pos = "legend_item te ?p w pos l"
  from Cons.prems(1) obtain st where st: "legend_draw_step te lg (i, pos, cmds) l = Inr st"
      "fold_e (legend_draw_step te lg) st ls = Inr (j, pos', cmds')"
    by (auto simp: bind_e_Inr_iff)
  then obtain c where c: "st = (i + 1, ?pos, cmds @ draw_item te ?p ?pos c l)"
    using legend_draw_step_Inr [OF st(1) Cons.prems(2)] by blast
  have grow: "total_height pos + line_height pos \<le> total_height ?pos + line_height ?pos"
    using legend_item_grows(2) [OF Cons.prems(4)] by (simp add: pynum_order)
  have "boxes_fit ?p (total_height ?pos + line_height ?pos) (draw_item te ?p ?pos c l)"
    using legend_item_top [OF Cons.prems(4), where te = te and l = l and w = w] Cons.prems(3)
    by (auto simp: boxes_fit_def draw_item_def pynum_order)
  with boxes_fit_mono [OF Cons.prems(5) grow]
  have "boxes_fit ?p (total_height ?pos + line_height ?pos) (cmds @ draw_item te ?p ?pos c l)"
    by (auto simp: boxes_fit_def)
  then show ?case
    using Cons.IH [OF st(2) [unfolded c] Cons.prems(2) _ legend_item_grows(1) [OF Cons.prems(4)]] Cons.prems(3)
    by auto
qed

text \<open>Every box the legend draws lies below the top padding and ends above the height
  \<open>layout\<close> computed, so the legend never paints into the timelines below it.\<close>

theorem legend_boxes_fit:
  assumes "\<forall>l. 0 \<le> t_height (te l)"
    and "legend_layout te w lg = Inr lg'" and "legend_draw te lg' = Inr cmds"
    and "legend_get_height lg' = Inr h"
  shows "boxes_fit (lg_padding lg) h cmds"
proof -
  obtain ls where ls: "lg_legends lg = Some ls"
    using assms(2) by (auto simp: legend_layout_def bind_e_Inr_iff attr_Inr_iff)
  let ?pos = "foldl (legend_item te (lg_padding lg) w) (legend_start (lg_padding lg)) ls"
  have lg': "lg' = lg\<lparr>lg_width := Some w, lg_height := Some (total_height ?pos + line_height ?pos)\<rparr>"
    using assms(2) ls by (simp add: legend_layout_def Let_def)
  obtain j pos' where run: "fold_e (legend_draw_step te lg') (0, legend_start (lg_padding lg'), []) ls
      = Inr (j, pos', cmds)"
    using assms(3) ls by (auto simp: legend_draw_def bind_e_Inr_iff lg')
  have "legend_inv (lg_padding lg) (legend_start (lg_padding lg))"
    by (simp add: legend_inv_def legend_start_def)
  moreover have "boxes_fit (lg_padding lg) y []" for y by (simp add: boxes_fit_def)
  moreover have "lg_padding lg' = lg_padding lg" "lg_width lg' = Some w" by (simp_all add: lg')
  ultimately have "pos' = ?pos \<and> boxes_fit (lg_padding lg) (total_height pos' + line_height pos') cmds"
    using legend_draw_fold [OF run] assms(1) by auto
  with assms(4) show ?thesis by (auto simp: lg' legend_get_height_def)
qed

definition unit_text :: text_extents where
  "unit_text s = \<lparr>y_bearing = -8, t_width = 6 * of_nat (length s), t_height = 8\<rparr>"

definition sample_legend :: TopLegendRenderer where
  "sample_legend = set_legends [''busy'', ''idle'']
     [Some (mk_color (I 1) (I 0) (I 0)), Some (mk_color (I 0) (I 1) (I 0))] new_legend"

theorem legend_boxes_fit_witness:
  "\<exists>lg' cmds. legend_layout unit_text (I 60) sample_legend = Inr lg' \<and> legend_draw unit_text lg' = Inr cmds
     \<and> Rectangle (F 10) (F 28) (I 10) (I 10) \<in> set cmds \<and> boxes_fit (I 10) (F 64) cmds"
proof -
  let ?l = "projr (legend_layout unit_text (I 60) sample_legend)"
  let ?c = "projr (legend_draw unit_text ?l)"
  note defs = sample_legend_def set_legends_def new_legend_def legend_layout_def legend_item_def
    legend_start_def unit_text_def pynum_order legend_draw_def legend_draw_step_def Let_def py_get_def
    norm_index_def draw_item_def mk_color_def
  have 1: "legend_layout unit_text (I 60) sample_legend = Inr ?l" by (simp add: defs)
  have 2: "legend_draw unit_text ?l = Inr ?c" by (simp add: defs)
  have 3: "legend_get_height ?l = Inr (F 64)" by (simp add: defs legend_get_height_def)
  have "boxes_fit (lg_padding sample_legend) (F 64) ?c"
    by (rule legend_boxes_fit [OF _ 1 2 3]) (simp add: unit_text_def)
  moreover have "Rectangle (F 10) (F 28) (I 10) (I 10) \<in> set ?c" by (simp add: defs)
  ultimately show ?thesis using 1 2 by (auto simp: sample_legend_def set_legends_def new_legend_def)
qed

section \<open>The scale\<close>

lemma closest_power_result:
  "\<exists>k. closest_power dd = 10 ^ k \<and> (k = 0 \<or> 10 ^ k < nval dd) \<and> nval dd \<le> 10 ^ Suc k"
proof -
  let ?P = "\<lambda>c. \<exists>k. c = 10 ^ k \<and> (k = 0 \<or> of_int c < nval dd)"
  have "?P (closest_power dd) \<and> \<not> I (closest_power dd * 10) < dd"
    unfolding closest_power_def
  proof (rule while_rule [where P = ?P and r = "measure (\<lambda>c. nat (\<lceil>nval dd\<rceil> - c))"])
    show "?P 1" by (intro exI [of _ 0]) simp
  next
    fix c assume "?P c" and less: "I (c * 10) < dd"
    then obtain k where "c = 10 ^ k" by blast
    with less show "?P (c * 10)" by (intro exI [of _ "Suc k"]) (simp add: pynum_order)
    have "0 < c" using \<open>c = 10 ^ k\<close> by simp
    moreover have "c * 10 < \<lceil>nval dd\<rceil>" using less by (simp add: pynum_order less_ceiling_iff)
    ultimately show "(c * 10, c) \<in> measure (\<lambda>c. nat (\<lceil>nval dd\<rceil> - c))" by simp
  qed auto
  then have run: "?P (closest_power dd)" and stop: "\<not> I (closest_power dd * 10) < dd" by blast+
  obtain k where k: "closest_power dd = 10 ^ k" "k = 0 \<or> of_int (closest_power dd) < nval dd"
    using run by blast
  have "nval dd \<le> of_int (closest_power dd * 10)"
    using stop by (simp add: pynum_order not_less)
  with k show ?thesis by (intro exI [of _ k]) (simp add: mult.commute)
qed

lemma num_eq_div_one:
  assumes "num_div dd (I 1) = Inr q"
  shows "num_eq q (I c) \<longleftrightarrow> nval dd = of_int c"
  using assms by (cases dd) (auto simp: num_div_def num_eq_def)

text \<open>The spacing: a power of ten, or 0 when the range is exactly 1.\<close>

lemma scale_delta_result:
  obtains (zero) "nval dd = 1" "scale_delta dd = Inr (I 0)"
  | (pos) k where "nval dd \<noteq> 1" "scale_delta dd = Inr (I (10 ^ k))"
proof -
  obtain k where k: "closest_power dd = 10 ^ k" "k = 0 \<or> 10 ^ k < nval dd"
    using closest_power_result by blast
  obtain q where q: "num_div dd (I (10 ^ k)) = Inr q"
    by (simp add: num_div_def)
  have sd: "scale_delta dd = (if num_eq q (I 0) then Inr (I (10 ^ k))
      else if num_eq q (I 1) then Inr (I (10 ^ k div 10)) else Inr (I (10 ^ k)))"
    by (simp add: scale_delta_def k(1) q num_div_def [of "I (10 ^ k)"])
  show thesis
  proof (cases k)
    case 0
    with q have "num_eq q (I 0) \<longleftrightarrow> nval dd = 0" "num_eq q (I 1) \<longleftrightarrow> nval dd = 1"
      using num_eq_div_one [of dd q 0] num_eq_div_one [of dd q 1] by auto
    with sd 0 show thesis using pos [of 0] zero by (cases "nval dd = 1"; cases "nval dd = 0") auto
  next
    case (Suc j)
    with k have "nval dd \<noteq> 1" using one_le_power [of "10::rat" k] by auto
    moreover have "scale_delta dd = Inr (I (10 ^ Suc j)) \<or> scale_delta dd = Inr (I (10 ^ j))"
      using sd Suc by auto
    ultimately show thesis using pos by blast
  qed
qed

lemma tick_start_end_ok:
  "nval d \<noteq> 0 \<Longrightarrow> is_ok (tick_start lo d)" "nval d = 0 \<Longrightarrow> tick_start lo d = Inl ZeroDivisionError"
  "nval d \<noteq> 0 \<Longrightarrow> is_ok (tick_end hi d)"
  by (simp_all add: tick_start_def tick_end_def num_mod_def)

lemma scale_layout_result:
  assumes "sc_lo sc = Some lo" and "sc_hi sc = Some hi"
  shows "scale_layout te w sc =
    (if nval hi - nval lo = 1 then Inl ZeroDivisionError
     else Inr (sc\<lparr>sc_delta := Some (projr (scale_delta (hi - lo))), sc_width := Some w,
       sc_max_text_height := Some (F (t_height (te all_letters))),
       sc_height := Some (F (t_height (te all_letters)) + I 10)\<rparr>))"
proof (cases rule: scale_delta_result [of "hi - lo"])
  case zero
  with assms show ?thesis by (simp add: scale_layout_def tick_start_end_ok(2))
next
  case (pos k)
  then have "is_ok (tick_start lo (I (10 ^ k)))" "is_ok (tick_end hi (I (10 ^ k)))"
    by (simp_all add: tick_start_end_ok)
  with pos assms show ?thesis by (auto simp: scale_layout_def is_ok_iff Let_def)
qed

text \<open>The layout of a scale succeeds for every range except one of length exactly 1,
  for which the spacing becomes 0 and the modulo that follows raises \<open>ZeroDivisionError\<close>.\<close>

theorem scale_layout_error:
  assumes "sc_lo sc = Some lo" and "sc_hi sc = Some hi"
  shows "scale_layout te w sc =
    (if nval hi - nval lo = 1 then Inl ZeroDivisionError
     else Inr (sc\<lparr>sc_delta := Some (projr (scale_delta (hi - lo))), sc_width := Some w,
       sc_max_text_height := Some (F (t_height (te all_letters))),
       sc_height := Some (F (t_height (te all_letters)) + I 10)\<rparr>))"
  by (rule scale_layout_result [OF assms])

theorem scale_layout_error_witness:
  "scale_layout unit_text (I 100) (set_bounds (I 0) (I 1) new_scale) = Inl ZeroDivisionError"
  by (subst scale_layout_error [of _ "I 0" "I 1"]) (simp_all add: set_bounds_def new_scale_def)

lemma py_range_multiples:
  assumes "0 < d"
  shows "py_range (d * a) (d * b) d = Inr (map (\<lambda>k. d * (a + int k)) [0 ..< nat (b - a)])"
proof -
  have "((d - 1) + (b - a) * d) div d = (b - a) + (d - 1) div d"
    using assms by (intro div_mult_self1) simp
  moreover have "(d - 1) div d = 0" using assms by (simp add: div_pos_pos_trivial)
  moreover have "d * b - d * a + d - 1 = (d - 1) + (b - a) * d" by (simp add: algebra_simps)
  ultimately have "(d * b - d * a + d - 1) div d = b - a" by presburger
  with assms show ?thesis by (simp add: py_range_def distrib_left)
qed

lemma tick_values_int:
  assumes "0 < d"
  shows "tick_values (I lo) (I hi) (I d) =
    Inr (map (\<lambda>k. d * (lo div d + 1 + int k)) [0 ..< nat (hi div d - lo div d)])"
proof -
  have "lo - lo mod d + d = d * (lo div d + 1)" "hi - hi mod d + d = d * (hi div d + 1)"
    by (simp_all add: minus_mod_eq_mult_div algebra_simps)
  with assms py_range_multiples [OF assms, of "lo div d + 1" "hi div d + 1"] show ?thesis
    by (simp add: tick_values_def tick_start_def tick_end_def num_mod_def)
qed

lemma between_multiples:
  assumes "0 < (d::int)"
  shows "lo div d < q \<longleftrightarrow> lo < d * q" and "q \<le> lo div d \<longleftrightarrow> d * q \<le> lo"
proof -
  show "q \<le> lo div d \<longleftrightarrow> d * q \<le> lo"
  proof
    assume "q \<le> lo div d"
    then have "d * q \<le> d * (lo div d)" using assms by simp
    also have "\<dots> \<le> lo" using pos_mod_sign [OF assms, of lo] minus_mod_eq_mult_div [of lo d] by linarith
    finally show "d * q \<le> lo" .
  next
    assume "d * q \<le> lo"
    then have "(d * q) div d \<le> lo div d" using assms by (rule zdiv_mono1)
    then show "q \<le> lo div d" using assms by simp
  qed
  then show "lo div d < q \<longleftrightarrow> lo < d * q" by linarith
qed

lemma tick_values_set:
  assumes "0 < d"
  shows "x \<in> (\<lambda>k. d * (lo div d + 1 + int k)) ` {0 ..< nat (hi div d - lo div d)} \<longleftrightarrow>
    lo < x \<and> x \<le> hi \<and> d dvd x"
proof
  assume "x \<in> (\<lambda>k. d * (lo div d + 1 + int k)) ` {0 ..< nat (hi div d - lo div d)}"
  then obtain k where k: "x = d * (lo div d + 1 + int k)" "k \<in> {0 ..< nat (hi div d - lo div d)}"
    by (rule imageE)
  then have "k < nat (hi div d - lo div d)" unfolding atLeastLessThan_iff by (elim conjunct2)
  then have q: "lo div d < lo div d + 1 + int k" "lo div d + 1 + int k \<le> hi div d" by linarith+
  have "lo < x" "x \<le> hi"
    unfolding k(1) using q between_multiples [OF assms] by blast+
  moreover have "d dvd x" unfolding k(1) by (rule dvd_triv_left)
  ultimately show "lo < x \<and> x \<le> hi \<and> d dvd x" by (intro conjI)
next
  assume x: "lo < x \<and> x \<le> hi \<and> d dvd x"
  then obtain q where q: "x = d * q" by (elim conjE dvdE)
  have "lo < d * q" "d * q \<le> hi" using x unfolding q by blast+
  then have b: "lo div d < q" "q \<le> hi div d"
    using between_multiples [OF assms] by blast+
  define k where "k = nat (q - lo div d - 1)"
  have "x = d * (lo div d + 1 + int k)" unfolding q k_def using b(1) by simp
  moreover have "k \<in> {0 ..< nat (hi div d - lo div d)}" unfolding k_def using b by simp
  ultimately show "x \<in> (\<lambda>k. d * (lo div d + 1 + int k)) ` {0 ..< nat (hi div d - lo div d)}"
    by (rule image_eqI)
qed

text \<open>The closest power of ten: at most the range, and at least a tenth of it.\<close>

lemma scale_delta_int:
  assumes "0 < dd" and "dd \<noteq> 1"
  shows "\<exists>k. scale_delta (I dd) = Inr (I (10 ^ k)) \<and> 10 ^ k \<le> dd \<and> dd \<le> 20 * 10 ^ k"
proof -
  obtain k where k: "closest_power (I dd) = 10 ^ k" "k = 0 \<or> (10 ^ k :: int) < dd" "dd \<le> 10 ^ Suc k"
    using closest_power_result [of "I dd"]
    by (metis nval.simps(1) of_int_le_iff of_int_less_iff of_int_numeral of_int_power)
  have ge: "10 ^ k \<le> dd" using k(2) assms(1) by auto
  then have "0 < dd div 10 ^ k" by (simp add: pos_imp_zdiv_pos_iff)
  then have "dd div 10 ^ k \<noteq> 0" by simp
  then have sd: "scale_delta (I dd) = (if dd div 10 ^ k = 1 then Inr (I (10 ^ k div 10)) else Inr (I (10 ^ k)))"
    by (simp add: scale_delta_def k(1) num_div_def num_eq_def)
  show ?thesis
  proof (cases "dd div 10 ^ k = 1")
    case True
    have "k \<noteq> 0"
    proof
      assume "k = 0"
      with True assms(2) show False by simp
    qed
    then obtain j where j: "k = Suc j" by (cases k) auto
    have "\<not> 2 \<le> dd div 10 ^ k" using True by simp
    then have "dd < 2 * 10 ^ k" using between_multiples(2) [of "10 ^ k" 2 dd] by simp
    with sd True j ge have "scale_delta (I dd) = Inr (I (10 ^ j)) \<and> 10 ^ j \<le> dd \<and> dd \<le> 20 * 10 ^ j"
      by simp
    then show ?thesis by blast
  next
    case False
    with sd ge k(3) have "scale_delta (I dd) = Inr (I (10 ^ k)) \<and> 10 ^ k \<le> dd \<and> dd \<le> 20 * 10 ^ k"
      by simp
    then show ?thesis by blast
  qed
qed

lemma multiples_count:
  assumes "0 < (d::int)" and "hi - lo \<le> 20 * d"
  shows "hi div d - lo div d \<le> 20"
proof -
  have "hi < d * (lo div d + 21)"
  proof -
    have "lo < d * (lo div d + 1)" using between_multiples(1) [OF assms(1), of lo "lo div d + 1"] by simp
    with assms(2) show ?thesis by (simp add: distrib_left)
  qed
  then have "hi div d < lo div d + 21" using between_multiples(1) [OF assms(1)] by blast
  then show ?thesis by simp
qed

text \<open>C39: for integer bounds the ticks of a laid out scale are exactly the multiples of its
  spacing that lie in \<open>(lo, hi]\<close>, in increasing order, the spacing is a power of ten, and there are at
  most 20 of them however wide the range is.\<close>

theorem scale_ticks:
  assumes "lo < hi" and "hi - lo \<noteq> 1"
    and "scale_layout te w (set_bounds (I lo) (I hi) sc) = Inr sc'"
  shows "\<exists>k ticks. sc_delta sc' = Some (I (10 ^ k)) \<and> tick_values (I lo) (I hi) (I (10 ^ k)) = Inr ticks
    \<and> sorted_wrt (<) ticks \<and> set ticks = {x. lo < x \<and> x \<le> hi \<and> 10 ^ k dvd x} \<and> length ticks \<le> 20"
proof -
  from assms scale_delta_int [of "hi - lo"] obtain k where
    k: "scale_delta (I (hi - lo)) = Inr (I (10 ^ k))" "hi - lo \<le> 20 * 10 ^ k" by auto
  define d :: int where "d = 10 ^ k"
  have d: "0 < d" by (simp add: d_def)
  let ?ticks = "map (\<lambda>k. d * (lo div d + 1 + int k)) [0 ..< nat (hi div d - lo div d)]"
  have "set ?ticks = {x. lo < x \<and> x \<le> hi \<and> d dvd x}"
    using tick_values_set [OF d, of _ lo hi] by (simp only: set_map set_upt) blast
  moreover have "sorted_wrt (<) ?ticks" using d by (simp add: sorted_wrt_iff_nth_less)
  moreover have "length ?ticks \<le> 20" using multiples_count [OF d, of hi lo] k(2) by (simp add: d_def)
  moreover have "sc_delta sc' = Some (I d)"
    using assms(3) k(1) by (auto simp: scale_layout_def set_bounds_def bind_e_Inr_iff Let_def d_def)
  ultimately show ?thesis using tick_values_int [OF d, of lo hi] unfolding d_def by blast
qed

theorem scale_ticks_witness:
  "\<exists>k ticks. tick_values (I 3) (I 38) (I (10 ^ k)) = Inr ticks
    \<and> set ticks = {x. 3 < x \<and> x \<le> 38 \<and> 10 ^ k dvd x} \<and> length ticks \<le> 20"
proof -
  have "is_ok (scale_layout unit_text (I 400) (set_bounds (I 3) (I 38) new_scale))"
    by (subst scale_layout_result [of _ "I 3" "I 38"]) (simp_all add: set_bounds_def)
  then obtain sc' where "scale_layout unit_text (I 400) (set_bounds (I 3) (I 38) new_scale) = Inr sc'"
    by (auto simp: is_ok_iff)
  from scale_ticks [OF _ _ this] show ?thesis by auto
qed

end
