(* ===== verification/GridLines.thy ===== *)
theory GridLines
  imports GridScale
begin

text \<open>
  \<open>TimelinesRenderer\<close> of \<open>utils/grid.py\<close>: the layout of the rows of all timelines and the
  drawing of their events and ranges. The attributes other than \<open>padding\<close> are set by
  \<open>set_timelines\<close>, \<open>set_render_range\<close>, \<open>layout\<close> and \<open>draw\<close>; until then they are \<open>None\<close>.
\<close>

section \<open>State and layout\<close>

record TimelinesRenderer =
  tr_padding :: pynum
  tr_timelines :: "Timelines option"
  tr_colors :: "Colors option"
  tr_start :: "pynum option"
  tr_end :: "pynum option"
  tr_left_width :: "pynum option"
  tr_right_width :: "pynum option"
  tr_max_text_height :: "pynum option"
  tr_width :: "pynum option"
  tr_height :: "pynum option"
  tr_grey :: "int option"

definition new_lines :: TimelinesRenderer where
  "new_lines = \<lparr>tr_padding = I 10, tr_timelines = None, tr_colors = None, tr_start = None, tr_end = None,
     tr_left_width = None, tr_right_width = None, tr_max_text_height = None, tr_width = None,
     tr_height = None, tr_grey = None\<rparr>"

definition lines_get_height :: "TimelinesRenderer \<Rightarrow> pynum py" where
  "lines_get_height tr = attr (tr_height tr)"

definition set_timelines :: "Timelines \<Rightarrow> Colors \<Rightarrow> TimelinesRenderer \<Rightarrow> TimelinesRenderer" where
  "set_timelines ts cs tr = tr\<lparr>tr_timelines := Some ts, tr_colors := Some cs\<rparr>"

definition set_render_range :: "pynum \<Rightarrow> pynum \<Rightarrow> TimelinesRenderer \<Rightarrow> TimelinesRenderer" where
  "set_render_range s e tr = tr\<lparr>tr_start := Some s, tr_end := Some e\<rparr>"

definition get_data_x_start :: "TimelinesRenderer \<Rightarrow> pynum py" where
  "get_data_x_start tr =
     bind_e (attr (tr_left_width tr)) (\<lambda>lw. bind_e (attr (tr_right_width tr)) (\<lambda>rw.
       Inr (half (tr_padding tr) + lw + tr_padding tr + rw + half (tr_padding tr))))"

text \<open>The loop of \<open>layout\<close> over one timeline: the two column widths and the three row counts.\<close>

record row_count =
  left_w :: pynum
  right_w :: pynum
  left_n :: int
  range_n :: int
  int_n :: int
  str_n :: int

definition count_start :: row_count where
  "count_start = \<lparr>left_w = I 0, right_w = I 0, left_n = 0, range_n = 0, int_n = 0, str_n = 0\<rparr>"

definition widest :: "text_extents \<Rightarrow> pynum \<Rightarrow> string \<Rightarrow> pynum" where
  "widest te w name = num_max w (F (t_width (te name)))"

definition count_rows :: "text_extents \<Rightarrow> row_count \<Rightarrow> Timeline \<Rightarrow> row_count" where
  "count_rows te rc tln =
     (let rw = foldl (widest te) (right_w rc) (map td_name (tl_ranges tln));
          rw = foldl (widest te) rw (map te_name (tl_event_int tln));
          rw = foldl (widest te) rw (map te_name (tl_event_str tln))
      in \<lparr>left_w = widest te (left_w rc) (tl_name tln), right_w = rw, left_n = left_n rc + 1,
          range_n = range_n rc + int (length (tl_ranges tln)),
          int_n = int_n rc + int (length (tl_event_int tln)),
          str_n = str_n rc + int (length (tl_event_str tln))\<rparr>)"

definition lines_layout :: "text_extents \<Rightarrow> pynum \<Rightarrow> TimelinesRenderer \<Rightarrow> TimelinesRenderer py" where
  "lines_layout te width tr =
     bind_e (attr (tr_timelines tr)) (\<lambda>ts.
       let mth = F (t_height (te all_letters));
           p = tr_padding tr;
           rc = foldl (count_rows te) count_start (timelines ts);
           left_height = I (left_n rc) * mth + I (left_n rc - 1) * p;
           right_n_lines = range_n rc + int_n rc + str_n rc;
           right_height = I (right_n_lines - 1) * p + I right_n_lines * mth;
           right_data_height = I (int_n rc + str_n rc) * (mth + I 5) + I (range_n rc * 10);
           right_data_height = right_data_height + I (right_n_lines - 1) * p;
           height = num_max (num_max left_height right_height) right_data_height
       in Inr (tr\<lparr>tr_left_width := Some (left_w rc), tr_right_width := Some (right_w rc),
            tr_max_text_height := Some mth, tr_width := Some width, tr_height := Some (height + p)\<rparr>))"

section \<open>Drawing\<close>

definition draw_line :: "pynum \<Rightarrow> pynum \<Rightarrow> pynum \<Rightarrow> pynum \<Rightarrow> cairo list" where
  "draw_line x y width height =
     [MoveTo x y, RelLineTo width height, ClosePath, SetOperatorSource, SetLineWidth (F 1),
      SetSourceRgb (I 0) (I 0) (I 0), Stroke]"

text \<open>Every second row has a grey background.\<close>

definition row_background :: "TimelinesRenderer \<Rightarrow> pynum \<Rightarrow> pynum \<Rightarrow> pynum \<Rightarrow> pynum \<Rightarrow> cairo list py" where
  "row_background tr x y width height =
     bind_e (attr (tr_grey tr)) (\<lambda>g.
       Inr (if g mod 2 = 0
            then [Rectangle x (y - half (tr_padding tr)) width (height + tr_padding tr),
                  SetSourceRgb (F (9/10)) (F (9/10)) (F (9/10)), Fill]
            else []))"

text \<open>The pixel column of a time: \<open>int(x + (t - start) * width / (end - start))\<close>.\<close>

definition time_pixel :: "pynum \<Rightarrow> pynum \<Rightarrow> pynum \<Rightarrow> pynum \<Rightarrow> pynum \<Rightarrow> int py" where
  "time_pixel start end x width t =
     bind_e (num_div ((t - start) * width) (end - start)) (\<lambda>q. Inr (py_int (x + q)))"

definition str_of_value :: "event_value \<Rightarrow> string" where
  "str_of_value v = (case v of EvStr s \<Rightarrow> s | EvInt i \<Rightarrow> str_of_int i)"

definition draw_event_step ::
  "TimelinesRenderer \<Rightarrow> pynum \<Rightarrow> pynum \<Rightarrow> pynum \<Rightarrow> int \<times> cairo list \<Rightarrow> event \<Rightarrow> (int \<times> cairo list) py" where
  "draw_event_step tr x y width st ev =
     (let (last_x, cmds) = st in
      bind_e (attr (tr_start tr)) (\<lambda>start. bind_e (attr (tr_end tr)) (\<lambda>end.
      bind_e (time_pixel start end x width (I (ev_at ev))) (\<lambda>real_x.
        if real_x > last_x + 2
        then bind_e (attr (tr_max_text_height tr)) (\<lambda>mth.
          Inr (real_x, cmds @ [Rectangle (I real_x) y (I 1) (I 1), SetSourceRgb (I 1) (I 0) (I 0), Stroke,
            MoveTo (I real_x) (y + mth), SetSourceRgb (I 0) (I 0) (I 0),
            ShowText (str_of_value (ev_value ev))]))
        else Inr (last_x, cmds)))))"

definition next_row :: "TimelinesRenderer \<Rightarrow> TimelinesRenderer py" where
  "next_row tr = bind_e (attr (tr_grey tr)) (\<lambda>g. Inr (tr\<lparr>tr_grey := Some (g + 1)\<rparr>))"

definition draw_events ::
  "TimelinesRenderer \<Rightarrow> TimelineEvent \<Rightarrow> pynum \<Rightarrow> pynum \<Rightarrow> pynum \<Rightarrow> pynum \<Rightarrow> (TimelinesRenderer \<times> cairo list) py" where
  "draw_events tr line x y width height =
     bind_e (row_background tr x y width height) (\<lambda>bg.
     bind_e (attr (tr_start tr)) (\<lambda>start. bind_e (attr (tr_end tr)) (\<lambda>end.
     bind_e (get_events_bounds line start end) (\<lambda>(lo, hi).
     bind_e (fold_e (draw_event_step tr x y width) (py_int x, bg) (py_slice (te_events line) lo hi)) (\<lambda>(l, cmds).
     bind_e (next_row tr) (\<lambda>tr'. Inr (tr', cmds)))))))"

definition draw_range_step ::
  "pynum \<Rightarrow> pynum \<Rightarrow> pynum \<Rightarrow> TimelinesRenderer \<times> int \<times> cairo list \<Rightarrow> DataRange
     \<Rightarrow> (TimelinesRenderer \<times> int \<times> cairo list) py" where
  "draw_range_step x y width st dr =
     (let (tr, last_x, cmds) = st in
      bind_e (attr (tr_start tr)) (\<lambda>start. bind_e (attr (tr_end tr)) (\<lambda>end.
        let s = num_max (I (dr_start dr)) start; e = num_min (I (dr_end dr)) end in
        bind_e (time_pixel start end x width s) (\<lambda>x_start.
        bind_e (time_pixel start end x width e) (\<lambda>x_end.
          if x_end > last_x
          then bind_e (attr (tr_colors tr)) (\<lambda>colors.
            bind_e (colors_lookup colors (dr_value dr)) (\<lambda>(entry, colors').
            bind_e (attr entry) (\<lambda>c.
              Inr (tr\<lparr>tr_colors := Some colors'\<rparr>, x_end,
                cmds @ [Rectangle (I x_start) y (I (x_end - x_start)) (I 10), SetSourceRgb (I 0) (I 0) (I 0),
                  StrokePreserve, SetSourceRgb (col_r c) (col_g c) (col_b c), Fill]))))
          else Inr st)))))"

definition draw_ranges ::
  "TimelinesRenderer \<Rightarrow> TimelineDataRange \<Rightarrow> pynum \<Rightarrow> pynum \<Rightarrow> pynum \<Rightarrow> pynum \<Rightarrow> (TimelinesRenderer \<times> cairo list) py" where
  "draw_ranges tr line x y width height =
     bind_e (row_background tr x y width height) (\<lambda>bg.
     bind_e (attr (tr_start tr)) (\<lambda>start. bind_e (attr (tr_end tr)) (\<lambda>end.
     bind_e (get_ranges_bounds line start end) (\<lambda>(lo, hi).
     bind_e (fold_e (draw_range_step x y width) (tr, py_int (x - I 1), bg) (py_slice (td_ranges line) lo hi))
       (\<lambda>(tr', l, cmds). bind_e (next_row tr') (\<lambda>tr''. Inr (tr'', cmds)))))))"

text \<open>
  The rows of a timeline. A row is drawn at \<open>cur_y\<close>: its name, its data, and the line below it
  once \<open>cur_y\<close> has moved on.
\<close>

record geometry =
  g_left :: pynum
  g_right :: pynum
  g_data :: pynum
  g_data_width :: pynum

definition show_name :: "text_extents \<Rightarrow> pynum \<Rightarrow> pynum \<Rightarrow> pynum \<Rightarrow> string \<Rightarrow> cairo list" where
  "show_name te mth x cur_y name =
     [MoveTo x (cur_y + mth - (F (t_height (te name)) + F (y_bearing (te name)))), ShowText name]"

definition row_line :: "TimelinesRenderer \<Rightarrow> geometry \<Rightarrow> pynum \<Rightarrow> cairo list py" where
  "row_line tr g cur_y =
     bind_e (attr (tr_right_width tr)) (\<lambda>rw.
       Inr (draw_line (g_right g - half (tr_padding tr)) (cur_y - half (tr_padding tr)) (rw + tr_padding tr) (I 0)))"

type_synonym lines_state = "TimelinesRenderer \<times> pynum \<times> cairo list"

definition draw_event_row :: "text_extents \<Rightarrow> geometry \<Rightarrow> lines_state \<Rightarrow> TimelineEvent \<Rightarrow> lines_state py" where
  "draw_event_row te g st line =
     (let (tr, cur_y, cmds) = st in
      bind_e (attr (tr_max_text_height tr)) (\<lambda>mth.
      bind_e (draw_events tr line (g_data g) cur_y (g_data_width g) (mth + I 5)) (\<lambda>(tr', row).
        let y' = cur_y + (mth + I 5 + tr_padding tr') in
        bind_e (row_line tr' g y') (\<lambda>sep.
          Inr (tr', y', cmds @ show_name te mth (g_right g) cur_y (te_name line) @ row @ sep)))))"

definition draw_range_row :: "text_extents \<Rightarrow> geometry \<Rightarrow> lines_state \<Rightarrow> TimelineDataRange \<Rightarrow> lines_state py" where
  "draw_range_row te g st line =
     (let (tr, cur_y, cmds) = st in
      bind_e (attr (tr_max_text_height tr)) (\<lambda>mth.
      bind_e (draw_ranges tr line (g_data g) cur_y (g_data_width g) (I 10)) (\<lambda>(tr', row).
        let y' = cur_y + (mth + tr_padding tr') in
        bind_e (row_line tr' g y') (\<lambda>sep.
          Inr (tr', y', cmds @ show_name te mth (g_right g) cur_y (td_name line) @ row @ sep)))))"

definition draw_timeline :: "text_extents \<Rightarrow> geometry \<Rightarrow> lines_state \<Rightarrow> Timeline \<Rightarrow> lines_state py" where
  "draw_timeline te g st tln =
     (let (tr, cur_y, cmds) = st in
      bind_e (attr (tr_max_text_height tr)) (\<lambda>mth.
      bind_e (fold_e (draw_event_row te g) (tr, cur_y, cmds @ show_name te mth (g_left g) cur_y (tl_name tln))
        (tl_event_int tln)) (\<lambda>st1.
      bind_e (fold_e (draw_event_row te g) st1 (tl_event_str tln)) (\<lambda>st2.
      bind_e (fold_e (draw_range_row te g) st2 (tl_ranges tln)) (\<lambda>(tr', y', cmds').
      bind_e (attr (tr_width tr')) (\<lambda>w.
        Inr (tr', y', cmds' @ draw_line (I 0) (y' - half (tr_padding tr')) w (I 0))))))))"

definition lines_draw :: "text_extents \<Rightarrow> TimelinesRenderer \<Rightarrow> (TimelinesRenderer \<times> cairo list) py" where
  "lines_draw te tr =
     bind_e (attr (tr_left_width tr)) (\<lambda>lw. bind_e (attr (tr_right_width tr)) (\<lambda>rw.
     bind_e (attr (tr_width tr)) (\<lambda>w. bind_e (attr (tr_timelines tr)) (\<lambda>ts.
       let p = tr_padding tr;
           top_y = half p;
           left_x_start = half p;
           left_x_end = left_x_start + lw;
           right_x_start = left_x_end + p;
           right_x_end = right_x_start + rw;
           data_x_start = right_x_end + half p;
           g = \<lparr>g_left = left_x_start, g_right = right_x_start, g_data = data_x_start, g_data_width = w - data_x_start\<rparr>
       in bind_e (fold_e (draw_timeline te g) (tr\<lparr>tr_grey := Some 1\<rparr>, top_y, draw_line (I 0) (I 0) w (I 0))
            (timelines ts)) (\<lambda>(tr', y', cmds).
          let bot_y = y' - half p in
          Inr (tr', cmds @ draw_line (left_x_end + half p) (I 0) (I 0) bot_y
            @ draw_line (right_x_end + half p) (I 0) (I 0) bot_y))))))"

section \<open>Ranges are drawn inside the data area\<close>

definition boxes_between :: "pynum \<Rightarrow> pynum \<Rightarrow> cairo list \<Rightarrow> bool" where
  "boxes_between x0 x1 cmds \<longleftrightarrow>
     (\<forall>a b c d. Rectangle a b c d \<in> set cmds \<longrightarrow> x0 \<le> a \<and> I 0 \<le> c \<and> a + c \<le> x1)"

lemma boxes_between_append [simp]:
  "boxes_between x0 x1 (xs @ ys) \<longleftrightarrow> boxes_between x0 x1 xs \<and> boxes_between x0 x1 ys"
  unfolding boxes_between_def set_append Un_iff by blast

fun is_int :: "pynum \<Rightarrow> bool" where
  "is_int (I i) = True"
| "is_int (F r) = False"

lemma is_int_arith [simp]:
  "is_int (a - b) \<longleftrightarrow> is_int a \<and> is_int b" "is_int (a * b) \<longleftrightarrow> is_int a \<and> is_int b"
  by (cases a; cases b; simp)+

lemma nval_num_div:
  assumes "num_div a b = Inr q"
  shows "nval q = (if is_int a \<and> is_int b then of_int \<lfloor>nval a / nval b\<rfloor> else nval a / nval b)"
  using assms by (cases a; cases b) (auto simp: num_div_def floor_divide_of_int_eq split: if_splits)

lemma time_pixel_value:
  assumes "s < e"
  obtains q where "time_pixel s e x w t = Inr (py_int (x + q))"
    "nval q = (if is_int ((t - s) * w) \<and> is_int (e - s)
       then of_int \<lfloor>(nval t - nval s) * nval w / (nval e - nval s)\<rfloor>
       else (nval t - nval s) * nval w / (nval e - nval s))"
proof -
  obtain q where q: "num_div ((t - s) * w) (e - s) = Inr q"
    using assms num_div_is_ok [of "(t - s) * w" "e - s"] by (auto simp: is_ok_iff pynum_order)
  show thesis
  proof (rule that [of q])
    show "time_pixel s e x w t = Inr (py_int (x + q))" by (simp add: time_pixel_def q)
  qed (simp only: nval_num_div [OF q] nval_times nval_minus)
qed

lemma time_pixel_mono:
  assumes "s < e" and "0 \<le> nval w" and "nval t \<le> nval t'"
    and "is_int s \<Longrightarrow> is_int e \<Longrightarrow> is_int t \<and> is_int t'"
    and "time_pixel s e x w t = Inr k" and "time_pixel s e x w t' = Inr k'"
  shows "k \<le> k'"
proof -
  obtain q where q: "k = py_int (x + q)" "nval q = (if is_int ((t - s) * w) \<and> is_int (e - s)
       then of_int \<lfloor>(nval t - nval s) * nval w / (nval e - nval s)\<rfloor>
       else (nval t - nval s) * nval w / (nval e - nval s))"
    using assms(5) by (rule_tac time_pixel_value [OF assms(1), of x w t]) auto
  obtain q' where q': "k' = py_int (x + q')" "nval q' = (if is_int ((t' - s) * w) \<and> is_int (e - s)
       then of_int \<lfloor>(nval t' - nval s) * nval w / (nval e - nval s)\<rfloor>
       else (nval t' - nval s) * nval w / (nval e - nval s))"
    using assms(6) by (rule_tac time_pixel_value [OF assms(1), of x w t']) auto
  have le: "(nval t - nval s) * nval w / (nval e - nval s) \<le> (nval t' - nval s) * nval w / (nval e - nval s)"
    using assms(1-3) by (intro divide_right_mono mult_right_mono) (auto simp: pynum_order)
  have same: "(is_int ((t - s) * w) \<and> is_int (e - s)) = (is_int ((t' - s) * w) \<and> is_int (e - s))"
    using assms(4) by auto
  have "nval q \<le> nval q'"
    using le floor_mono [OF le] unfolding q(2) q'(2) same by (simp only: of_int_le_iff split: if_splits) blast
  then show ?thesis unfolding q(1) q'(1) by (intro py_int_mono) simp
qed

lemma py_int_le: "0 \<le> nval x \<Longrightarrow> of_int (py_int x) \<le> nval x"
  by (cases x) auto

lemma time_pixel_inside:
  assumes "s < e" and "0 \<le> nval w" and "0 \<le> nval x" and "nval s \<le> nval t" and "nval t \<le> nval e"
    and "time_pixel s e x w t = Inr k"
  shows "py_int x \<le> k" and "of_int k \<le> nval x + nval w"
proof -
  let ?q = "(nval t - nval s) * nval w / (nval e - nval s)"
  obtain q where q: "k = py_int (x + q)" "nval q = (if is_int ((t - s) * w) \<and> is_int (e - s)
       then of_int \<lfloor>?q\<rfloor> else ?q)"
    using assms(6) by (rule_tac time_pixel_value [OF assms(1), of x w t]) auto
  have d: "0 < nval e - nval s" using assms(1) by (simp add: pynum_order)
  have q0: "0 \<le> ?q" using assms d by simp
  have "(nval t - nval s) * nval w \<le> (nval e - nval s) * nval w"
    using assms by (intro mult_right_mono) auto
  then have "?q \<le> nval w" using d by (simp add: pos_divide_le_eq mult.commute)
  moreover have "of_int \<lfloor>?q\<rfloor> \<le> ?q" "0 \<le> (of_int \<lfloor>?q\<rfloor> :: rat)"
    using q0 by (simp_all only: of_int_floor_le of_int_0_le_iff zero_le_floor)
  moreover have "nval q = of_int \<lfloor>?q\<rfloor> \<or> nval q = ?q" using q(2) by presburger
  ultimately have "0 \<le> nval q \<and> nval q \<le> nval w" using q0 by (elim disjE) linarith+
  then have "0 \<le> nval q" "nval q \<le> nval w" by simp_all
  then show "py_int x \<le> k" "of_int k \<le> nval x + nval w"
    using assms(3) py_int_le [of "x + q"] unfolding q(1) by (auto intro: py_int_mono)
qed

lemma time_pixel_ok: "s < e \<Longrightarrow> \<exists>k. time_pixel s e x w t = Inr k"
  by (rule time_pixel_value [of s e x w t]) auto

text \<open>One range that overlaps the window.\<close>

lemma draw_range_step_inside:
  assumes "draw_range_step x y w (tr, last_x, cmds) r = Inr (tr', last_x', cmds')"
    and "tr_start tr = Some s" "tr_end tr = Some e" "s < e" "0 \<le> nval w" "0 \<le> nval x"
    and "overlaps s e r" "dr_start r \<le> dr_end r"
    and "boxes_between (I (py_int x)) (x + w) cmds"
  shows "boxes_between (I (py_int x)) (x + w) cmds' \<and> tr_start tr' = Some s \<and> tr_end tr' = Some e"
proof -
  let ?s = "num_max (I (dr_start r)) s" and ?e = "num_min (I (dr_end r)) e"
  obtain xs where xs: "time_pixel s e x w ?s = Inr xs" using time_pixel_ok [OF assms(4)] by blast
  obtain xe where xe: "time_pixel s e x w ?e = Inr xe" using time_pixel_ok [OF assms(4)] by blast
  have win: "nval s \<le> nval ?s" "nval ?s \<le> nval ?e" "nval ?e \<le> nval e" "nval s \<le> nval ?e" "nval ?s \<le> nval e"
    using assms(4,7,8) by (auto simp: overlaps_def pynum_order)
  have "xs \<le> xe"
    by (rule time_pixel_mono [OF assms(4,5) win(2) _ xs xe]) (auto simp: num_max_def num_min_def)
  moreover have "py_int x \<le> xs" by (rule time_pixel_inside(1) [OF assms(4-6) win(1,5) xs])
  moreover have "of_int xe \<le> nval x + nval w" by (rule time_pixel_inside(2) [OF assms(4-6) win(4,3) xe])
  ultimately have "\<forall>r' g b. boxes_between (I (py_int x)) (x + w)
      [Rectangle (I xs) y (I (xe - xs)) (I 10), SetSourceRgb (I 0) (I 0) (I 0), StrokePreserve,
       SetSourceRgb r' g b, Fill]"
    by (auto simp: boxes_between_def pynum_order)
  with assms(1,2,3,9) show ?thesis
    by (auto simp: draw_range_step_def Let_def xs xe bind_e_Inr_iff attr_Inr_iff
        split: if_splits prod.splits)
qed

text \<open>When both ends of the window fall inside ranges of a line, every box
  \<open>draw_ranges\<close> paints, the background included, starts at or after pixel \<open>int(x)\<close>, has a
  non-negative width, and ends at or before \<open>x + width\<close>.\<close>

theorem draw_ranges_inside:
  assumes "ranges_wf (td_ranges line)" "tr_start tr = Some s" "tr_end tr = Some e" "s < e"
    and "\<exists>r \<in> set (td_ranges line). in_range s r" "\<exists>r \<in> set (td_ranges line). in_range e r"
    and "I 0 \<le> x" "I 0 \<le> w"
    and "draw_ranges tr line x y w h = Inr (tr', cmds)"
  shows "boxes_between (I (py_int x)) (x + w) cmds"
proof -
  have x: "0 \<le> nval x" "0 \<le> nval w" using assms(7,8) by (simp_all add: pynum_order)
  have "s \<le> e" using assms(4) by (simp add: pynum_order)
  note slice = get_ranges_exact [OF assms(1) this assms(5,6)]
  obtain lo hi where b: "get_ranges_bounds line s e = Inr (lo, hi)"
      "py_slice (td_ranges line) lo hi = filter (overlaps s e) (td_ranges line)"
    using slice [unfolded get_ranges_eq_slice] by (auto simp: bind_e_Inr_iff)
  obtain bg tr1 l where bg: "row_background tr x y w h = Inr bg"
    and run: "fold_e (draw_range_step x y w) (tr, py_int (x - I 1), bg) (py_slice (td_ranges line) lo hi)
      = Inr (tr1, l, cmds)"
    using assms(9) by (auto simp: draw_ranges_def assms(2,3) b(1) bind_e_Inr_iff)
  let ?P = "\<lambda>(tr1, l :: int, c). boxes_between (I (py_int x)) (x + w) c \<and> tr_start tr1 = Some s \<and> tr_end tr1 = Some e"
  have "?P (tr1, l, cmds)"
  proof (rule fold_e_invariant [OF run, where P = ?P])
    show "?P (tr, py_int (x - I 1), bg)"
      using bg assms(2,3) x py_int_le [OF x(1)]
      by (auto simp: row_background_def bind_e_Inr_iff boxes_between_def pynum_order split: if_splits)
  next
    fix st r st'
    assume P: "?P st" and r: "r \<in> set (py_slice (td_ranges line) lo hi)"
      and step: "draw_range_step x y w st r = Inr st'"
    obtain t1 l1 c1 where st: "st = (t1, l1, c1)" by (cases st)
    obtain t2 l2 c2 where st': "st' = (t2, l2, c2)" by (cases st')
    have "overlaps s e r" "dr_start r \<le> dr_end r" using r assms(1) by (auto simp: b(2) ranges_wf_def)
    then show "?P st'"
      using draw_range_step_inside [OF step [unfolded st st'] _ _ assms(4) x(2,1)] P
      by (simp add: st st')
  qed
  then show ?thesis by simp
qed

section \<open>The height of the rows\<close>

definition event_rows :: "Timelines \<Rightarrow> nat" where
  "event_rows ts = sum_list (map (\<lambda>tln. length (tl_event_int tln) + length (tl_event_str tln)) (timelines ts))"

definition range_rows :: "Timelines \<Rightarrow> nat" where
  "range_rows ts = sum_list (map (\<lambda>tln. length (tl_ranges tln)) (timelines ts))"

lemma count_rows_fold:
  "left_n (foldl (count_rows te) rc tls) = left_n rc + int (length tls)
   \<and> range_n (foldl (count_rows te) rc tls) = range_n rc + int (sum_list (map (\<lambda>tln. length (tl_ranges tln)) tls))
   \<and> int_n (foldl (count_rows te) rc tls) + str_n (foldl (count_rows te) rc tls) = int_n rc + str_n rc
     + int (sum_list (map (\<lambda>tln. length (tl_event_int tln) + length (tl_event_str tln)) tls))"
  by (induction tls arbitrary: rc) (simp_all add: count_rows_def Let_def)

text \<open>Drawing changes no attribute that the layout set.\<close>

definition same_layout :: "TimelinesRenderer \<Rightarrow> TimelinesRenderer \<Rightarrow> bool" where
  "same_layout tr tr' \<longleftrightarrow> tr_padding tr' = tr_padding tr \<and> tr_max_text_height tr' = tr_max_text_height tr
     \<and> tr_start tr' = tr_start tr \<and> tr_end tr' = tr_end tr \<and> tr_width tr' = tr_width tr
     \<and> tr_right_width tr' = tr_right_width tr \<and> tr_height tr' = tr_height tr"

lemma same_layout_refl [simp]: "same_layout tr tr"
  by (simp add: same_layout_def)

lemma same_layout_trans: "same_layout a b \<Longrightarrow> same_layout b c \<Longrightarrow> same_layout a c"
  by (simp add: same_layout_def)

lemma next_row_same: "next_row tr = Inr tr' \<Longrightarrow> same_layout tr tr'"
  by (auto simp: next_row_def bind_e_Inr_iff same_layout_def)

lemma draw_events_same: "draw_events tr l x y w h = Inr (tr', cmds) \<Longrightarrow> same_layout tr tr'"
  by (auto simp: draw_events_def bind_e_Inr_iff next_row_same)

lemma draw_range_step_same:
  assumes "draw_range_step x y w st r = Inr st'"
  shows "same_layout (fst st) (fst st')"
  using assms by (cases st) (auto simp: draw_range_step_def Let_def bind_e_Inr_iff same_layout_def split: if_splits)

lemma draw_ranges_same:
  assumes "draw_ranges tr line x y w h = Inr (tr', cmds)"
  shows "same_layout tr tr'"
proof -
  obtain bg lo hi l c tr1 where run: "fold_e (draw_range_step x y w) (tr, py_int (x - I 1), bg)
      (py_slice (td_ranges line) lo hi) = Inr (tr1, l, c)" and nxt: "next_row tr1 = Inr tr'"
    using assms by (auto simp: draw_ranges_def bind_e_Inr_iff)
  have "same_layout tr (fst (tr1, l, c))"
  proof (rule fold_e_invariant [OF run, where P = "\<lambda>st. same_layout tr (fst st)"])
    fix st r st'
    assume "same_layout tr (fst st)" and "draw_range_step x y w st r = Inr st'"
    then show "same_layout tr (fst st')" using draw_range_step_same same_layout_trans by blast
  qed simp
  then show ?thesis using next_row_same [OF nxt] by (auto intro: same_layout_trans)
qed

text \<open>A state of the drawing loop that has moved down by \<open>d\<close>.\<close>

definition moved :: "rat \<Rightarrow> lines_state \<Rightarrow> lines_state \<Rightarrow> bool" where
  "moved d st st' \<longleftrightarrow> same_layout (fst st) (fst st') \<and> nval (fst (snd st')) = nval (fst (snd st)) + d"

lemma moved_trans: "moved d st st1 \<Longrightarrow> moved d' st1 st2 \<Longrightarrow> moved (d + d') st st2"
  by (auto simp: moved_def intro: same_layout_trans)

lemma moved_rows:
  assumes "fold_e f st ls = Inr st'"
    and "\<And>s l s'. same_layout (fst st) (fst s) \<Longrightarrow> f s l = Inr s' \<Longrightarrow> moved d s s'"
  shows "moved (of_nat (length ls) * d) st st'"
  using assms
proof (induction ls arbitrary: st)
  case Nil
  then show ?case by (simp add: moved_def)
next
  case (Cons l ls)
  obtain s1 where s1: "f st l = Inr s1" "fold_e f s1 ls = Inr st'"
    using Cons.prems(1) by (auto simp: bind_e_Inr_iff)
  have m: "moved d st s1" by (rule Cons.prems(2) [OF same_layout_refl s1(1)])
  have "moved (of_nat (length ls) * d) s1 st'"
  proof (rule Cons.IH [OF s1(2)])
    fix s l s' assume "same_layout (fst s1) (fst s)" "f s l = Inr s'"
    with m have "same_layout (fst st) (fst s)" unfolding moved_def by (blast intro: same_layout_trans)
    then show "moved d s s'" using \<open>f s l = Inr s'\<close> by (rule Cons.prems(2))
  qed
  from moved_trans [OF m this] show ?case by (simp add: algebra_simps)
qed

lemma draw_event_row_moved:
  assumes "draw_event_row te g st l = Inr st'" and "tr_max_text_height (fst st) = Some mth"
  shows "moved (nval mth + 5 + nval (tr_padding (fst st))) st st'"
proof -
  obtain tr y c where st: "st = (tr, y, c)" by (cases st)
  from assms show ?thesis
    by (auto simp: st draw_event_row_def Let_def bind_e_Inr_iff moved_def dest!: draw_events_same)
      (auto simp: same_layout_def)
qed

lemma draw_range_row_moved:
  assumes "draw_range_row te g st l = Inr st'" and "tr_max_text_height (fst st) = Some mth"
  shows "moved (nval mth + nval (tr_padding (fst st))) st st'"
proof -
  obtain tr y c where st: "st = (tr, y, c)" by (cases st)
  from assms show ?thesis
    by (auto simp: st draw_range_row_def Let_def bind_e_Inr_iff moved_def dest!: draw_ranges_same)
      (auto simp: same_layout_def)
qed

lemma draw_timeline_moved:
  assumes "draw_timeline te g st tln = Inr st'" and mth: "tr_max_text_height (fst st) = Some mth"
    and p: "tr_padding (fst st) = p"
  shows "moved (of_nat (length (tl_event_int tln) + length (tl_event_str tln)) * (nval mth + 5 + nval p)
      + of_nat (length (tl_ranges tln)) * (nval mth + nval p)) st st'"
proof -
  obtain tr y c where st: "st = (tr, y, c)" by (cases st)
  from assms(1) mth obtain st1 st2 st3 where
    st1: "fold_e (draw_event_row te g) (tr, y, c @ show_name te mth (g_left g) y (tl_name tln)) (tl_event_int tln) = Inr st1"
    and st2: "fold_e (draw_event_row te g) st1 (tl_event_str tln) = Inr st2"
    and st3: "fold_e (draw_range_row te g) st2 (tl_ranges tln) = Inr st3"
    and st': "same_layout (fst st3) (fst st')" "fst (snd st') = fst (snd st3)"
    by (auto simp: st draw_timeline_def bind_e_Inr_iff)
  let ?e = "nval mth + 5 + nval p" and ?r = "nval mth + nval p"
  have same: "tr_max_text_height (fst s) = Some mth \<and> tr_padding (fst s) = p" if "same_layout tr (fst s)" for s :: lines_state
    using that mth p by (simp add: st same_layout_def)
  have ev: "moved ?e s s'" if "same_layout tr (fst s)" "draw_event_row te g s l = Inr s'" for s l s'
    using draw_event_row_moved [OF that(2)] same [OF that(1)] by simp
  have rg: "moved ?r s s'" if "same_layout tr (fst s)" "draw_range_row te g s l = Inr s'" for s l s'
    using draw_range_row_moved [OF that(2)] same [OF that(1)] by simp
  have 1: "moved (of_nat (length (tl_event_int tln)) * ?e) (tr, y, c @ show_name te mth (g_left g) y (tl_name tln)) st1"
    by (rule moved_rows [OF st1]) (simp add: ev)
  then have s1: "same_layout tr (fst st1)" by (simp add: moved_def)
  have 2: "moved (of_nat (length (tl_event_str tln)) * ?e) st1 st2"
    by (rule moved_rows [OF st2]) (rule ev [OF same_layout_trans [OF s1]])
  then have s2: "same_layout tr (fst st2)" using s1 same_layout_trans by (auto simp: moved_def)
  have 3: "moved (of_nat (length (tl_ranges tln)) * ?r) st2 st3"
    by (rule moved_rows [OF st3]) (rule rg [OF same_layout_trans [OF s2]])
  have "moved (of_nat (length (tl_event_int tln)) * ?e + of_nat (length (tl_event_str tln)) * ?e
      + of_nat (length (tl_ranges tln)) * ?r) (tr, y, c @ show_name te mth (g_left g) y (tl_name tln)) st3"
    by (intro moved_trans [OF _ 3] moved_trans [OF 1 2])
  then show ?thesis using st' same_layout_trans by (auto simp: moved_def st distrib_right)
qed

lemma lines_draw_moved:
  assumes "fold_e (draw_timeline te g) st tls = Inr st'" and "tr_max_text_height (fst st) = Some mth"
    and "tr_padding (fst st) = p"
  shows "moved (of_nat (sum_list (map (\<lambda>tln. length (tl_event_int tln) + length (tl_event_str tln)) tls)) * (nval mth + 5 + nval p)
      + of_nat (sum_list (map (\<lambda>tln. length (tl_ranges tln)) tls)) * (nval mth + nval p)) st st'"
  using assms
proof (induction tls arbitrary: st)
  case Nil
  then show ?case by (simp add: moved_def)
next
  case (Cons tln tls)
  obtain s1 where s1: "draw_timeline te g st tln = Inr s1" "fold_e (draw_timeline te g) s1 tls = Inr st'"
    using Cons.prems(1) by (auto simp: bind_e_Inr_iff)
  note m = draw_timeline_moved [OF s1(1) Cons.prems(2,3)]
  then have "same_layout (fst st) (fst s1)" by (simp add: moved_def)
  then have "tr_max_text_height (fst s1) = Some mth" "tr_padding (fst s1) = p"
    using Cons.prems(2,3) by (simp_all add: same_layout_def)
  from moved_trans [OF m Cons.IH [OF s1(2) this]] show ?case by (simp add: algebra_simps)
qed

lemma nval_I_of_nat [simp]: "nval (I (int n)) = of_nat n"
  by simp

text \<open>The rows end at \<open>E * (h + 5 + padding) + R * (h + padding)\<close> for \<open>E\<close> event rows
  and \<open>R\<close> range rows of text height \<open>h\<close>, where the two vertical lines stop. They fit the height that
  \<open>layout\<close> reserved when all rows are of one kind; with rows of both kinds, text higher than 10 pixels
  and no more timelines than rows, they overrun it.\<close>

theorem lines_draw_height:
  assumes "lines_layout te w tr = Inr tr1" and "lines_draw te tr1 = Inr (tr2, cmds)"
    and "tr_timelines tr = Some ts"
  shows "\<exists>pre x bot height. cmds = pre @ draw_line x (I 0) (I 0) bot \<and> lines_get_height tr1 = Inr height
    \<and> nval bot = of_nat (event_rows ts) * (t_height (te all_letters) + 5 + nval (tr_padding tr))
        + of_nat (range_rows ts) * (t_height (te all_letters) + nval (tr_padding tr))
    \<and> (event_rows ts = 0 \<or> range_rows ts = 0 \<longrightarrow> bot \<le> height)
    \<and> (0 < event_rows ts \<and> 0 < range_rows ts \<and> 10 < t_height (te all_letters) \<and> 0 \<le> nval (tr_padding tr)
        \<and> length (timelines ts) \<le> event_rows ts + range_rows ts \<longrightarrow> height < bot)"
proof -
  let ?m = "t_height (te all_letters)" and ?p = "nval (tr_padding tr)"
  let ?E = "of_nat (event_rows ts) :: rat" and ?R = "of_nat (range_rows ts) :: rat"
  let ?n = "of_nat (length (timelines ts)) :: rat"
  let ?H = "max (max (?n * ?m + (?n - 1) * ?p) ((?R + ?E - 1) * ?p + (?R + ?E) * ?m))
    (?E * (?m + 5) + ?R * 10 + (?R + ?E - 1) * ?p) + ?p"
  define rc where "rc = foldl (count_rows te) count_start (timelines ts)"
  have "left_n rc = int (length (timelines ts)) \<and> range_n rc = int (range_rows ts)
      \<and> int_n rc + str_n rc = int (event_rows ts)"
    using count_rows_fold [of te count_start "timelines ts"] unfolding rc_def
    by (simp add: count_start_def range_rows_def event_rows_def)
  then have counts: "of_int (left_n rc) = ?n" "of_int (range_n rc) = ?R"
      "of_int (int_n rc) + of_int (str_n rc) = ?E"
    by (simp_all flip: of_int_add)
  obtain height where height: "tr_height tr1 = Some height" "nval height = ?H"
    and same: "tr_padding tr1 = tr_padding tr" "tr_max_text_height tr1 = Some (F ?m)" "tr_timelines tr1 = Some ts"
    using assms(1,3) counts by (auto simp: lines_layout_def Let_def rc_def [symmetric] add.assoc)
  define bot where "bot y = y - half (tr_padding tr)" for y
  obtain g y c pre x x' where run: "fold_e (draw_timeline te g) (tr1\<lparr>tr_grey := Some 1\<rparr>, half (tr_padding tr), c)
      (timelines ts) = Inr (tr2, y, pre)"
    and "cmds = pre @ draw_line x' (I 0) (I 0) (bot y) @ draw_line x (I 0) (I 0) (bot y)"
    using assms(2) same by (auto simp: lines_draw_def Let_def bind_e_Inr_iff bot_def)
  then have cmds: "\<exists>pre'. cmds = pre' @ draw_line x (I 0) (I 0) (bot y)" by simp
  have "nval y = nval (half (tr_padding tr)) + (?E * (?m + 5 + ?p) + ?R * (?m + ?p))"
    using lines_draw_moved [OF run, of "F ?m" "tr_padding tr"] same
    by (simp add: moved_def event_rows_def range_rows_def)
  then have bot: "nval (bot y) = ?E * (?m + 5 + ?p) + ?R * (?m + ?p)" by (simp add: bot_def)
  have fit: "nval (bot y) \<le> ?H" if "event_rows ts = 0 \<or> range_rows ts = 0"
    using that unfolding bot by (elim disjE) (simp_all add: algebra_simps)
  have over: "?H < nval (bot y)" if "0 < event_rows ts" "0 < range_rows ts" "10 < ?m" "0 \<le> ?p"
    "length (timelines ts) \<le> event_rows ts + range_rows ts"
  proof -
    have E: "0 < ?E" "0 < ?R" using that by simp_all
    have "?n \<le> ?E + ?R" using that(5) by (simp flip: of_nat_add)
    then have n: "?n * (?m + ?p) \<le> (?E + ?R) * (?m + ?p)" using that(3,4) by (intro mult_right_mono) auto
    have R: "?R * 10 < ?R * ?m" using E that(3) by simp
    have "?n * ?m + (?n - 1) * ?p + ?p < nval (bot y)" "(?R + ?E - 1) * ?p + (?R + ?E) * ?m + ?p < nval (bot y)"
      "?E * (?m + 5) + ?R * 10 + (?R + ?E - 1) * ?p + ?p < nval (bot y)"
      using n R E unfolding bot ring_distribs by linarith+
    then show ?thesis by (simp only: max_def) (simp split: if_splits)
  qed
  obtain pre' where "cmds = pre' @ draw_line x (I 0) (I 0) (bot y)" using cmds by blast
  moreover have "lines_get_height tr1 = Inr height" by (simp add: lines_get_height_def height(1))
  moreover have "event_rows ts = 0 \<or> range_rows ts = 0 \<longrightarrow> bot y \<le> height"
    unfolding pynum_le_iff height(2) using fit by blast
  moreover have "0 < event_rows ts \<and> 0 < range_rows ts \<and> 10 < ?m \<and> 0 \<le> ?p
      \<and> length (timelines ts) \<le> event_rows ts + range_rows ts \<longrightarrow> height < bot y"
    unfolding pynum_less_iff height(2) using over by blast
  ultimately show ?thesis
    using bot by (intro exI [of _ pre'] exI [of _ x] exI [of _ "bot y"] exI [of _ height] conjI) assumption+
qed

text \<open>A line with two ranges and an event, on which both properties are evaluated.\<close>

definition tall_text :: text_extents where
  "tall_text s = \<lparr>y_bearing = -20, t_width = 6 * of_nat (length s), t_height = 20\<rparr>"

definition sample_lines :: TimelinesRenderer where
  "sample_lines = set_render_range (I 2) (I 12)
     (set_timelines
       \<lparr>timelines = [\<lparr>tl_name = ''cpu'',
          tl_ranges = [\<lparr>td_name = ''state'', td_ranges =
            [\<lparr>dr_start = 0, dr_end = 5, dr_value = ''busy''\<rparr>, \<lparr>dr_start = 7, dr_end = 15, dr_value = ''idle''\<rparr>]\<rparr>],
          tl_event_str = [],
          tl_event_int = [\<lparr>te_name = ''irq'', te_events = [EventInt 9 1]\<rparr>]\<rparr>]\<rparr>
       new_colors new_lines)"

lemmas sample_lines_defs = sample_lines_def set_render_range_def set_timelines_def new_lines_def new_colors_def

lemma sample_lines_layout:
  "lines_layout tall_text (I 500) sample_lines = Inr (sample_lines\<lparr>tr_left_width := Some (F 18),
     tr_right_width := Some (F 30), tr_max_text_height := Some (F 20), tr_width := Some (I 500),
     tr_height := Some (F 60)\<rparr>)"
  by (simp add: lines_layout_def sample_lines_defs count_rows_def count_start_def widest_def tall_text_def
      num_max_def pynum_order Let_def)

lemmas draw_eval = lines_draw_def draw_timeline_def draw_event_row_def draw_range_row_def draw_events_def
  draw_ranges_def draw_event_step_def draw_range_step_def row_background_def next_row_def row_line_def
  show_name_def time_pixel_def num_div_def pynum_order get_events_bounds_def event_search_def
  event_search_loop.simps get_ranges_bounds_def range_search_def range_search_loop.simps py_get_def
  norm_index_def num_eq_def half_def py_slice_def slice_bound_def num_max_def num_min_def colors_lookup_def
  pop_default_def colors_add_def mk_color_def EventInt_def str_of_value_def

lemma sample_lines_draw: "is_ok (lines_draw tall_text (projr (lines_layout tall_text (I 500) sample_lines)))"
  unfolding sample_lines_layout sum.sel
  by (simp add: sample_lines_defs tall_text_def draw_eval Let_def cong: bind_e_weak_cong)

theorem lines_draw_height_witness:
  "\<exists>tr1 tr2 pre x bot. lines_layout tall_text (I 500) sample_lines = Inr tr1
     \<and> lines_draw tall_text tr1 = Inr (tr2, pre @ draw_line x (I 0) (I 0) bot)
     \<and> nval bot = 65 \<and> lines_get_height tr1 = Inr (F 60)"
proof -
  obtain tr1 where tr1: "lines_layout tall_text (I 500) sample_lines = Inr tr1" "tr_height tr1 = Some (F 60)"
    using sample_lines_layout by auto
  obtain tr2 cmds where d: "lines_draw tall_text tr1 = Inr (tr2, cmds)"
    using sample_lines_draw by (auto simp: tr1 is_ok_iff)
  show ?thesis
    using lines_draw_height [OF tr1(1) d] tr1 d
    by (auto simp: sample_lines_defs event_rows_def range_rows_def tall_text_def lines_get_height_def)
qed

theorem draw_ranges_inside_witness:
  "\<exists>tr' cmds. draw_ranges (sample_lines\<lparr>tr_grey := Some 0\<rparr>) (hd (tl_ranges (hd (timelines (the (tr_timelines sample_lines))))))
      (I 50) (I 10) (I 400) (I 10) = Inr (tr', cmds)
    \<and> Rectangle (I 50) (I 10) (I 120) (I 10) \<in> set cmds \<and> boxes_between (I 50) (I 450) cmds"
proof -
  let ?l = "hd (tl_ranges (hd (timelines (the (tr_timelines sample_lines)))))"
  let ?r = "draw_ranges (sample_lines\<lparr>tr_grey := Some 0\<rparr>) ?l (I 50) (I 10) (I 400) (I 10)"
  have ok: "is_ok ?r \<and> Rectangle (I 50) (I 10) (I 120) (I 10) \<in> set (snd (projr ?r))"
    by (simp add: sample_lines_defs draw_eval Let_def cong: bind_e_weak_cong)
  then obtain tr' cmds where r: "?r = Inr (tr', cmds)" by (cases ?r) auto
  have "boxes_between (I (py_int (I 50))) (I 50 + I 400) cmds"
    by (rule draw_ranges_inside [OF _ _ _ _ _ _ _ _ r, of "I 2" "I 12"])
      (simp_all add: sample_lines_defs ranges_wf_def in_range_def pynum_order)
  then show ?thesis using r ok by auto
qed

end
