(* ===== verification/GridGraphic.thy ===== *)
theory GridGraphic
  imports GridLines
begin

text \<open>
  \<open>GraphicRenderer\<close> of \<open>utils/grid.py\<close>: the whole picture, made of the legend, the timelines, the
  scale of the rendered range (\<open>mid\<close>) and the scale of the whole trace with the selection
  (\<open>bot\<close>). Drawing may change the colour table of the timelines, so it returns the new state
  with the cairo calls.
\<close>

section \<open>State\<close>

record GraphicRenderer =
  gr_start :: pynum
  gr_end :: pynum
  gr_mid_scale :: ScaleRenderer
  gr_bot_scale :: ScaleRenderer
  gr_width :: pynum
  gr_height :: pynum
  gr_r_start :: "pynum option"
  gr_r_end :: "pynum option"
  gr_data :: "TimelinesRenderer option"
  gr_top_legend :: "TopLegendRenderer option"

definition new_graphic :: "pynum \<Rightarrow> pynum \<Rightarrow> GraphicRenderer" where
  "new_graphic start end = \<lparr>gr_start = py_float start, gr_end = py_float end, gr_mid_scale = set_top new_scale,
     gr_bot_scale = set_bot (set_bounds start end new_scale), gr_width = I 1, gr_height = I 1,
     gr_r_start = None, gr_r_end = None, gr_data = None, gr_top_legend = None\<rparr>"

definition graphic_width :: "GraphicRenderer \<Rightarrow> pynum" where
  "graphic_width gr = gr_width gr"

definition graphic_height :: "GraphicRenderer \<Rightarrow> pynum" where
  "graphic_height gr = gr_height gr"

text \<open>The heights of the parts.\<close>

definition legend_height :: "GraphicRenderer \<Rightarrow> pynum py" where
  "legend_height gr = bind_e (attr (gr_top_legend gr)) legend_get_height"

definition data_height :: "GraphicRenderer \<Rightarrow> pynum py" where
  "data_height gr = bind_e (attr (gr_data gr)) lines_get_height"

definition data_x_start :: "GraphicRenderer \<Rightarrow> pynum py" where
  "data_x_start gr = bind_e (attr (gr_data gr)) get_data_x_start"

type_synonym rect = "pynum \<times> pynum \<times> pynum \<times> pynum"

definition get_data_rectangle :: "GraphicRenderer \<Rightarrow> rect py" where
  "get_data_rectangle gr =
     bind_e (legend_height gr) (\<lambda>y. bind_e (data_x_start gr) (\<lambda>x. bind_e (data_height gr) (\<lambda>h.
       Inr (x, y, gr_width gr - x, h))))"

definition scale_data :: "GraphicRenderer \<Rightarrow> pynum \<Rightarrow> pynum py" where
  "scale_data gr x =
     bind_e (data_x_start gr) (\<lambda>x_start.
     bind_e (num_div x (gr_width gr - x_start)) (\<lambda>q.
     bind_e (attr (gr_r_end gr)) (\<lambda>re. bind_e (attr (gr_r_start gr)) (\<lambda>rs.
       Inr (q * (re - rs))))))"

definition get_selection_rectangle :: "GraphicRenderer \<Rightarrow> rect py" where
  "get_selection_rectangle gr =
     bind_e (legend_height gr) (\<lambda>lh. bind_e (data_height gr) (\<lambda>dh.
     bind_e (scale_get_height (gr_mid_scale gr)) (\<lambda>mh.
     bind_e (scale_get_height (gr_bot_scale gr)) (\<lambda>bh.
     bind_e (attr (gr_r_start gr)) (\<lambda>rs. bind_e (get_position (gr_bot_scale gr) rs) (\<lambda>x_start.
     bind_e (attr (gr_r_end gr)) (\<lambda>re. bind_e (get_position (gr_bot_scale gr) re) (\<lambda>x_end.
       Inr (x_start, lh + dh + mh + I 20, x_end - x_start, bh + I 20)))))))))"

definition scale_selection :: "GraphicRenderer \<Rightarrow> pynum \<Rightarrow> pynum py" where
  "scale_selection gr x =
     bind_e (num_div x (gr_width gr)) (\<lambda>q. Inr (q * (gr_end gr - gr_start gr)))"

definition graphic_layout :: "text_extents \<Rightarrow> pynum \<Rightarrow> pynum \<Rightarrow> GraphicRenderer \<Rightarrow> GraphicRenderer py" where
  "graphic_layout te width height gr =
     bind_e (attr (gr_top_legend gr)) (\<lambda>lg.
     bind_e (legend_layout te width lg) (\<lambda>lg'.
     bind_e (legend_get_height lg') (\<lambda>_.
     bind_e (attr (gr_data gr)) (\<lambda>dat.
     bind_e (lines_layout te width dat) (\<lambda>dat'.
     bind_e (get_data_x_start dat') (\<lambda>x.
     bind_e (scale_layout te (width - x) (gr_mid_scale gr)) (\<lambda>mid.
     bind_e (scale_layout te width (gr_bot_scale gr)) (\<lambda>bot.
       Inr (gr\<lparr>gr_width := width, gr_height := height, gr_top_legend := Some lg', gr_data := Some dat',
         gr_mid_scale := mid, gr_bot_scale := bot\<rparr>)))))))))"

definition set_range :: "text_extents \<Rightarrow> pynum \<Rightarrow> pynum \<Rightarrow> GraphicRenderer \<Rightarrow> GraphicRenderer py" where
  "set_range te start end gr =
     (let s = num_min start end;
          e = num_max start end;
          start = num_max (gr_start gr) s;
          end = num_min (gr_end gr) e
      in bind_e (attr (gr_data gr)) (\<lambda>dat.
           graphic_layout te (gr_width gr) (gr_height gr)
             (gr\<lparr>gr_r_start := Some start, gr_r_end := Some end,
                gr_data := Some (set_render_range start end dat),
                gr_mid_scale := set_bounds start end (gr_mid_scale gr)\<rparr>)))"

definition get_range_bounds :: "GraphicRenderer \<Rightarrow> (pynum \<times> pynum) py" where
  "get_range_bounds gr = bind_e (attr (gr_r_start gr)) (\<lambda>s. bind_e (attr (gr_r_end gr)) (\<lambda>e. Inr (s, e)))"

definition set_data :: "TimelinesRenderer \<Rightarrow> GraphicRenderer \<Rightarrow> GraphicRenderer" where
  "set_data dat gr = gr\<lparr>gr_data := Some dat\<rparr>"

definition set_top_legend :: "TopLegendRenderer \<Rightarrow> GraphicRenderer \<Rightarrow> GraphicRenderer" where
  "set_top_legend lg gr = gr\<lparr>gr_top_legend := Some lg\<rparr>"

definition x_pixel :: "GraphicRenderer \<Rightarrow> pynum \<Rightarrow> pynum \<Rightarrow> pynum py" where
  "x_pixel gr x width = num_div ((x - gr_start gr) * width) (gr_end gr - gr_start gr)"

section \<open>Drawing\<close>

definition black :: cairo where "black = SetSourceRgb (I 0) (I 0) (I 0)"

definition light_grey :: cairo where "light_grey = SetSourceRgb (F (9/10)) (F (9/10)) (F (9/10))"

definition translated :: "pynum \<Rightarrow> pynum \<Rightarrow> cairo list \<Rightarrow> cairo list" where
  "translated x y cmds = [Save, Translate x y] @ cmds @ [Restore]"

definition draw_background :: "GraphicRenderer \<Rightarrow> cairo list" where
  "draw_background gr =
     [Save, SetSourceRgb (I 1) (I 1) (I 1), SetOperatorSource, Rectangle (I 0) (I 0) (gr_width gr) (gr_height gr), Fill]"

definition draw_separation :: "GraphicRenderer \<Rightarrow> pynum \<Rightarrow> cairo list" where
  "draw_separation gr y =
     [MoveTo (I 0) y, LineTo (gr_width gr) y, ClosePath, SetLineWidth (I 2), black, Stroke]"

definition draw_pane_line :: "pynum \<Rightarrow> pynum \<Rightarrow> pynum \<Rightarrow> cairo list" where
  "draw_pane_line x y mid_height =
     [MoveTo x y, RelLineTo (I 0) (- mid_height), ClosePath, black, SetLineWidth (I 2), Stroke]"

definition draw_connections :: "GraphicRenderer \<Rightarrow> pynum \<Rightarrow> pynum \<Rightarrow> pynum \<Rightarrow> pynum \<Rightarrow> cairo list" where
  "draw_connections gr x_start y select_start select_end =
     [MoveTo (I 0) y, LineTo x_start y, LineTo select_start (y + I 20), LineTo (I 0) (y + I 20), LineTo (I 0) y,
      black, SetLineWidth (I 1), StrokePreserve, light_grey, Fill,
      MoveTo (gr_width gr) y, LineTo (gr_width gr) (y + I 20), LineTo select_end (y + I 20), LineTo (gr_width gr) y,
      black, SetLineWidth (I 1), StrokePreserve, light_grey, Fill]"

definition draw_unused :: "GraphicRenderer \<Rightarrow> pynum \<Rightarrow> pynum \<Rightarrow> pynum \<Rightarrow> pynum \<Rightarrow> cairo list" where
  "draw_unused gr y u_start u_end u_height =
     [Rectangle (I 0) y u_start u_height, Rectangle u_end y (gr_width gr - u_end) u_height, light_grey, Fill,
      MoveTo u_end y, LineTo (gr_width gr) y, LineTo (gr_width gr) (y + u_height), LineTo (I 0) (y + u_height),
      LineTo (I 0) y, LineTo u_start y, ClosePath, SetLineWidth (I 2), black, Stroke,
      MoveTo u_start y, LineTo u_end y, ClosePath, SetLineWidth (I 1), light_grey, Stroke,
      Save, MoveTo (num_max u_start (I 2)) y, RelLineTo (I 0) u_height,
      MoveTo (num_min u_end (gr_width gr - I 2)) y, RelLineTo (I 0) u_height,
      SetDash [I 5] (I 0), black, SetLineWidth (I 1), Stroke, Restore]"

definition graphic_draw :: "text_extents \<Rightarrow> GraphicRenderer \<Rightarrow> (GraphicRenderer \<times> cairo list) py" where
  "graphic_draw te gr =
     bind_e (attr (gr_top_legend gr)) (\<lambda>lg.
     bind_e (legend_draw te lg) (\<lambda>legend_cmds.
     bind_e (legend_get_height lg) (\<lambda>lh.
     bind_e (attr (gr_data gr)) (\<lambda>dat.
     bind_e (lines_draw te dat) (\<lambda>(dat', data_cmds).
     let gr = gr\<lparr>gr_data := Some dat'\<rparr> in
     bind_e (get_data_x_start dat') (\<lambda>x_start.
     bind_e (lines_get_height dat') (\<lambda>dh.
     bind_e (scale_get_height (gr_mid_scale gr)) (\<lambda>mh.
     bind_e (scale_draw te (gr_mid_scale gr)) (\<lambda>mid_cmds.
     bind_e (attr (gr_r_start gr)) (\<lambda>rs. bind_e (get_position (gr_bot_scale gr) rs) (\<lambda>select_start.
     bind_e (attr (gr_r_end gr)) (\<lambda>re. bind_e (get_position (gr_bot_scale gr) re) (\<lambda>select_end.
     bind_e (scale_get_height (gr_bot_scale gr)) (\<lambda>bh.
     bind_e (scale_draw te (gr_bot_scale gr)) (\<lambda>bot_cmds.
       let used = lh + dh + mh; low = used + I 20 in
       Inr (gr,
         draw_background gr
         @ [Save] @ legend_cmds @ [Restore]
         @ draw_separation gr lh
         @ translated (I 0) lh data_cmds
         @ translated x_start used mid_cmds
         @ draw_pane_line x_start used mh
         @ draw_separation gr used
         @ draw_connections gr x_start used select_start select_end
         @ draw_unused gr low select_start select_end (bh + I 20)
         @ translated (I 0) low bot_cmds))))))))))))))))"

section \<open>The rendered range\<close>

lemma scale_layout_fields:
  assumes "scale_layout te w sc = Inr sc'"
  shows "sc_lo sc' = sc_lo sc" "sc_hi sc' = sc_hi sc" "sc_width sc' = Some w"
  using assms by (auto simp: scale_layout_def bind_e_Inr_iff Let_def)

lemma graphic_layout_fields:
  assumes "graphic_layout te w h gr = Inr gr'"
  shows "gr_start gr' = gr_start gr" "gr_end gr' = gr_end gr" "gr_r_start gr' = gr_r_start gr"
    "gr_r_end gr' = gr_r_end gr" "gr_width gr' = w" "gr_height gr' = h"
    "sc_lo (gr_bot_scale gr') = sc_lo (gr_bot_scale gr)" "sc_hi (gr_bot_scale gr') = sc_hi (gr_bot_scale gr)"
    "sc_width (gr_bot_scale gr') = Some w"
    "sc_lo (gr_mid_scale gr') = sc_lo (gr_mid_scale gr)" "sc_hi (gr_mid_scale gr') = sc_hi (gr_mid_scale gr)"
  using assms by (auto simp: graphic_layout_def bind_e_Inr_iff scale_layout_fields)

lemma set_range_fields:
  assumes "set_range te a b gr = Inr gr'"
  shows "gr_start gr' = gr_start gr" "gr_end gr' = gr_end gr" "gr_width gr' = gr_width gr"
    "gr_height gr' = gr_height gr"
    "gr_r_start gr' = Some (num_max (gr_start gr) (num_min a b))"
    "gr_r_end gr' = Some (num_min (gr_end gr) (num_max a b))"
    "sc_lo (gr_bot_scale gr') = sc_lo (gr_bot_scale gr)" "sc_hi (gr_bot_scale gr') = sc_hi (gr_bot_scale gr)"
    "sc_width (gr_bot_scale gr') = Some (gr_width gr)"
  using assms by (auto simp: set_range_def bind_e_Inr_iff Let_def graphic_layout_fields)

text \<open>\<open>set_range\<close> orders its two arguments and clamps them to the trace: for a window
  that meets the trace the range it stores is ordered and lies inside it, and is the intersection of the
  two; for a window outside the trace the stored range is inverted.\<close>

theorem set_range_clamps:
  assumes "set_range te a b gr = Inr gr'" and "gr_start gr \<le> gr_end gr"
  shows "\<exists>lo hi. get_range_bounds gr' = Inr (lo, hi)
    \<and> nval lo = max (nval (gr_start gr)) (min (nval a) (nval b))
    \<and> nval hi = min (nval (gr_end gr)) (max (nval a) (nval b))
    \<and> (lo \<le> hi \<longleftrightarrow> num_min a b \<le> gr_end gr \<and> gr_start gr \<le> num_max a b)"
  using assms set_range_fields(5,6) [OF assms(1)]
  by (auto simp: get_range_bounds_def pynum_order)

section \<open>The selection\<close>

text \<open>Dragging the selection works on the right time: for a trace that starts at 0,
  the time \<open>scale_selection\<close> gives for a pixel is drawn by the bottom scale at that same pixel.\<close>

theorem selection_roundtrip:
  assumes "set_range te a b (set_top_legend lg (set_data dat (new_graphic (I 0) (I hi)))) = Inr gr0"
    and "graphic_layout te w h gr0 = Inr gr" and "0 < hi" and "I 0 < w"
  shows "bind_e (scale_selection gr (F x)) (get_position (gr_bot_scale gr)) = Inr (F x)"
proof -
  note f = graphic_layout_fields [OF assms(2)] set_range_fields [OF assms(1)]
  have "gr_start gr = F 0" "gr_end gr = F (of_int hi)" "gr_width gr = w" "sc_lo (gr_bot_scale gr) = Some (I 0)"
    "sc_hi (gr_bot_scale gr) = Some (I hi)" "sc_width (gr_bot_scale gr) = Some w"
    by (simp_all only: f) (simp_all add: set_top_legend_def set_data_def new_graphic_def py_float_def
      set_bounds_def set_bot_def)
  moreover have "nval w \<noteq> 0" using assms(4) by (simp add: pynum_order)
  ultimately show ?thesis using assms(3)
    by (simp add: scale_selection_def get_position_def scale_pos_def num_div_def)
qed

section \<open>The stack of the drawing context\<close>

definition unstacked :: "cairo list \<Rightarrow> bool" where
  "unstacked cmds \<longleftrightarrow> Save \<notin> set cmds \<and> Restore \<notin> set cmds"

lemma unstacked_simps [simp]:
  "unstacked []" "unstacked (xs @ ys) \<longleftrightarrow> unstacked xs \<and> unstacked ys"
  "unstacked (c # cs) \<longleftrightarrow> c \<noteq> Save \<and> c \<noteq> Restore \<and> unstacked cs"
  by (auto simp: unstacked_def)

lemma unstacked_fold:
  assumes "fold_e f s xs = Inr t" and "unstacked (out s)"
    and "\<And>s x s'. unstacked (out s) \<Longrightarrow> f s x = Inr s' \<Longrightarrow> unstacked (out s')"
  shows "unstacked (out t)"
  by (rule fold_e_invariant [OF assms(1), where P = "\<lambda>s. unstacked (out s)"]) (use assms(2,3) in auto)

text \<open>Each loop body only appends calls that leave the stack alone.\<close>

lemma steps_unstacked:
  "unstacked (snd (snd st)) \<Longrightarrow> legend_draw_step te lg st l = Inr st' \<Longrightarrow> unstacked (snd (snd st'))"
  "unstacked c \<Longrightarrow> draw_tick te sc s c x = Inr c' \<Longrightarrow> unstacked c'"
  "unstacked c \<Longrightarrow> draw_subtick sc s c x = Inr c' \<Longrightarrow> unstacked c'"
  "unstacked (snd ste) \<Longrightarrow> draw_event_step tr px y w ste ev = Inr ste' \<Longrightarrow> unstacked (snd ste')"
  "unstacked (snd (snd str)) \<Longrightarrow> draw_range_step px y w str r = Inr str' \<Longrightarrow> unstacked (snd (snd str'))"
  by (auto simp: legend_draw_step_def draw_item_def draw_tick_def draw_subtick_def draw_event_step_def
      draw_range_step_def bind_e_Inr_iff Let_def split: prod.splits if_splits)

lemma legend_draw_unstacked:
  assumes "legend_draw te lg = Inr cmds"
  shows "unstacked cmds"
proof -
  obtain ls st where run: "fold_e (legend_draw_step te lg) (0, legend_start (lg_padding lg), []) ls = Inr st"
      and st: "snd (snd st) = cmds"
    using assms by (auto simp: legend_draw_def bind_e_Inr_iff)
  from unstacked_fold [where out = "\<lambda>st. snd (snd st)", OF run _ steps_unstacked(1)] show ?thesis
    unfolding st by simp
qed

lemma scale_draw_unstacked:
  assumes "scale_draw te sc = Inr cmds"
  shows "unstacked cmds"
proof -
  have tick: "unstacked c \<Longrightarrow> unstacked c'" if "fold_e (draw_tick te sc s) c xs = Inr c'" for s c xs c'
    by (rule unstacked_fold [where out = "\<lambda>c. c", OF that]) (assumption, rule steps_unstacked(2))
  have sub: "unstacked c \<Longrightarrow> unstacked c'" if "fold_e (draw_subtick sc s) c xs = Inr c'" for s c xs c'
    by (rule unstacked_fold [where out = "\<lambda>c. c", OF that]) (assumption, rule steps_unstacked(3))
  show ?thesis
    using assms by (auto simp: scale_draw_def bind_e_Inr_iff Let_def split: if_splits dest!: tick sub)
qed

lemma row_parts_unstacked:
  "unstacked (draw_line x y w h)" "unstacked (show_name te mth x y n)"
  "row_background tr x y w h = Inr bg \<Longrightarrow> unstacked bg" "row_line tr g y = Inr sep \<Longrightarrow> unstacked sep"
  by (auto simp: draw_line_def show_name_def row_background_def row_line_def bind_e_Inr_iff split: if_splits)

lemma draw_events_unstacked:
  assumes "draw_events tr l x y w h = Inr (tr', cmds)"
  shows "unstacked cmds"
proof -
  obtain bg xs st where run: "fold_e (draw_event_step tr x y w) (py_int x, bg) xs = Inr st" "snd st = cmds" "unstacked bg"
    using assms by (auto simp: draw_events_def bind_e_Inr_iff dest: row_parts_unstacked(3))
  from unstacked_fold [where out = snd, OF run(1) _ steps_unstacked(4)] run(2,3) show ?thesis by simp
qed

lemma draw_ranges_unstacked:
  assumes "draw_ranges tr l x y w h = Inr (tr', cmds)"
  shows "unstacked cmds"
proof -
  obtain bg xs st where run: "fold_e (draw_range_step x y w) (tr, py_int (x - I 1), bg) xs = Inr st"
      "snd (snd st) = cmds" "unstacked bg"
    using assms by (auto simp: draw_ranges_def bind_e_Inr_iff dest: row_parts_unstacked(3))
  from unstacked_fold [where out = "\<lambda>st. snd (snd st)", OF run(1) _ steps_unstacked(5)] run(2,3) show ?thesis by simp
qed

lemma rows_unstacked:
  "unstacked (snd (snd st)) \<Longrightarrow> draw_event_row te g st l = Inr st' \<Longrightarrow> unstacked (snd (snd st'))"
  "unstacked (snd (snd st)) \<Longrightarrow> draw_range_row te g st r = Inr st' \<Longrightarrow> unstacked (snd (snd st'))"
  by (auto simp: draw_event_row_def draw_range_row_def bind_e_Inr_iff Let_def row_parts_unstacked
      draw_events_unstacked draw_ranges_unstacked split: prod.splits)

lemma draw_timeline_unstacked:
  assumes "unstacked (snd (snd st))" and "draw_timeline te g st tln = Inr st'"
  shows "unstacked (snd (snd st'))"
proof -
  note ev = unstacked_fold [where out = "\<lambda>st. snd (snd st)", OF _ _ rows_unstacked(1)]
  note rg = unstacked_fold [where out = "\<lambda>st. snd (snd st)", OF _ _ rows_unstacked(2)]
  obtain tr y c where st: "st = (tr, y, c)" by (cases st)
  obtain mth s1 s2 s3 w where
    1: "fold_e (draw_event_row te g) (tr, y, c @ show_name te mth (g_left g) y (tl_name tln)) (tl_event_int tln) = Inr s1"
    and 2: "fold_e (draw_event_row te g) s1 (tl_event_str tln) = Inr s2"
    and 3: "fold_e (draw_range_row te g) s2 (tl_ranges tln) = Inr s3"
    and st': "snd (snd st') = snd (snd s3) @ draw_line (I 0) (fst (snd s3) - half (tr_padding (fst s3))) w (I 0)"
    using assms(2) by (auto simp: st draw_timeline_def bind_e_Inr_iff)
  have "unstacked (snd (snd s1))" by (rule ev [OF 1]) (use assms(1) in \<open>simp add: st row_parts_unstacked\<close>)
  then have "unstacked (snd (snd s2))" by (rule ev [OF 2])
  then have "unstacked (snd (snd s3))" by (rule rg [OF 3])
  then show ?thesis by (simp add: st' row_parts_unstacked)
qed

lemma lines_draw_unstacked:
  assumes "lines_draw te tr = Inr (tr', cmds)"
  shows "unstacked cmds"
proof -
  obtain g y c ts st x x' h where
    run: "fold_e (draw_timeline te g) (tr\<lparr>tr_grey := Some 1\<rparr>, y, draw_line (I 0) (I 0) c (I 0)) ts = Inr st"
    and cmds: "cmds = snd (snd st) @ draw_line x (I 0) (I 0) h @ draw_line x' (I 0) (I 0) h"
    using assms by (auto simp: lines_draw_def bind_e_Inr_iff Let_def)
  have "unstacked (snd (snd st))"
    using unstacked_fold [where out = "\<lambda>st. snd (snd st)", OF run _ draw_timeline_unstacked]
    by (simp add: row_parts_unstacked)
  then show ?thesis by (simp add: cmds row_parts_unstacked)
qed

definition saves :: "cairo list \<Rightarrow> nat" where
  "saves cmds = length (filter (\<lambda>c. c = Save) cmds)"

definition restores :: "cairo list \<Rightarrow> nat" where
  "restores cmds = length (filter (\<lambda>c. c = Restore) cmds)"

lemma saves_unstacked: "unstacked cmds \<Longrightarrow> saves cmds = 0 \<and> restores cmds = 0"
  by (auto simp: unstacked_def saves_def restores_def filter_empty_conv)

lemma saves_append: "saves (a @ b) = saves a + saves b" "restores (a @ b) = restores a + restores b"
  by (simp_all add: saves_def restores_def)

lemma saves_Cons:
  "saves [] = 0" "saves (c # cs) = (if c = Save then 1 else 0) + saves cs"
  "restores [] = 0" "restores (c # cs) = (if c = Restore then 1 else 0) + restores cs"
  by (simp_all add: saves_def restores_def)

text \<open>One \<open>draw\<close> saves the cairo state once more than it restores it: the first
  \<open>ctx.save()\<close>, before the background, is never undone.\<close>

theorem graphic_draw_saves:
  assumes "graphic_draw te gr = Inr (gr', cmds)"
  shows "saves cmds = restores cmds + 1"
proof -
  obtain lc dc mc bc dat lh xs used mh ss se uh low where parts: "unstacked lc" "unstacked dc" "unstacked mc" "unstacked bc"
    and cmds: "cmds = draw_background (gr\<lparr>gr_data := dat\<rparr>) @ [Save] @ lc @ [Restore]
         @ draw_separation (gr\<lparr>gr_data := dat\<rparr>) lh
         @ translated (I 0) lh dc @ translated xs used mc @ draw_pane_line xs used mh
         @ draw_separation (gr\<lparr>gr_data := dat\<rparr>) used @ draw_connections (gr\<lparr>gr_data := dat\<rparr>) xs used ss se
         @ draw_unused (gr\<lparr>gr_data := dat\<rparr>) low ss se uh @ translated (I 0) low bc"
    using assms unfolding graphic_draw_def
    by (auto simp: bind_e_Inr_iff Let_def dest!: legend_draw_unstacked lines_draw_unstacked scale_draw_unstacked)
  show ?thesis
    by (simp add: cmds saves_append saves_Cons translated_def saves_unstacked [OF parts(1)]
        saves_unstacked [OF parts(2)] saves_unstacked [OF parts(3)] saves_unstacked [OF parts(4)]
        draw_background_def draw_separation_def draw_pane_line_def draw_connections_def draw_unused_def
        black_def light_grey_def)
qed

section \<open>The start of the program\<close>

text \<open>
  \<open>main\<close> up to the creation of the window, after \<open>read_data\<close>: the colours of the legend, the
  renderers, and the first range, a tenth of the trace in its middle. \<open>/\<close> on the bounds, which are
  integers, rounds down.
\<close>

definition first_range :: "int \<times> int \<Rightarrow> int \<times> int" where
  "first_range b =
     (let range_mid = (snd b - fst b) div 2;
          range_width = (snd b - fst b) div 10
      in (range_mid - range_width div 2, range_mid + range_width div 2))"

definition grid_main :: "text_extents \<Rightarrow> (string list \<Rightarrow> string list) \<Rightarrow> string list \<Rightarrow> GraphicRenderer py" where
  "grid_main te kord lines =
     bind_e (read_data lines) (\<lambda>(colors, ts).
       let bounds = timelines_bounds ts;
           graphic = new_graphic (I (fst bounds)) (I (snd bounds));
           range_values = get_all_range_values kord ts
       in bind_e (range_colors colors range_values) (\<lambda>(cs, colors').
            let graphic = set_top_legend (set_legends range_values cs new_legend) graphic;
                graphic = set_data (set_timelines ts colors' new_lines) graphic
            in set_range te (I (fst (first_range bounds))) (I (snd (first_range bounds))) graphic))"

text \<open>When the parts are in place, only a range of length exactly 1 makes \<open>set_range\<close> fail.\<close>

definition assembled :: "GraphicRenderer \<Rightarrow> bool" where
  "assembled gr \<longleftrightarrow>
     (\<exists>lg dat lo hi. gr_top_legend gr = Some lg \<and> lg_legends lg \<noteq> None \<and> gr_data gr = Some dat
        \<and> tr_timelines dat \<noteq> None \<and> sc_lo (gr_bot_scale gr) = Some lo \<and> sc_hi (gr_bot_scale gr) = Some hi
        \<and> nval hi - nval lo \<noteq> 1)"

lemma legend_layout_some: "lg_legends lg \<noteq> None \<Longrightarrow> \<exists>h. legend_layout te w lg = Inr (lg\<lparr>lg_width := Some w, lg_height := Some h\<rparr>)"
  by (auto simp: legend_layout_def Let_def)

lemma lines_layout_some:
  assumes "tr_timelines tr \<noteq> None"
  shows "\<exists>tr' x. lines_layout te w tr = Inr tr' \<and> get_data_x_start tr' = Inr x \<and> tr_timelines tr' = tr_timelines tr
    \<and> tr_padding tr' = tr_padding tr"
  using assms by (auto simp: lines_layout_def Let_def get_data_x_start_def)

lemma scale_layout_some:
  assumes "sc_lo sc = Some lo" "sc_hi sc = Some hi" "nval hi - nval lo \<noteq> 1"
  shows "\<exists>d h1 h2. scale_layout te w sc = Inr (sc\<lparr>sc_delta := Some d, sc_width := Some w,
    sc_max_text_height := Some h1, sc_height := Some h2\<rparr>)"
  using assms scale_layout_result [OF assms(1,2)] by auto

lemma set_range_run:
  fixes a b
  assumes "assembled gr"
  defines "lo \<equiv> num_max (gr_start gr) (num_min a b)" and "hi \<equiv> num_min (gr_end gr) (num_max a b)"
  shows "if nval hi - nval lo = 1 then set_range te a b gr = Inl ZeroDivisionError
    else \<exists>gr'. set_range te a b gr = Inr gr' \<and> assembled gr'"
proof -
  obtain lg dat l h where gr: "gr_top_legend gr = Some lg" "lg_legends lg \<noteq> None" "gr_data gr = Some dat"
      "tr_timelines dat \<noteq> None" "sc_lo (gr_bot_scale gr) = Some l" "sc_hi (gr_bot_scale gr) = Some h"
      "nval h - nval l \<noteq> 1"
    using assms(1) by (auto simp: assembled_def)
  obtain lh where lg: "legend_layout te (gr_width gr) lg = Inr (lg\<lparr>lg_width := Some (gr_width gr), lg_height := Some lh\<rparr>)"
    using legend_layout_some [OF gr(2)] by blast
  obtain dat' x where dat: "lines_layout te (gr_width gr) (set_render_range lo hi dat) = Inr dat'"
      "get_data_x_start dat' = Inr x" "tr_timelines dat' = tr_timelines dat"
    using lines_layout_some [of "set_render_range lo hi dat" te "gr_width gr"] gr(4) by (auto simp: set_render_range_def)
  obtain d h1 h2 where bot: "scale_layout te (gr_width gr) (gr_bot_scale gr) = Inr ((gr_bot_scale gr)\<lparr>sc_delta := Some d,
      sc_width := Some (gr_width gr), sc_max_text_height := Some h1, sc_height := Some h2\<rparr>)"
    using scale_layout_some [OF gr(5,6,7)] by blast
  have mid: "sc_lo (set_bounds lo hi (gr_mid_scale gr)) = Some lo" "sc_hi (set_bounds lo hi (gr_mid_scale gr)) = Some hi"
    by (simp_all add: set_bounds_def)
  note run = set_range_def graphic_layout_def Let_def lo_def [symmetric] hi_def [symmetric] gr(1,3,5,6,7) lg dat bot
    legend_get_height_def
  show ?thesis
  proof (cases "nval hi - nval lo = 1")
    case True
    then show ?thesis using scale_layout_result [OF mid] by (simp add: run)
  next
    case False
    obtain m where "scale_layout te (gr_width gr - x) (set_bounds lo hi (gr_mid_scale gr)) = Inr m"
      using scale_layout_some [OF mid False] by blast
    with False gr(2,4) dat(3) show ?thesis by (auto simp: run assembled_def)
  qed
qed

lemma set_range_ok:
  assumes "assembled gr"
    and "nval (num_min (gr_end gr) (num_max a b)) - nval (num_max (gr_start gr) (num_min a b)) \<noteq> 1"
  shows "\<exists>gr'. set_range te a b gr = Inr gr' \<and> assembled gr'"
  using set_range_run [OF assms(1), where a = a and b = b and te = te] assms(2) by simp

lemma graphic_layout_ok:
  assumes "assembled gr" and "sc_lo (gr_mid_scale gr) = Some lo" and "sc_hi (gr_mid_scale gr) = Some hi"
    and "nval hi - nval lo \<noteq> 1"
  shows "\<exists>gr'. graphic_layout te w h gr = Inr gr'"
proof -
  obtain lg dat l u where gr: "gr_top_legend gr = Some lg" "lg_legends lg \<noteq> None" "gr_data gr = Some dat"
      "tr_timelines dat \<noteq> None" "sc_lo (gr_bot_scale gr) = Some l" "sc_hi (gr_bot_scale gr) = Some u"
      "nval u - nval l \<noteq> 1"
    using assms(1) by (auto simp: assembled_def)
  obtain lh where lg: "legend_layout te w lg = Inr (lg\<lparr>lg_width := Some w, lg_height := Some lh\<rparr>)"
    using legend_layout_some [OF gr(2)] by blast
  obtain dat' x where dat: "lines_layout te w dat = Inr dat'" "get_data_x_start dat' = Inr x"
    using lines_layout_some [OF gr(4)] by blast
  obtain bot where bot: "scale_layout te w (gr_bot_scale gr) = Inr bot"
    using scale_layout_some [OF gr(5,6,7)] by blast
  obtain m where mid: "scale_layout te (w - x) (gr_mid_scale gr) = Inr m"
    using scale_layout_some [OF assms(2-4)] by blast
  show ?thesis
    by (simp add: graphic_layout_def gr(1,3) lg dat bot mid legend_get_height_def)
qed

lemma set_range_mid_bounds:
  assumes "set_range te a b gr = Inr gr'"
  shows "sc_lo (gr_mid_scale gr') = gr_r_start gr'" "sc_hi (gr_mid_scale gr') = gr_r_end gr'"
proof -
  have "sc_lo (gr_mid_scale gr') = gr_r_start gr' \<and> sc_hi (gr_mid_scale gr') = gr_r_end gr'"
    using assms unfolding set_range_def Let_def
  proof (rule bind_e_InrE)
    fix dat
    let ?s = "num_max (gr_start gr) (num_min a b)" and ?e = "num_min (gr_end gr) (num_max a b)"
    assume "graphic_layout te (gr_width gr) (gr_height gr) (gr\<lparr>gr_r_start := Some ?s, gr_r_end := Some ?e,
      gr_data := Some (set_render_range ?s ?e dat), gr_mid_scale := set_bounds ?s ?e (gr_mid_scale gr)\<rparr>) = Inr gr'"
    note f = graphic_layout_fields [OF this]
    show ?thesis by (simp only: f) (simp add: set_bounds_def)
  qed
  then show "sc_lo (gr_mid_scale gr') = gr_r_start gr'" "sc_hi (gr_mid_scale gr') = gr_r_end gr'" by simp_all
qed

text \<open>The first range of a trace that starts at 0 lies inside the trace; it is empty
  exactly when the trace is shorter than 20.\<close>

theorem first_range_empty:
  assumes "0 \<le> hi"
  shows "0 \<le> fst (first_range (0, hi)) \<and> fst (first_range (0, hi)) \<le> snd (first_range (0, hi))
    \<and> snd (first_range (0, hi)) \<le> hi
    \<and> (fst (first_range (0, hi)) = snd (first_range (0, hi)) \<longleftrightarrow> hi < 20)"
proof -
  define d e m where "d = hi div 10" and "e = d div 2" and "m = hi div 2"
  have "10 * d \<le> hi" "hi < 10 * d + 10" "2 * e \<le> d" "d < 2 * e + 2" "2 * m \<le> hi" "hi < 2 * m + 2"
    by (simp_all add: d_def e_def m_def)
  note b = this
  have "0 \<le> d" "0 \<le> e" "0 \<le> m" using assms by (simp_all add: d_def e_def m_def)
  have e: "e = 0 \<longleftrightarrow> hi < 20"
  proof
    assume "e = 0" then show "hi < 20" using b by linarith
  next
    assume "hi < 20" then have "d \<le> 1" using b by linarith
    then show "e = 0" using b \<open>0 \<le> e\<close> by linarith
  qed
  have "e \<le> m" using e b \<open>0 \<le> m\<close> by (cases "hi < 20"; linarith)
  moreover have "m + e \<le> hi" using b assms by linarith
  ultimately have "0 \<le> m - e \<and> m - e \<le> m + e \<and> m + e \<le> hi \<and> (e = 0 \<longleftrightarrow> hi < 20)"
    using e \<open>0 \<le> e\<close> by linarith
  then show ?thesis by (simp add: first_range_def Let_def d_def e_def m_def)
qed

theorem first_range_empty_witness:
  "fst (first_range (0, 19)) = snd (first_range (0, 19))"
  using first_range_empty [of 19] by simp

section \<open>A run on the sample trace\<close>

definition sample_graphic :: GraphicRenderer where
  "sample_graphic = set_top_legend sample_legend
     (set_data (set_timelines (snd (projr (read_data sample_trace))) new_colors new_lines) (new_graphic (I 0) (I 20)))"

lemmas sample_graphic_defs = sample_graphic_def set_data_def set_top_legend_def new_graphic_def set_bot_def
  set_top_def set_bounds_def new_scale_def py_float_def

lemma sample_graphic_assembled: "assembled sample_graphic"
  by (simp add: assembled_def sample_graphic_defs sample_legend_def set_legends_def set_timelines_def)

lemma sample_graphic_bounds: "gr_start sample_graphic = F 0" "gr_end sample_graphic = F 20"
  by (simp_all add: sample_graphic_defs)

theorem set_range_clamps_witness:
  "\<exists>gr lo hi. set_range unit_text (I 30) (I 6) sample_graphic = Inr gr
     \<and> get_range_bounds gr = Inr (lo, hi) \<and> nval lo = 6 \<and> nval hi = 20"
proof -
  obtain gr where gr: "set_range unit_text (I 30) (I 6) sample_graphic = Inr gr"
    using set_range_ok [OF sample_graphic_assembled, where a = "I 30" and b = "I 6"] by (auto simp: sample_graphic_bounds)
  from set_range_clamps [OF this] gr show ?thesis by (auto simp: sample_graphic_bounds pynum_order)
qed

theorem selection_roundtrip_witness:
  "\<exists>gr0 gr. set_range unit_text (I 6) (I 9) sample_graphic = Inr gr0
     \<and> graphic_layout unit_text (I 300) (I 200) gr0 = Inr gr
     \<and> bind_e (scale_selection gr (F 45)) (get_position (gr_bot_scale gr)) = Inr (F 45)"
proof -
  obtain gr0 where gr0: "set_range unit_text (I 6) (I 9) sample_graphic = Inr gr0" "assembled gr0"
    using set_range_ok [OF sample_graphic_assembled, where a = "I 6" and b = "I 9"] by (auto simp: sample_graphic_bounds)
  note r = set_range_fields [OF gr0(1)]
  obtain gr where gr: "graphic_layout unit_text (I 300) (I 200) gr0 = Inr gr"
    using graphic_layout_ok [OF gr0(2), where lo = "I 6" and hi = "I 9" and te = unit_text and w = "I 300" and h = "I 200"] set_range_mid_bounds [OF gr0(1)] r
    by (auto simp: sample_graphic_bounds num_max_def num_min_def pynum_order)
  have "bind_e (scale_selection gr (F 45)) (get_position (gr_bot_scale gr)) = Inr (F 45)"
    by (rule selection_roundtrip [OF gr0(1) [unfolded sample_graphic_def] gr]) (simp_all add: pynum_order)
  with gr0 gr show ?thesis by blast
qed

text \<open>A whole picture of the sample trace.\<close>

lemma closest_power_eval:
  "closest_power (I 3) = 1" "closest_power (I 20) = 10"
  by (simp_all add: closest_power_def while_unfold pynum_order)

definition drawn_graphic :: GraphicRenderer where
  "drawn_graphic = projr (bind_e (set_range unit_text (I 12) (I 15) sample_graphic) (graphic_layout unit_text (I 300) (I 200)))"

lemmas setup_eval = set_range_def graphic_layout_def set_data_def set_top_legend_def new_graphic_def set_bot_def
  set_top_def set_bounds_def new_scale_def py_float_def num_max_def num_min_def pynum_order set_timelines_def
  new_lines_def set_render_range_def sample_legend_def set_legends_def new_legend_def legend_layout_def
  legend_item_def legend_start_def unit_text_def lines_layout_def count_rows_def count_start_def widest_def
  get_data_x_start_def half_def scale_layout_def scale_delta_def closest_power_eval num_div_def num_eq_def
  tick_start_def tick_end_def num_mod_def legend_get_height_def

lemma drawn_graphic_rectangles:
  "get_selection_rectangle drawn_graphic = Inr (I 180, F 109, I 45, F 38)"
  "get_data_rectangle drawn_graphic = Inr (F 50, F 28, F 250, F 43)"
  unfolding drawn_graphic_def sample_graphic_def sample_trace_read sum.sel snd_conv
  by (simp_all add: setup_eval Let_def get_selection_rectangle_def get_data_rectangle_def legend_height_def
      data_height_def data_x_start_def lines_get_height_def scale_get_height_def get_position_def scale_pos_def
      cong: bind_e_weak_cong)

lemma drawn_graphic_draw: "is_ok (graphic_draw unit_text drawn_graphic)"
  unfolding drawn_graphic_def sample_graphic_def sample_trace_read sum.sel snd_conv
  by (simp add: setup_eval Let_def cong: bind_e_weak_cong)
    (simp add: graphic_draw_def legend_draw_def legend_draw_step_def legend_item_def legend_start_def unit_text_def
      legend_get_height_def scale_draw_def tick_values_def tick_start_def tick_end_def num_mod_def py_range_def
      upt_rec draw_tick_def draw_subtick_def scale_pos_def get_position_def scale_get_height_def lines_get_height_def
      get_data_x_start_def new_colors_def draw_eval Let_def cong: bind_e_weak_cong)

theorem graphic_draw_saves_witness:
  "\<exists>gr cmds. graphic_draw unit_text drawn_graphic = Inr (gr, cmds) \<and> saves cmds = restores cmds + 1"
proof -
  obtain gr cmds where d: "graphic_draw unit_text drawn_graphic = Inr (gr, cmds)"
    using drawn_graphic_draw by (auto simp: is_ok_iff)
  with graphic_draw_saves [OF d] show ?thesis by blast
qed

end
