(* ===== verification/Steps.thy ===== *)
theory Steps
  imports Main
begin

text \<open>
  The interface of the step relations of the development: steps that keep an invariant, and steps that make a
  measure smaller. The first gives the invariant in every state that can be reached, the second a bound on the
  length of every run and a last state for every start.
\<close>

locale kept_by_steps =
  fixes step :: "'s \<Rightarrow> 's \<Rightarrow> bool" and inv :: "'s \<Rightarrow> bool"
  assumes kept: "step s s' \<Longrightarrow> inv s \<Longrightarrow> inv s'"
begin

lemma reach: "step\<^sup>*\<^sup>* s s' \<Longrightarrow> inv s \<Longrightarrow> inv s'"
  by (induction rule: rtranclp_induct) (auto intro: kept)

end

locale bounded_steps =
  fixes step :: "'s \<Rightarrow> 's \<Rightarrow> bool" and weight :: "'s \<Rightarrow> nat"
  assumes smaller: "step s s' \<Longrightarrow> weight s' < weight s"
begin

lemma run_length: "(step ^^ k) s s' \<Longrightarrow> k + weight s' \<le> weight s"
proof (induction k arbitrary: s')
  case (Suc k)
  then obtain u where "(step ^^ k) s u" "step u s'" by auto
  then show ?case using Suc.IH smaller by fastforce
qed simp

lemma last_state: "\<exists>s'. step\<^sup>*\<^sup>* s s' \<and> (\<forall>u. \<not> step s' u)"
proof (induction "weight s" arbitrary: s rule: less_induct)
  case less
  show ?case
  proof (cases "\<exists>u. step s u")
    case True
    then obtain u where "step s u" by blast
    then show ?thesis using less [OF smaller, of u] by (meson converse_rtranclp_into_rtranclp)
  qed blast
qed

end

end
