(* ===== verification/GridUi.thy ===== *)
theory GridUi
  imports GridGraphic Steps
begin

text \<open>
  The window of \<open>utils/grid.py\<close> (\<open>GtkGraphicRenderer\<close> and the callbacks of \<open>MainWindow\<close>) as a
  state machine: the attributes of the widget, one handler per GTK signal, and the runs of the
  event loop. GTK is not part of the repository: what a handler asks of it is a list of outputs.
  PyGTK prints the exception of a handler that raises and goes on with the next signal, so a run goes on as well,
  with what the handler had assigned by then.
\<close>

section \<open>State\<close>

text \<open>
  \<open>__moving_right\<close> is a \<open>bool\<close> to which \<open>motion_notify\<close> may assign a width, so it is either;
  Python tests its truth.
\<close>

datatype flag = Flag bool | NumFlag pynum

fun truthy :: "flag \<Rightarrow> bool" where
  "truthy (Flag b) = b"
| "truthy (NumFlag x) = (nval x \<noteq> 0)"

text \<open>A surface: its size and what has been drawn on it.\<close>

record surface =
  sf_width :: pynum
  sf_height :: pynum
  sf_cmds :: "cairo list"

record Gtk =
  ui_data :: GraphicRenderer
  moving_left :: bool
  moving_right :: flag
  moving_both :: bool
  moving_top :: bool
  force_full_redraw :: bool
  left_cur :: "pynum option"
  right_cur :: "pynum option"
  both_start :: "pynum option"
  both_cur :: "pynum option"
  top_start :: "pynum option"
  top_cur :: "pynum option"
  ui_width :: "pynum option"
  ui_height :: "pynum option"
  buffer_surface :: "surface option"

datatype cursor = SbHDoubleArrow | Fleur | NoCursor

datatype gtk_out =
    QueueDraw
  | QueueDrawArea int int int int
  | SetCursor cursor
  | PaintBuffer rect surface
  | DrawWindow "cairo list"
  | WritePng string surface
  | HideDialog

type_synonym reply = "(bool \<times> Gtk \<times> gtk_out list) py"

definition new_ui :: "GraphicRenderer \<Rightarrow> Gtk" where
  "new_ui dat = \<lparr>ui_data = dat, moving_left = False, moving_right = Flag False, moving_both = False,
     moving_top = False, force_full_redraw = True, left_cur = None, right_cur = None, both_start = None,
     both_cur = None, top_start = None, top_cur = None, ui_width = None, ui_height = None, buffer_surface = None\<rparr>"

section \<open>Handlers\<close>

text \<open>\<open>set_range\<close> followed by the request for a full redraw, which most handlers end with.\<close>

definition redraw_range :: "text_extents \<Rightarrow> pynum \<Rightarrow> pynum \<Rightarrow> Gtk \<Rightarrow> Gtk py" where
  "redraw_range te start end ui =
     bind_e (set_range te start end (ui_data ui)) (\<lambda>dat. Inr (ui\<lparr>ui_data := dat, force_full_redraw := True\<rparr>))"

definition set_smaller_zoom :: "text_extents \<Rightarrow> Gtk \<Rightarrow> (Gtk \<times> gtk_out list) py" where
  "set_smaller_zoom te ui =
     bind_e (get_range_bounds (ui_data ui)) (\<lambda>(start, end).
     bind_e (redraw_range te start (start + (end - start) * I 2) ui) (\<lambda>ui'. Inr (ui', [QueueDraw])))"

definition set_bigger_zoom :: "text_extents \<Rightarrow> Gtk \<Rightarrow> (Gtk \<times> gtk_out list) py" where
  "set_bigger_zoom te ui =
     bind_e (get_range_bounds (ui_data ui)) (\<lambda>(start, end).
     bind_e (redraw_range te start (start + half (end - start)) ui) (\<lambda>ui'. Inr (ui', [QueueDraw])))"

text \<open>The context is created on the buffer, so the new surface is written as it was created: empty.\<close>

definition output_png :: "text_extents \<Rightarrow> string \<Rightarrow> Gtk \<Rightarrow> (Gtk \<times> gtk_out list) py" where
  "output_png te filename ui =
     (let surface = \<lparr>sf_width = graphic_width (ui_data ui), sf_height = graphic_height (ui_data ui), sf_cmds = []\<rparr> in
      bind_e (attr (buffer_surface ui)) (\<lambda>buf.
      bind_e (graphic_draw te (ui_data ui)) (\<lambda>(dat, cmds).
        Inr (ui\<lparr>ui_data := dat, buffer_surface := Some (buf\<lparr>sf_cmds := sf_cmds buf @ cmds\<rparr>)\<rparr>,
             [WritePng filename surface]))))"

text \<open>A mouse position and the tests on it.\<close>

record mouse =
  mx :: pynum
  my :: pynum

definition near :: "pynum \<Rightarrow> pynum \<Rightarrow> bool" where
  "near a b \<longleftrightarrow> num_abs (a - b) < I 5"

definition strictly_between :: "pynum \<Rightarrow> pynum \<Rightarrow> pynum \<Rightarrow> bool" where
  "strictly_between x lo len \<longleftrightarrow> x > lo \<and> x < lo + len"

definition button_press :: "Gtk \<Rightarrow> mouse \<Rightarrow> reply" where
  "button_press ui ev =
     bind_e (get_selection_rectangle (ui_data ui)) (\<lambda>(x, y, width, height).
     bind_e (get_data_rectangle (ui_data ui)) (\<lambda>(d_x, d_y, d_width, d_height).
       if strictly_between (my ev) y height \<and> near (mx ev) x then Inr (True, ui\<lparr>moving_left := True\<rparr>, [])
       else if strictly_between (my ev) y height \<and> near (mx ev) (x + width)
       then Inr (True, ui\<lparr>moving_right := Flag True\<rparr>, [])
       else if strictly_between (my ev) y height \<and> strictly_between (mx ev) x width
       then Inr (True, ui\<lparr>moving_both := True, both_start := Some (mx ev), both_cur := Some (mx ev)\<rparr>, [])
       else if strictly_between (my ev) d_y d_height \<and> strictly_between (mx ev) d_x d_width
       then Inr (True, ui\<lparr>moving_top := True, top_start := Some (mx ev), top_cur := Some (mx ev)\<rparr>, [])
       else Inr (False, ui, [])))"

definition button_release :: "text_extents \<Rightarrow> Gtk \<Rightarrow> mouse \<Rightarrow> reply" where
  "button_release te ui ev =
     (if moving_left ui then
        (let ui = ui\<lparr>moving_left := False\<rparr> in
         bind_e (attr (left_cur ui)) (\<lambda>cur. bind_e (scale_selection (ui_data ui) cur) (\<lambda>left.
         bind_e (get_range_bounds (ui_data ui)) (\<lambda>(_, right).
         bind_e (redraw_range te left right ui) (\<lambda>ui'. Inr (True, ui', [QueueDraw]))))))
      else if truthy (moving_right ui) then
        (let ui = ui\<lparr>moving_right := Flag False\<rparr> in
         bind_e (attr (right_cur ui)) (\<lambda>cur. bind_e (scale_selection (ui_data ui) cur) (\<lambda>right.
         bind_e (get_range_bounds (ui_data ui)) (\<lambda>(left, _).
         bind_e (redraw_range te left right ui) (\<lambda>ui'. Inr (True, ui', [QueueDraw]))))))
      else if moving_both ui then
        (let ui = ui\<lparr>moving_both := False\<rparr> in
         bind_e (attr (both_cur ui)) (\<lambda>cur. bind_e (attr (both_start ui)) (\<lambda>start.
         bind_e (scale_selection (ui_data ui) (cur - start)) (\<lambda>delta.
         bind_e (get_range_bounds (ui_data ui)) (\<lambda>(left, right).
         bind_e (redraw_range te (left + delta) (right + delta) ui) (\<lambda>ui'. Inr (True, ui', [QueueDraw])))))))
      else Inr (False, (if moving_top ui then ui\<lparr>moving_top := False\<rparr> else ui), []))"

definition redraw_selection :: "Gtk \<Rightarrow> pynum \<Rightarrow> pynum \<Rightarrow> reply" where
  "redraw_selection ui y height =
     bind_e (attr (ui_width ui)) (\<lambda>w. Inr (True, ui, [QueueDrawArea 0 (py_int y) (py_int w) (py_int height)]))"

definition hover :: "Gtk \<Rightarrow> mouse \<Rightarrow> rect \<Rightarrow> rect \<Rightarrow> bool \<times> cursor" where
  "hover ui ev sel dat =
     (let (x, y, width, height) = sel; (d_x, d_y, d_width, d_height) = dat in
      if strictly_between (my ev) y height \<and> (near (mx ev) x \<or> near (mx ev) (x + width)) then (True, SbHDoubleArrow)
      else if strictly_between (my ev) y height \<and> strictly_between (mx ev) x width then (True, Fleur)
      else if strictly_between (my ev) d_y d_height \<and> strictly_between (mx ev) d_x d_width then (True, Fleur)
      else (False, NoCursor))"

definition motion_notify :: "text_extents \<Rightarrow> Gtk \<Rightarrow> mouse \<Rightarrow> reply" where
  "motion_notify te ui ev =
     bind_e (get_selection_rectangle (ui_data ui)) (\<lambda>(x, y, width, height).
       if moving_left ui then
         (let cur = (if mx ev \<le> I 0 then I 0 else if mx ev \<ge> x + width then x + width else mx ev)
          in redraw_selection (ui\<lparr>left_cur := Some cur\<rparr>) y height)
       else if truthy (moving_right ui) then
         bind_e (attr (ui_width ui)) (\<lambda>w.
           redraw_selection
             (if mx ev \<ge> w then ui\<lparr>moving_right := NumFlag w\<rparr>
              else if mx ev < x then ui\<lparr>right_cur := Some x\<rparr>
              else ui\<lparr>right_cur := Some (mx ev)\<rparr>) y height)
       else if moving_both ui then
         bind_e (attr (ui_width ui)) (\<lambda>w. bind_e (attr (both_start ui)) (\<lambda>start.
           let cur_e = w - (x + width - start);
               cur_s = start - x;
               cur = (if mx ev < cur_s then cur_s else if mx ev > cur_e then cur_e else mx ev)
           in redraw_selection (ui\<lparr>both_cur := Some cur\<rparr>) y height))
       else if moving_top ui then
         (let ui = ui\<lparr>top_cur := Some (mx ev)\<rparr> in
          bind_e (attr (top_start ui)) (\<lambda>start.
          bind_e (scale_data (ui_data ui) (start - mx ev)) (\<lambda>delta.
          bind_e (get_range_bounds (ui_data ui)) (\<lambda>(left, right).
          bind_e (redraw_range te (left + delta) (right + delta) ui) (\<lambda>ui'.
            Inr (True, ui'\<lparr>top_start := Some (mx ev)\<rparr>, [QueueDraw]))))))
       else
         bind_e (get_data_rectangle (ui_data ui)) (\<lambda>dat.
           let (res, cur) = hover ui ev (x, y, width, height) dat in Inr (res, ui, [SetCursor cur])))"

definition size_allocate :: "text_extents \<Rightarrow> pynum \<Rightarrow> pynum \<Rightarrow> Gtk \<Rightarrow> (Gtk \<times> gtk_out list) py" where
  "size_allocate te width height ui =
     bind_e (graphic_layout te width height (ui_data ui)) (\<lambda>dat.
       Inr (ui\<lparr>ui_width := Some width, ui_height := Some height, ui_data := dat, force_full_redraw := True\<rparr>, [QueueDraw]))"

text \<open>The line a moved handle leaves in the window.\<close>

definition handle_line :: "pynum \<Rightarrow> pynum \<Rightarrow> pynum \<Rightarrow> cairo list" where
  "handle_line x y height = [MoveTo x y, RelLineTo (I 0) height, ClosePath]"

definition line_style :: "cairo list" where
  "line_style = [SetLineWidth (I 1), black, Stroke]"

definition full_redraw :: "text_extents \<Rightarrow> Gtk \<Rightarrow> Gtk py" where
  "full_redraw te ui =
     (if force_full_redraw ui
      then bind_e (graphic_draw te (ui_data ui)) (\<lambda>(dat, cmds).
        Inr (ui\<lparr>buffer_surface := Some \<lparr>sf_width = graphic_width (ui_data ui), sf_height = graphic_height (ui_data ui),
               sf_cmds = cmds\<rparr>,
             ui_data := dat, force_full_redraw := False\<rparr>))
      else Inr ui)"

definition expose :: "text_extents \<Rightarrow> rect \<Rightarrow> Gtk \<Rightarrow> reply" where
  "expose te area ui =
     bind_e (full_redraw te ui) (\<lambda>ui. bind_e (attr (buffer_surface ui)) (\<lambda>buf.
     bind_e (get_selection_rectangle (ui_data ui)) (\<lambda>(x, y, width, height).
     bind_e (if moving_left ui
             then bind_e (attr (left_cur ui)) (\<lambda>cur. Inr (handle_line (num_max cur (I 2)) y height @ line_style))
             else Inr []) (\<lambda>left.
     bind_e (if truthy (moving_right ui)
             then bind_e (attr (right_cur ui)) (\<lambda>cur. bind_e (attr (ui_width ui)) (\<lambda>w.
                    Inr (handle_line (num_min cur (w - I 2)) y height @ line_style)))
             else Inr []) (\<lambda>right.
     bind_e (if moving_both ui
             then bind_e (attr (both_cur ui)) (\<lambda>cur. bind_e (attr (both_start ui)) (\<lambda>start.
                    let delta_x = cur - start in
                    Inr (handle_line (x + delta_x) y height @ handle_line (x + width + delta_x) y height
                         @ [black, SetLineWidth (I 1), Stroke])))
             else Inr []) (\<lambda>both.
       Inr (False, ui, [PaintBuffer area buf, DrawWindow (left @ right @ both)])))))))"

section \<open>The event loop\<close>

text \<open>
  The signals of the main loop: the mouse, a new size, an exposed area, and the buttons of
  \<open>MainWindow\<close>, whose callbacks call the widget. Only response 1 of the file dialog saves.
\<close>

datatype gtk_event =
    Press mouse
  | Release mouse
  | Motion mouse
  | Resize pynum pynum
  | Expose rect
  | ZoomOut
  | ZoomIn
  | DialogResponse int string

definition dialog_response :: "text_extents \<Rightarrow> int \<Rightarrow> string \<Rightarrow> Gtk \<Rightarrow> (Gtk \<times> gtk_out list) py" where
  "dialog_response te response filename ui =
     (if response = 1
      then bind_e (output_png te filename ui) (\<lambda>(ui', out). Inr (ui', out @ [HideDialog]))
      else Inr (ui, []))"

definition dispatch :: "text_extents \<Rightarrow> gtk_event \<Rightarrow> Gtk \<Rightarrow> (Gtk \<times> gtk_out list) py" where
  "dispatch te ev ui =
     (let keep = (\<lambda>m. bind_e m (\<lambda>(_ :: bool, ui', out). Inr (ui', out))) in
      case ev of
        Press m \<Rightarrow> keep (button_press ui m)
      | Release m \<Rightarrow> keep (button_release te ui m)
      | Motion m \<Rightarrow> keep (motion_notify te ui m)
      | Resize w h \<Rightarrow> size_allocate te w h ui
      | Expose area \<Rightarrow> keep (expose te area ui)
      | ZoomOut \<Rightarrow> set_smaller_zoom te ui
      | ZoomIn \<Rightarrow> set_bigger_zoom te ui
      | DialogResponse r f \<Rightarrow> dialog_response te r f ui)"

text \<open>
  What a handler that raises leaves behind. The attributes of the widget are those assigned before the exception.
  When it comes out of the renderer (\<open>set_range\<close>, \<open>layout\<close>, \<open>draw\<close>), the renderer may have any state \<open>dat\<close>, and
  any commands \<open>cmds\<close> may have been drawn.
\<close>

definition left_by :: "text_extents \<Rightarrow> GraphicRenderer \<Rightarrow> cairo list \<Rightarrow> gtk_event \<Rightarrow> Gtk \<Rightarrow> Gtk" where
  "left_by te dat cmds ev ui =
     (case ev of
        Press m \<Rightarrow> ui
      | Release m \<Rightarrow>
          if moving_left ui then ui\<lparr>moving_left := False, ui_data := dat\<rparr>
          else if truthy (moving_right ui) then ui\<lparr>moving_right := Flag False, ui_data := dat\<rparr>
          else if moving_both ui then ui\<lparr>moving_both := False, ui_data := dat\<rparr>
          else ui
      | Motion m \<Rightarrow>
          (case get_selection_rectangle (ui_data ui) of
             Inl _ \<Rightarrow> ui
           | Inr (x, y, width, height) \<Rightarrow>
               if moving_left ui
               then ui\<lparr>left_cur := Some (if mx m \<le> I 0 then I 0 else if mx m \<ge> x + width then x + width else mx m)\<rparr>
               else if truthy (moving_right ui) \<or> moving_both ui then ui
               else if moving_top ui then ui\<lparr>top_cur := Some (mx m), ui_data := dat\<rparr>
               else ui)
      | Resize w h \<Rightarrow> ui\<lparr>ui_width := Some w, ui_height := Some h, ui_data := dat\<rparr>
      | Expose area \<Rightarrow>
          (case full_redraw te ui of
             Inr ui' \<Rightarrow> ui'
           | Inl _ \<Rightarrow> ui\<lparr>buffer_surface := Some \<lparr>sf_width = graphic_width (ui_data ui), sf_height = graphic_height (ui_data ui),
               sf_cmds = cmds\<rparr>, ui_data := dat\<rparr>)
      | ZoomOut \<Rightarrow> ui\<lparr>ui_data := dat\<rparr>
      | ZoomIn \<Rightarrow> ui\<lparr>ui_data := dat\<rparr>
      | DialogResponse r f \<Rightarrow>
          (case buffer_surface ui of
             None \<Rightarrow> ui
           | Some buf \<Rightarrow> ui\<lparr>ui_data := dat, buffer_surface := Some (buf\<lparr>sf_cmds := sf_cmds buf @ cmds\<rparr>)\<rparr>))"

inductive ui_step :: "text_extents \<Rightarrow> Gtk \<Rightarrow> Gtk \<Rightarrow> bool" for te where
  signal: "dispatch te ev ui = Inr (ui', out) \<Longrightarrow> ui_step te ui ui'"
| raised: "dispatch te ev ui = Inl e \<Longrightarrow> ui_step te ui (left_by te dat cmds ev ui)"

inductive reachable :: "text_extents \<Rightarrow> GraphicRenderer \<Rightarrow> Gtk \<Rightarrow> bool" for te dat where
  start: "reachable te dat (new_ui dat)"
| step: "reachable te dat ui \<Longrightarrow> ui_step te ui ui' \<Longrightarrow> reachable te dat ui'"

inductive_cases ui_stepE: "ui_step te ui ui'"
inductive_simps ui_step_iff: "ui_step te ui ui'"

text \<open>
  The state of the drags: what a mode needs is set when it is entered, and the buffer exists
  once the first full redraw is done. The left and right handles have no such guarantee.
\<close>

definition ui_inv :: "Gtk \<Rightarrow> bool" where
  "ui_inv ui \<longleftrightarrow>
     (moving_both ui \<longrightarrow> both_start ui \<noteq> None \<and> both_cur ui \<noteq> None)
     \<and> (moving_top ui \<longrightarrow> top_start ui \<noteq> None \<and> top_cur ui \<noteq> None)
     \<and> (\<not> force_full_redraw ui \<longrightarrow> buffer_surface ui \<noteq> None)
     \<and> (ui_width ui = None \<longleftrightarrow> ui_height ui = None)"

lemma redraw_range_fields:
  assumes "redraw_range te a b ui = Inr ui'"
  shows "\<exists>dat. ui' = ui\<lparr>ui_data := dat, force_full_redraw := True\<rparr>"
  using assms by (auto simp: redraw_range_def bind_e_Inr_iff)

lemma redraw_range_inv: "ui_inv ui \<Longrightarrow> redraw_range te a b ui = Inr ui' \<Longrightarrow> ui_inv ui'"
  by (drule redraw_range_fields) (auto simp: ui_inv_def)

lemma button_press_result:
  assumes "button_press ui m = Inr (r, ui', out)"
  shows "ui' \<in> {ui, ui\<lparr>moving_left := True\<rparr>, ui\<lparr>moving_right := Flag True\<rparr>,
    ui\<lparr>moving_both := True, both_start := Some (mx m), both_cur := Some (mx m)\<rparr>,
    ui\<lparr>moving_top := True, top_start := Some (mx m), top_cur := Some (mx m)\<rparr>}"
  using assms by (auto simp: button_press_def bind_e_Inr_iff split: if_splits)

lemma button_press_inv:
  assumes "ui_inv ui" and "button_press ui m = Inr (r, ui', out)"
  shows "ui_inv ui'"
  using button_press_result [OF assms(2)] assms(1)
  unfolding insert_iff empty_iff by (elim disjE) (simp_all add: ui_inv_def)

lemma button_release_result:
  assumes "button_release te ui m = Inr (r, ui', out)"
  shows "\<exists>dat. ui' \<in> {ui, ui\<lparr>moving_top := False\<rparr>,
    ui\<lparr>moving_left := False, ui_data := dat, force_full_redraw := True\<rparr>,
    ui\<lparr>moving_right := Flag False, ui_data := dat, force_full_redraw := True\<rparr>,
    ui\<lparr>moving_both := False, ui_data := dat, force_full_redraw := True\<rparr>}"
  using assms unfolding button_release_def Let_def
  by (auto simp: bind_e_Inr_iff dest!: redraw_range_fields split: if_splits)

lemma button_release_inv:
  assumes "ui_inv ui" and "button_release te ui m = Inr (r, ui', out)"
  shows "ui_inv ui'"
proof -
  obtain dat where "ui' \<in> {ui, ui\<lparr>moving_top := False\<rparr>,
    ui\<lparr>moving_left := False, ui_data := dat, force_full_redraw := True\<rparr>,
    ui\<lparr>moving_right := Flag False, ui_data := dat, force_full_redraw := True\<rparr>,
    ui\<lparr>moving_both := False, ui_data := dat, force_full_redraw := True\<rparr>}"
    using button_release_result [OF assms(2)] by blast
  then show ?thesis using assms(1) unfolding insert_iff empty_iff by (elim disjE) (simp_all add: ui_inv_def)
qed

lemma redraw_selection_result: "redraw_selection ui y h = Inr (r, ui', out) \<Longrightarrow> ui' = ui \<and> ui_width ui \<noteq> None"
  by (auto simp: redraw_selection_def bind_e_Inr_iff attr_Inr_iff)

lemma motion_notify_result:
  assumes "motion_notify te ui m = Inr (r, ui', out)"
  shows "\<exists>dat c w. ui' \<in> {ui, ui\<lparr>left_cur := Some c\<rparr>, ui\<lparr>moving_right := NumFlag w\<rparr>, ui\<lparr>right_cur := Some c\<rparr>,
    ui\<lparr>both_cur := Some c\<rparr>,
    ui\<lparr>top_cur := Some (mx m), ui_data := dat, force_full_redraw := True, top_start := Some (mx m)\<rparr>}"
proof -
  note run = assms
  obtain x y w h where sel: "get_selection_rectangle (ui_data ui) = Inr (x, y, w, h)"
    using assms by (auto simp: motion_notify_def bind_e_Inr_iff)
  consider "moving_left ui" | "\<not> moving_left ui" "truthy (moving_right ui)"
    | "\<not> moving_left ui" "\<not> truthy (moving_right ui)" "moving_both ui"
    | "\<not> moving_left ui" "\<not> truthy (moving_right ui)" "\<not> moving_both ui" "moving_top ui"
    | "\<not> moving_left ui" "\<not> truthy (moving_right ui)" "\<not> moving_both ui" "\<not> moving_top ui"
    by blast
  then show ?thesis
  proof cases
    case 1
    with run sel show ?thesis by (auto simp: motion_notify_def Let_def dest!: redraw_selection_result)
  next
    case 2
    with run sel show ?thesis
      by (auto simp: motion_notify_def Let_def bind_e_Inr_iff dest!: redraw_selection_result split: if_splits)
  next
    case 3
    with run sel show ?thesis
      by (auto simp: motion_notify_def Let_def bind_e_Inr_iff dest!: redraw_selection_result)
  next
    case 4
    with run sel show ?thesis
      by (auto simp: motion_notify_def Let_def bind_e_Inr_iff dest!: redraw_range_fields)
  next
    case 5
    with run sel show ?thesis by (auto simp: motion_notify_def Let_def bind_e_Inr_iff case_prod_beta)
  qed
qed

lemma motion_notify_inv:
  assumes "ui_inv ui" and "motion_notify te ui m = Inr (r, ui', out)"
  shows "ui_inv ui'"
proof -
  obtain dat c w where "ui' \<in> {ui, ui\<lparr>left_cur := Some c\<rparr>, ui\<lparr>moving_right := NumFlag w\<rparr>, ui\<lparr>right_cur := Some c\<rparr>,
    ui\<lparr>both_cur := Some c\<rparr>,
    ui\<lparr>top_cur := Some (mx m), ui_data := dat, force_full_redraw := True, top_start := Some (mx m)\<rparr>}"
    using motion_notify_result [OF assms(2)] by blast
  then show ?thesis using assms(1) unfolding insert_iff empty_iff by (elim disjE) (simp_all add: ui_inv_def)
qed

lemma expose_result:
  assumes "expose te area ui = Inr (r, ui', out)"
  shows "full_redraw te ui = Inr ui'"
  using assms by (auto simp: expose_def bind_e_Inr_iff)

lemma full_redraw_inv:
  assumes "ui_inv ui" and "full_redraw te ui = Inr ui'"
  shows "ui_inv ui' \<and> \<not> force_full_redraw ui'"
proof (cases "force_full_redraw ui")
  case True
  then obtain dat b where "ui' = ui\<lparr>buffer_surface := Some b, ui_data := dat, force_full_redraw := False\<rparr>"
    using assms(2) by (auto simp: full_redraw_def bind_e_Inr_iff)
  then show ?thesis using assms(1) by (simp add: ui_inv_def)
next
  case False
  then show ?thesis using assms by (simp add: full_redraw_def)
qed

lemma zoom_result:
  assumes "set_smaller_zoom te ui = Inr (ui', out) \<or> set_bigger_zoom te ui = Inr (ui', out)"
  shows "\<exists>a b. redraw_range te a b ui = Inr ui'"
  using assms by (auto simp: set_smaller_zoom_def set_bigger_zoom_def bind_e_Inr_iff)

lemma size_allocate_result:
  assumes "size_allocate te w h ui = Inr (ui', out)"
  shows "\<exists>dat. ui' = ui\<lparr>ui_width := Some w, ui_height := Some h, ui_data := dat, force_full_redraw := True\<rparr>"
  using assms by (auto simp: size_allocate_def bind_e_Inr_iff)

lemma dialog_response_result:
  assumes "dialog_response te r f ui = Inr (ui', out)"
  shows "\<exists>dat buf. ui' \<in> {ui, ui\<lparr>ui_data := dat, buffer_surface := Some buf\<rparr>}"
  using assms by (auto simp: dialog_response_def output_png_def Let_def bind_e_Inr_iff split: if_splits)

lemma dispatch_inv:
  assumes "ui_inv ui" and "dispatch te ev ui = Inr (ui', out)"
  shows "ui_inv ui'"
proof (cases ev)
  case (Press m)
  with assms button_press_inv [OF assms(1)] show ?thesis by (auto simp: dispatch_def bind_e_Inr_iff)
next
  case (Release m)
  with assms button_release_inv [OF assms(1)] show ?thesis by (auto simp: dispatch_def bind_e_Inr_iff)
next
  case (Motion m)
  with assms motion_notify_inv [OF assms(1)] show ?thesis by (auto simp: dispatch_def bind_e_Inr_iff)
next
  case (Resize w h)
  with assms show ?thesis by (auto simp: dispatch_def ui_inv_def dest!: size_allocate_result)
next
  case (Expose area)
  with assms full_redraw_inv [OF assms(1)] show ?thesis
    by (auto simp: dispatch_def bind_e_Inr_iff dest!: expose_result)
next
  case ZoomOut
  with assms redraw_range_inv [OF assms(1)] zoom_result show ?thesis by (auto simp: dispatch_def) blast
next
  case ZoomIn
  with assms redraw_range_inv [OF assms(1)] zoom_result show ?thesis by (auto simp: dispatch_def) blast
next
  case (DialogResponse r f)
  with assms obtain dat buf where "ui' \<in> {ui, ui\<lparr>ui_data := dat, buffer_surface := Some buf\<rparr>}"
    using dialog_response_result by (auto simp: dispatch_def) blast
  then show ?thesis using assms(1) by (auto simp: ui_inv_def)
qed

lemma left_by_inv:
  assumes "ui_inv ui"
  shows "ui_inv (left_by te dat cmds ev ui)"
proof (cases ev)
  case (Expose area)
  show ?thesis
  proof (cases "full_redraw te ui")
    case (Inl e)
    then show ?thesis using assms by (simp add: left_by_def Expose ui_inv_def)
  next
    case (Inr ui')
    then show ?thesis using full_redraw_inv [OF assms] by (simp add: left_by_def Expose)
  qed
next
  case (Motion m)
  then show ?thesis using assms by (auto simp: left_by_def ui_inv_def split: sum.splits)
next
  case (DialogResponse r f)
  then show ?thesis using assms by (cases "buffer_surface ui") (simp_all add: left_by_def ui_inv_def)
qed (use assms in \<open>simp_all add: left_by_def ui_inv_def\<close>)

interpretation window: kept_by_steps "ui_step te" ui_inv for te
  by unfold_locales (auto elim!: ui_stepE intro: dispatch_inv left_by_inv)

lemma reachable_steps: "reachable te dat ui \<Longrightarrow> (ui_step te)\<^sup>*\<^sup>* (new_ui dat) ui"
  by (induction rule: reachable.induct) auto

lemma ui_inv_reachable: "reachable te dat ui \<Longrightarrow> ui_inv ui"
  by (rule window.reach [OF reachable_steps]) (simp_all add: ui_inv_def new_ui_def)

text \<open>C40: in every state the event loop can reach, also behind handlers that raised, a drag of the whole selection
  and a drag of the data have their start and current positions, an \<open>expose\<close> that gets past the redraw finds the buffer it
  paints, and the width and the height are set together. A drag of the left or of the right handle has no such guarantee.\<close>

theorem ui_reachable_inv:
  assumes "reachable te dat ui"
  shows "(moving_both ui \<longrightarrow> both_start ui \<noteq> None \<and> both_cur ui \<noteq> None)
    \<and> (moving_top ui \<longrightarrow> top_start ui \<noteq> None \<and> top_cur ui \<noteq> None)
    \<and> (\<forall>ui'. full_redraw te ui = Inr ui' \<longrightarrow> buffer_surface ui' \<noteq> None)
    \<and> (ui_width ui = None \<longleftrightarrow> ui_height ui = None)"
  using ui_inv_reachable [OF assms] full_redraw_inv [OF ui_inv_reachable [OF assms]]
  by (auto simp: ui_inv_def)

section \<open>The handles\<close>

text \<open>Clicking the left handle of the selection of a new window, that is a press followed
  by a release with no motion between them, raises \<open>AttributeError\<close>: \<open>__moving_left_cur\<close> is only
  set by \<open>motion_notify\<close>.\<close>

theorem left_click_raises:
  assumes "get_selection_rectangle dat = Inr (x, y, w, h)" and "get_data_rectangle dat = Inr d"
    and "strictly_between (my m) y h" and "near (mx m) x"
  shows "\<exists>ui. button_press (new_ui dat) m = Inr (True, ui, []) \<and> button_release te ui m' = Inl AttributeError"
  using assms by (cases d) (simp add: button_press_def button_release_def new_ui_def Let_def)

text \<open>While the right handle is dragged, moving the pointer to or past the right edge of the
  window changes nothing the release looks at: the release selects what the last position inside the
  window would have selected, since the motion stores the width in \<open>__moving_right\<close> instead of
  \<open>__moving_right_cur\<close>.\<close>

theorem right_edge_lost:
  assumes "get_selection_rectangle (ui_data ui) = Inr (x, y, sw, h)" and "\<not> moving_left ui"
    and "truthy (moving_right ui)" and "ui_width ui = Some w" and "I 0 < w" and "w \<le> mx m"
  shows "\<exists>ui' out. motion_notify te ui m = Inr (True, ui', out)
    \<and> right_cur ui' = right_cur ui \<and> button_release te ui' m' = button_release te ui m'"
  using assms by (auto simp: motion_notify_def redraw_selection_def button_release_def Let_def pynum_order)

text \<open>While the whole selection is dragged, the position stored for it keeps the moved
  selection inside the window, wherever the pointer is.\<close>

theorem drag_both_inside:
  assumes "get_selection_rectangle (ui_data ui) = Inr (x, y, sw, h)" and "\<not> moving_left ui"
    and "\<not> truthy (moving_right ui)" and "moving_both ui" and "both_start ui = Some s"
    and "ui_width ui = Some w" and "sw \<le> w"
    and "motion_notify te ui m = Inr (r, ui', out)"
  shows "\<exists>c. both_cur ui' = Some c \<and> I 0 \<le> x + (c - s) \<and> x + sw + (c - s) \<le> w"
  using assms by (auto simp: motion_notify_def redraw_selection_def Let_def pynum_order)

section \<open>Zooming\<close>

lemma redraw_range_bounds:
  assumes "redraw_range te a b ui = Inr ui'"
  shows "get_range_bounds (ui_data ui') = Inr (num_max (gr_start (ui_data ui)) (num_min a b),
      num_min (gr_end (ui_data ui)) (num_max a b))"
    and "gr_start (ui_data ui') = gr_start (ui_data ui)" and "gr_end (ui_data ui') = gr_end (ui_data ui)"
  using assms by (auto simp: redraw_range_def bind_e_Inr_iff get_range_bounds_def set_range_fields)

text \<open>For a rendered range of floats inside the trace, \<open>Zoom In\<close> followed by \<open>Zoom Out\<close>
  gives the range back.\<close>

theorem zoom_roundtrip:
  assumes "gr_start (ui_data ui) = F a" and "gr_end (ui_data ui) = F b" and "a \<le> s" and "s \<le> e" and "e \<le> b"
    and "get_range_bounds (ui_data ui) = Inr (F s, F e)"
    and "set_bigger_zoom te ui = Inr (ui1, out1)" and "set_smaller_zoom te ui1 = Inr (ui2, out2)"
  shows "get_range_bounds (ui_data ui1) = Inr (F s, F ((s + e) / 2)) \<and> get_range_bounds (ui_data ui2) = Inr (F s, F e)"
proof -
  define m where "m = (s + e) / 2"
  have m: "s + (e - s) / 2 = m" "s \<le> m" "m \<le> e" "s + (m - s) * 2 = e"
    using assms(4) by (simp_all add: m_def field_simps)
  have z1: "redraw_range te (F s) (F m) ui = Inr ui1"
    using assms(6,7) m(1) by (auto simp: set_bigger_zoom_def bind_e_Inr_iff half_def)
  have r1: "get_range_bounds (ui_data ui1) = Inr (F s, F m)"
    using redraw_range_bounds(1) [OF z1] assms(1-5) m(2,3) by (auto simp: num_max_def num_min_def pynum_order)
  have z2: "redraw_range te (F s) (F e) ui1 = Inr ui2"
    using assms(8) r1 m(4) by (auto simp: set_smaller_zoom_def bind_e_Inr_iff)
  then show ?thesis
    using r1 redraw_range_bounds [OF z2] redraw_range_bounds(2,3) [OF z1] assms(1-5)
    by (auto simp: num_max_def num_min_def pynum_order m_def)
qed

fun zoom_in_times :: "text_extents \<Rightarrow> nat \<Rightarrow> Gtk \<Rightarrow> Gtk py" where
  "zoom_in_times te 0 ui = Inr ui"
| "zoom_in_times te (Suc n) ui = bind_e (set_bigger_zoom te ui) (\<lambda>(ui', _). zoom_in_times te n ui')"

text \<open>As long as the rendered range has integer ends inside the trace, as the first range
  of the program has, pressing \<open>Zoom In\<close> often enough always ends in \<open>ZeroDivisionError\<close>: the
  halved length reaches 1, for which the layout of the scale divides by zero.\<close>

theorem zoom_in_crashes:
  assumes "assembled (ui_data ui)" and "get_range_bounds (ui_data ui) = Inr (I a, I b)" and "2 \<le> b - a"
    and "gr_start (ui_data ui) < I a" and "I b < gr_end (ui_data ui)"
  shows "\<exists>n. zoom_in_times te n ui = Inl ZeroDivisionError"
  using assms
proof (induction "nat (b - a)" arbitrary: ui b rule: less_induct)
  case less
  let ?b = "a + (b - a) div 2" and ?dat = "ui_data ui"
  have b: "a < ?b" "?b < b" using less.prems(3) by simp_all
  have "of_int ?b < nval (gr_end ?dat)"
    using less.prems(5) b(2) of_int_less_iff [of ?b b, where 'a = rat] unfolding pynum_less_iff nval.simps
    by linarith
  then have lo: "num_max (gr_start ?dat) (num_min (I a) (I ?b)) = I a" and hi: "num_min (gr_end ?dat) (num_max (I a) (I ?b)) = I ?b"
    using less.prems(4) b by (auto simp: num_max_def num_min_def pynum_order)
  have step: "set_bigger_zoom te ui = bind_e (redraw_range te (I a) (I ?b) ui) (\<lambda>ui'. Inr (ui', [QueueDraw]))"
    using less.prems(2) by (simp add: set_bigger_zoom_def half_def)
  note run = set_range_run [OF less.prems(1), where a = "I a" and b = "I ?b" and te = te, unfolded lo hi]
  show ?case
  proof (cases "(b - a) div 2 = 1")
    case True
    then have "zoom_in_times te (Suc 0) ui = Inl ZeroDivisionError"
      using run by (simp add: step redraw_range_def)
    then show ?thesis by blast
  next
    case False
    then obtain dat where dat: "set_range te (I a) (I ?b) ?dat = Inr dat" "assembled dat" using run by auto
    let ?ui = "ui\<lparr>ui_data := dat, force_full_redraw := True\<rparr>"
    have zoom: "set_bigger_zoom te ui = Inr (?ui, [QueueDraw])" by (simp add: step redraw_range_def dat(1))
    have "\<exists>n. zoom_in_times te n ?ui = Inl ZeroDivisionError"
    proof (rule less.hyps [of ?b])
      show "nat (?b - a) < nat (b - a)" using less.prems(3) by simp
      show "2 \<le> ?b - a" using False less.prems(3) by linarith
      show "get_range_bounds (ui_data ?ui) = Inr (I a, I ?b)"
        using set_range_fields(5,6) [OF dat(1)] by (simp add: get_range_bounds_def lo hi)
      show "gr_start (ui_data ?ui) < I a" "I ?b < gr_end (ui_data ?ui)"
        using less.prems(4) \<open>of_int ?b < _\<close> by (simp_all add: set_range_fields(1,2) [OF dat(1)] pynum_order)
    qed (simp add: dat(2))
    then obtain n where "zoom_in_times te n ?ui = Inl ZeroDivisionError" ..
    then have "zoom_in_times te (Suc n) ui = Inl ZeroDivisionError" by (simp add: zoom)
    then show ?thesis by blast
  qed
qed

section \<open>Runs on the sample trace\<close>

text \<open>A click on the left handle raises; the drag of the selection that follows has its position.\<close>

theorem ui_reachable_inv_witness:
  "\<exists>ui clicked. reachable unit_text drawn_graphic clicked \<and> dispatch unit_text (Release \<lparr>mx = F 182, my = F 120\<rparr>) clicked = Inl AttributeError
     \<and> (ui_step unit_text ^^ 2) clicked ui \<and> moving_both ui \<and> both_start ui \<noteq> None"
proof -
  let ?m = "\<lparr>mx = F 182, my = F 120\<rparr>" and ?m2 = "\<lparr>mx = F 200, my = F 120\<rparr>"
  let ?new = "new_ui drawn_graphic"
  let ?clicked = "?new\<lparr>moving_left := True\<rparr>" and ?both = "?new\<lparr>moving_both := True, both_start := Some (F 200), both_cur := Some (F 200)\<rparr>"
  have press: "dispatch unit_text (Press ?m) ?new = Inr (?clicked, [])" "dispatch unit_text (Press ?m2) ?new = Inr (?both, [])"
    by (simp_all add: dispatch_def button_press_def new_ui_def drawn_graphic_rectangles strictly_between_def near_def
        num_abs_def pynum_order)
  have raises: "dispatch unit_text (Release ?m) ?clicked = Inl AttributeError"
    by (simp add: dispatch_def button_release_def new_ui_def Let_def)
  have "left_by unit_text drawn_graphic [] (Release ?m) ?clicked = ?new" by (simp add: left_by_def new_ui_def)
  then have step: "ui_step unit_text ?clicked ?new" using ui_step.raised [OF raises, of drawn_graphic "[]"] by simp
  have clicked: "reachable unit_text drawn_graphic ?clicked"
    by (rule reachable.step [OF reachable.start ui_step.signal [OF press(1)]])
  have "reachable unit_text drawn_graphic ?both"
    by (rule reachable.step [OF reachable.step [OF clicked step] ui_step.signal [OF press(2)]])
  from ui_reachable_inv [OF this] have "moving_both ?both \<and> both_start ?both \<noteq> None" by simp
  moreover have "(ui_step unit_text ^^ 2) ?clicked ?both"
    using step ui_step.signal [OF press(2)] by (auto simp: numeral_2_eq_2)
  ultimately show ?thesis using clicked raises by blast
qed

theorem left_click_raises_witness:
  "\<exists>ui. button_press (new_ui drawn_graphic) \<lparr>mx = F 182, my = F 120\<rparr> = Inr (True, ui, [])
     \<and> button_release unit_text ui \<lparr>mx = F 182, my = F 120\<rparr> = Inl AttributeError"
  by (rule left_click_raises [OF drawn_graphic_rectangles])
    (simp_all add: strictly_between_def near_def num_abs_def pynum_order)

definition right_drag :: Gtk where
  "right_drag = (new_ui drawn_graphic)\<lparr>moving_right := Flag True, right_cur := Some (F 210), ui_width := Some (I 300)\<rparr>"

theorem right_edge_lost_witness:
  "\<exists>ui' out. motion_notify unit_text right_drag \<lparr>mx = F 300, my = F 120\<rparr> = Inr (True, ui', out)
     \<and> right_cur ui' = Some (F 210)"
proof -
  obtain ui' out where "motion_notify unit_text right_drag \<lparr>mx = F 300, my = F 120\<rparr> = Inr (True, ui', out)"
    "right_cur ui' = right_cur right_drag"
    using right_edge_lost [where ui = right_drag and m = "\<lparr>mx = F 300, my = F 120\<rparr>" and te = unit_text and w = "I 300"
      and x = "I 180" and y = "F 109" and sw = "I 45" and h = "F 38"]
    by (force simp: right_drag_def new_ui_def drawn_graphic_rectangles pynum_order)
  then show ?thesis by (auto simp: right_drag_def)
qed

definition both_drag :: Gtk where
  "both_drag = (new_ui drawn_graphic)\<lparr>moving_both := True, both_start := Some (F 200), both_cur := Some (F 200),
     ui_width := Some (I 300)\<rparr>"

theorem drag_both_inside_witness:
  "\<exists>r ui' out c. motion_notify unit_text both_drag \<lparr>mx = F 299, my = F 120\<rparr> = Inr (r, ui', out)
     \<and> both_cur ui' = Some c \<and> I 180 + I 45 + (c - F 200) \<le> I 300"
proof -
  have "is_ok (motion_notify unit_text both_drag \<lparr>mx = F 299, my = F 120\<rparr>)"
    by (simp add: both_drag_def new_ui_def motion_notify_def drawn_graphic_rectangles redraw_selection_def Let_def)
  then obtain r ui' out where run: "motion_notify unit_text both_drag \<lparr>mx = F 299, my = F 120\<rparr> = Inr (r, ui', out)"
    by (auto simp: is_ok_iff)
  from drag_both_inside [OF _ _ _ _ _ _ _ this, of "I 180" "F 109" "I 45" "F 38" "F 200" "I 300"] run
  show ?thesis by (auto simp: both_drag_def new_ui_def drawn_graphic_rectangles pynum_order)
qed

text \<open>The sample trace with a rendered range of floats, and one of integers.\<close>

lemma sample_range:
  assumes "0 < nval (num_min a b)" "nval (num_max a b) < 20" "nval (num_max a b) - nval (num_min a b) \<noteq> 1"
  shows "\<exists>gr. set_range unit_text a b sample_graphic = Inr gr \<and> assembled gr
    \<and> get_range_bounds gr = Inr (num_min a b, num_max a b) \<and> gr_start gr = F 0 \<and> gr_end gr = F 20"
proof -
  obtain gr where gr: "set_range unit_text a b sample_graphic = Inr gr" "assembled gr"
    using set_range_ok [OF sample_graphic_assembled, where a = a and b = b and te = unit_text] assms
    by (auto simp: sample_graphic_bounds)
  have "num_max (F 0) (num_min a b) = num_min a b" "num_min (F 20) (num_max a b) = num_max a b"
    using assms(1,2) by (simp_all add: num_max_def [of "F 0"] num_min_def [of "F 20"] pynum_less_iff)
  then show ?thesis
    using gr set_range_fields [OF gr(1)] by (simp add: get_range_bounds_def sample_graphic_bounds)
qed

theorem zoom_roundtrip_witness:
  "\<exists>ui ui1 out1 ui2 out2. get_range_bounds (ui_data ui) = Inr (F 12, F 15)
     \<and> set_bigger_zoom unit_text ui = Inr (ui1, out1) \<and> set_smaller_zoom unit_text ui1 = Inr (ui2, out2)
     \<and> get_range_bounds (ui_data ui2) = Inr (F 12, F 15)"
proof -
  obtain gr where gr: "assembled gr" "get_range_bounds gr = Inr (F 12, F 15)" "gr_start gr = F 0" "gr_end gr = F 20"
    using sample_range [of "F 12" "F 15"] by (auto simp: num_min_def num_max_def pynum_order)
  obtain gr1 where gr1: "set_range unit_text (F 12) (F (27/2)) gr = Inr gr1" "assembled gr1"
    using set_range_ok [OF gr(1), where a = "F 12" and b = "F (27/2)" and te = unit_text] gr by auto
  note f1 = set_range_fields [OF gr1(1)]
  have b1: "get_range_bounds gr1 = Inr (F 12, F (27/2))"
    by (simp add: get_range_bounds_def f1 gr num_min_def num_max_def pynum_order)
  obtain gr2 where gr2: "set_range unit_text (F 12) (F 15) gr1 = Inr gr2"
    using set_range_ok [OF gr1(2), where a = "F 12" and b = "F 15" and te = unit_text] f1 gr by auto
  let ?ui = "new_ui gr"
  have z1: "set_bigger_zoom unit_text ?ui = Inr (?ui\<lparr>ui_data := gr1, force_full_redraw := True\<rparr>, [QueueDraw])"
    by (simp add: set_bigger_zoom_def new_ui_def gr half_def redraw_range_def gr1)
  have z2: "set_smaller_zoom unit_text (?ui\<lparr>ui_data := gr1, force_full_redraw := True\<rparr>)
      = Inr (?ui\<lparr>ui_data := gr2, force_full_redraw := True\<rparr>, [QueueDraw])"
    by (simp add: set_smaller_zoom_def new_ui_def b1 redraw_range_def gr2)
  have bounds: "get_range_bounds (ui_data ?ui) = Inr (F 12, F 15)" "gr_start (ui_data ?ui) = F 0"
    "gr_end (ui_data ?ui) = F 20" using gr by (simp_all add: new_ui_def)
  have "get_range_bounds (ui_data (?ui\<lparr>ui_data := gr2, force_full_redraw := True\<rparr>)) = Inr (F 12, F 15)"
    using zoom_roundtrip [OF bounds(2,3) _ _ _ bounds(1) z1 z2] by simp
  with bounds(1) z1 z2 show ?thesis by blast
qed

theorem zoom_in_crashes_witness:
  "\<exists>ui n. get_range_bounds (ui_data ui) = Inr (I 12, I 15) \<and> zoom_in_times unit_text n ui = Inl ZeroDivisionError"
proof -
  obtain gr where gr: "assembled gr" "get_range_bounds gr = Inr (I 12, I 15)" "gr_start gr = F 0" "gr_end gr = F 20"
    using sample_range [of "I 12" "I 15"] by (auto simp: num_min_def num_max_def pynum_order)
  show ?thesis
    using zoom_in_crashes [of "new_ui gr" 12 15 unit_text] gr
    by (intro exI [of _ "new_ui gr"]) (simp add: new_ui_def pynum_order)
qed

end
