(* ===== verification/Topsort.thy ===== *)
theory Topsort
  imports Py "HOL-Library.AList"
begin

text \<open>
  \<open>bindings/python/topsort.py\<close>: topological sorting of (parent, child) pairs. The dictionaries
  are association lists with distinct keys. The order in which a Python 2 dictionary lists its keys
  is not specified: it is the parameter \<open>kord\<close>, of which the theorems only assume that it permutes
  the keys.
\<close>

section \<open>The two dictionaries\<close>

type_synonym 'a counts = "('a \<times> int) list"
type_synonym 'a succs = "('a \<times> 'a list) list"

datatype 'a topsort_error =
    NoKey 'a
  | CycleError "'a list" "'a counts" "'a succs"

definition ensure_key :: "'a \<Rightarrow> 'a counts \<Rightarrow> 'a counts" where
  "ensure_key x np = (if map_of np x = None then AList.update x 0 np else np)"

definition add_pair :: "'a counts \<times> 'a succs \<Rightarrow> 'a \<times> 'a \<Rightarrow> 'a counts \<times> 'a succs" where
  "add_pair st pr =
     (let (np, ch) = st; (parent, child) = pr;
          np = ensure_key child (ensure_key parent np);
          np = AList.update child (the (map_of np child) + 1) np;
          old = (case map_of ch parent of None \<Rightarrow> [] | Some cs \<Rightarrow> cs)
      in (np, AList.update parent (old @ [child]) ch))"

definition count_pairs :: "('a \<times> 'a) list \<Rightarrow> 'a counts \<times> 'a succs" where
  "count_pairs pairs = foldl add_pair ([], []) pairs"

definition no_parents :: "('a list \<Rightarrow> 'a list) \<Rightarrow> 'a counts \<Rightarrow> 'a list" where
  "no_parents kord np = filter (\<lambda>x. map_of np x = Some 0) (kord (map fst np))"

lemma map_of_key: "map_of np c = Some k \<Longrightarrow> c \<in> set (map fst np)"
  by (metis domI dom_map_of_conv_image_fst list.set_map)

section \<open>topsort\<close>

text \<open>
  The loop over \<open>answer\<close>, which grows while it is iterated: \<open>done\<close> is the part already visited,
  \<open>queue\<close> the rest. Every turn deletes a key of the counts.
\<close>

fun drop_edges :: "'a counts \<Rightarrow> 'a list \<Rightarrow> 'a list \<Rightarrow> 'a topsort_error + ('a counts \<times> 'a list)" where
  "drop_edges np queue [] = Inr (np, queue)"
| "drop_edges np queue (c # cs) =
     (case map_of np c of
        None \<Rightarrow> Inl (NoKey c)
      | Some k \<Rightarrow> drop_edges (AList.update c (k - 1) np) (if k - 1 = 0 then queue @ [c] else queue) cs)"

lemma drop_edges_keys:
  "drop_edges np queue cs = Inr (np', q') \<Longrightarrow> map fst np' = map fst np"
proof (induction cs arbitrary: np queue)
  case Nil
  then show ?case by simp
next
  case (Cons c cs)
  then obtain k where k: "map_of np c = Some k" by (auto split: option.splits)
  then have "c \<in> set (map fst np)" by (rule map_of_key)
  then have "map fst (AList.update c (k - 1) np) = map fst np" by (simp add: update_keys)
  with Cons k show ?case by auto
qed

definition visit :: "'a \<Rightarrow> 'a counts \<Rightarrow> 'a succs \<Rightarrow> 'a list \<Rightarrow> 'a topsort_error + ('a counts \<times> 'a succs \<times> 'a list)" where
  "visit parent np ch queue =
     (if map_of np parent = None then Inl (NoKey parent)
      else (let np = AList.delete parent np in
            case map_of ch parent of
              None \<Rightarrow> Inr (np, ch, queue)
            | Some cs \<Rightarrow> bind_e (drop_edges np queue cs) (\<lambda>(np', q). Inr (np', AList.delete parent ch, q))))"

lemma delete_shorter: "map_of np k \<noteq> None \<Longrightarrow> length (AList.delete k np) < length np"
  unfolding AList.delete_eq by (auto dest!: map_of_SomeD intro!: length_filter_less)

lemma visit_shorter:
  assumes "visit parent np ch queue = Inr (np', ch', q)"
  shows "length np' < length np"
proof -
  have "length (AList.delete parent np) < length np"
    using assms by (auto simp: visit_def intro!: delete_shorter split: if_splits)
  moreover have "map fst np' = map fst (AList.delete parent np)"
    using assms by (auto simp: visit_def Let_def bind_e_Inr_iff dest: drop_edges_keys split: if_splits option.splits)
  then have "length np' = length (AList.delete parent np)" by (metis length_map)
  ultimately show ?thesis by simp
qed

function topsort_loop ::
  "'a list \<Rightarrow> 'a list \<Rightarrow> 'a counts \<Rightarrow> 'a succs \<Rightarrow> 'a topsort_error + ('a list \<times> 'a counts \<times> 'a succs)" where
  "topsort_loop done [] np ch = Inr (done, np, ch)"
| "topsort_loop done (parent # queue) np ch =
     bind_e (visit parent np ch queue) (\<lambda>(np', ch', q). topsort_loop (done @ [parent]) q np' ch')"
  by pat_completeness auto
termination
  by (relation "measure (\<lambda>(done, queue, np, ch). length np)") (auto dest: visit_shorter)

definition topsort :: "('a list \<Rightarrow> 'a list) \<Rightarrow> ('a \<times> 'a) list \<Rightarrow> 'a topsort_error + 'a list" where
  "topsort kord pairs =
     (let (np, ch) = count_pairs pairs in
      bind_e (topsort_loop [] (no_parents kord np) np ch) (\<lambda>(answer, np', ch').
        if np' \<noteq> [] then Inl (CycleError answer np' ch') else Inr answer))"

section \<open>topsort_levels\<close>

text \<open>
  The generator yields the levels one by one and ends with \<open>StopIteration\<close> or \<open>CycleError\<close>: its
  value is the list of levels with the error that ends it, if any.
\<close>

fun decrement :: "'a counts \<Rightarrow> 'a list \<Rightarrow> 'a topsort_error + 'a counts" where
  "decrement np [] = Inr np"
| "decrement np (c # cs) =
     (case map_of np c of None \<Rightarrow> Inl (NoKey c) | Some k \<Rightarrow> decrement (AList.update c (k - 1) np) cs)"

fun drop_level :: "'a counts \<Rightarrow> 'a succs \<Rightarrow> 'a list \<Rightarrow> 'a topsort_error + ('a counts \<times> 'a succs)" where
  "drop_level np ch [] = Inr (np, ch)"
| "drop_level np ch (p # ps) =
     (if map_of np p = None then Inl (NoKey p)
      else (case map_of ch p of
          None \<Rightarrow> drop_level (AList.delete p np) ch ps
        | Some cs \<Rightarrow> bind_e (decrement (AList.delete p np) cs) (\<lambda>np'. drop_level np' (AList.delete p ch) ps)))"

lemma decrement_keys: "decrement np cs = Inr np' \<Longrightarrow> map fst np' = map fst np"
proof (induction cs arbitrary: np)
  case Nil
  then show ?case by simp
next
  case (Cons c cs)
  then obtain k where k: "map_of np c = Some k" by (auto split: option.splits)
  then have "c \<in> set (map fst np)" by (rule map_of_key)
  then have "map fst (AList.update c (k - 1) np) = map fst np" by (simp add: update_keys)
  with Cons k show ?case by auto
qed

lemma drop_level_shorter:
  "drop_level np ch ps = Inr (np', ch') \<Longrightarrow> length np' \<le> length np \<and> (ps \<noteq> [] \<longrightarrow> length np' < length np)"
proof (induction ps arbitrary: np ch)
  case Nil
  then show ?case by simp
next
  case (Cons p ps)
  then have p: "map_of np p \<noteq> None" by (auto split: if_splits)
  show ?case
  proof (cases "map_of ch p")
    case None
    with Cons p delete_shorter [OF p] show ?thesis by fastforce
  next
    case (Some cs)
    with Cons.prems p obtain np1 where np1: "decrement (AList.delete p np) cs = Inr np1"
        "drop_level np1 (AList.delete p ch) ps = Inr (np', ch')"
      by (auto simp: bind_e_Inr_iff)
    have "length np1 = length (AList.delete p np)" using decrement_keys [OF np1(1)] by (metis length_map)
    with Cons.IH [OF np1(2)] delete_shorter [OF p] show ?thesis by simp
  qed
qed

function topsort_levels_core ::
  "('a list \<Rightarrow> 'a list) \<Rightarrow> 'a counts \<Rightarrow> 'a succs \<Rightarrow> 'a list list \<times> 'a topsort_error option" where
  "topsort_levels_core kord np ch =
     (let level = no_parents kord np in
      if level = [] then ([], if np \<noteq> [] then Some (CycleError [] np ch) else None)
      else (case drop_level np ch level of
          Inl e \<Rightarrow> ([level], Some e)
        | Inr (np', ch') \<Rightarrow> (let (levels, end) = topsort_levels_core kord np' ch' in (level # levels, end))))"
  by pat_completeness auto
termination
  by (relation "measure (\<lambda>(kord, np, ch). length np)") (auto dest: drop_level_shorter)

declare topsort_levels_core.simps [simp del]

definition topsort_levels :: "('a list \<Rightarrow> 'a list) \<Rightarrow> ('a \<times> 'a) list \<Rightarrow> 'a list list \<times> 'a topsort_error option" where
  "topsort_levels kord pairs = (let (np, ch) = count_pairs pairs in topsort_levels_core kord np ch)"

section \<open>What the dictionaries hold\<close>

text \<open>
  For a set \<open>D\<close> of elements already removed: the remaining elements with the number of pairs that
  still have a remaining parent, and the children of the remaining parents.
\<close>

definition nodes :: "('a \<times> 'a) list \<Rightarrow> 'a set" where
  "nodes P = fst ` set P \<union> snd ` set P"

definition parents :: "('a \<times> 'a) list \<Rightarrow> 'a set \<Rightarrow> 'a \<Rightarrow> nat" where
  "parents P D x = length (filter (\<lambda>pr. snd pr = x \<and> fst pr \<notin> D) P)"

definition kids :: "('a \<times> 'a) list \<Rightarrow> 'a \<Rightarrow> 'a list" where
  "kids P p = map snd (filter (\<lambda>pr. fst pr = p) P)"

definition tables :: "('a \<times> 'a) list \<Rightarrow> 'a set \<Rightarrow> 'a counts \<Rightarrow> 'a succs \<Rightarrow> bool" where
  "tables P D np ch \<longleftrightarrow> distinct (map fst np)
     \<and> (\<forall>x. map_of np x = (if x \<in> nodes P - D then Some (int (parents P D x)) else None))
     \<and> (\<forall>p. map_of ch p = (if p \<notin> D \<and> kids P p \<noteq> [] then Some (kids P p) else None))"

lemma tables_keys: "tables P D np ch \<Longrightarrow> set (map fst np) = nodes P - D"
proof -
  assume t: "tables P D np ch"
  have "x \<in> set (map fst np) \<longleftrightarrow> map_of np x \<noteq> None" for x by (simp add: map_of_eq_None_iff)
  then have "x \<in> set (map fst np) \<longleftrightarrow> x \<in> nodes P - D" for x
    using t by (cases "x \<in> nodes P - D") (simp_all add: tables_def)
  then show ?thesis by blast
qed

lemma count_pairs_snoc: "count_pairs (P @ [pr]) = add_pair (count_pairs P) pr"
  by (simp add: count_pairs_def)

lemma snoc_simps:
  "nodes (P @ [(p, c)]) = insert p (insert c (nodes P))"
  "parents (P @ [(p, c)]) D x = parents P D x + (if x = c \<and> p \<notin> D then 1 else 0)"
  "kids (P @ [(p, c)]) q = kids P q @ (if q = p then [c] else [])"
  by (auto simp: nodes_def parents_def kids_def)

lemma count_pairs_tables: "tables P {} (fst (count_pairs P)) (snd (count_pairs P))"
proof (induction P rule: rev_induct)
  case Nil
  then show ?case by (simp add: count_pairs_def tables_def nodes_def kids_def)
next
  case (snoc pr P)
  obtain p c where pr: "pr = (p, c)" by (cases pr)
  obtain np ch where st: "count_pairs P = (np, ch)" by (cases "count_pairs P")
  have t: "distinct (map fst np)" "\<And>x. map_of np x = (if x \<in> nodes P then Some (int (parents P {} x)) else None)"
      "\<And>q. map_of ch q = (if kids P q \<noteq> [] then Some (kids P q) else None)"
    using snoc.IH by (simp_all add: st tables_def)
  have fresh: "parents P {} x = 0" if "x \<notin> nodes P" for x
    using that by (auto simp: parents_def nodes_def filter_empty_conv)
  let ?np = "ensure_key c (ensure_key p np)"
  have ek: "map_of ?np x = (if x = p \<or> x = c \<or> x \<in> nodes P then Some (int (parents P {} x)) else None)" for x
    by (auto simp: ensure_key_def update_conv' t(2) fresh)
  have d: "distinct (map fst ?np)" using t(1) by (simp add: ensure_key_def distinct_update)
  have cs: "count_pairs (P @ [pr]) = (AList.update c (int (parents P {} c) + 1) ?np, AList.update p (kids P p @ [c]) ch)"
    using ek [of c] t(3) [of p] by (simp add: count_pairs_snoc st pr add_pair_def Let_def)
  show ?case
    unfolding cs unfolding tables_def pr fst_conv snd_conv
  proof (intro conjI allI)
    show "distinct (map fst (AList.update c (int (parents P {} c) + 1) ?np))" using d by (rule distinct_update)
    show "map_of (AList.update c (int (parents P {} c) + 1) ?np) x =
        (if x \<in> nodes (P @ [(p, c)]) - {} then Some (int (parents (P @ [(p, c)]) {} x)) else None)" for x
      by (simp add: update_conv' ek snoc_simps)
    show "map_of (AList.update p (kids P p @ [c]) ch) q =
        (if q \<notin> {} \<and> kids (P @ [(p, c)]) q \<noteq> [] then Some (kids (P @ [(p, c)]) q) else None)" for q
      by (simp add: update_conv' t(3) snoc_simps)
  qed
qed

lemma parents_insert: "p \<notin> D \<Longrightarrow> parents P D x = parents P (insert p D) x + count_list (kids P p) x"
  by (induction P) (auto simp: parents_def kids_def)

lemma kids_nodes: "c \<in> set (kids P p) \<Longrightarrow> c \<in> nodes P"
  by (auto simp: kids_def nodes_def)

section \<open>Removing an element\<close>

lemma drop_edges_spec:
  assumes "\<forall>c \<in> set cs. \<exists>k. map_of np c = Some k \<and> int (count_list cs c) \<le> k" and "distinct (map fst np)"
  shows "\<exists>np' zs. drop_edges np q cs = Inr (np', q @ zs) \<and> distinct (map fst np')
    \<and> (\<forall>x. map_of np' x = map_option (\<lambda>k. k - int (count_list cs x)) (map_of np x))
    \<and> distinct zs \<and> set zs = {x \<in> set cs. map_of np x = Some (int (count_list cs x))}"
  using assms
proof (induction cs arbitrary: np q)
  case Nil
  then show ?case by (simp add: option.map_ident)
next
  case (Cons c cs)
  obtain k where k: "map_of np c = Some k" "int (count_list (c # cs) c) \<le> k" using Cons.prems(1) by auto
  let ?np = "AList.update c (k - 1) np" and ?q = "if k - 1 = 0 then q @ [c] else q"
  have m: "map_of ?np x = (if x = c then Some (k - 1) else map_of np x)" for x by (simp add: update_conv')
  have "\<forall>x \<in> set cs. \<exists>k. map_of ?np x = Some k \<and> int (count_list cs x) \<le> k"
    using Cons.prems(1) k by (auto simp: m split: if_splits)
  from Cons.IH [OF this, of ?q] Cons.prems(2) obtain np' zs where
    IH: "drop_edges ?np ?q cs = Inr (np', ?q @ zs)" "distinct (map fst np')"
      "\<And>x. map_of np' x = map_option (\<lambda>k. k - int (count_list cs x)) (map_of ?np x)"
      "distinct zs" "set zs = {x \<in> set cs. map_of ?np x = Some (int (count_list cs x))}"
    by (auto simp: distinct_update)
  have cs0: "c \<notin> set cs" if "k - 1 = 0" using that k(2) count_list_0_iff [of cs c] by (simp; linarith)
  let ?zs = "(if k - 1 = 0 then [c] else []) @ zs"
  have "drop_edges np q (c # cs) = Inr (np', q @ ?zs)" using IH(1) k(1) by simp
  moreover have "map_of np' x = map_option (\<lambda>k. k - int (count_list (c # cs) x)) (map_of np x)" for x
    using k(1) by (auto simp: IH(3) m)
  moreover have "distinct ?zs" using IH(4,5) cs0 by auto
  moreover have "set ?zs = {x \<in> set (c # cs). map_of np x = Some (int (count_list (c # cs) x))}"
  proof (rule set_eqI)
    fix x
    show "x \<in> set ?zs \<longleftrightarrow> x \<in> {x \<in> set (c # cs). map_of np x = Some (int (count_list (c # cs) x))}"
    proof (cases "x = c")
      case True
      have "x \<in> set zs \<longleftrightarrow> c \<in> set cs \<and> k - 1 = int (count_list cs c)" using IH(5) by (simp add: True m)
      moreover have "c \<notin> set cs \<longleftrightarrow> count_list cs c = 0" by (simp add: count_list_0_iff)
      ultimately show ?thesis using True k cs0 by (cases "k - 1 = 0") auto
    next
      case False
      have "x \<in> set ?zs \<longleftrightarrow> x \<in> set zs" using False by simp
      with False show ?thesis using IH(5) by (simp add: m)
    qed
  qed
  ultimately show ?case using IH(2) by blast
qed

lemma decrement_drop: "decrement np cs = bind_e (drop_edges np q cs) (\<lambda>(np', _). Inr np')"
proof (induction cs arbitrary: np q)
  case Nil
  show ?case by simp
next
  case (Cons c cs)
  show ?case
  proof (cases "map_of np c")
    case None
    then show ?thesis by simp
  next
    case (Some k)
    show ?thesis unfolding decrement.simps drop_edges.simps Some option.case by (rule Cons.IH)
  qed
qed

lemma count_kids_le: "p \<notin> D \<Longrightarrow> count_list (kids P p) c \<le> parents P D c"
  by (simp add: parents_insert)

lemma no_self_parent: "p \<notin> D \<Longrightarrow> parents P D p = 0 \<Longrightarrow> p \<notin> set (kids P p)"
  using count_kids_le [of p D P p] by (simp add: count_list_0_iff)

lemma tables_delete:
  assumes "tables P D np ch" and "p \<in> nodes P - D" and "kids P p = []"
  shows "tables P (insert p D) (AList.delete p np) ch"
  using assms parents_insert [of p D P] by (auto simp: tables_def distinct_delete delete_conv')

text \<open>The removed elements are closed under parents.\<close>

definition closed :: "('a \<times> 'a) list \<Rightarrow> 'a set \<Rightarrow> bool" where
  "closed P D \<longleftrightarrow> (\<forall>(p, c) \<in> set P. c \<in> D \<longrightarrow> p \<in> D)"

lemma parents_zero: "parents P D x = 0 \<longleftrightarrow> (\<forall>(p, c) \<in> set P. c = x \<longrightarrow> p \<in> D)"
  by (auto simp: parents_def filter_empty_conv)

lemma closed_insert: "closed P D \<Longrightarrow> parents P D p = 0 \<Longrightarrow> closed P (insert p D)"
  by (auto simp: closed_def parents_zero)

lemma kids_not_closed: "closed P D \<Longrightarrow> p \<notin> D \<Longrightarrow> c \<in> set (kids P p) \<Longrightarrow> c \<notin> D"
  by (auto simp: closed_def kids_def)

text \<open>One turn: the element goes, and the children it frees join the queue, each once.\<close>

lemma visit_spec:
  assumes t: "tables P D np ch" and p: "p \<in> nodes P - D" "parents P D p = 0" and cl: "closed P D"
  shows "\<exists>np' ch' zs. visit p np ch q = Inr (np', ch', q @ zs) \<and> tables P (insert p D) np' ch' \<and> distinct zs
    \<and> set zs = {x \<in> nodes P - insert p D. parents P (insert p D) x = 0 \<and> parents P D x \<noteq> 0}"
proof (cases "kids P p = []")
  case True
  then have "parents P (insert p D) x = parents P D x" for x using parents_insert [of p D P x] p by simp
  with True tables_delete [OF t p(1) True] t p show ?thesis
    by (auto simp: visit_def tables_def Let_def)
next
  case False
  let ?np = "AList.delete p np" and ?cs = "kids P p"
  have pD: "p \<notin> D" using p by simp
  have m: "map_of ?np x = (if x \<in> nodes P - insert p D then Some (int (parents P D x)) else None)" for x
    using t by (simp add: delete_conv' tables_def)
  have kid: "c \<in> nodes P - insert p D" if "c \<in> set ?cs" for c
    using that kids_nodes [OF that] kids_not_closed [OF cl pD that] no_self_parent [OF pD p(2)] by auto
  have pre: "\<forall>c \<in> set ?cs. \<exists>k. map_of ?np c = Some k \<and> int (count_list ?cs c) \<le> k"
    using kid count_kids_le [OF pD] by (simp add: m)
  have "distinct (map fst ?np)" using t by (simp add: tables_def distinct_delete)
  from drop_edges_spec [OF pre this, of q] obtain np' zs where run: "drop_edges ?np q ?cs = Inr (np', q @ zs)"
    "distinct (map fst np')" "\<And>x. map_of np' x = map_option (\<lambda>k. k - int (count_list ?cs x)) (map_of ?np x)"
    "distinct zs" "set zs = {x \<in> set ?cs. map_of ?np x = Some (int (count_list ?cs x))}" by blast
  have par: "parents P D x = parents P (insert p D) x + count_list ?cs x" for x using pD by (rule parents_insert)
  have "map_of np p \<noteq> None" "map_of ch p = Some ?cs" using t p False by (simp_all add: tables_def)
  then have "visit p np ch q = Inr (np', AList.delete p ch, q @ zs)"
    by (simp add: visit_def Let_def run(1))
  moreover have "tables P (insert p D) np' (AList.delete p ch)"
    using t run(2) by (simp add: tables_def run(3) m par delete_conv' distinct_delete)
  moreover have "set zs = {x \<in> nodes P - insert p D. parents P (insert p D) x = 0 \<and> parents P D x \<noteq> 0}"
  proof (rule set_eqI)
    fix x
    have "x \<in> set ?cs \<longleftrightarrow> count_list ?cs x \<noteq> 0" by (simp add: count_list_0_iff)
    then show "x \<in> set zs \<longleftrightarrow> x \<in> {x \<in> nodes P - insert p D. parents P (insert p D) x = 0 \<and> parents P D x \<noteq> 0}"
      unfolding run(5) using kid [of x] by (auto simp: m par)
  qed
  ultimately show ?thesis using run(4) by blast
qed

section \<open>Correctness of topsort\<close>

definition topological :: "('a \<times> 'a) list \<Rightarrow> 'a list \<Rightarrow> bool" where
  "topological P xs \<longleftrightarrow> distinct xs \<and>
     (\<forall>i < length xs. \<forall>(p, c) \<in> set P. c = xs ! i \<longrightarrow> p \<in> set (take i xs))"

lemma topological_snoc:
  assumes "topological P xs" and "x \<notin> set xs" and "parents P (set xs) x = 0"
  shows "topological P (xs @ [x])"
  using assms by (auto simp: topological_def parents_zero nth_append less_Suc_eq)

lemma topological_before:
  assumes "topological P xs" and "(p, c) \<in> set P" and "i < length xs" and "c = xs ! i"
  shows "p \<in> set (take i xs)"
  using assms by (auto simp: topological_def)

lemma topological_closed:
  assumes "topological P xs"
  shows "closed P (set xs)"
  unfolding closed_def
proof (intro ballI, clarify)
  fix p c assume pc: "(p, c) \<in> set P" "c \<in> set xs"
  then obtain i where "i < length xs" "c = xs ! i" by (auto simp: in_set_conv_nth)
  then show "p \<in> set xs" using topological_before [OF assms pc(1)] in_set_takeD by fast
qed

definition ready :: "('a \<times> 'a) list \<Rightarrow> 'a set \<Rightarrow> 'a set" where
  "ready P D = {x \<in> nodes P - D. parents P D x = 0}"

lemma topsort_loop_spec:
  assumes "tables P (set done) np ch" and "topological P done" and "distinct queue" and "set queue = ready P (set done)"
    and "set done \<subseteq> nodes P"
  shows "\<exists>answer np' ch'. topsort_loop done queue np ch = Inr (answer, np', ch') \<and> topological P answer
    \<and> tables P (set answer) np' ch' \<and> ready P (set answer) = {} \<and> set answer \<subseteq> nodes P"
  using assms
proof (induction "done" queue np ch rule: topsort_loop.induct)
  case (1 "done" np ch)
  then show ?case by auto
next
  case (2 "done" p queue np ch)
  let ?D = "set done"
  have p: "p \<in> nodes P - ?D" "parents P ?D p = 0" using 2(5) by (auto simp: ready_def)
  obtain np' ch' zs where v: "visit p np ch queue = Inr (np', ch', queue @ zs)" "tables P (insert p ?D) np' ch'"
      "distinct zs" "set zs = {x \<in> nodes P - insert p ?D. parents P (insert p ?D) x = 0 \<and> parents P ?D x \<noteq> 0}"
    using visit_spec [OF 2(2) p topological_closed [OF 2(3)], of queue] by blast
  have queue: "set queue = {x \<in> nodes P - insert p ?D. parents P ?D x = 0}"
    using 2(4,5) by (auto simp: ready_def)
  have zero: "parents P (insert p ?D) x = 0" if "parents P ?D x = 0" for x
    using that by (auto simp: parents_zero)
  have "\<exists>answer np'' ch''. topsort_loop (done @ [p]) (queue @ zs) np' ch' = Inr (answer, np'', ch'') \<and> topological P answer
    \<and> tables P (set answer) np'' ch'' \<and> ready P (set answer) = {} \<and> set answer \<subseteq> nodes P"
  proof (rule 2(1) [OF v(1) refl refl])
    show "tables P (set (done @ [p])) np' ch'" using v(2) by simp
    show "topological P (done @ [p])" using 2(3) p by (intro topological_snoc) auto
    show "distinct (queue @ zs)" using 2(4) v(3) by (auto simp: queue v(4))
    show "set (queue @ zs) = ready P (set (done @ [p]))" using zero by (auto simp: queue v(4) ready_def)
    show "set (done @ [p]) \<subseteq> nodes P" using 2(6) p by simp
  qed
  then show ?case by (simp add: v(1))
qed

lemma no_parents_ready:
  assumes "tables P D np ch" and "\<forall>xs. mset (kord xs) = mset xs"
  shows "set (no_parents kord np) = ready P D" and "distinct (no_parents kord np)"
proof -
  have "mset (kord (map fst np)) = mset (map fst np)" using assms(2) by blast
  then have "set (kord (map fst np)) = set (map fst np)" "distinct (kord (map fst np)) \<longleftrightarrow> distinct (map fst np)"
    by (metis set_mset_mset, metis mset_eq_imp_distinct_iff)
  with tables_keys [OF assms(1)] assms(1) show "set (no_parents kord np) = ready P D" "distinct (no_parents kord np)"
    by (auto simp: no_parents_def tables_def ready_def)
qed

lemma topological_acyclic:
  assumes "topological P xs" and "nodes P \<subseteq> set xs"
  shows "acyclic (set P)"
proof -
  define pos where "pos x = (SOME i. i < length xs \<and> xs ! i = x)" for x
  have pos: "pos x < length xs \<and> xs ! pos x = x" if "x \<in> set xs" for x
    unfolding pos_def by (rule someI_ex) (use that in \<open>auto simp: in_set_conv_nth\<close>)
  have "acyclic ((set P)\<inverse>)"
  proof (rule acyclicI_order [where f = pos])
    fix c p assume "(c, p) \<in> (set P)\<inverse>"
    then have pc: "(p, c) \<in> set P" by simp
    then have "c \<in> set xs" "p \<in> set xs" using assms(2) by (force simp: nodes_def)+
    then obtain j where "j < pos c" "j < length xs" "xs ! j = p"
      using topological_before [OF assms(1) pc, of "pos c"] pos [of c] by (auto simp: in_set_conv_nth)
    moreover have "pos p = j"
      using assms(1) \<open>j < length xs\<close> \<open>xs ! j = p\<close> pos [OF \<open>p \<in> set xs\<close>]
      by (metis nth_eq_iff_index_eq topological_def)
    ultimately show "pos p < pos c" by simp
  qed
  then show ?thesis by simp
qed

lemma finite_nodes: "finite (nodes P)"
  by (simp add: nodes_def)

text \<open>A non-empty set of elements each of which has a parent in it holds a cycle.\<close>

lemma no_ready_cycle:
  assumes "ready P D = {}" and "acyclic (set P)"
  shows "nodes P \<subseteq> D"
proof (rule ccontr)
  assume "\<not> nodes P \<subseteq> D"
  then obtain x where x: "x \<in> nodes P - D" by blast
  have "wf (set P)" using assms(2) by (simp add: finite_acyclic_wf)
  from wfE_min [OF this x] obtain z where z: "z \<in> nodes P - D" "\<And>y. (y, z) \<in> set P \<Longrightarrow> y \<notin> nodes P - D"
    by blast
  then have "parents P D z \<noteq> 0" using assms(1) by (auto simp: ready_def)
  then obtain y where "(y, z) \<in> set P" "y \<notin> D" by (auto simp: parents_zero)
  moreover have "y \<in> nodes P" using \<open>(y, z) \<in> set P\<close> by (force simp: nodes_def)
  ultimately show False using z(2) by blast
qed

text \<open>C1: whatever order the dictionary lists its keys in, \<open>topsort\<close> returns every element exactly
  once, each after all its parents, when the pairs have no cycle; otherwise it raises \<open>CycleError\<close>, whose
  counts are exactly the elements that were not sorted, each of which still has an unsorted parent. It
  never raises \<open>KeyError\<close>.\<close>

theorem topsort_correct:
  assumes "\<forall>xs. mset (kord xs) = mset xs"
  shows "if acyclic (set P)
    then \<exists>answer. topsort kord P = Inr answer \<and> topological P answer \<and> set answer = nodes P
    else \<exists>answer np ch. topsort kord P = Inl (CycleError answer np ch) \<and> topological P answer
      \<and> np \<noteq> [] \<and> set (map fst np) = nodes P - set answer
      \<and> (\<forall>x \<in> nodes P - set answer. \<exists>p \<in> nodes P - set answer. (p, x) \<in> set P)"
proof -
  obtain np ch where cp: "count_pairs P = (np, ch)" by (cases "count_pairs P")
  have t: "tables P (set []) np ch" using count_pairs_tables [of P] by (simp add: cp)
  obtain answer np' ch' where run: "topsort_loop [] (no_parents kord np) np ch = Inr (answer, np', ch')"
      "topological P answer" "tables P (set answer) np' ch'" "ready P (set answer) = {}" "set answer \<subseteq> nodes P"
    using topsort_loop_spec [OF t _ no_parents_ready(2) [OF t assms] no_parents_ready(1) [OF t assms]]
    by (auto simp: topological_def)
  have res: "topsort kord P = (if np' \<noteq> [] then Inl (CycleError answer np' ch') else Inr answer)"
    by (simp add: topsort_def cp run(1))
  have keys: "set (map fst np') = nodes P - set answer" by (rule tables_keys [OF run(3)])
  have empty: "np' = [] \<longleftrightarrow> nodes P \<subseteq> set answer" using keys by (cases np') auto
  have up: "\<exists>p \<in> nodes P - set answer. (p, x) \<in> set P" if x: "x \<in> nodes P - set answer" for x
  proof -
    have "parents P (set answer) x \<noteq> 0" using x run(4) by (auto simp: ready_def)
    then obtain p where "(p, x) \<in> set P" "p \<notin> set answer" by (auto simp: parents_zero)
    then show ?thesis by (force simp: nodes_def)
  qed
  show ?thesis
  proof (cases "acyclic (set P)")
    case True
    then have "nodes P \<subseteq> set answer" by (rule no_ready_cycle [OF run(4)])
    with True res empty run(2,5) show ?thesis by auto
  next
    case False
    then have "\<not> nodes P \<subseteq> set answer" using topological_acyclic [OF run(2)] by blast
    with False res empty run(2) keys up show ?thesis by auto
  qed
qed

definition sample_pairs :: "(nat \<times> nat) list" where
  "sample_pairs = [(1, 2), (1, 3), (2, 4), (3, 4), (5, 6), (4, 5)]"

lemma sample_pairs_acyclic: "acyclic (set sample_pairs)"
  by (rule acyclicI_order [where f = "\<lambda>x. - int x"]) (auto simp: sample_pairs_def)

theorem topsort_correct_witness:
  "(\<exists>answer. topsort (\<lambda>xs. xs) sample_pairs = Inr answer \<and> topological sample_pairs answer)
   \<and> (\<exists>e. topsort (\<lambda>xs. xs) [(1, 2), (2, 3), (3, 2 :: nat)] = Inl e)"
proof
  show "\<exists>answer. topsort (\<lambda>xs. xs) sample_pairs = Inr answer \<and> topological sample_pairs answer"
    using topsort_correct [of "\<lambda>xs. xs" sample_pairs] sample_pairs_acyclic by auto
  have "(2, 2) \<in> (set [(1, 2), (2, 3), (3, 2 :: nat)])\<^sup>+"
    by (rule trancl_into_trancl2 [of _ 3]) auto
  then have "\<not> acyclic (set [(1, 2), (2, 3), (3, 2 :: nat)])" by (auto simp: acyclic_def)
  with topsort_correct [of "\<lambda>xs. xs" "[(1, 2), (2, 3), (3, 2 :: nat)]"]
  show "\<exists>e. topsort (\<lambda>xs. xs) [(1, 2), (2, 3), (3, 2 :: nat)] = Inl e" by auto
qed

section \<open>Correctness of topsort_levels\<close>

lemma drop_level_visit:
  "drop_level np ch (p # ps) = bind_e (visit p np ch q) (\<lambda>(np', ch', _). drop_level np' ch' ps)"
  by (simp add: visit_def Let_def decrement_drop [of _ _ q] bind_e_assoc case_prod_beta split: option.splits)

lemma ready_mono: "D \<subseteq> D' \<Longrightarrow> parents P D x = 0 \<Longrightarrow> parents P D' x = 0"
  by (auto simp: parents_zero)

lemma drop_level_spec:
  assumes "tables P D np ch" and "closed P D" and "distinct ps" and "set ps \<subseteq> ready P D"
  shows "\<exists>np' ch'. drop_level np ch ps = Inr (np', ch') \<and> tables P (D \<union> set ps) np' ch' \<and> closed P (D \<union> set ps)"
  using assms
proof (induction ps arbitrary: np ch D)
  case Nil
  then show ?case by simp
next
  case (Cons p ps)
  have p: "p \<in> nodes P - D" "parents P D p = 0" using Cons.prems(4) by (auto simp: ready_def)
  obtain np1 ch1 zs where v: "visit p np ch [] = Inr (np1, ch1, zs)" "tables P (insert p D) np1 ch1"
    using visit_spec [OF Cons.prems(1) p Cons.prems(2), of "[]"] by auto
  have "set ps \<subseteq> ready P (insert p D)"
    using Cons.prems(3,4) by (auto simp: ready_def intro: ready_mono [of D])
  from Cons.IH [OF v(2) closed_insert [OF Cons.prems(2) p(2)] _ this] Cons.prems(3)
  show ?case by (simp add: drop_level_visit [of _ _ _ _ "[]"] v(1) del: drop_level.simps)
qed

definition levels_from :: "('a \<times> 'a) list \<Rightarrow> 'a set \<Rightarrow> 'a list list \<Rightarrow> bool" where
  "levels_from P D ls \<longleftrightarrow> (\<forall>i < length ls. ls ! i \<noteq> [] \<and> distinct (ls ! i)
     \<and> set (ls ! i) = ready P (D \<union> set (concat (take i ls))))"

lemma levels_from_Cons:
  "levels_from P D (l # ls) \<longleftrightarrow> l \<noteq> [] \<and> distinct l \<and> set l = ready P D \<and> levels_from P (D \<union> set l) ls"
proof -
  have "(\<forall>i < length (l # ls). Q i) \<longleftrightarrow> Q 0 \<and> (\<forall>i < length ls. Q (Suc i))" for Q
    by (auto simp: less_Suc_eq_0_disj)
  then show ?thesis by (simp add: levels_from_def Un_assoc)
qed

lemma topsort_levels_core_spec:
  assumes "tables P D np ch" and "closed P D" and "\<forall>xs. mset (kord xs) = mset xs"
  shows "\<exists>ls end. topsort_levels_core kord np ch = (ls, end) \<and> levels_from P D ls
    \<and> ready P (D \<union> set (concat ls)) = {}
    \<and> (end = None \<longleftrightarrow> nodes P \<subseteq> D \<union> set (concat ls))
    \<and> (\<forall>e. end = Some e \<longrightarrow> (\<exists>np' ch'. e = CycleError [] np' ch' \<and> set (map fst np') = nodes P - (D \<union> set (concat ls))))"
  using assms
proof (induction kord np ch arbitrary: D rule: topsort_levels_core.induct)
  case (1 kord np ch)
  note ready = no_parents_ready [OF 1(2,4)]
  show ?case
  proof (cases "no_parents kord np = []")
    case True
    then have r: "ready P D = {}" using ready(1) by simp
    have "np = [] \<longleftrightarrow> nodes P \<subseteq> D" using tables_keys [OF 1(2)] by (cases np) auto
    with True r tables_keys [OF 1(2)] show ?thesis
      by (subst topsort_levels_core.simps) (auto simp: levels_from_def)
  next
    case False
    let ?l = "no_parents kord np"
    obtain np' ch' where d: "drop_level np ch ?l = Inr (np', ch')" "tables P (D \<union> set ?l) np' ch'" "closed P (D \<union> set ?l)"
      using drop_level_spec [OF 1(2,3) ready(2)] ready(1) by blast
    from 1(1) [OF refl False d(1) refl d(2,3) 1(4)] obtain ls "end" where
      IH: "topsort_levels_core kord np' ch' = (ls, end)" "levels_from P (D \<union> set ?l) ls"
        "ready P (D \<union> set ?l \<union> set (concat ls)) = {}" "end = None \<longleftrightarrow> nodes P \<subseteq> D \<union> set ?l \<union> set (concat ls)"
        "\<forall>e. end = Some e \<longrightarrow> (\<exists>np' ch'. e = CycleError [] np' ch' \<and> set (map fst np') = nodes P - (D \<union> set ?l \<union> set (concat ls)))"
      by auto
    have "topsort_levels_core kord np ch = (?l # ls, end)"
      using False by (subst topsort_levels_core.simps) (simp add: d(1) IH(1) Let_def)
    moreover have "levels_from P D (?l # ls)" using False ready IH(2) by (simp add: levels_from_Cons)
    ultimately show ?thesis using IH(3-5) by (auto simp: Un_assoc)
  qed
qed

lemma topological_append:
  assumes "topological P xs" and "distinct l" and "set l \<subseteq> ready P (set xs)"
  shows "topological P (xs @ l)"
  using assms(2,3)
proof (induction l rule: rev_induct)
  case Nil
  then show ?case using assms(1) by simp
next
  case (snoc y l)
  have "topological P ((xs @ l) @ [y])"
  proof (rule topological_snoc)
    show "topological P (xs @ l)" using snoc by simp
    show "y \<notin> set (xs @ l)" using snoc.prems by (auto simp: ready_def)
    show "parents P (set (xs @ l)) y = 0" using snoc.prems by (auto simp: ready_def intro: ready_mono [of "set xs"])
  qed
  then show ?case by simp
qed

lemma levels_topological:
  "topological P xs \<Longrightarrow> levels_from P (set xs) ls \<Longrightarrow> topological P (xs @ concat ls)"
proof (induction ls arbitrary: xs)
  case Nil
  then show ?case by simp
next
  case (Cons l ls)
  have l: "distinct l" "set l = ready P (set xs)" "levels_from P (set (xs @ l)) ls"
    using Cons.prems(2) by (auto simp: levels_from_Cons)
  have "topological P (xs @ l)" using topological_append [OF Cons.prems(1) l(1)] l(2) by simp
  from Cons.IH [OF this l(3)] show ?case by simp
qed

text \<open>C26: every level \<open>topsort_levels\<close> yields is non-empty and holds, each once, exactly the
  elements that are in no earlier level and whose parents all are, so an element comes as early as its
  parents allow. The generator ends without an error exactly when the pairs have no cycle, and the
  \<open>CycleError\<close> that ends it otherwise lists exactly the elements of no level.\<close>

theorem topsort_levels_correct:
  assumes "\<forall>xs. mset (kord xs) = mset xs" and "topsort_levels kord P = (levels, end)"
  shows "levels_from P {} levels
    \<and> (end = None \<longleftrightarrow> acyclic (set P))
    \<and> (end = None \<longrightarrow> set (concat levels) = nodes P)
    \<and> (\<forall>e. end = Some e \<longrightarrow> (\<exists>np ch. e = CycleError [] np ch \<and> set (map fst np) = nodes P - set (concat levels)))"
proof -
  obtain np ch where cp: "count_pairs P = (np, ch)" by (cases "count_pairs P")
  have t: "tables P {} np ch" using count_pairs_tables [of P] by (simp add: cp)
  have cl: "closed P {}" by (simp add: closed_def)
  have r: "levels_from P {} levels" "ready P (set (concat levels)) = {}" "end = None \<longleftrightarrow> nodes P \<subseteq> set (concat levels)"
    "\<forall>e. end = Some e \<longrightarrow> (\<exists>np ch. e = CycleError [] np ch \<and> set (map fst np) = nodes P - set (concat levels))"
    using topsort_levels_core_spec [OF t cl assms(1)] assms(2) by (auto simp: topsort_levels_def cp)
  have top: "topological P (concat levels)"
    using levels_topological [of P "[]" levels] r(1) by (simp add: topological_def)
  have "end = None \<longleftrightarrow> acyclic (set P)"
    using r(3) topological_acyclic [OF top] no_ready_cycle [OF r(2)] by blast
  moreover have "set (concat levels) \<subseteq> nodes P"
    using r(1) by (fastforce simp: levels_from_def ready_def in_set_conv_nth)
  ultimately show ?thesis using r by blast
qed

theorem topsort_levels_correct_witness:
  "\<exists>levels. topsort_levels (\<lambda>xs. xs) sample_pairs = (levels, None) \<and> levels_from sample_pairs {} levels"
proof -
  obtain levels "end" where l: "topsort_levels (\<lambda>xs. xs) sample_pairs = (levels, end)" by (cases "topsort_levels (\<lambda>xs. xs) sample_pairs")
  from topsort_levels_correct [OF _ l] sample_pairs_acyclic l show ?thesis by simp
qed

end
