(* ===== verification/FindCycles.thy ===== *)
theory FindCycles
  imports Topsort
begin

text \<open>
  \<open>find_cycles\<close> of \<open>bindings/python/topsort.py\<close> and the function \<open>is_rotated\<close> of
  \<open>bindings/python/rad_util.py\<close> it uses. The dictionary \<open>parent_children\<close> is an association list
  with distinct keys, listed in the order in which the dictionary iterates over them. The
  generator yields each cycle when it appends it to \<open>cycles\<close>: its result is that list.
\<close>

section \<open>is_rotated\<close>

definition start_indexes :: "'a \<Rightarrow> 'a list \<Rightarrow> nat list" where
  "start_indexes head_item seq1 = filter (\<lambda>i. seq1 ! i = head_item) [0 ..< length seq1]"

definition is_rotated :: "'a list \<Rightarrow> 'a list \<Rightarrow> bool py" where
  "is_rotated seq1 seq2 =
     (if length seq1 \<noteq> length seq2 then Inr False
      else bind_e (py_get seq2 0) (\<lambda>head_item.
        let double_seq1 = seq1 @ seq1 in
        Inr (list_ex (\<lambda>i. py_slice double_seq1 (int i) (int (i + length seq1)) = seq2) (start_indexes head_item seq1))))"

section \<open>find_cycles\<close>

fun is_dup :: "'a list list \<Rightarrow> 'a list \<Rightarrow> bool py" where
  "is_dup [] cycle = Inr False"
| "is_dup (other_cycle # cycles) cycle =
     bind_e (is_rotated other_cycle cycle) (\<lambda>b. if b then Inr True else is_dup cycles cycle)"

type_synonym 'a search = "'a list list \<times> 'a list list \<times> 'a set"

text \<open>The state of the search: the cycles, the stack of paths, the visited nodes.\<close>

definition child_step :: "'a list \<Rightarrow> 'a search \<Rightarrow> 'a \<Rightarrow> 'a search py" where
  "child_step path st child =
     (let (cycles, paths, visited_nodes) = st in
      if child \<in> set path
      then (let cycle = dropWhile (\<lambda>x. x \<noteq> child) path in
            bind_e (is_dup cycles cycle) (\<lambda>dup.
              Inr (if dup then cycles else cycles @ [cycle], paths, visited_nodes)))
      else Inr (cycles, paths @ [path @ [child]], insert child visited_nodes))"

definition pushed :: "'a list \<Rightarrow> 'a list \<Rightarrow> 'a list list" where
  "pushed path children = map (\<lambda>c. path @ [c]) (filter (\<lambda>c. c \<notin> set path) children)"

lemma child_step_pushed:
  "child_step path (cy, ps, vis) c = Inr (cy', ps', vis') \<Longrightarrow> ps' = ps @ pushed path [c]"
  by (auto simp: child_step_def pushed_def bind_e_Inr_iff Let_def split: if_splits)

lemma pushed_Cons: "pushed path (c # cs) = pushed path [c] @ pushed path cs"
  by (simp add: pushed_def)

lemma child_steps_pushed:
  "fold_e (child_step path) (cy, ps, vis) cs = Inr (cy', ps', vis') \<Longrightarrow> ps' = ps @ pushed path cs"
proof (induction cs arbitrary: cy ps vis)
  case Nil
  then show ?case by (simp add: pushed_def)
next
  case (Cons c cs)
  from Cons.prems obtain cy1 ps1 vis1 where
    1: "child_step path (cy, ps, vis) c = Inr (cy1, ps1, vis1)"
      "fold_e (child_step path) (cy1, ps1, vis1) cs = Inr (cy', ps', vis')"
    by (auto simp: bind_e_Inr_iff)
  show ?case
    using child_step_pushed [OF 1(1)] Cons.IH [OF 1(2)] pushed_Cons [of path c cs] by simp
qed

text \<open>The nodes a path can still be extended by: every path pushed has fewer than the one popped.\<close>

definition left_nodes :: "'a succs \<Rightarrow> 'a list \<Rightarrow> nat" where
  "left_nodes G path = card (\<Union> (set ` snd ` set G) - set path)"

lemma left_nodes_pushed:
  assumes "map_of G x = Some cs" and "p \<in> set (pushed path cs)"
  shows "left_nodes G p < left_nodes G path"
proof -
  obtain c where c: "p = path @ [c]" "c \<in> set cs" "c \<notin> set path"
    using assms(2) by (auto simp: pushed_def)
  have "(x, cs) \<in> set G" using assms(1) by (rule map_of_SomeD)
  then have "c \<in> \<Union> (set ` snd ` set G)" using c(2) by force
  then have "\<Union> (set ` snd ` set G) - set p \<subset> \<Union> (set ` snd ` set G) - set path" using c by auto
  then show ?thesis unfolding left_nodes_def by (rule psubset_card_mono [rotated]) simp
qed

function path_loop :: "'a succs \<Rightarrow> 'a list list \<Rightarrow> 'a list list \<Rightarrow> 'a set \<Rightarrow> ('a list list \<times> 'a set) py" where
  "path_loop parent_children paths cycles visited_nodes =
     (if paths = [] then Inr (cycles, visited_nodes)
      else (let path = last paths; rest = butlast paths in
        case map_of parent_children (last path) of
          None \<Rightarrow> path_loop parent_children rest cycles visited_nodes
        | Some children \<Rightarrow>
            bind_e (fold_e (child_step path) (cycles, rest, visited_nodes) children) (\<lambda>(cycles, paths, visited_nodes).
              path_loop parent_children paths cycles visited_nodes)))"
  by pat_completeness auto

lemma stack_shrinks:
  assumes "paths \<noteq> []" and "\<forall>p \<in> set new. f p < f (last paths)"
  shows "(mset (map f (butlast paths @ new)), mset (map f paths)) \<in> mult less_than"
proof -
  have "mset (map f paths) = mset (map f (butlast paths)) + {# f (last paths) #}"
    using assms(1) by (metis append_butlast_last_id map_append list.simps(8,9) mset.simps mset_append)
  moreover have "(mset (map f (butlast paths)) + mset (map f new), mset (map f (butlast paths)) + {# f (last paths) #})
      \<in> mult less_than"
    using assms(2) by (intro one_step_implies_mult) auto
  ultimately show ?thesis by simp
qed

termination path_loop
proof (relation "inv_image (mult less_than) (\<lambda>(G, paths, cy, vis). mset (map (left_nodes G) paths))")
  show "wf (inv_image (mult less_than) (\<lambda>(G, paths, cy, vis). mset (map (left_nodes G) paths)))"
    by (intro wf_inv_image wf_mult) simp
next
  fix G :: "'a succs" and paths cycles :: "'a list list" and vis :: "'a set" and path rest
  assume "paths \<noteq> []" "rest = butlast paths"
  then show "((G, rest, cycles, vis), G, paths, cycles, vis)
    \<in> inv_image (mult less_than) (\<lambda>(G, paths, cy, vis). mset (map (left_nodes G) paths))"
    using stack_shrinks [of paths "[]" "left_nodes G"] by simp
next
  fix G :: "'a succs" and paths cycles :: "'a list list" and vis :: "'a set" and path rest children st cy r ps vis'
  assume h: "paths \<noteq> []" "path = last paths" "rest = butlast paths" "map_of G (last path) = Some children"
    "fold_e (child_step path) (cycles, rest, vis) children = Inr st" "(cy, r) = st" "(ps, vis') = r"
  then have "ps = butlast paths @ pushed (last paths) children"
    using child_steps_pushed [of path cycles rest vis children cy ps vis'] by simp
  then show "((G, ps, cy, vis'), G, paths, cycles, vis)
    \<in> inv_image (mult less_than) (\<lambda>(G, paths, cy, vis). mset (map (left_nodes G) paths))"
    using stack_shrinks [OF h(1), of "pushed (last paths) children" "left_nodes G"]
      left_nodes_pushed [OF h(4)] h(2) by simp
qed

declare path_loop.simps [simp del]

definition start_step :: "'a succs \<Rightarrow> 'a list list \<times> 'a set \<Rightarrow> 'a \<Rightarrow> ('a list list \<times> 'a set) py" where
  "start_step parent_children st parent =
     (let (cycles, visited_nodes) = st in
      if parent \<in> visited_nodes then Inr (cycles, visited_nodes)
      else path_loop parent_children [[parent]] cycles visited_nodes)"

definition find_cycles :: "'a succs \<Rightarrow> 'a list list py" where
  "find_cycles parent_children =
     bind_e (fold_e (start_step parent_children) ([], {}) (map fst parent_children)) (\<lambda>(cycles, visited_nodes). Inr cycles)"

section \<open>Rotations\<close>

definition rotated :: "'a list \<Rightarrow> 'a list \<Rightarrow> bool" where
  "rotated xs ys \<longleftrightarrow> (\<exists>n. ys = rotate n xs)"

lemma rotated_refl: "rotated xs xs"
  unfolding rotated_def by (metis rotate0 id_apply)

lemma rotated_sym: "rotated xs ys \<Longrightarrow> rotated ys xs"
proof (cases "xs = []")
  case False
  assume "rotated xs ys"
  then obtain n where n: "ys = rotate n xs" by (auto simp: rotated_def)
  let ?k = "length xs - n mod length xs"
  have "n mod length xs < length xs" using False by simp
  then have "?k + n = length xs + length xs * (n div length xs)"
    using mult_div_mod_eq [of "length xs" n] by linarith
  then have "(?k + n) mod length xs = 0" by simp
  moreover have "rotate ?k ys = rotate ((?k + n) mod length xs) xs"
    unfolding n rotate_rotate by (rule rotate_conv_mod)
  ultimately show ?thesis unfolding rotated_def by (metis rotate0 id_apply)
qed (auto simp: rotated_def)

lemma rotated_trans: "rotated xs ys \<Longrightarrow> rotated ys zs \<Longrightarrow> rotated xs zs"
  unfolding rotated_def by (metis rotate_rotate)

lemma is_rotated_iff:
  assumes "ys \<noteq> []"
  shows "is_rotated xs ys = Inr (rotated xs ys)"
proof (cases "length xs = length ys")
  case False
  then show ?thesis by (auto simp: is_rotated_def rotated_def)
next
  case True
  have slice: "py_slice (xs @ xs) (int i) (int (i + length xs)) = rotate i xs" if "i < length xs" for i
    using that unfolding py_slice_nat by (simp add: rotate_drop_take)
  have "list_ex (\<lambda>i. py_slice (xs @ xs) (int i) (int (i + length xs)) = ys) (start_indexes (ys ! 0) xs) \<longleftrightarrow> rotated xs ys"
    (is "?found \<longleftrightarrow> _")
  proof
    assume ?found
    then show "rotated xs ys"
      by (auto simp del: of_nat_add simp: list_ex_iff start_indexes_def slice rotated_def)
  next
    assume "rotated xs ys"
    then obtain n where n: "ys = rotate n xs" by (auto simp: rotated_def)
    have len: "0 < length xs" using assms True by simp
    let ?i = "n mod length xs"
    have i: "?i < length xs" using len by simp
    have ys: "ys = rotate ?i xs" using n rotate_conv_mod by metis
    have "ys ! 0 = xs ! ?i" unfolding n using len by (simp add: nth_rotate)
    then have "?i \<in> set (start_indexes (ys ! 0) xs)" using i by (simp add: start_indexes_def)
    then show ?found using slice [OF i] ys by (auto simp del: of_nat_add simp: list_ex_iff)
  qed
  then show ?thesis using assms True by (simp add: is_rotated_def py_get_nonneg)
qed

lemma is_dup_iff: "cycle \<noteq> [] \<Longrightarrow> is_dup cycles cycle = Inr (\<exists>c \<in> set cycles. rotated c cycle)"
  by (induction cycles) (simp_all add: is_rotated_iff)

section \<open>Cycles of a graph\<close>

definition edge :: "'a succs \<Rightarrow> 'a \<Rightarrow> 'a \<Rightarrow> bool" where
  "edge G a b \<longleftrightarrow> (\<exists>cs. map_of G a = Some cs \<and> b \<in> set cs)"

definition simple_path :: "'a succs \<Rightarrow> 'a list \<Rightarrow> bool" where
  "simple_path G p \<longleftrightarrow> p \<noteq> [] \<and> distinct p \<and> successively (edge G) p"

definition simple_cycle :: "'a succs \<Rightarrow> 'a list \<Rightarrow> bool" where
  "simple_cycle G c \<longleftrightarrow> simple_path G c \<and> edge G (last c) (hd c)"

lemma simple_path_snoc: "simple_path G p \<Longrightarrow> edge G (last p) c \<Longrightarrow> c \<notin> set p \<Longrightarrow> simple_path G (p @ [c])"
  by (simp add: simple_path_def successively_append_iff)

lemma simple_path_suffix:
  assumes "simple_path G p" and "x \<in> set p"
  shows "simple_path G (dropWhile (\<lambda>y. y \<noteq> x) p) \<and> hd (dropWhile (\<lambda>y. y \<noteq> x) p) = x
    \<and> last (dropWhile (\<lambda>y. y \<noteq> x) p) = last p"
proof -
  let ?d = "dropWhile (\<lambda>y. y \<noteq> x) p" and ?t = "takeWhile (\<lambda>y. y \<noteq> x) p"
  have p: "p = ?t @ ?d" by simp
  have ne: "?d \<noteq> []" using assms(2) by (auto simp: dropWhile_eq_Nil_conv)
  have "successively (edge G) (?t @ ?d)" "distinct (?t @ ?d)" using assms(1) by (simp_all add: simple_path_def)
  then have "simple_path G ?d" using ne unfolding simple_path_def successively_append_iff distinct_append by blast
  moreover have "hd ?d = x" using hd_dropWhile [OF ne] by simp
  moreover have "last ?d = last p" using ne p by (metis last_appendR)
  ultimately show ?thesis by blast
qed

lemma closing_cycle:
  assumes "simple_path G p" and "x \<in> set p" and "edge G (last p) x"
  shows "simple_cycle G (dropWhile (\<lambda>y. y \<noteq> x) p)"
  using simple_path_suffix [OF assms(1,2)] assms(3) by (simp add: simple_cycle_def)

lemma simple_cycle_rotate1:
  assumes "simple_cycle G c"
  shows "simple_cycle G (rotate1 c)"
proof (cases c)
  case Nil
  with assms show ?thesis by simp
next
  case (Cons x xs)
  with assms show ?thesis
    by (cases xs rule: rev_cases)
      (auto simp: simple_cycle_def simple_path_def successively_append_iff successively_Cons hd_append split: if_splits)
qed

lemma simple_cycle_rotate: "simple_cycle G c \<Longrightarrow> simple_cycle G (rotate n c)"
  by (induction n) (simp_all add: simple_cycle_rotate1)

lemma path_to_set:
  assumes "(edge G)\<^sup>*\<^sup>* u z" and "z \<in> S"
  shows "\<exists>p. simple_path G p \<and> hd p = u \<and> last p \<in> S \<and> set (butlast p) \<inter> S = {}"
  using assms
proof (induction rule: converse_rtranclp_induct)
  case base
  then show ?case by (intro exI [of _ "[z]"]) (simp add: simple_path_def)
next
  case (step u v)
  then obtain p where p: "simple_path G p" "hd p = v" "last p \<in> S" "set (butlast p) \<inter> S = {}" by auto
  have ne: "p \<noteq> []" using p(1) by (simp add: simple_path_def)
  show ?case
  proof (cases "u \<in> set p")
    case True
    let ?d = "dropWhile (\<lambda>y. y \<noteq> u) p"
    note d = simple_path_suffix [OF p(1) True]
    have dne: "?d \<noteq> []" using d by (simp add: simple_path_def)
    have "butlast p = butlast (takeWhile (\<lambda>y. y \<noteq> u) p @ ?d)" by simp
    then have "set (butlast ?d) \<subseteq> set (butlast p)" unfolding butlast_append using dne by auto
    then show ?thesis using d p(3,4) by (intro exI [of _ ?d]) auto
  next
    case False
    show ?thesis
    proof (cases "u \<in> S")
      case True
      then show ?thesis by (intro exI [of _ "[u]"]) (simp add: simple_path_def)
    next
      case notS: False
      have "simple_path G (u # p)"
        using False p(1,2) step.hyps(1) ne by (auto simp: simple_path_def successively_Cons)
      then show ?thesis using p(3,4) ne notS by (intro exI [of _ "u # p"]) auto
    qed
  qed
qed

section \<open>The search\<close>

definition cycles_ok :: "'a succs \<Rightarrow> 'a list list \<Rightarrow> bool" where
  "cycles_ok G cy \<longleftrightarrow> (\<forall>c \<in> set cy. simple_cycle G c) \<and> sorted_wrt (\<lambda>a b. \<not> rotated a b) cy"

definition found :: "'a list list \<Rightarrow> 'a list \<Rightarrow> bool" where
  "found cy c \<longleftrightarrow> (\<exists>d \<in> set cy. rotated d c)"

lemma found_mono: "found cy c \<Longrightarrow> set cy \<subseteq> set cy' \<Longrightarrow> found cy' c"
  by (auto simp: found_def)

lemma child_steps_ok:
  assumes "simple_path G path" and "\<forall>c \<in> set cs. edge G (last path) c" and "cycles_ok G cy"
  shows "\<exists>cy'. fold_e (child_step path) (cy, ps, vis) cs = Inr (cy', ps @ pushed path cs, vis \<union> (set cs - set path))
    \<and> cycles_ok G cy' \<and> set cy \<subseteq> set cy'
    \<and> (\<forall>c \<in> set cs. c \<in> set path \<longrightarrow> found cy' (dropWhile (\<lambda>y. y \<noteq> c) path))"
  using assms(2,3)
proof (induction cs arbitrary: cy ps vis)
  case Nil
  then show ?case by (simp add: pushed_def)
next
  case (Cons c cs)
  have e: "edge G (last path) c" "\<forall>c \<in> set cs. edge G (last path) c" using Cons.prems(1) by simp_all
  show ?case
  proof (cases "c \<in> set path")
    case True
    let ?C = "dropWhile (\<lambda>y. y \<noteq> c) path"
    let ?cy = "if found cy ?C then cy else cy @ [?C]"
    have C: "simple_cycle G ?C" by (rule closing_cycle [OF assms(1) True e(1)])
    then have "?C \<noteq> []" by (simp add: simple_cycle_def simple_path_def)
    then have step: "child_step path (cy, ps, vis) c = Inr (?cy, ps, vis)"
      using True by (simp add: child_step_def is_dup_iff found_def)
    have ok: "cycles_ok G ?cy"
      using Cons.prems(2) C by (auto simp: cycles_ok_def found_def sorted_wrt_append)
    have fC: "found ?cy ?C" using rotated_refl by (auto simp: found_def)
    obtain cy' where r: "fold_e (child_step path) (?cy, ps, vis) cs
        = Inr (cy', ps @ pushed path cs, vis \<union> (set cs - set path))"
      "cycles_ok G cy'" "set ?cy \<subseteq> set cy'"
      "\<forall>c \<in> set cs. c \<in> set path \<longrightarrow> found cy' (dropWhile (\<lambda>y. y \<noteq> c) path)"
      using Cons.IH [OF e(2) ok] by blast
    have "pushed path (c # cs) = pushed path cs" "set (c # cs) - set path = set cs - set path"
      using True by (auto simp: pushed_def)
    moreover have "set cy \<subseteq> set cy'" using r(3) by (auto split: if_splits)
    moreover have "found cy' ?C" by (rule found_mono [OF fC r(3)])
    ultimately show ?thesis using step r by (intro exI [of _ cy']) simp
  next
    case False
    then have step: "child_step path (cy, ps, vis) c = Inr (cy, ps @ [path @ [c]], insert c vis)"
      by (simp add: child_step_def)
    obtain cy' where "fold_e (child_step path) (cy, ps @ [path @ [c]], insert c vis) cs
        = Inr (cy', (ps @ [path @ [c]]) @ pushed path cs, insert c vis \<union> (set cs - set path))"
      "cycles_ok G cy'" "set cy \<subseteq> set cy'"
      "\<forall>c \<in> set cs. c \<in> set path \<longrightarrow> found cy' (dropWhile (\<lambda>y. y \<noteq> c) path)"
      using Cons.IH [OF e(2) Cons.prems(2)] by blast
    moreover have "pushed path (c # cs) = (path @ [c]) # pushed path cs"
      "vis \<union> (set (c # cs) - set path) = insert c vis \<union> (set cs - set path)"
      using False by (auto simp: pushed_def)
    ultimately show ?thesis using step False by (intro exI [of _ cy']) simp
  qed
qed

text \<open>What the search of a stack of paths finds: every cycle that closes an extension of one of them.\<close>

definition closes :: "'a succs \<Rightarrow> 'a list list \<Rightarrow> 'a list \<Rightarrow> bool" where
  "closes G cy p \<longleftrightarrow> (\<forall>r x. simple_path G (p @ r) \<longrightarrow> x \<in> set (p @ r) \<longrightarrow> edge G (last (p @ r)) x \<longrightarrow>
     found cy (dropWhile (\<lambda>y. y \<noteq> x) (p @ r)))"

lemma closes_mono: "closes G cy p \<Longrightarrow> set cy \<subseteq> set cy' \<Longrightarrow> closes G cy' p"
  by (meson closes_def found_mono)

lemma closes_children:
  assumes "map_of G (last p) = Some cs" and "p \<noteq> []"
    and "\<forall>c \<in> set cs. c \<in> set p \<longrightarrow> found cy (dropWhile (\<lambda>y. y \<noteq> c) p)"
    and "\<forall>q \<in> set (pushed p cs). closes G cy q"
  shows "closes G cy p"
  unfolding closes_def
proof (intro allI impI)
  fix r x
  assume h: "simple_path G (p @ r)" "x \<in> set (p @ r)" "edge G (last (p @ r)) x"
  show "found cy (dropWhile (\<lambda>y. y \<noteq> x) (p @ r))"
  proof (cases r)
    case Nil
    then show ?thesis using h(2,3) assms(1,3) by (auto simp: edge_def)
  next
    case (Cons c r')
    then have "edge G (last p) c" "c \<notin> set p"
      using h(1) assms(2) by (auto simp: simple_path_def successively_append_iff)
    then have "p @ [c] \<in> set (pushed p cs)" using assms(1) by (auto simp: edge_def pushed_def)
    then have "closes G cy (p @ [c])" using assms(4) by blast
    then show ?thesis using h unfolding closes_def Cons by (metis append.assoc append_Cons append_Nil)
  qed
qed

lemma path_loop_ok:
  assumes "\<forall>p \<in> set paths. simple_path G p" and "cycles_ok G cy"
  shows "\<exists>cy' vis'. path_loop G paths cy vis = Inr (cy', vis') \<and> cycles_ok G cy' \<and> set cy \<subseteq> set cy'
    \<and> (\<forall>p \<in> set paths. closes G cy' p)
    \<and> (\<forall>x \<in> vis'. x \<in> vis \<or> (\<exists>p \<in> set paths. (edge G)\<^sup>*\<^sup>* (last p) x))"
  using assms
proof (induction G paths cy vis rule: path_loop.induct)
  case (1 G paths cy vis)
  show ?case
  proof (cases "paths = []")
    case True
    then show ?thesis using 1 by (simp add: path_loop.simps)
  next
    case False
    let ?p = "last paths" and ?rest = "butlast paths"
    have paths: "set paths = insert ?p (set ?rest)"
      using False by (metis append_butlast_last_id list.simps(15) rotate1.simps(2) set_rotate1)
    have p: "simple_path G ?p" "?p \<noteq> []" and rest: "\<forall>p \<in> set ?rest. simple_path G p"
      using 1(3) paths by (auto simp: simple_path_def)
    show ?thesis
    proof (cases "map_of G (last ?p)")
      case None
      then have "closes G c ?p" for c using p(2)
        by (auto simp: closes_def edge_def simple_path_def successively_append_iff neq_Nil_conv last_append split: if_splits)
      moreover have "path_loop G paths cy vis = path_loop G ?rest cy vis"
        using False None by (subst path_loop.simps) (simp add: Let_def)
      ultimately show ?thesis using 1(1) [OF False refl refl None rest 1(4)] paths by auto
    next
      case (Some cs)
      have e: "\<forall>c \<in> set cs. edge G (last ?p) c" using Some by (simp add: edge_def)
      obtain cy1 where cy1: "fold_e (child_step ?p) (cy, ?rest, vis) cs
          = Inr (cy1, ?rest @ pushed ?p cs, vis \<union> (set cs - set ?p))" "cycles_ok G cy1" "set cy \<subseteq> set cy1"
        "\<forall>c \<in> set cs. c \<in> set ?p \<longrightarrow> found cy1 (dropWhile (\<lambda>y. y \<noteq> c) ?p)"
        using child_steps_ok [OF p(1) e 1(4)] by blast
      have "\<forall>q \<in> set (?rest @ pushed ?p cs). simple_path G q"
        using rest p(1) e by (auto simp: pushed_def intro!: simple_path_snoc)
      from 1(2) [OF False refl refl Some cy1(1) refl refl this cy1(2)] obtain cy' vis' where
        r: "path_loop G (?rest @ pushed ?p cs) cy1 (vis \<union> (set cs - set ?p)) = Inr (cy', vis')"
          "cycles_ok G cy'" "set cy1 \<subseteq> set cy'" "\<forall>q \<in> set (?rest @ pushed ?p cs). closes G cy' q"
          "\<forall>x \<in> vis'. x \<in> vis \<union> (set cs - set ?p) \<or> (\<exists>q \<in> set (?rest @ pushed ?p cs). (edge G)\<^sup>*\<^sup>* (last q) x)"
        by blast
      have "path_loop G paths cy vis = Inr (cy', vis')"
        using False Some cy1(1) r(1) by (subst path_loop.simps) (simp add: Let_def)
      moreover have "closes G cy' ?p"
        using closes_children [OF Some p(2)] cy1(4) r(3,4) found_mono by (metis UnCI set_append)
      moreover have "(edge G)\<^sup>*\<^sup>* (last ?p) x" if "q \<in> set (pushed ?p cs)" "(edge G)\<^sup>*\<^sup>* (last q) x" for q x
        using that e by (auto simp: pushed_def intro: converse_rtranclp_into_rtranclp)
      moreover have "(edge G)\<^sup>*\<^sup>* (last ?p) x" if "x \<in> set cs" for x using that e by blast
      ultimately show ?thesis using cy1(3) r(2-5) paths by (intro exI conjI) (assumption, assumption, auto)
    qed
  qed
qed

lemma found_from_start:
  assumes "closes G cy [u]" and "simple_cycle G c" and "(edge G)\<^sup>*\<^sup>* u (hd c)"
  shows "found cy c"
proof -
  have ne: "c \<noteq> []" using assms(2) by (simp add: simple_cycle_def simple_path_def)
  then have "hd c \<in> set c" by simp
  from path_to_set [OF assms(3) this] obtain p where
    p: "simple_path G p" "hd p = u" "last p \<in> set c" "set (butlast p) \<inter> set c = {}" by blast
  have pne: "p \<noteq> []" using p(1) by (simp add: simple_path_def)
  define y where "y = last p"
  have py: "p = butlast p @ [y]" using pne by (simp add: y_def)
  obtain n where n: "n < length c" "c ! n = y" using p(3) by (auto simp: in_set_conv_nth y_def)
  let ?c = "rotate n c"
  have c': "simple_cycle G ?c" by (rule simple_cycle_rotate [OF assms(2)])
  then have cp: "simple_path G ?c" "edge G (last ?c) (hd ?c)" "?c \<noteq> []" by (auto simp: simple_cycle_def simple_path_def)
  have hd: "hd ?c = y" using n ne by (simp add: hd_rotate_conv_nth)
  let ?q = "butlast p @ ?c"
  have q: "simple_path G ?q"
  proof -
    have "successively (edge G) (butlast p @ [y])" using p(1) py unfolding simple_path_def by metis
    then have "successively (edge G) ?q"
      using cp(1,3) hd by (auto simp: simple_path_def successively_append_iff)
    moreover have "distinct (butlast p)" using p(1) by (simp add: simple_path_def distinct_butlast)
    ultimately show ?thesis using cp(1,3) p(4) by (simp add: simple_path_def)
  qed
  have "hd ?q = u"
  proof (cases "butlast p")
    case Nil
    then show ?thesis using py p(2) hd by (metis append_Nil list.sel(1))
  next
    case (Cons a as)
    then show ?thesis using py p(2) by (metis append_Cons list.sel(1))
  qed
  then obtain r where r: "?q = [u] @ r" using cp(3) by (cases ?q) auto
  have "dropWhile (\<lambda>x. x \<noteq> y) ?q = ?c"
  proof -
    have "y \<notin> set (butlast p)" using p(3,4) by (auto simp: y_def)
    then have "dropWhile (\<lambda>x. x \<noteq> y) ?q = dropWhile (\<lambda>x. x \<noteq> y) ?c"
      by (intro dropWhile_append2) auto
    also have "\<dots> = ?c" using cp(3) hd by (cases ?c) auto
    finally show ?thesis .
  qed
  moreover have "y \<in> set ?q" "edge G (last ?q) y" using cp(2,3) hd hd_in_set [of ?c] by auto
  ultimately have "found cy ?c" using assms(1) q unfolding closes_def r by metis
  then show ?thesis
    unfolding found_def by (meson rotated_def rotated_sym rotated_trans)
qed

lemma starts_ok:
  assumes "cycles_ok G cy"
    and "\<forall>x \<in> vis. \<forall>c. simple_cycle G c \<longrightarrow> (edge G)\<^sup>*\<^sup>* x (hd c) \<longrightarrow> found cy c"
  shows "\<exists>cy' vis'. fold_e (start_step G) (cy, vis) us = Inr (cy', vis') \<and> cycles_ok G cy' \<and> set cy \<subseteq> set cy'
    \<and> (\<forall>u \<in> set us. \<forall>c. simple_cycle G c \<longrightarrow> (edge G)\<^sup>*\<^sup>* u (hd c) \<longrightarrow> found cy' c)"
  using assms
proof (induction us arbitrary: cy vis)
  case Nil
  then show ?case by simp
next
  case (Cons u us)
  show ?case
  proof (cases "u \<in> vis")
    case True
    then have "start_step G (cy, vis) u = Inr (cy, vis)" by (simp add: start_step_def)
    with Cons.IH [OF Cons.prems] Cons.prems(2) True found_mono show ?thesis by fastforce
  next
    case False
    have "\<forall>p \<in> set [[u]]. simple_path G p" by (simp add: simple_path_def)
    from path_loop_ok [OF this Cons.prems(1), of vis] obtain cy1 vis1 where
      1: "path_loop G [[u]] cy vis = Inr (cy1, vis1)" "cycles_ok G cy1" "set cy \<subseteq> set cy1" "closes G cy1 [u]"
        "\<forall>x \<in> vis1. x \<in> vis \<or> (edge G)\<^sup>*\<^sup>* u x" by auto
    have u: "found cy1 c" if "simple_cycle G c" "(edge G)\<^sup>*\<^sup>* u (hd c)" for c
      by (rule found_from_start [OF 1(4) that])
    have "\<forall>x \<in> vis1. \<forall>c. simple_cycle G c \<longrightarrow> (edge G)\<^sup>*\<^sup>* x (hd c) \<longrightarrow> found cy1 c"
      using 1(3,5) u Cons.prems(2) found_mono by (meson rtranclp_trans)
    from Cons.IH [OF 1(2) this] obtain cy2 vis2 where
      2: "fold_e (start_step G) (cy1, vis1) us = Inr (cy2, vis2)" "cycles_ok G cy2" "set cy1 \<subseteq> set cy2"
        "\<forall>u \<in> set us. \<forall>c. simple_cycle G c \<longrightarrow> (edge G)\<^sup>*\<^sup>* u (hd c) \<longrightarrow> found cy2 c" by blast
    have "start_step G (cy, vis) u = Inr (cy1, vis1)" using False 1(1) by (simp add: start_step_def)
    moreover have "found cy2 c" if "simple_cycle G c" "(edge G)\<^sup>*\<^sup>* u (hd c)" for c
      using found_mono [OF u [OF that] 2(3)] .
    ultimately show ?thesis using 1(3) 2 by (intro exI conjI) (simp, assumption, auto)
  qed
qed

lemma simple_cycle_key: "simple_cycle G c \<Longrightarrow> hd c \<in> set (map fst G)"
proof -
  assume c: "simple_cycle G c"
  have "\<exists>y. edge G (hd c) y"
  proof (cases c)
    case (Cons a xs)
    then show ?thesis using c by (cases xs) (auto simp: simple_cycle_def simple_path_def)
  qed (use c in \<open>simp add: simple_cycle_def simple_path_def\<close>)
  then obtain y cs where "map_of G (hd c) = Some cs" unfolding edge_def by blast
  then show ?thesis by (metis domI dom_map_of_conv_image_fst list.set_map)
qed

text \<open>C17: for every dictionary \<open>find_cycles\<close> ends, without an error, and yields every cycle of the
  graph exactly once: each list it yields visits no node twice and follows the edges from each item to
  the next and from the last to the first, every such list is a rotation of one that is yielded, and no
  two that are yielded are rotations of each other.\<close>

theorem find_cycles_correct:
  "\<exists>cycles. find_cycles G = Inr cycles \<and> (\<forall>c \<in> set cycles. simple_cycle G c)
     \<and> (\<forall>c. simple_cycle G c \<longrightarrow> (\<exists>d \<in> set cycles. rotated d c))
     \<and> sorted_wrt (\<lambda>a b. \<not> rotated a b) cycles"
proof -
  have "cycles_ok G []" by (simp add: cycles_ok_def)
  from starts_ok [OF this, of "{}" "map fst G"] obtain cy vis where
    r: "fold_e (start_step G) ([], {}) (map fst G) = Inr (cy, vis)" "cycles_ok G cy"
      "\<forall>u \<in> set (map fst G). \<forall>c. simple_cycle G c \<longrightarrow> (edge G)\<^sup>*\<^sup>* u (hd c) \<longrightarrow> found cy c" by auto
  have "found cy c" if "simple_cycle G c" for c
    using r(3) simple_cycle_key [OF that] that by blast
  then show ?thesis using r(1,2) by (auto simp: find_cycles_def cycles_ok_def found_def)
qed

theorem find_cycles_witness:
  "\<exists>cycles. find_cycles [(1 :: nat, [2]), (2, [3, 1]), (3, [3])] = Inr cycles
     \<and> (\<exists>d \<in> set cycles. rotated d [2, 1]) \<and> (\<exists>d \<in> set cycles. rotated d [3])"
proof -
  let ?G = "[(1 :: nat, [2]), (2, [3, 1]), (3, [3])]"
  have "simple_cycle ?G [2, 1]" "simple_cycle ?G [3]"
    by (auto simp: simple_cycle_def simple_path_def edge_def)
  then show ?thesis using find_cycles_correct [of ?G] by metis
qed

text \<open>\<open>is_rotated\<close> decides whether one sequence is a rotation of the other, for all sequences
  but two empty ones, for which it raises \<open>IndexError\<close>.\<close>

theorem is_rotated_correct:
  "is_rotated xs ys = (if xs = [] \<and> ys = [] then Inl IndexError else Inr (\<exists>n. ys = rotate n xs))"
proof (cases "ys = []")
  case True
  moreover have "[] = rotate n xs \<longleftrightarrow> xs = []" for n by (metis rotate_is_Nil_conv)
  ultimately show ?thesis by (simp add: is_rotated_def py_get_def norm_index_def)
next
  case False
  then show ?thesis by (simp add: is_rotated_iff rotated_def)
qed

end
