(* ===== verification/PatchSet.thy ===== *)
theory PatchSet
  imports Py
begin

text \<open>
  The unified diffs of \<open>utils/check-style.py\<close>: the classes \<open>PatchChunkLine\<close>, \<open>PatchChunk\<close> and
  \<open>Patch\<close> with the text they write, the parser \<open>parse_patchset\<close>, and
  \<open>remove_trailing_whitespace_changes\<close>. A line object that is both source and destination is one
  object in both lists, so the last function works on positions of the lines of a chunk.
\<close>

section \<open>PatchChunkLine\<close>

record PatchChunkLine =
  pl_type :: int
  pl_line :: string

definition SRC :: int where "SRC = 1"
definition DST :: int where "DST = 2"
definition BOTH :: int where "BOTH = 3"

definition new_line :: PatchChunkLine where
  "new_line = \<lparr>pl_type = 0, pl_line = []\<rparr>"

definition set_src :: "string \<Rightarrow> PatchChunkLine \<Rightarrow> PatchChunkLine" where
  "set_src l pl = pl\<lparr>pl_type := SRC, pl_line := l\<rparr>"

definition set_dst :: "string \<Rightarrow> PatchChunkLine \<Rightarrow> PatchChunkLine" where
  "set_dst l pl = pl\<lparr>pl_type := DST, pl_line := l\<rparr>"

definition set_both :: "string \<Rightarrow> PatchChunkLine \<Rightarrow> PatchChunkLine" where
  "set_both l pl = pl\<lparr>pl_type := BOTH, pl_line := l\<rparr>"

definition append_to_line :: "string \<Rightarrow> PatchChunkLine \<Rightarrow> PatchChunkLine" where
  "append_to_line s pl = pl\<lparr>pl_line := pl_line pl @ s\<rparr>"

definition is_src :: "PatchChunkLine \<Rightarrow> bool" where
  "is_src pl \<longleftrightarrow> pl_type pl = SRC \<or> pl_type pl = BOTH"

definition is_dst :: "PatchChunkLine \<Rightarrow> bool" where
  "is_dst pl \<longleftrightarrow> pl_type pl = DST \<or> pl_type pl = BOTH"

text \<open>What is written is the list of the lines of the file, each with its newline.\<close>

definition write_line :: "PatchChunkLine \<Rightarrow> string py" where
  "write_line pl =
     (if pl_type pl = SRC then Inr (''-'' @ pl_line pl @ [nl])
      else if pl_type pl = DST then Inr (''+'' @ pl_line pl @ [nl])
      else if pl_type pl = BOTH then Inr ('' '' @ pl_line pl @ [nl])
      else Inl PyException)"

section \<open>PatchChunk\<close>

record PatchChunk =
  ch_lines :: "PatchChunkLine list"
  src_pos :: int
  dst_pos :: int

definition new_chunk :: "string \<Rightarrow> string \<Rightarrow> PatchChunk" where
  "new_chunk s d = \<lparr>ch_lines = [], src_pos = int (nat_of_digits s), dst_pos = int (nat_of_digits d)\<rparr>"

definition src_start :: "PatchChunk \<Rightarrow> int" where
  "src_start ch = src_pos ch"

definition add_line :: "PatchChunkLine \<Rightarrow> PatchChunk \<Rightarrow> PatchChunk" where
  "add_line l ch = ch\<lparr>ch_lines := ch_lines ch @ [l]\<rparr>"

text \<open>\<open>src()\<close> and \<open>dst()\<close> return the line objects: here their positions in the chunk.\<close>

definition src_refs :: "PatchChunk \<Rightarrow> nat list" where
  "src_refs ch = filter (\<lambda>i. is_src (ch_lines ch ! i)) [0 ..< length (ch_lines ch)]"

definition dst_refs :: "PatchChunk \<Rightarrow> nat list" where
  "dst_refs ch = filter (\<lambda>i. is_dst (ch_lines ch ! i)) [0 ..< length (ch_lines ch)]"

definition src_len :: "PatchChunk \<Rightarrow> nat" where
  "src_len ch = length (src_refs ch)"

definition dst_len :: "PatchChunk \<Rightarrow> nat" where
  "dst_len ch = length (dst_refs ch)"

definition chunk_header :: "PatchChunk \<Rightarrow> string" where
  "chunk_header ch = ''@@ -'' @ str_of_int (src_pos ch) @ '','' @ str_of_nat (src_len ch) @
     '' +'' @ str_of_int (dst_pos ch) @ '','' @ str_of_nat (dst_len ch) @ '' @@'' @ [nl]"

fun write_all :: "('a \<Rightarrow> string list py) \<Rightarrow> 'a list \<Rightarrow> string list py" where
  "write_all w [] = Inr []"
| "write_all w (x # xs) = bind_e (w x) (\<lambda>out. bind_e (write_all w xs) (\<lambda>rest. Inr (out @ rest)))"

definition write_chunk :: "PatchChunk \<Rightarrow> string list py" where
  "write_chunk ch =
     bind_e (write_all (\<lambda>l. bind_e (write_line l) (\<lambda>t. Inr [t])) (ch_lines ch)) (\<lambda>out. Inr (chunk_header ch # out))"

section \<open>Patch\<close>

record Patch =
  pt_src :: string
  pt_dst :: string
  pt_chunks :: "PatchChunk list"

definition new_patch :: Patch where
  "new_patch = \<lparr>pt_src = [], pt_dst = [], pt_chunks = []\<rparr>"

definition add_chunk :: "PatchChunk \<Rightarrow> Patch \<Rightarrow> Patch" where
  "add_chunk ch p = p\<lparr>pt_chunks := pt_chunks p @ [ch]\<rparr>"

definition patch_set_src :: "string \<Rightarrow> Patch \<Rightarrow> Patch" where
  "patch_set_src s p = p\<lparr>pt_src := s\<rparr>"

definition patch_set_dst :: "string \<Rightarrow> Patch \<Rightarrow> Patch" where
  "patch_set_dst s p = p\<lparr>pt_dst := s\<rparr>"

definition write_patch :: "Patch \<Rightarrow> string list py" where
  "write_patch p =
     bind_e (write_all write_chunk (pt_chunks p)) (\<lambda>out.
       Inr ((''--- '' @ pt_src p @ [nl]) # (''+++ '' @ pt_dst p @ [nl]) # out))"

section \<open>parse_patchset\<close>

text \<open>
  The regular expressions: \<open>^p(.*)$\<close> matches a line that starts with \<open>p\<close> and has no newline
  except one at its end; the chunk header has no \<open>$\<close>.
\<close>

definition chomp :: "string \<Rightarrow> string" where
  "chomp s = (if s \<noteq> [] \<and> last s = nl then butlast s else s)"

definition match_rest :: "string \<Rightarrow> string \<Rightarrow> string option" where
  "match_rest p line = (if nl \<notin> set (chomp line) then lit p (chomp line) else None)"

definition match_chunk_start :: "string \<Rightarrow> (string \<times> string) option" where
  "match_chunk_start line =
     Option.bind (lit ''@@ -'' line) (\<lambda>r.
     Option.bind (run1 is_digit r) (\<lambda>(a, r). Option.bind (lit '','' r) (\<lambda>r.
     Option.bind (run1 is_digit r) (\<lambda>(b, r). Option.bind (lit '' +'' r) (\<lambda>r.
     Option.bind (run1 is_digit r) (\<lambda>(c, r). Option.bind (lit '','' r) (\<lambda>r.
     Option.bind (run1 is_digit r) (\<lambda>(d, r). Option.bind (lit '' @@'' r) (\<lambda>r. Some (a, c))))))))))"

text \<open>
  \<open>current_patch\<close> is \<open>None\<close> or the last patch; \<open>current_chunk\<close>, unbound at first, names a chunk
  of a patch and outlives the patch it was read in.
\<close>

record parser =
  patchset :: "Patch list"
  current_chunk :: "(nat \<times> nat) option"

definition parser_start :: parser where
  "parser_start = \<lparr>patchset = [], current_chunk = None\<rparr>"

definition upd_last :: "('a \<Rightarrow> 'a) \<Rightarrow> 'a list \<Rightarrow> 'a list" where
  "upd_last f xs = butlast xs @ [f (last xs)]"

definition with_current_patch :: "(Patch \<Rightarrow> Patch) \<Rightarrow> parser \<Rightarrow> parser py" where
  "with_current_patch f st =
     (if patchset st = [] then Inl AttributeError else Inr (st\<lparr>patchset := upd_last f (patchset st)\<rparr>))"

definition add_to_chunk :: "PatchChunkLine \<Rightarrow> parser \<Rightarrow> parser py" where
  "add_to_chunk l st =
     (case current_chunk st of
        None \<Rightarrow> Inl UnboundLocalError
      | Some (i, j) \<Rightarrow>
          (let p = patchset st ! i;
               p' = p\<lparr>pt_chunks := (pt_chunks p)[j := add_line l (pt_chunks p ! j)]\<rparr>
           in Inr (st\<lparr>patchset := (patchset st)[i := p']\<rparr>)))"

definition parse_line :: "parser \<Rightarrow> string \<Rightarrow> parser py" where
  "parse_line st line =
     (case match_rest ''--- '' line of
        Some s \<Rightarrow> Inr (st\<lparr>patchset := patchset st @ [patch_set_src s new_patch]\<rparr>)
      | None \<Rightarrow> (case match_rest ''+++ '' line of
        Some s \<Rightarrow> with_current_patch (patch_set_dst s) st
      | None \<Rightarrow> (case match_chunk_start line of
        Some (a, c) \<Rightarrow>
          bind_e (with_current_patch (add_chunk (new_chunk a c)) st) (\<lambda>st'.
            Inr (st'\<lparr>current_chunk := Some (length (patchset st') - 1, length (pt_chunks (last (patchset st'))) - 1)\<rparr>))
      | None \<Rightarrow> (case match_rest ''-'' line of
        Some s \<Rightarrow> add_to_chunk (set_src s new_line) st
      | None \<Rightarrow> (case match_rest ''+'' line of
        Some s \<Rightarrow> add_to_chunk (set_dst s new_line) st
      | None \<Rightarrow> (case match_rest '' '' line of
        Some s \<Rightarrow> add_to_chunk (set_both s new_line) st
      | None \<Rightarrow> Inl PyException))))))"

definition parse_patchset :: "string list \<Rightarrow> Patch list py" where
  "parse_patchset lines = bind_e (fold_e parse_line parser_start lines) (\<lambda>st. Inr (patchset st))"

section \<open>remove_trailing_whitespace_changes\<close>

text \<open>
  \<open>^(.*)([ \t]+)$\<close>: the first group is greedy, so the second one is the last character only. The
  lines of a parsed patch have no newline.
\<close>

definition match_whitespace :: "string \<Rightarrow> (string \<times> string) option" where
  "match_whitespace s =
     (if s \<noteq> [] \<and> last s \<in> {CHR '' '', tab} then Some (butlast s, [last s]) else None)"

definition fix_line :: "nat list \<Rightarrow> nat list \<Rightarrow> PatchChunk \<Rightarrow> nat \<Rightarrow> PatchChunk py" where
  "fix_line src dst ch i =
     bind_e (py_get src (int i)) (\<lambda>s. bind_e (py_get dst (int i)) (\<lambda>d.
       Inr (case match_whitespace (pl_line (ch_lines ch ! s)) of
          Some (g1, g2) \<Rightarrow>
            if g1 = pl_line (ch_lines ch ! d)
            then ch\<lparr>ch_lines := (ch_lines ch)[d := append_to_line g2 (ch_lines ch ! d)]\<rparr>
            else ch
        | None \<Rightarrow> ch)))"

text \<open>The loop over a chunk: the chunk as it is left, and whether an exception stopped it.\<close>

fun fix_lines :: "nat list \<Rightarrow> nat list \<Rightarrow> PatchChunk \<Rightarrow> nat list \<Rightarrow> PatchChunk \<times> bool" where
  "fix_lines src dst ch [] = (ch, True)"
| "fix_lines src dst ch (i # is) =
     (case fix_line src dst ch i of
        Inl _ \<Rightarrow> (ch, False)
      | Inr ch' \<Rightarrow> fix_lines src dst ch' is)"

definition fix_chunk :: "PatchChunk \<Rightarrow> PatchChunk \<times> bool" where
  "fix_chunk ch = fix_lines (src_refs ch) (dst_refs ch) ch [0 ..< src_len ch]"

text \<open>The first exception returns from the function: what follows stays as it is.\<close>

fun fix_chunks :: "PatchChunk list \<Rightarrow> PatchChunk list \<times> bool" where
  "fix_chunks [] = ([], True)"
| "fix_chunks (ch # chs) =
     (let (ch', go) = fix_chunk ch in
      if go then (let (chs', go') = fix_chunks chs in (ch' # chs', go')) else (ch' # chs, False))"

fun fix_patches :: "Patch list \<Rightarrow> Patch list" where
  "fix_patches [] = []"
| "fix_patches (p # ps) =
     (let (chs, go) = fix_chunks (pt_chunks p); p' = p\<lparr>pt_chunks := chs\<rparr>
      in if go then p' # fix_patches ps else p' # ps)"

definition remove_trailing_whitespace_changes :: "string list \<Rightarrow> Patch list py" where
  "remove_trailing_whitespace_changes lines = bind_e (parse_patchset lines) (\<lambda>ps. Inr (fix_patches ps))"

section \<open>Writing and reading a patch set\<close>

lemma chomp_nl [simp]: "chomp (s @ [nl]) = s" "chomp (c # s @ [nl]) = c # s"
  by (simp_all add: chomp_def)

lemma match_rest_write:
  assumes "nl \<notin> set p" and "nl \<notin> set s"
  shows "match_rest p (p @ s @ [nl]) = Some s"
  using assms chomp_nl(1) [of "p @ s"] by (simp add: match_rest_def)

lemma match_rest_other: "\<not> prefix p s \<Longrightarrow> match_rest p (s @ [nl]) = None"
  by (simp add: match_rest_def lit_def)

lemma run1_digits: "\<not> is_digit c \<Longrightarrow> run1 is_digit (str_of_nat n @ c # s) = Some (str_of_nat n, c # s)"
  by (rule run1_append) (auto simp: str_of_nat_not_Nil intro: str_of_nat_digits)

lemma lit_Cons [simp]: "lit (c # p) (d # s) = (if c = d then lit p s else None)" "lit [] s = Some s"
  "lit (c # p) [] = None"
  by (simp_all add: lit_def)

lemma match_chunk_header:
  assumes "0 \<le> src_pos ch" and "0 \<le> dst_pos ch"
  shows "match_chunk_start (chunk_header ch) = Some (str_of_nat (nat (src_pos ch)), str_of_nat (nat (dst_pos ch)))"
proof -
  have d: "\<not> is_digit (CHR '','')" "\<not> is_digit (CHR '' '')" by (simp_all add: is_digit_def)
  show ?thesis
    using assms by (simp add: match_chunk_start_def chunk_header_def str_of_int_def run1_digits d)
qed

definition line_ok :: "PatchChunkLine \<Rightarrow> bool" where
  "line_ok l \<longleftrightarrow> nl \<notin> set (pl_line l) \<and>
     (pl_type l = SRC \<and> \<not> prefix ''-- '' (pl_line l) \<or>
      pl_type l = DST \<and> \<not> prefix ''++ '' (pl_line l) \<or> pl_type l = BOTH)"

definition chunk_ok :: "PatchChunk \<Rightarrow> bool" where
  "chunk_ok ch \<longleftrightarrow> 0 \<le> src_pos ch \<and> 0 \<le> dst_pos ch \<and> (\<forall>l \<in> set (ch_lines ch). line_ok l)"

definition patch_ok :: "Patch \<Rightarrow> bool" where
  "patch_ok p \<longleftrightarrow> nl \<notin> set (pt_src p) \<and> nl \<notin> set (pt_dst p) \<and> (\<forall>ch \<in> set (pt_chunks p). chunk_ok ch)"

lemmas line_types = SRC_def DST_def BOTH_def

text \<open>The parser just after it has read the lines of a chunk \<open>ch\<close>, the last one of the last patch.\<close>

definition in_chunk :: "Patch list \<Rightarrow> Patch \<Rightarrow> PatchChunk list \<Rightarrow> PatchChunk \<Rightarrow> parser" where
  "in_chunk ps p chs ch = \<lparr>patchset = ps @ [p\<lparr>pt_chunks := chs @ [ch]\<rparr>],
     current_chunk = Some (length ps, length chs)\<rparr>"

lemma add_to_chunk_in: "add_to_chunk l (in_chunk ps p chs ch) = Inr (in_chunk ps p chs (add_line l ch))"
  by (simp add: add_to_chunk_def in_chunk_def Let_def)

lemma parse_chunk_line:
  assumes "line_ok l" and "write_line l = Inr t"
  shows "parse_line (in_chunk ps p chs ch) t = Inr (in_chunk ps p chs (add_line l ch))"
proof -
  have n: "nl \<notin> set (pl_line l)" and nl: "nl \<noteq> CHR ''-''" "nl \<noteq> CHR ''+''" "nl \<noteq> CHR '' ''"
    using assms(1) by (simp_all add: line_ok_def nl_def)
  have rest: "match_rest [c] (c # pl_line l @ [nl]) = Some (pl_line l)" if "nl \<noteq> c" for c
    using that n by (simp add: match_rest_def)
  have other: "match_rest p (c # pl_line l @ [nl]) = None" if "\<not> prefix p (c # pl_line l)" for p c
    using match_rest_other [OF that] by simp
  have hd: "match_chunk_start (c # pl_line l @ [nl]) = None" if "c \<noteq> CHR ''@''" for c
    using that by (simp add: match_chunk_start_def)
  from assms(1) consider "pl_type l = SRC" "\<not> prefix ''-- '' (pl_line l)" | "pl_type l = DST" "\<not> prefix ''++ '' (pl_line l)"
    | "pl_type l = BOTH" by (auto simp: line_ok_def)
  then show ?thesis
  proof cases
    case 1
    then have l: "set_src (pl_line l) new_line = l" by (cases l) (simp add: set_src_def new_line_def)
    have tx: "t = CHR ''-'' # pl_line l @ [nl]" using 1 assms(2) by (simp add: write_line_def line_types)
    from 1 show ?thesis
      unfolding tx by (simp add: parse_line_def other hd rest nl add_to_chunk_in l)
  next
    case 2
    then have l: "set_dst (pl_line l) new_line = l" by (cases l) (simp add: set_dst_def new_line_def)
    have tx: "t = CHR ''+'' # pl_line l @ [nl]" using 2 assms(2) by (simp add: write_line_def line_types)
    from 2 show ?thesis
      unfolding tx by (simp add: parse_line_def other hd rest nl add_to_chunk_in l)
  next
    case 3
    then have l: "set_both (pl_line l) new_line = l" by (cases l) (simp add: set_both_def new_line_def)
    have tx: "t = CHR '' '' # pl_line l @ [nl]" using 3 assms(2) by (simp add: write_line_def line_types)
    from 3 show ?thesis
      unfolding tx by (simp add: parse_line_def other hd rest nl add_to_chunk_in l)
  qed
qed

lemma write_line_ok: "line_ok l \<Longrightarrow> \<exists>t. write_line l = Inr t"
  by (auto simp: line_ok_def write_line_def)

lemma parse_chunk_lines:
  assumes "\<forall>l \<in> set ls. line_ok l"
  shows "\<exists>out. write_all (\<lambda>l. bind_e (write_line l) (\<lambda>t. Inr [t])) ls = Inr out \<and>
    fold_e parse_line (in_chunk ps p chs ch) out = Inr (in_chunk ps p chs (ch\<lparr>ch_lines := ch_lines ch @ ls\<rparr>))"
  using assms
proof (induction ls arbitrary: ch)
  case Nil
  then show ?case by (simp add: in_chunk_def)
next
  case (Cons l ls)
  obtain t where t: "write_line l = Inr t" using write_line_ok Cons.prems by auto
  note step = parse_chunk_line [OF _ t, of ps p chs ch]
  obtain out where out: "write_all (\<lambda>l. bind_e (write_line l) (\<lambda>t. Inr [t])) ls = Inr out"
    "fold_e parse_line (in_chunk ps p chs (add_line l ch)) out
      = Inr (in_chunk ps p chs (add_line l ch\<lparr>ch_lines := ch_lines (add_line l ch) @ ls\<rparr>))"
    using Cons.IH [of "add_line l ch"] Cons.prems by auto
  show ?case using t out step Cons.prems by (simp add: add_line_def)
qed

text \<open>The parser with a last patch \<open>p\<close> that has the chunks \<open>chs\<close> so far.\<close>

definition in_patch :: "Patch list \<Rightarrow> Patch \<Rightarrow> PatchChunk list \<Rightarrow> parser \<Rightarrow> bool" where
  "in_patch ps p chs st \<longleftrightarrow> patchset st = ps @ [p\<lparr>pt_chunks := chs\<rparr>]"

lemma parse_chunk_header:
  assumes "in_patch ps p chs st" and "0 \<le> src_pos ch" and "0 \<le> dst_pos ch"
  shows "parse_line st (chunk_header ch) = Inr (in_chunk ps p chs (ch\<lparr>ch_lines := []\<rparr>))"
proof -
  obtain r where r: "chunk_header ch = (''@@ '' @ r) @ [nl]" by (simp add: chunk_header_def)
  have new: "new_chunk (str_of_nat (nat (src_pos ch))) (str_of_nat (nat (dst_pos ch))) = ch\<lparr>ch_lines := []\<rparr>"
    using assms(2,3) by (cases ch) (simp add: new_chunk_def)
  have "match_rest ''--- '' (chunk_header ch) = None" "match_rest ''+++ '' (chunk_header ch) = None"
    unfolding r by (rule match_rest_other, simp)+
  then show ?thesis
    using assms by (simp add: parse_line_def match_chunk_header new with_current_patch_def in_patch_def upd_last_def
        add_chunk_def in_chunk_def)
qed

lemma parse_chunks:
  assumes "\<forall>ch \<in> set cs. chunk_ok ch" and "in_patch ps p chs st"
  shows "\<exists>out st'. write_all write_chunk cs = Inr out \<and> fold_e parse_line st out = Inr st' \<and> in_patch ps p (chs @ cs) st'"
  using assms
proof (induction cs arbitrary: chs st)
  case Nil
  then show ?case by simp
next
  case (Cons ch cs)
  have ch: "0 \<le> src_pos ch" "0 \<le> dst_pos ch" "\<forall>l \<in> set (ch_lines ch). line_ok l"
    using Cons.prems(1) by (simp_all add: chunk_ok_def)
  obtain o1 where o1: "write_all (\<lambda>l. bind_e (write_line l) (\<lambda>t. Inr [t])) (ch_lines ch) = Inr o1"
    "fold_e parse_line (in_chunk ps p chs (ch\<lparr>ch_lines := []\<rparr>)) o1 = Inr (in_chunk ps p chs ch)"
    using parse_chunk_lines [OF ch(3), of ps p chs "ch\<lparr>ch_lines := []\<rparr>"] by auto
  have "in_patch ps p (chs @ [ch]) (in_chunk ps p chs ch)" by (simp add: in_patch_def in_chunk_def)
  from Cons.IH [OF _ this] Cons.prems(1) obtain o2 st' where
    o2: "write_all write_chunk cs = Inr o2" "fold_e parse_line (in_chunk ps p chs ch) o2 = Inr st'"
      "in_patch ps p ((chs @ [ch]) @ cs) st'" by auto
  have "write_all write_chunk (ch # cs) = Inr (chunk_header ch # o1 @ o2)"
    by (simp add: write_chunk_def o1(1) o2(1))
  moreover have "fold_e parse_line st (chunk_header ch # o1 @ o2) = Inr st'"
    by (simp add: parse_chunk_header [OF Cons.prems(2) ch(1,2)] fold_e_append o1(2) o2(2))
  ultimately show ?case using o2(3) by auto
qed

lemma parse_patch:
  assumes "patch_ok p"
  shows "\<exists>out st'. write_patch p = Inr out \<and> fold_e parse_line st out = Inr st' \<and> patchset st' = patchset st @ [p]"
proof -
  let ?p1 = "patch_set_src (pt_src p) new_patch" and ?p2 = "patch_set_dst (pt_dst p) (patch_set_src (pt_src p) new_patch)"
  have n: "nl \<notin> set (pt_src p)" "nl \<notin> set (pt_dst p)" "\<forall>ch \<in> set (pt_chunks p). chunk_ok ch"
    using assms by (simp_all add: patch_ok_def)
  let ?st1 = "st\<lparr>patchset := patchset st @ [?p1]\<rparr>" and ?st2 = "st\<lparr>patchset := patchset st @ [?p2]\<rparr>"
  have 1: "parse_line st (''--- '' @ pt_src p @ [nl]) = Inr ?st1"
    using match_rest_write [of "''--- ''" "pt_src p"] n(1) by (simp add: parse_line_def nl_def)
  have "match_rest ''--- '' (''+++ '' @ pt_dst p @ [nl]) = None"
    using match_rest_other [of "''--- ''" "''+++ '' @ pt_dst p"] by simp
  then have 2: "parse_line ?st1 (''+++ '' @ pt_dst p @ [nl]) = Inr ?st2"
    using match_rest_write [of "''+++ ''" "pt_dst p"] n(2)
    by (simp add: parse_line_def nl_def with_current_patch_def upd_last_def)
  have "in_patch (patchset st) ?p2 [] ?st2" by (simp add: in_patch_def patch_set_dst_def patch_set_src_def new_patch_def)
  from parse_chunks [OF n(3) this] obtain out st' where
    3: "write_all write_chunk (pt_chunks p) = Inr out" "fold_e parse_line ?st2 out = Inr st'"
      "in_patch (patchset st) ?p2 (pt_chunks p) st'" by auto
  have "write_patch p = Inr ((''--- '' @ pt_src p @ [nl]) # (''+++ '' @ pt_dst p @ [nl]) # out)"
    by (simp add: write_patch_def 3(1))
  moreover have "fold_e parse_line st ((''--- '' @ pt_src p @ [nl]) # (''+++ '' @ pt_dst p @ [nl]) # out) = Inr st'"
    using 1 2 3(2) by simp
  moreover have "patchset st' = patchset st @ [p]"
    using 3(3) by (cases p) (simp add: in_patch_def patch_set_dst_def patch_set_src_def new_patch_def)
  ultimately show ?thesis by blast
qed

lemma parse_patches:
  assumes "\<forall>p \<in> set ps. patch_ok p"
  shows "\<exists>out st'. write_all write_patch ps = Inr out \<and> fold_e parse_line st out = Inr st' \<and> patchset st' = patchset st @ ps"
  using assms
proof (induction ps arbitrary: st)
  case Nil
  then show ?case by simp
next
  case (Cons p ps)
  then obtain o1 st1 where 1: "write_patch p = Inr o1" "fold_e parse_line st o1 = Inr st1" "patchset st1 = patchset st @ [p]"
    using parse_patch [of p st] by auto
  obtain o2 st2 where 2: "write_all write_patch ps = Inr o2" "fold_e parse_line st1 o2 = Inr st2" "patchset st2 = patchset st1 @ ps"
    using Cons.IH [of st1] Cons.prems by auto
  show ?case using 1 2 by (auto simp: fold_e_append)
qed

text \<open>C16: what the \<open>write\<close> methods print is what \<open>parse_patchset\<close> reads: for patches whose texts
  have no newline, and in which no removed line starts with \<open>-- \<close> and no added one with \<open>++ \<close>,
  reading the written patches gives them back.\<close>

theorem patchset_roundtrip:
  assumes "\<forall>p \<in> set ps. patch_ok p"
  shows "\<exists>out. write_all write_patch ps = Inr out \<and> parse_patchset out = Inr ps"
  using parse_patches [OF assms, of parser_start] by (auto simp: parse_patchset_def parser_start_def)

definition sample_patch :: Patch where
  "sample_patch = \<lparr>pt_src = ''a.cc'', pt_dst = ''b.cc'', pt_chunks =
     [\<lparr>ch_lines = [\<lparr>pl_type = BOTH, pl_line = ''int x;''\<rparr>, \<lparr>pl_type = SRC, pl_line = ''y = 1; ''\<rparr>,
        \<lparr>pl_type = DST, pl_line = ''y = 1;''\<rparr>], src_pos = 10, dst_pos = 12\<rparr>]\<rparr>"

theorem patchset_roundtrip_witness:
  "\<exists>out. write_all write_patch [sample_patch] = Inr out \<and> parse_patchset out = Inr [sample_patch]"
  by (rule patchset_roundtrip) (simp add: sample_patch_def patch_ok_def chunk_ok_def line_ok_def line_types nl_def)

text \<open>A removed line that starts with \<open>-- \<close> is written as a line starting with \<open>--- \<close>,
  which the parser reads as the header of a new patch: the line is lost from its chunk.\<close>

theorem removed_header_line:
  assumes "nl \<notin> set s"
  shows "\<exists>text. write_line \<lparr>pl_type = SRC, pl_line = ''-- '' @ s\<rparr> = Inr text
    \<and> parse_line (in_chunk ps p chs ch) text
      = Inr (in_chunk ps p chs ch\<lparr>patchset := patchset (in_chunk ps p chs ch) @ [new_patch\<lparr>pt_src := s\<rparr>]\<rparr>)"
  using match_rest_write [of "''--- ''" s] assms
  by (simp add: write_line_def parse_line_def nl_def patch_set_src_def)

theorem removed_header_line_witness:
  "\<exists>text. write_line \<lparr>pl_type = SRC, pl_line = ''-- i;''\<rparr> = Inr text \<and> prefix ''--- i;'' text"
  using removed_header_line [of "''i;''"] by (auto simp: write_line_def nl_def)

text \<open>A chunk header without a comma after its first number, which is how \<open>difflib\<close> writes a
  chunk that covers a single line of the source, ends the parser with an exception.\<close>

theorem single_line_header:
  "parse_line st (''@@ -'' @ str_of_nat n @ '' +'' @ s @ [nl]) = Inl PyException"
proof -
  let ?l = "''@@ -'' @ str_of_nat n @ '' +'' @ s"
  have d: "\<not> is_digit (CHR '' '')" by (simp add: is_digit_def)
  have "match_rest p (?l @ [nl]) = None" if "p \<in> {''--- '', ''+++ '', ''-'', ''+'', '' ''}" for p
    using that by (intro match_rest_other) auto
  moreover have "match_chunk_start (?l @ [nl]) = None"
    using run1_digits [OF d, of n "CHR ''+'' # s @ [nl]"] by (simp add: match_chunk_start_def)
  ultimately show ?thesis by (simp add: parse_line_def)
qed

section \<open>What the whitespace filter changes\<close>

text \<open>The filter may append one blank or tab to a line, and changes nothing else.\<close>

definition ws_ext :: "PatchChunkLine \<Rightarrow> PatchChunkLine \<Rightarrow> bool" where
  "ws_ext l l' \<longleftrightarrow> pl_type l' = pl_type l \<and>
     (\<exists>ws. pl_line l' = pl_line l @ ws \<and> set ws \<subseteq> {CHR '' '', tab})"

definition chunk_ext :: "PatchChunk \<Rightarrow> PatchChunk \<Rightarrow> bool" where
  "chunk_ext ch ch' \<longleftrightarrow> src_pos ch' = src_pos ch \<and> dst_pos ch' = dst_pos ch \<and> list_all2 ws_ext (ch_lines ch) (ch_lines ch')
     \<and> (\<forall>i < length (ch_lines ch). \<not> is_dst (ch_lines ch ! i) \<longrightarrow> ch_lines ch' ! i = ch_lines ch ! i)"

lemma ws_ext_refl: "ws_ext l l"
  by (auto simp: ws_ext_def intro: exI [of _ "[]"])

lemma ws_ext_trans: "ws_ext a b \<Longrightarrow> ws_ext b c \<Longrightarrow> ws_ext a c"
  by (force simp: ws_ext_def)

lemma chunk_ext_refl: "chunk_ext ch ch"
  by (simp add: chunk_ext_def list_all2_conv_all_nth ws_ext_refl)

lemma chunk_ext_trans:
  assumes "chunk_ext a b" and "chunk_ext b c"
  shows "chunk_ext a c"
proof -
  have "is_dst (ch_lines b ! i) \<longleftrightarrow> is_dst (ch_lines a ! i)" if "i < length (ch_lines a)" for i
    using assms(1) that by (simp add: chunk_ext_def list_all2_conv_all_nth ws_ext_def is_dst_def)
  moreover have "ws_ext (ch_lines a ! i) (ch_lines c ! i)" if "i < length (ch_lines a)" for i
    using assms that ws_ext_trans [of "ch_lines a ! i" "ch_lines b ! i" "ch_lines c ! i"]
    by (simp add: chunk_ext_def list_all2_conv_all_nth)
  ultimately show ?thesis using assms by (simp add: chunk_ext_def list_all2_conv_all_nth)
qed

lemma dst_refs_set: "d \<in> set (dst_refs ch) \<longleftrightarrow> d < length (ch_lines ch) \<and> is_dst (ch_lines ch ! d)"
  by (auto simp: dst_refs_def)

lemma py_get_in_set: "py_get xs i = Inr x \<Longrightarrow> x \<in> set xs"
  by (auto simp: py_get_def split: if_splits)

lemma fix_line_ext:
  assumes "fix_line src dst ch i = Inr ch'" and "set dst \<subseteq> set (dst_refs ch)"
  shows "chunk_ext ch ch' \<and> set dst \<subseteq> set (dst_refs ch')"
proof -
  obtain s d where sd: "py_get src (int i) = Inr s" "py_get dst (int i) = Inr d"
    using assms(1) by (auto simp: fix_line_def bind_e_Inr_iff)
  have d: "d < length (ch_lines ch)" "is_dst (ch_lines ch ! d)"
    using py_get_in_set [OF sd(2)] assms(2) dst_refs_set by blast+
  have "ch' = ch \<or> (\<exists>c. c \<in> {CHR '' '', tab} \<and>
      ch' = ch\<lparr>ch_lines := (ch_lines ch)[d := append_to_line [c] (ch_lines ch ! d)]\<rparr>)"
    using assms(1) sd by (auto simp: fix_line_def match_whitespace_def split: if_splits)
  then show ?thesis
  proof (elim disjE exE conjE)
    fix c
    assume c: "c \<in> {CHR '' '', tab}" and ch': "ch' = ch\<lparr>ch_lines := (ch_lines ch)[d := append_to_line [c] (ch_lines ch ! d)]\<rparr>"
    let ?l = "append_to_line [c] (ch_lines ch ! d)"
    have lines: "ch_lines ch' = (ch_lines ch)[d := ?l]" by (simp add: ch')
    have len: "length (ch_lines ch') = length (ch_lines ch)" by (simp add: lines)
    have ext: "ws_ext (ch_lines ch ! d) ?l" using c by (simp add: ws_ext_def append_to_line_def)
    have same: "is_dst ?l" using d(2) by (simp add: is_dst_def append_to_line_def)
    have ws: "ws_ext (ch_lines ch ! j) (ch_lines ch' ! j)" if "j < length (ch_lines ch)" for j
      using that ext by (cases "j = d") (simp_all add: lines ws_ext_refl)
    have src: "ch_lines ch' ! j = ch_lines ch ! j" if "\<not> is_dst (ch_lines ch ! j)" for j
      using that d(2) by (cases "j = d") (simp_all add: lines)
    have "is_dst (ch_lines ch' ! j) = is_dst (ch_lines ch ! j)" if "j < length (ch_lines ch)" for j
      using that same d(2) by (cases "j = d") (simp_all add: lines)
    then have "dst_refs ch' = dst_refs ch"
      unfolding dst_refs_def len by (intro filter_cong) simp_all
    moreover have "chunk_ext ch ch'"
      using ws src by (simp add: chunk_ext_def list_all2_conv_all_nth len) (simp add: ch')
    ultimately show ?thesis using assms(2) by simp
  qed (use assms(2) chunk_ext_refl in auto)
qed

lemma fix_lines_ext:
  "fix_lines src dst ch is = (ch', b) \<Longrightarrow> set dst \<subseteq> set (dst_refs ch) \<Longrightarrow> chunk_ext ch ch'"
proof (induction "is" arbitrary: ch)
  case Nil
  then show ?case by (simp add: chunk_ext_refl)
next
  case (Cons i "is")
  show ?case
  proof (cases "fix_line src dst ch i")
    case (Inl e)
    with Cons.prems show ?thesis by (simp add: chunk_ext_refl)
  next
    case (Inr ch1)
    with fix_line_ext [OF Inr Cons.prems(2)] Cons.IH [of ch1] Cons.prems(1) show ?thesis
      by (auto intro: chunk_ext_trans)
  qed
qed

lemma fix_chunk_ext: "fix_chunk ch = (ch', b) \<Longrightarrow> chunk_ext ch ch'"
  by (simp add: fix_chunk_def fix_lines_ext)

lemma fix_chunks_ext: "fix_chunks chs = (chs', b) \<Longrightarrow> list_all2 chunk_ext chs chs'"
proof (induction chs arbitrary: chs' b)
  case Nil
  then show ?case by simp
next
  case (Cons ch chs)
  have refl: "list_all2 chunk_ext xs xs" for xs by (simp add: list_all2_conv_all_nth chunk_ext_refl)
  obtain ch' go where ch': "fix_chunk ch = (ch', go)" by (cases "fix_chunk ch")
  show ?case
    using Cons fix_chunk_ext [OF ch'] refl by (auto simp: ch' Let_def split: if_splits prod.splits)
qed

definition patch_ext :: "Patch \<Rightarrow> Patch \<Rightarrow> bool" where
  "patch_ext p p' \<longleftrightarrow> pt_src p' = pt_src p \<and> pt_dst p' = pt_dst p \<and> list_all2 chunk_ext (pt_chunks p) (pt_chunks p')"

text \<open>The whitespace filter keeps the files, positions and types of every line of the parsed
  patch set, never touches a line that is only a source line, and changes a line of the destination at most by
  appending blanks and tabs to it.\<close>

theorem whitespace_filter_frame:
  assumes "parse_patchset lines = Inr ps" and "remove_trailing_whitespace_changes lines = Inr ps'"
  shows "list_all2 patch_ext ps ps'"
proof -
  have refl: "patch_ext p p" for p by (simp add: patch_ext_def list_all2_conv_all_nth chunk_ext_refl)
  have "list_all2 patch_ext ps (fix_patches ps)"
  proof (induction ps)
    case Nil
    then show ?case by simp
  next
    case (Cons p ps)
    obtain chs go where chs: "fix_chunks (pt_chunks p) = (chs, go)" by (cases "fix_chunks (pt_chunks p)")
    have "list_all2 patch_ext ps ps" by (simp add: list_all2_conv_all_nth refl)
    moreover have ext: "patch_ext p (p\<lparr>pt_chunks := chs\<rparr>)"
      using fix_chunks_ext [OF chs] by (simp add: patch_ext_def)
    ultimately show ?case using Cons
      by (cases go) (simp_all add: chs ext)
  qed
  with assms show ?thesis by (simp add: remove_trailing_whitespace_changes_def)
qed

definition sample_diff :: "string list" where
  "sample_diff = [''--- a'' @ [nl], ''+++ b'' @ [nl], ''@@ -1,2 +1,2 @@'' @ [nl], ''-x '' @ [nl], ''+x'' @ [nl], '' y'' @ [nl]]"

lemma sample_diff_parsed:
  "parse_patchset sample_diff = Inr [\<lparr>pt_src = ''a'', pt_dst = ''b'', pt_chunks =
     [\<lparr>ch_lines = [\<lparr>pl_type = 1, pl_line = ''x ''\<rparr>, \<lparr>pl_type = 2, pl_line = ''x''\<rparr>, \<lparr>pl_type = 3, pl_line = ''y''\<rparr>],
       src_pos = 1, dst_pos = 1\<rparr>]\<rparr>]"
  by code_simp

lemma sample_diff_filtered:
  "remove_trailing_whitespace_changes sample_diff = Inr [\<lparr>pt_src = ''a'', pt_dst = ''b'', pt_chunks =
     [\<lparr>ch_lines = [\<lparr>pl_type = 1, pl_line = ''x ''\<rparr>, \<lparr>pl_type = 2, pl_line = ''x ''\<rparr>, \<lparr>pl_type = 3, pl_line = ''y''\<rparr>],
       src_pos = 1, dst_pos = 1\<rparr>]\<rparr>]"
  by (simp add: remove_trailing_whitespace_changes_def sample_diff_parsed fix_chunk_def src_refs_def dst_refs_def
      src_len_def is_src_def is_dst_def line_types fix_line_def py_get_nat match_whitespace_def append_to_line_def
      upt_conv_Cons py_get_def norm_index_def)

theorem whitespace_filter_frame_witness:
  "\<exists>ps ps'. parse_patchset sample_diff = Inr ps \<and> remove_trailing_whitespace_changes sample_diff = Inr ps'
     \<and> list_all2 patch_ext ps ps'"
  using whitespace_filter_frame [OF sample_diff_parsed sample_diff_filtered] sample_diff_parsed sample_diff_filtered
  by blast

section \<open>What the whitespace filter undoes\<close>

definition undo_ws :: "PatchChunkLine \<Rightarrow> PatchChunkLine \<Rightarrow> PatchChunkLine" where
  "undo_ws s d =
     (if pl_line s \<noteq> [] \<and> last (pl_line s) \<in> {CHR '' '', tab} \<and> butlast (pl_line s) = pl_line d
      then append_to_line [last (pl_line s)] d else d)"

lemma fix_line_nth:
  assumes "i < length src" and "i < length dst" and "dst ! i < length (ch_lines ch)"
  shows "fix_line src dst ch i = Inr (ch\<lparr>ch_lines := (ch_lines ch)[dst ! i :=
    undo_ws (ch_lines ch ! (src ! i)) (ch_lines ch ! (dst ! i))]\<rparr>)"
  using assms by (simp add: fix_line_def py_get_nat match_whitespace_def undo_ws_def)

lemma fix_line_short:
  assumes "i < length src" and "length dst \<le> i"
  shows "\<exists>e. fix_line src dst ch i = Inl e"
  using assms by (simp add: fix_line_def py_get_nat) (simp add: py_get_def norm_index_def)

lemma fix_lines_nth:
  assumes "distinct dst" and "set src \<inter> set dst = {}" and "\<forall>d \<in> set dst. d < length (ch_lines ch)" and "n \<le> length src"
    and "fix_lines src dst ch [k ..< n] = (ch', b)" and "j < length dst"
  shows "ch_lines ch' ! (dst ! j) =
    (if k \<le> j \<and> j < n then undo_ws (ch_lines ch ! (src ! j)) (ch_lines ch ! (dst ! j)) else ch_lines ch ! (dst ! j))"
  using assms
proof (induction "n - k" arbitrary: k ch)
  case 0
  then show ?case by auto
next
  case (Suc m)
  then have kn: "k < n" by simp
  show ?case
  proof (cases "k < length dst")
    case False
    with fix_line_short [of k src dst ch] kn Suc.prems show ?thesis
      by (auto simp: upt_conv_Cons)
  next
    case True
    let ?new = "undo_ws (ch_lines ch ! (src ! k)) (ch_lines ch ! (dst ! k))"
    let ?ch1 = "ch\<lparr>ch_lines := (ch_lines ch)[dst ! k := ?new]\<rparr>"
    have run: "fix_lines src dst ?ch1 [Suc k ..< n] = (ch', b)"
      using Suc.prems(3-5) True kn fix_line_nth [of k src dst ch] by (simp add: upt_conv_Cons)
    have other: "ch_lines ?ch1 ! i = ch_lines ch ! i" if "i \<noteq> dst ! k" for i using that by simp
    have "src ! j \<noteq> dst ! k" if "j < n"
    proof -
      have "src ! j \<in> set src" "dst ! k \<in> set dst" using that Suc.prems(4) True by simp_all
      with Suc.prems(2) show ?thesis by (metis disjoint_iff)
    qed
    moreover have "dst ! j = dst ! k \<longleftrightarrow> j = k"
      using Suc.prems(1,6) True by (simp add: nth_eq_iff_index_eq)
    moreover have "dst ! k < length (ch_lines ch)" using Suc.prems(3) True by simp
    ultimately show ?thesis
      using Suc.hyps(1) [of "Suc k" ?ch1] Suc.hyps(2) Suc.prems(1-4,6) run kn by (auto simp: not_less_eq_eq)
  qed
qed

text \<open>In a chunk without context lines, the destination line that stands at the place of a source
  line gets back the last character of the source line when that is a blank or a tab and is all the two
  lines differ in; in particular a line that lost two trailing blanks stays without them.\<close>

theorem whitespace_filter_undo:
  assumes "\<forall>l \<in> set (ch_lines ch). pl_type l \<noteq> BOTH" and "fix_chunk ch = (ch', b)"
    and "j < src_len ch" and "j < dst_len ch"
  shows "ch_lines ch' ! (dst_refs ch ! j) =
    undo_ws (ch_lines ch ! (src_refs ch ! j)) (ch_lines ch ! (dst_refs ch ! j))"
proof -
  have "distinct (dst_refs ch)" by (simp add: dst_refs_def)
  moreover have "set (src_refs ch) \<inter> set (dst_refs ch) = {}"
    using assms(1) by (fastforce simp: src_refs_def dst_refs_def is_src_def is_dst_def line_types)
  ultimately show ?thesis
    using fix_lines_nth [of "dst_refs ch" "src_refs ch" ch "src_len ch" 0 ch' b j] assms(2-4)
    by (simp add: dst_refs_set fix_chunk_def src_len_def dst_len_def)
qed

definition two_blanks :: PatchChunk where
  "two_blanks = \<lparr>ch_lines = [\<lparr>pl_type = 1, pl_line = ''x  ''\<rparr>, \<lparr>pl_type = 2, pl_line = ''x''\<rparr>], src_pos = 1, dst_pos = 1\<rparr>"

theorem whitespace_filter_undo_witness: "ch_lines (fst (fix_chunk two_blanks)) ! 1 = \<lparr>pl_type = 2, pl_line = ''x''\<rparr>"
proof -
  have r: "src_refs two_blanks = [0]" "dst_refs two_blanks = [1]" by code_simp+
  have "ch_lines (fst (fix_chunk two_blanks)) ! (dst_refs two_blanks ! 0)
    = undo_ws (ch_lines two_blanks ! (src_refs two_blanks ! 0)) (ch_lines two_blanks ! (dst_refs two_blanks ! 0))"
    by (rule whitespace_filter_undo [where b = "snd (fix_chunk two_blanks)"])
      (simp_all add: two_blanks_def line_types src_len_def dst_len_def r [unfolded two_blanks_def])
  then show ?thesis by (simp add: r) (simp add: two_blanks_def undo_ws_def)
qed

text \<open>A context line is one object of both sides, so in a chunk that replaces nothing but
  inserts a copy of a line without its trailing blank before it, the filter changes the first of the two
  destination lines.\<close>

theorem whitespace_filter_context:
  assumes "c \<in> {CHR '' '', tab}"
  shows "fix_chunk \<lparr>ch_lines = [\<lparr>pl_type = DST, pl_line = s\<rparr>, \<lparr>pl_type = BOTH, pl_line = s @ [c]\<rparr>], src_pos = a, dst_pos = d\<rparr>
    = (\<lparr>ch_lines = [\<lparr>pl_type = DST, pl_line = s @ [c]\<rparr>, \<lparr>pl_type = BOTH, pl_line = s @ [c]\<rparr>], src_pos = a, dst_pos = d\<rparr>, True)"
  using assms
  by (simp add: fix_chunk_def src_refs_def dst_refs_def src_len_def is_src_def is_dst_def line_types fix_line_nth
      undo_ws_def append_to_line_def upt_conv_Cons)

theorem whitespace_filter_context_witness:
  "snd (fix_chunk \<lparr>ch_lines = [\<lparr>pl_type = DST, pl_line = ''x''\<rparr>, \<lparr>pl_type = BOTH, pl_line = ''x ''\<rparr>], src_pos = 1, dst_pos = 1\<rparr>)"
  using whitespace_filter_context [of "CHR '' ''" "''x''"] by simp

end
