(* ===== verification/StyleCheck.thy ===== *)
theory StyleCheck
  imports PatchSet "HOL-Library.AList"
begin

text \<open>
  The rest of \<open>utils/check-style.py\<close>: the configurations written for \<open>uncrustify\<close>, \<open>indent\<close> and
  \<open>indent_files\<close>, and the two entry points. Files are an association list from paths to texts.
  What is not Python of this script is a field of \<open>externals\<close>: the names \<open>tempfile.mkstemp\<close>
  picks, the modification times \<open>os.stat\<close> gives, the programs \<open>uncrustify\<close>, \<open>patch\<close> and \<open>hg\<close>, and the text \<open>difflib.unified_diff\<close> finds.
\<close>

section \<open>Files\<close>

record externals =
  mkstemp_name :: "string list \<Rightarrow> string"
  uncrustify_run :: "(string \<Rightarrow> string option \<Rightarrow> string \<times> string \<times> string) option"
  patch_run :: "(string \<Rightarrow> string \<Rightarrow> string \<times> string \<times> string) option"
  unified_diff :: "string \<Rightarrow> string \<Rightarrow> string list \<Rightarrow> string list \<Rightarrow> string list"
  hg_status :: "string list"
  mtime :: "(string \<times> string) list \<Rightarrow> string \<Rightarrow> rat"

text \<open>
  \<open>uncrustify_run\<close> gets the configuration and the source and gives what it writes to its output file,
  its \<open>stdout\<close> and its \<open>stderr\<close>; \<open>patch_run\<close> gets the diff and the text to patch. \<open>None\<close> is a
  program that is not installed.
\<close>

record world =
  files :: "(string \<times> string) list"
  stdout :: "string list"
  stderr :: "string list"

definition write_file :: "string \<Rightarrow> string \<Rightarrow> world \<Rightarrow> world" where
  "write_file path t w = w\<lparr>files := AList.update path t (files w)\<rparr>"

definition read_file :: "string \<Rightarrow> world \<Rightarrow> string py" where
  "read_file path w = (case map_of (files w) path of None \<Rightarrow> Inl IOError | Some t \<Rightarrow> Inr t)"

definition mkstemp :: "externals \<Rightarrow> world \<Rightarrow> string \<times> world" where
  "mkstemp ex w = (let path = mkstemp_name ex (map fst (files w)) in (path, write_file path [] w))"

definition print_out :: "string \<Rightarrow> world \<Rightarrow> world" where
  "print_out t w = w\<lparr>stdout := stdout w @ [t]\<rparr>"

definition log_err :: "bool \<Rightarrow> string \<Rightarrow> world \<Rightarrow> world" where
  "log_err debug t w = (if debug then w\<lparr>stderr := stderr w @ [t]\<rparr> else w)"

fun readlines :: "string \<Rightarrow> string list" where
  "readlines [] = []"
| "readlines (c # cs) =
     (if c = nl then [nl] # readlines cs
      else (case readlines cs of [] \<Rightarrow> [[c]] | l # ls \<Rightarrow> (c # l) # ls))"

definition join_lines :: "string list \<Rightarrow> string" where
  "join_lines ls = concat (map (\<lambda>l. l @ [nl]) ls)"

text \<open>\<open>copy_file\<close> copies into a new temporary file, \<open>shutil.copyfile\<close> over a given one.\<close>

definition copy_file :: "externals \<Rightarrow> string \<Rightarrow> world \<Rightarrow> (string \<times> world) py" where
  "copy_file ex filename w =
     (let (pathname, w) = mkstemp ex w in
      bind_e (read_file filename w) (\<lambda>t. Inr (pathname, write_file pathname (concat (readlines t)) w)))"

definition copyfile :: "string \<Rightarrow> string \<Rightarrow> world \<Rightarrow> world py" where
  "copyfile src dst w = bind_e (read_file src w) (\<lambda>t. Inr (write_file dst t w))"

section \<open>uncrustify_config_file\<close>

definition level2 :: string where
  "level2 = [nl] @ join_lines [
   ''nl_collapse_empty_body=False'',
   ''nl_if_brace=Add'',
   ''nl_brace_else=Add'',
   ''nl_elseif_brace=Add'',
   ''nl_else_brace=Add'',
   ''nl_while_brace=Add'',
   ''nl_do_brace=Add'',
   ''nl_for_brace=Add'',
   ''nl_brace_while=Add'',
   ''nl_switch_brace=Add'',
   ''nl_after_case=True'',
   ''nl_namespace_brace=Remove'',
   ''nl_after_brace_open=True'',
   ''nl_class_leave_one_liners=False'',
   ''nl_enum_leave_one_liners=False'',
   ''nl_func_leave_one_liners=False'',
   ''nl_if_leave_one_liners=False'',
   ''nl_class_colon=Ignore'',
   ''nl_after_access_spec=1'',
   ''nl_after_semicolon=True'',
   ''pos_class_colon=Lead'',
   ''pos_class_comma=Trail'',
   ''pos_bool=Lead'',
   ''nl_class_init_args=Add'',
   ''nl_template_class=Add'',
   ''nl_class_brace=Add'',
   ''# does not work very well'',
   ''nl_func_type_name=Ignore'',
   ''nl_func_scope_name=Ignore'',
   ''nl_func_type_name_class=Ignore'',
   ''nl_func_proto_type_name=Ignore'',
   ''# function'' @ [CHR 0x5C] @ ''n('',
   ''nl_func_paren=Remove'',
   ''nl_fdef_brace=Add'',
   ''nl_struct_brace=Add'',
   ''nl_enum_brace=Add'',
   ''nl_union_brace=Add'',
   ''mod_full_brace_do=Add'',
   ''mod_full_brace_for=Add'',
   ''mod_full_brace_if=Add'',
   ''mod_full_brace_while=Add'',
   ''mod_full_brace_for=Add'',
   ''mod_remove_extra_semicolon=True'',
   ''# max code width'',
   ''#code_width=128'',
   ''#ls_for_split_full=True'',
   ''#ls_func_split_full=True'']"

definition level1 :: string where
  "level1 = [nl] @ join_lines [
   ''# extra spaces here and there'',
   ''sp_brace_typedef=Add'',
   ''sp_enum_assign=Add'',
   ''sp_before_sparen=Add'',
   ''sp_after_semi_for=Add'',
   ''sp_arith=Add'',
   ''sp_assign=Add'',
   ''sp_compare=Add'',
   ''sp_func_class_paren=Add'',
   ''sp_after_type=Add'',
   ''sp_type_func=Add'',
   ''sp_angle_paren=Add'']"

definition level0 :: string where
  "level0 = [nl] @ join_lines [
   ''sp_func_proto_paren=Add'',
   ''sp_func_def_paren=Add'',
   ''sp_func_call_paren=Add'',
   ''sp_after_semi_for=Ignore'',
   ''sp_before_sparen=Ignore'',
   ''sp_type_func=Ignore'',
   ''sp_after_type=Ignore'',
   ''nl_class_leave_one_liners=True'',
   ''nl_enum_leave_one_liners=True'',
   ''nl_func_leave_one_liners=True'',
   ''nl_assign_leave_one_liners=True'',
   ''#nl_collapse_empty_body=False'',
   ''nl_getset_leave_one_liners=True'',
   ''nl_if_leave_one_liners=True'',
   ''nl_fdef_brace=Ignore'',
   ''# finally, indentation configuration'',
   ''indent_with_tabs=0'',
   ''indent_namespace=false'',
   ''indent_columns=2'',
   ''indent_brace=2'',
   ''indent_case_brace=2'',
   ''indent_class=true'',
   ''indent_class_colon=True'',
   ''# alignment'',
   ''indent_align_assign=False'',
   ''align_left_shift=True'',
   ''# comment reformating disabled'',
   ''cmt_reflow_mode=1 # do not touch comments at all'',
   ''cmt_indent_multi=False # really, do not touch them'']"

definition config_text :: "int \<Rightarrow> string" where
  "config_text level = level0 @ (if 1 \<le> level then level1 else []) @ (if 2 \<le> level then level2 else [])"

definition uncrustify_config_file :: "externals \<Rightarrow> int \<Rightarrow> world \<Rightarrow> string \<times> world" where
  "uncrustify_config_file ex level w =
     (let (pathname, w) = mkstemp ex w in (pathname, write_file pathname (config_text level) w))"

section \<open>indent\<close>

text \<open>What is written to the final diff file.\<close>

definition final_diff_text :: "int \<Rightarrow> string list \<Rightarrow> string py" where
  "final_diff_text level diff =
     (if level < 3
      then bind_e (remove_trailing_whitespace_changes diff) (\<lambda>ps.
        case ps of
          [] \<Rightarrow> Inr []
        | p # _ \<Rightarrow> bind_e (write_patch p) (\<lambda>out. Inr (concat out)))
      else Inr (concat diff))"

text \<open>The diff is a generator: writing the initial diff, for \<open>debug\<close>, leaves it exhausted.\<close>

definition save_initial :: "externals \<Rightarrow> string list \<Rightarrow> world \<Rightarrow> string list \<times> world" where
  "save_initial ex diff w =
     (let (initial_diff, w) = mkstemp ex w;
          w = log_err True (''initial diff file='' @ initial_diff @ [nl]) w
      in ([], write_file initial_diff (concat diff) w))"

definition apply_patch :: "externals \<Rightarrow> string \<Rightarrow> string \<Rightarrow> bool \<Rightarrow> world \<Rightarrow> world py" where
  "apply_patch ex final_diff out debug w =
     (case patch_run ex of
        None \<Rightarrow> Inl OSError
      | Some run \<Rightarrow>
          bind_e (read_file final_diff w) (\<lambda>d. bind_e (read_file out w) (\<lambda>t.
            let (patched, so, se) = run d t
            in Inr (log_err debug se (log_err debug so (write_file out patched w))))))"

definition run_uncrustify :: "externals \<Rightarrow> string \<Rightarrow> bool \<Rightarrow> int \<Rightarrow> world \<Rightarrow> (string \<times> world) py" where
  "run_uncrustify ex source debug level w =
     (let (out, w) = mkstemp ex w;
          (cfg, w) = uncrustify_config_file ex level w;
          w = log_err debug (''original file='' @ source @ [nl]) w;
          w = log_err debug (''uncrustify config file='' @ cfg @ [nl]) w;
          w = log_err debug (''temporary file='' @ out @ [nl]) w
      in case uncrustify_run ex of
           None \<Rightarrow> Inl PyException
         | Some run \<Rightarrow>
             bind_e (read_file cfg w) (\<lambda>c.
               let (t, so, se) = run c (map_of (files w) source)
               in Inr (out, log_err debug se (log_err debug so (write_file out t w)))))"

definition make_diff :: "externals \<Rightarrow> string \<Rightarrow> string \<Rightarrow> bool \<Rightarrow> world \<Rightarrow> (string list \<times> world) py" where
  "make_diff ex source out debug w =
     bind_e (read_file source w) (\<lambda>s. bind_e (read_file out w) (\<lambda>d.
       let diff = unified_diff ex source out (readlines s) (readlines d)
       in Inr (if debug then save_initial ex diff w else (diff, w))))"

definition indent :: "externals \<Rightarrow> string \<Rightarrow> bool \<Rightarrow> int \<Rightarrow> world \<Rightarrow> (string \<times> world) py" where
  "indent ex source debug level w =
     bind_e (run_uncrustify ex source debug level w) (\<lambda>(out, w).
     bind_e (make_diff ex source out debug w) (\<lambda>(diff, w).
     let (final_diff, w) = mkstemp ex w in
     bind_e (final_diff_text level diff) (\<lambda>t.
     bind_e (copyfile source out
         (log_err debug (''final diff file='' @ final_diff @ [nl]) (write_file final_diff t w))) (\<lambda>w.
     bind_e (apply_patch ex final_diff out debug w) (\<lambda>w. Inr (out, w))))))"

section \<open>indent_files and the entry points\<close>

fun indent_each :: "externals \<Rightarrow> bool \<Rightarrow> int \<Rightarrow> string list \<Rightarrow> world \<Rightarrow> ((string \<times> string) list \<times> world) py" where
  "indent_each ex debug level [] w = Inr ([], w)"
| "indent_each ex debug level (f # fs) w =
     bind_e (indent ex f debug level w) (\<lambda>(dst, w).
     bind_e (indent_each ex debug level fs w) (\<lambda>(rest, w). Inr ((f, dst) # rest, w)))"

text \<open>\<open>filecmp.cmp\<close> on two regular files that exist. It is shallow: when the sizes and the modification times agree, the
  files are not read.\<close>

definition signature_of :: "externals \<Rightarrow> world \<Rightarrow> string \<Rightarrow> (nat \<times> rat) option" where
  "signature_of ex w f = map_option (\<lambda>t. (length t, mtime ex (files w) f)) (map_of (files w) f)"

definition cmp_files :: "externals \<Rightarrow> world \<Rightarrow> string \<Rightarrow> string \<Rightarrow> bool" where
  "cmp_files ex w src dst \<longleftrightarrow>
     signature_of ex w src = signature_of ex w dst \<or> map_of (files w) src = map_of (files w) dst"

definition print_diff :: "externals \<Rightarrow> world \<Rightarrow> string \<times> string \<Rightarrow> world py" where
  "print_diff ex w p =
     (let (src, dst) = p in
      bind_e (read_file src w) (\<lambda>s. bind_e (read_file dst w) (\<lambda>d.
        Inr (foldl (\<lambda>w line. print_out line w) w (unified_diff ex src dst (readlines s) (readlines d))))))"

definition indent_files ::
    "externals \<Rightarrow> string list \<Rightarrow> bool \<Rightarrow> bool \<Rightarrow> int \<Rightarrow> bool \<Rightarrow> world \<Rightarrow> (bool \<times> world) py" where
  "indent_files ex fs diff debug level inplace w =
     bind_e (indent_each ex debug level fs w) (\<lambda>(output, w).
       if inplace
       then bind_e (fold_e (\<lambda>w (src, dst). copyfile dst src w) w output) (\<lambda>w. Inr (True, w))
       else
         (let failed = filter (\<lambda>(src, dst). \<not> cmp_files ex w src dst) output in
          if failed = [] then Inr (True, w)
          else if \<not> diff
          then (let w = print_out (''Found '' @ str_of_nat (length failed) @ '' badly indented files:'' @ [nl]) w
                in Inr (False, foldl (\<lambda>w (src, dst). print_out (''  '' @ src @ [nl]) w) w failed))
          else bind_e (fold_e (print_diff ex) w failed) (\<lambda>w. Inr (False, w))))"

definition hg_modified_files :: "externals \<Rightarrow> string list" where
  "hg_modified_files ex = map strip (hg_status ex)"

text \<open>Mercurial takes \<open>True\<close> from a hook as a refusal of the commit.\<close>

definition run_as_hg_hook :: "externals \<Rightarrow> world \<Rightarrow> (bool \<times> world) py" where
  "run_as_hg_hook ex w =
     bind_e (indent_files ex (hg_modified_files ex) False False 0 False w) (\<lambda>(ok, w). Inr (\<not> ok, w))"

record options =
  opt_debug :: bool
  opt_level :: int
  opt_hg_hook :: bool
  opt_hg :: bool
  opt_file :: string
  opt_diff :: bool
  opt_in_place :: bool

definition default_options :: options where
  "default_options = \<lparr>opt_debug = False, opt_level = 0, opt_hg_hook = False, opt_hg = False, opt_file = [],
     opt_diff = False, opt_in_place = False\<rparr>"

text \<open>The exit status and the state the program leaves.\<close>

definition run_as_main :: "externals \<Rightarrow> options \<Rightarrow> world \<Rightarrow> (int \<times> world) py" where
  "run_as_main ex op w =
     (if opt_hg_hook op
      then bind_e (indent_files ex (hg_modified_files ex) False (opt_debug op) (opt_level op) False w) (\<lambda>(ok, w).
        Inr (if \<not> ok then 1 else 0, w))
      else if opt_hg op
      then bind_e (indent_files ex (hg_modified_files ex) (opt_diff op) (opt_debug op) (opt_level op) (opt_in_place op) w)
        (\<lambda>(ok, w). Inr (0, w))
      else if opt_file op \<noteq> []
      then (if map_of (files w) (opt_file op) = None
            then Inr (1, print_out (''file '' @ opt_file op @ '' does not exist'' @ [nl]) w)
            else bind_e (indent_files ex [opt_file op] (opt_diff op) (opt_debug op) (opt_level op) (opt_in_place op) w)
              (\<lambda>(ok, w). Inr (0, w)))
      else Inr (0, w))"

section \<open>What a run writes\<close>

lemma concat_readlines [simp]: "concat (readlines s) = s"
proof (induction s)
  case (Cons c cs)
  then show ?case by (cases "readlines cs") auto
qed simp

lemma files_write: "map_of (files (write_file path t w)) = (map_of (files w))(path \<mapsto> t)"
  by (simp add: write_file_def update_conv')

lemma files_log [simp]: "files (log_err b t w) = files w" "files (print_out t w) = files w"
  by (simp_all add: log_err_def print_out_def)

definition fresh_names :: "externals \<Rightarrow> bool" where
  "fresh_names ex \<longleftrightarrow> (\<forall>ns. mkstemp_name ex ns \<notin> set ns)"

definition keeps :: "world \<Rightarrow> world \<Rightarrow> bool" where
  "keeps w0 w \<longleftrightarrow> (\<forall>f t. map_of (files w0) f = Some t \<longrightarrow> map_of (files w) f = Some t)"

lemma keeps_refl: "keeps w w"
  by (simp add: keeps_def)

lemma keeps_trans: "keeps a b \<Longrightarrow> keeps b c \<Longrightarrow> keeps a c"
  by (simp add: keeps_def)

lemma keeps_log [simp]: "keeps w0 (log_err b t w) = keeps w0 w" "keeps w0 (print_out t w) = keeps w0 w"
  by (simp_all add: keeps_def)

lemma keeps_write: "keeps w0 w \<Longrightarrow> map_of (files w0) path = None \<Longrightarrow> keeps w0 (write_file path t w)"
  by (auto simp: keeps_def files_write)

lemma mkstemp_run:
  assumes "fresh_names ex" and "mkstemp ex w = (path, w')"
  shows "map_of (files w) path = None \<and> w' = write_file path [] w \<and> keeps w w'"
proof -
  have path: "path = mkstemp_name ex (map fst (files w))" "w' = write_file path [] w"
    using assms(2) by (auto simp: mkstemp_def Let_def)
  then have "path \<notin> set (map fst (files w))" using assms(1) unfolding fresh_names_def by blast
  then show ?thesis using path(2) by (simp add: map_of_eq_None_iff keeps_write keeps_refl)
qed

lemma keeps_None: "keeps w0 w \<Longrightarrow> map_of (files w) f = None \<Longrightarrow> map_of (files w0) f = None"
  by (metis keeps_def not_Some_eq)

lemma run_uncrustify_run:
  assumes "fresh_names ex" and "run_uncrustify ex source debug level w = Inr (out, w')" and "map_of (files w) source = Some s"
  shows "\<exists>run. uncrustify_run ex = Some run \<and> map_of (files w) out = None \<and> keeps w w'
    \<and> map_of (files w') out = Some (fst (run (config_text level) (Some s)))"
proof -
  obtain o1 w1 where m1: "mkstemp ex w = (o1, w1)" by (cases "mkstemp ex w")
  obtain cfg w2 where m2: "mkstemp ex w1 = (cfg, w2)" by (cases "mkstemp ex w1")
  note 1 = mkstemp_run [OF assms(1) m1] and 2 = mkstemp_run [OF assms(1) m2]
  obtain run where run: "uncrustify_run ex = Some run"
    using assms(2) by (cases "uncrustify_run ex") (simp_all add: run_uncrustify_def m1 uncrustify_config_file_def m2)
  obtain t so se where r: "run (config_text level) (Some s) = (t, so, se)" by (cases "run (config_text level) (Some s)") auto
  have k: "keeps w w2" using keeps_trans 1 2 by blast
  have none: "map_of (files w) o1 = None" "map_of (files w) cfg = None" using 1 2 keeps_None by blast+
  then have ne: "source \<noteq> o1" "source \<noteq> cfg" using assms(3) by auto
  have "map_of (files w2) source = Some s" using k assms(3) by (simp add: keeps_def)
  then have "out = o1 \<and> (\<exists>l. w' = log_err debug se (log_err debug so (write_file o1 t l)) \<and> files l = files (write_file cfg (config_text level) w2))"
    using assms(2) ne
    by (auto simp: run_uncrustify_def m1 uncrustify_config_file_def m2 run r read_file_def files_write Let_def)
  then obtain l where o: "out = o1" "w' = log_err debug se (log_err debug so (write_file o1 t l))"
    "files l = files (write_file cfg (config_text level) w2)" by blast
  have "keeps w (write_file cfg (config_text level) w2)" by (rule keeps_write [OF k none(2)])
  then have "keeps w l" using o(3) by (simp add: keeps_def)
  then have "keeps w w'" using o(2) none(1) keeps_write by simp
  then show ?thesis using run o(1,2) none(1) r by (simp add: files_write)
qed

lemma make_diff_run:
  assumes "fresh_names ex" and "make_diff ex source out debug w = Inr (diff, w')"
    and "map_of (files w) source = Some s" and "map_of (files w) out = Some d"
  shows "keeps w w' \<and> diff = (if debug then [] else unified_diff ex source out (readlines s) (readlines d))"
proof (cases debug)
  case False
  then show ?thesis using assms(2-4) by (simp add: make_diff_def read_file_def Let_def keeps_refl)
next
  case True
  obtain i w1 where m: "mkstemp ex w = (i, w1)" by (cases "mkstemp ex w")
  note 1 = mkstemp_run [OF assms(1) m]
  have k: "keeps w (write_file i (concat x) (log_err True (''initial diff file='' @ i @ [nl]) w1))" for x
    using keeps_write [of w "log_err True (''initial diff file='' @ i @ [nl]) w1" i] 1 by (metis keeps_log(1))
  have "w' = write_file i (concat (unified_diff ex source out (readlines s) (readlines d)))
      (log_err True (''initial diff file='' @ i @ [nl]) w1) \<and> diff = []"
    using True assms(2-4) by (simp add: make_diff_def read_file_def save_initial_def m Let_def)
  then show ?thesis using k True by simp
qed

text \<open>
  What \<open>indent\<close> leaves: no file that existed is changed, and its output is the source with the final
  diff applied.
\<close>

lemma indent_run:
  assumes "fresh_names ex" and "indent ex source debug level w = Inr (out, w')" and "map_of (files w) source = Some s"
  shows "\<exists>run prun t. uncrustify_run ex = Some run \<and> patch_run ex = Some prun
    \<and> map_of (files w) out = None \<and> keeps w w'
    \<and> final_diff_text level (if debug then [] else unified_diff ex source out (readlines s)
        (readlines (fst (run (config_text level) (Some s))))) = Inr t
    \<and> map_of (files w') out = Some (fst (prun t s))"
proof -
  obtain w1 where u: "run_uncrustify ex source debug level w = Inr (out, w1)"
    and i1: "bind_e (make_diff ex source out debug w1) (\<lambda>(diff, w). let (final_diff, w) = mkstemp ex w in
     bind_e (final_diff_text level diff) (\<lambda>t.
     bind_e (copyfile source out
         (log_err debug (''final diff file='' @ final_diff @ [nl]) (write_file final_diff t w))) (\<lambda>w.
     bind_e (apply_patch ex final_diff out debug w) (\<lambda>w. Inr (out, w))))) = Inr (out, w')"
    using assms(2) unfolding indent_def
    by (auto elim!: bind_e_InrE simp: case_prod_beta Let_def)
  from run_uncrustify_run [OF assms(1) u assms(3)] obtain run where
    1: "uncrustify_run ex = Some run" "map_of (files w) out = None" "keeps w w1"
      "map_of (files w1) out = Some (fst (run (config_text level) (Some s)))" by blast
  have s1: "map_of (files w1) source = Some s" using 1(3) assms(3) by (simp add: keeps_def)
  obtain diff w2 where d: "make_diff ex source out debug w1 = Inr (diff, w2)"
    using i1 by (auto elim!: bind_e_InrE)
  note 2 = make_diff_run [OF assms(1) d s1 1(4)]
  obtain fd w3 where m: "mkstemp ex w2 = (fd, w3)" by (cases "mkstemp ex w2")
  note 3 = mkstemp_run [OF assms(1) m]
  have k3: "keeps w w3" "keeps w1 w3" using 1(3) 2 3 keeps_trans by blast+
  have fd: "fd \<noteq> out" "fd \<noteq> source" "map_of (files w) fd = None"
    using 2 3 1(3,4) s1 keeps_None keeps_trans by (metis keeps_def option.distinct(1))+
  obtain t where t: "final_diff_text level diff = Inr t"
    using i1 by (auto simp: d m elim!: bind_e_InrE)
  let ?w4 = "log_err debug (''final diff file='' @ fd @ [nl]) (write_file fd t w3)"
  have s4: "map_of (files ?w4) source = Some s" using k3(1) assms(3) fd(2) by (simp add: keeps_def files_write)
  have i4: "bind_e (apply_patch ex fd out debug (write_file out s ?w4)) (\<lambda>w. Inr (out, w)) = Inr (out, w')"
    using i1 s4 by (simp add: d m t copyfile_def read_file_def)
  then obtain prun where p: "patch_run ex = Some prun"
    by (cases "patch_run ex") (simp_all add: apply_patch_def)
  obtain pt so se where pr: "prun t s = (pt, so, se)" by (cases "prun t s") auto
  have w': "w' = log_err debug se (log_err debug so (write_file out pt (write_file out s ?w4)))"
    using i4 fd(1) by (simp add: apply_patch_def p read_file_def files_write pr)
  have "keeps w ?w4" using keeps_write [OF k3(1) fd(3)] by simp
  then have "keeps w w'" unfolding w' using 1(2) by (simp add: keeps_write)
  then show ?thesis using 1(1,2) p t 2 pr by (simp add: w' files_write)
qed

text \<open>The text \<open>indent\<close> gives a file with text \<open>s\<close>.\<close>

definition indented :: "externals \<Rightarrow> bool \<Rightarrow> int \<Rightarrow> string \<Rightarrow> string \<Rightarrow> string \<Rightarrow> string \<Rightarrow> bool" where
  "indented ex debug level source s out r \<longleftrightarrow> (\<exists>run prun t. uncrustify_run ex = Some run \<and> patch_run ex = Some prun
    \<and> final_diff_text level (if debug then [] else unified_diff ex source out (readlines s)
        (readlines (fst (run (config_text level) (Some s))))) = Inr t
    \<and> r = fst (prun t s))"

lemma indent_each_run:
  assumes "fresh_names ex" and "indent_each ex debug level fs w = Inr (pairs, w')"
    and "\<forall>f \<in> set fs. map_of (files w) f \<noteq> None"
  shows "keeps w w' \<and> map fst pairs = fs \<and> (\<forall>(f, dst) \<in> set pairs. map_of (files w) dst = None
    \<and> (\<exists>s r. map_of (files w) f = Some s \<and> map_of (files w') dst = Some r \<and> indented ex debug level f s dst r))"
  using assms(2,3)
proof (induction fs arbitrary: w pairs)
  case Nil
  then show ?case by (simp add: keeps_refl)
next
  case (Cons f fs)
  from Cons.prems(1) obtain dst w1 rest where
    1: "indent ex f debug level w = Inr (dst, w1)" "indent_each ex debug level fs w1 = Inr (rest, w')"
      "pairs = (f, dst) # rest" by (auto elim!: bind_e_InrE simp: case_prod_beta)
  obtain s where s: "map_of (files w) f = Some s" using Cons.prems(2) by auto
  from indent_run [OF assms(1) 1(1) s] obtain r where
    r: "map_of (files w) dst = None" "keeps w w1" "map_of (files w1) dst = Some r" "indented ex debug level f s dst r"
    unfolding indented_def by blast
  have same: "map_of (files w1) g = map_of (files w) g" if "g \<in> set fs" for g
    using that Cons.prems(2) r(2) by (auto simp: keeps_def)
  then have "\<forall>g \<in> set fs. map_of (files w1) g \<noteq> None" using Cons.prems(2) by simp
  note ih = Cons.IH [OF 1(2) this]
  have "keeps w w'" using ih r(2) keeps_trans by blast
  moreover have "map_of (files w') dst = Some r" using ih r(3) by (simp add: keeps_def)
  moreover have "map_of (files w) d = None \<and> (\<exists>s r. map_of (files w) g = Some s \<and> map_of (files w') d = Some r
      \<and> indented ex debug level g s d r)" if "(g, d) \<in> set rest" for g d
  proof -
    have "g \<in> set (map fst rest)" using that by force
    then have "g \<in> set fs" using ih by simp
    then show ?thesis using ih that same keeps_None [OF r(2)] by fastforce
  qed
  ultimately show ?case using ih r(1,4) s by (auto simp: 1(3))
qed

section \<open>What a check decides\<close>

text \<open>
  What the script relies on of the programs it calls: \<open>patch\<close> turns the first text of a diff into the
  second, and leaves a text as it is when the diff is empty.
\<close>

definition patch_works :: "externals \<Rightarrow> bool" where
  "patch_works ex \<longleftrightarrow> (\<forall>prun. patch_run ex = Some prun \<longrightarrow>
     (\<forall>src out s d. fst (prun (concat (unified_diff ex src out (readlines s) (readlines d))) s) = d)
     \<and> (\<forall>s. fst (prun [] s) = s))"

definition uncrustified :: "externals \<Rightarrow> int \<Rightarrow> string \<Rightarrow> string" where
  "uncrustified ex level s = (case uncrustify_run ex of None \<Rightarrow> s | Some run \<Rightarrow> fst (run (config_text level) (Some s)))"

lemma indented_level3:
  "patch_works ex \<Longrightarrow> 3 \<le> level \<Longrightarrow> indented ex False level f s dst r \<Longrightarrow> r = uncrustified ex level s"
  by (auto simp: indented_def final_diff_text_def uncrustified_def patch_works_def)

lemma indented_debug:
  "patch_works ex \<Longrightarrow> indented ex True level f s dst r \<Longrightarrow> r = s"
  by (auto simp: indented_def final_diff_text_def patch_works_def remove_trailing_whitespace_changes_def
      parse_patchset_def parser_start_def split: if_splits)

lemma files_prints: "files (foldl (\<lambda>w x. print_out (f x) w) w xs) = files w"
  by (induction xs arbitrary: w) simp_all

lemma files_prints2: "files (foldl (\<lambda>w (a, b). print_out (g a b) w) w xs) = files w"
  by (induction xs arbitrary: w) (simp_all add: case_prod_beta)

lemma files_print_diffs: "fold_e (print_diff ex) w ps = Inr w' \<Longrightarrow> files w' = files w"
proof (induction ps arbitrary: w)
  case (Cons p ps)
  then show ?case
    by (auto simp: print_diff_def case_prod_beta files_prints [where f = id, simplified] elim!: bind_e_InrE)
qed simp

lemma indent_files_compares:
  assumes "indent_files ex fs diff debug level False w = Inr (ok, w')"
  shows "\<exists>pairs w1. indent_each ex debug level fs w = Inr (pairs, w1) \<and> files w' = files w1
    \<and> (ok \<longleftrightarrow> (\<forall>(src, dst) \<in> set pairs. cmp_files ex w1 src dst))"
proof -
  obtain pairs w1 where e: "indent_each ex debug level fs w = Inr (pairs, w1)"
    using assms by (auto simp: indent_files_def elim!: bind_e_InrE)
  let ?failed = "filter (\<lambda>(src, dst). \<not> cmp_files ex w1 src dst) pairs"
  have none: "?failed = [] \<longleftrightarrow> (\<forall>(src, dst) \<in> set pairs. cmp_files ex w1 src dst)"
    by (auto simp: filter_empty_conv)
  have "ok = (?failed = []) \<and> files w' = files w1"
    using assms files_print_diffs
    by (auto simp: indent_files_def e files_prints2 Let_def split: if_splits elim!: bind_e_InrE)
  then show ?thesis using e none by blast
qed



text \<open>With \<open>debug\<close> the check always says that all is well, at every level and whatever
  \<open>uncrustify\<close> does: writing the initial diff has exhausted the generator, so the final diff is empty.\<close>

theorem debug_masks_check:
  assumes "fresh_names ex" and "patch_works ex" and "\<forall>f \<in> set fs. map_of (files w) f \<noteq> None"
    and "indent_files ex fs diff True level False w = Inr (ok, w')"
  shows "ok"
proof -
  from indent_files_compares [OF assms(4)] obtain pairs w1 where
    1: "indent_each ex True level fs w = Inr (pairs, w1)"
      "ok \<longleftrightarrow> (\<forall>(src, dst) \<in> set pairs. cmp_files ex w1 src dst)" by blast
  note 2 = indent_each_run [OF assms(1) 1(1) assms(3)]
  have "cmp_files ex w1 f dst" if "(f, dst) \<in> set pairs" for f dst
  proof -
    from 2 that obtain s r where sr: "map_of (files w) f = Some s" "map_of (files w1) dst = Some r"
      "indented ex True level f s dst r" by fastforce
    then show ?thesis using 2 indented_debug [OF assms(2) sr(3)] by (simp add: keeps_def cmp_files_def)
  qed
  then show ?thesis using 1(2) by blast
qed

lemma copy_backs_run:
  assumes "fold_e (\<lambda>w (src, dst). copyfile dst src w) w1 pairs = Inr w'"
    and "\<forall>(f, dst) \<in> set pairs. map_of (files w0) f \<noteq> None \<and> map_of (files w0) dst = None
      \<and> map_of (files w1) dst = Some (g f)"
  shows "\<forall>f. map_of (files w') f = (if f \<in> fst ` set pairs then Some (g f) else map_of (files w1) f)"
  using assms
proof (induction pairs arbitrary: w1)
  case Nil
  then show ?case by simp
next
  case (Cons p ps)
  obtain f dst where p: "p = (f, dst)" by (cases p)
  have h: "map_of (files w0) f \<noteq> None" "map_of (files w1) dst = Some (g f)" using Cons.prems(2) p by simp_all
  have run: "fold_e (\<lambda>w (src, dst). copyfile dst src w) (write_file f (g f) w1) ps = Inr w'"
    using Cons.prems(1) h(2) by (simp add: p copyfile_def read_file_def)
  have "\<forall>(f', d') \<in> set ps. map_of (files w0) f' \<noteq> None \<and> map_of (files w0) d' = None
      \<and> map_of (files (write_file f (g f) w1)) d' = Some (g f')"
    using Cons.prems(2) h(1) by (auto simp: files_write)
  from Cons.IH [OF run this] show ?case by (auto simp: p files_write)
qed

text \<open>At level 3 an in-place run without \<open>debug\<close> replaces each of the files by what \<open>uncrustify\<close>
  makes of it and changes no other file that existed.\<close>

theorem indent_in_place:
  assumes "fresh_names ex" and "patch_works ex" and "3 \<le> level"
    and "\<forall>f \<in> set fs. map_of (files w) f \<noteq> None"
    and "indent_files ex fs diff False level True w = Inr (ok, w')"
    and "map_of (files w) f = Some s"
  shows "ok \<and> map_of (files w') f = Some (if f \<in> set fs then uncrustified ex level s else s)"
proof -
  obtain pairs w1 where 1: "indent_each ex False level fs w = Inr (pairs, w1)"
    "fold_e (\<lambda>w (src, dst). copyfile dst src w) w1 pairs = Inr w'" "ok"
    using assms(5) by (auto simp: indent_files_def elim!: bind_e_InrE)
  note 2 = indent_each_run [OF assms(1) 1(1) assms(4)]
  let ?g = "\<lambda>f. uncrustified ex level (the (map_of (files w) f))"
  have "\<forall>(f, dst) \<in> set pairs. map_of (files w) f \<noteq> None \<and> map_of (files w) dst = None
      \<and> map_of (files w1) dst = Some (?g f)"
    using 2 indented_level3 [OF assms(2,3)] by fastforce
  from copy_backs_run [OF 1(2) this]
  have "map_of (files w') f = (if f \<in> fst ` set pairs then Some (?g f) else map_of (files w1) f)" by blast
  moreover have "set fs = fst ` set pairs" using 2 by (metis list.set_map)
  moreover have "map_of (files w1) f = Some s" using 2 assms(6) by (simp add: keeps_def)
  ultimately show ?thesis using 1(3) assms(6) by simp
qed

text \<open>The exit status of a run on one file or on the files of \<open>hg\<close> never tells whether they are
  badly indented: when the run ends it is 1 exactly if the one file does not exist; only the hook option
  makes it the verdict.\<close>

theorem check_file_exit:
  assumes "run_as_main ex op w = Inr (status, w')" and "\<not> opt_hg_hook op"
  shows "status = (if \<not> opt_hg op \<and> opt_file op \<noteq> [] \<and> map_of (files w) (opt_file op) = None then 1 else 0)"
  using assms by (auto simp: run_as_main_def split: if_splits elim!: bind_e_InrE)

section \<open>A set of tools, and a run on it\<close>

definition sample_tools :: externals where
  "sample_tools = \<lparr>mkstemp_name = \<lambda>ns. replicate (Suc (sum_list (map length ns))) CHR ''t'',
     uncrustify_run = Some (\<lambda>c s. case s of None \<Rightarrow> ([], [], []) | Some t \<Rightarrow> (filter (\<lambda>x. x \<noteq> tab) t, [], [])),
     patch_run = Some (\<lambda>d t. (if d = [] then t else tl d, [], [])),
     unified_diff = \<lambda>src out a b. if a = b then [] else ''='' # b,
     hg_status = [],
     mtime = \<lambda>fs f. of_nat (length (takeWhile (\<lambda>g. fst g \<noteq> f) fs))\<rparr>"

lemma sample_fresh: "fresh_names sample_tools"
proof -
  have "length n \<le> sum_list (map length ns)" if "n \<in> set ns" for n :: string and ns
    using that by (induction ns) auto
  then show ?thesis by (fastforce simp: fresh_names_def sample_tools_def)
qed

lemma sample_patch_works: "patch_works sample_tools"
  by (auto simp: patch_works_def sample_tools_def) (metis concat_readlines)+



definition sample_files :: world where
  "sample_files = \<lparr>files = [(''a'', ''x'' @ [tab]), (''b'', ''y'')], stdout = [], stderr = []\<rparr>"

definition result_of :: "(bool \<times> world) py \<Rightarrow> string \<Rightarrow> bool \<times> string option" where
  "result_of m f = (case m of Inl _ \<Rightarrow> (False, None) | Inr (ok, w) \<Rightarrow> (ok, map_of (files w) f))"


lemmas run_eval = indent_files_def indent_def run_uncrustify_def make_diff_def mkstemp_def uncrustify_config_file_def
  read_file_def write_file_def copyfile_def apply_patch_def save_initial_def final_diff_text_def cmp_files_def signature_of_def
  log_err_def print_out_def sample_tools_def sample_files_def tab_def nl_def Let_def

lemma sample_check_run: "\<exists>w'. indent_files sample_tools [''a''] False False 3 False sample_files = Inr (False, w')"
  by (simp add: run_eval cong: bind_e_weak_cong)

lemma sample_debug_run: "\<exists>w'. indent_files sample_tools [''a''] False True 3 False sample_files = Inr (True, w')"
  by (simp add: run_eval cong: bind_e_weak_cong)

lemma sample_in_place_run: "\<exists>w'. indent_files sample_tools [''a''] False False 3 True sample_files = Inr (True, w')"
  by (simp add: run_eval cong: bind_e_weak_cong)

lemma sample_exists: "\<forall>f \<in> set [''a'']. map_of (files sample_files) f \<noteq> None"
  by (simp add: sample_files_def)


theorem debug_masks_check_witness:
  "\<exists>ok w'. indent_files sample_tools [''a''] False True 3 False sample_files = Inr (ok, w') \<and> ok"
  using sample_debug_run debug_masks_check [OF sample_fresh sample_patch_works sample_exists, of False 3] by blast

theorem indent_in_place_witness:
  "\<exists>w'. indent_files sample_tools [''a''] False False 3 True sample_files = Inr (True, w')
     \<and> map_of (files w') ''a'' = Some ''x''"
proof -
  obtain w' where w': "indent_files sample_tools [''a''] False False 3 True sample_files = Inr (True, w')"
    using sample_in_place_run by blast
  have "map_of (files w') ''a'' = Some ''x''"
    using indent_in_place [OF sample_fresh sample_patch_works _ sample_exists w', of "''a''" "''x'' @ [tab]"]
    by (simp add: uncrustified_def sample_tools_def) (simp add: sample_files_def tab_def)
  with w' show ?thesis by blast
qed

theorem check_file_exit_witness:
  "\<exists>w'. run_as_main sample_tools (default_options\<lparr>opt_file := ''a'', opt_level := 3\<rparr>) sample_files = Inr (0, w')"
proof -
  obtain w' where "indent_files sample_tools [''a''] False False 3 False sample_files = Inr (False, w')"
    using sample_check_run by blast
  then have run: "run_as_main sample_tools (default_options\<lparr>opt_file := ''a'', opt_level := 3\<rparr>) sample_files = Inr (0, w')"
    by (simp add: run_as_main_def default_options_def) (simp add: sample_files_def)
  from check_file_exit [OF run] have "(0 :: int) = (if map_of (files sample_files) ''a'' = None then 1 else 0)"
    by (simp add: default_options_def)
  with run show ?thesis by blast
qed

end
