(* ===== verification/PyText.thy ===== *)
theory PyText
  imports Py
begin

text \<open>
  What the log scripts use of text: searching for a pattern anywhere in a text, all its matches,
  the character classes of \<open>re\<close> on ASCII text, \<open>splitlines\<close> of a byte string and \<open>lower\<close>.
  A pattern is a function that matches at the start of a text and returns what it captured and
  the rest.
\<close>

section \<open>Searching\<close>

fun search_first :: "(string \<Rightarrow> ('a \<times> string) option) \<Rightarrow> string \<Rightarrow> ('a \<times> string) option" where
  "search_first m [] = m []"
| "search_first m (c # cs) = (case m (c # cs) of Some r \<Rightarrow> Some r | None \<Rightarrow> search_first m cs)"

text \<open>The matches do not overlap. The patterns used consume at least one character.\<close>

function find_all :: "(string \<Rightarrow> ('a \<times> string) option) \<Rightarrow> string \<Rightarrow> 'a list" where
  "find_all m s =
     (case s of
        [] \<Rightarrow> []
      | c # cs \<Rightarrow>
          (case m s of
             Some (x, rest) \<Rightarrow> if length rest < length s then x # find_all m rest else []
           | None \<Rightarrow> find_all m cs))"
  by pat_completeness auto
termination by (relation "measure (\<lambda>(m, s). length s)") auto

declare find_all.simps [simp del]

section \<open>Character classes\<close>

definition re_space :: "char \<Rightarrow> bool" where
  "re_space c \<longleftrightarrow> is_space c \<or> c \<in> {CHR 0x1C, CHR 0x1D, CHR 0x1E, CHR 0x1F}"

definition re_word :: "char \<Rightarrow> bool" where
  "re_word c \<longleftrightarrow> c \<in> set ''abcdefghijklmnopqrstuvwxyzABCDEFGHIJKLMNOPQRSTUVWXYZ0123456789_''"

definition upper_letters :: string where "upper_letters = ''ABCDEFGHIJKLMNOPQRSTUVWXYZ''"
definition lower_letters :: string where "lower_letters = ''abcdefghijklmnopqrstuvwxyz''"

definition to_lower :: "char \<Rightarrow> char" where
  "to_lower c = (case map_of (zip upper_letters lower_letters) c of None \<Rightarrow> c | Some d \<Rightarrow> d)"

definition lower :: "string \<Rightarrow> string" where
  "lower s = map to_lower s"

definition to_upper :: "char \<Rightarrow> char" where
  "to_upper c = (case map_of (zip lower_letters upper_letters) c of None \<Rightarrow> c | Some d \<Rightarrow> d)"

definition upper :: "string \<Rightarrow> string" where
  "upper s = map to_upper s"

definition re_strip_right :: "string \<Rightarrow> string" where
  "re_strip_right s = rev (dropWhile re_space (rev s))"

definition re_strip :: "string \<Rightarrow> string" where
  "re_strip s = re_strip_right (dropWhile re_space s)"

definition spaces0 :: "string \<Rightarrow> string" where
  "spaces0 s = dropWhile re_space s"

section \<open>splitlines\<close>

text \<open>
  \<open>splitlines\<close> of a byte string: a line ends at a newline, at a carriage return, or at a carriage
  return followed by a newline; what follows the last end is a line when it is not empty.
\<close>

definition cr :: char where "cr = CHR 0x0D"

function splitlines :: "string \<Rightarrow> string list" where
  "splitlines [] = []"
| "splitlines (c # s) =
     (if c = nl then [] # splitlines s
      else if c = cr then [] # splitlines (case s of [] \<Rightarrow> [] | d # s' \<Rightarrow> if d = nl then s' else s)
      else (case splitlines s of [] \<Rightarrow> [[c]] | l # ls \<Rightarrow> (c # l) # ls))"
  by pat_completeness auto
termination by (relation "measure length") (auto split: list.splits)

lemma splitlines_not_Nil: "s \<noteq> [] \<Longrightarrow> splitlines s \<noteq> []"
  by (cases s) (auto split: list.splits)

text \<open>A text that is cut in two has the lines of its second part, except for the first of these.\<close>

lemma splitlines_cut:
  assumes "b \<noteq> []"
  shows "\<exists>X. X \<noteq> [] \<and> splitlines (a @ b) = X @ tl (splitlines b)"
proof (induction "length a" arbitrary: a rule: less_induct)
  case less
  show ?case
  proof (cases a)
    case Nil
    then show ?thesis using splitlines_not_Nil [OF assms]
      by (intro exI [of _ "[hd (splitlines b)]"]) simp
  next
    case (Cons c a')
    obtain X where X: "X \<noteq> []" "splitlines (a' @ b) = X @ tl (splitlines b)" using less [of a'] Cons by auto
    consider "c = nl" | "c = cr" "c \<noteq> nl" "a' = []" "hd b = nl" | "c = cr" "c \<noteq> nl" "a' \<noteq> []" "hd a' = nl"
      | "c = cr" "c \<noteq> nl" "hd (a' @ b) \<noteq> nl" | "c \<noteq> nl" "c \<noteq> cr"
      by (cases a') auto
    then show ?thesis
    proof cases
      case 1
      then show ?thesis using X Cons by (intro exI [of _ "[] # X"]) simp
    next
      case 2
      then obtain b' where "b = nl # b'" using assms by (cases b) auto
      then show ?thesis using 2 Cons by (intro exI [of _ "[[]]"]) simp
    next
      case 3
      then obtain a'' where a'': "a' = nl # a''" by (cases a') auto
      obtain Y where "Y \<noteq> []" "splitlines (a'' @ b) = Y @ tl (splitlines b)" using less [of a''] Cons a'' by auto
      then show ?thesis using 3 Cons a'' by (intro exI [of _ "[] # Y"]) simp
    next
      case 4
      obtain d s where "a' @ b = d # s" using assms by (cases "a' @ b") auto
      then show ?thesis using 4 X Cons by (intro exI [of _ "[] # X"]) simp
    next
      case 5
      obtain l ls where "X = l # ls" using X(1) by (cases X) auto
      then show ?thesis using 5 X Cons by (intro exI [of _ "(c # l) # ls"]) simp
    qed
  qed
qed

text \<open>\<open>s.split(c, 1)\<close>: the part before the first \<open>c\<close> and, where there is one, the part after it.\<close>

definition split_once :: "char \<Rightarrow> string \<Rightarrow> string \<times> string option" where
  "split_once c s =
     (takeWhile (\<lambda>d. d \<noteq> c) s, case dropWhile (\<lambda>d. d \<noteq> c) s of [] \<Rightarrow> None | _ # rest \<Rightarrow> Some rest)"

text \<open>\<open>sep.join(xs)\<close>\<close>

fun join_with :: "string \<Rightarrow> string list \<Rightarrow> string" where
  "join_with sep [] = []"
| "join_with sep [x] = x"
| "join_with sep (x # y # xs) = x @ sep @ join_with sep (y # xs)"

text \<open>\<open>s.split()\<close>: the words between runs of white space.\<close>

fun split_spaces :: "string \<Rightarrow> string list" where
  "split_spaces [] = [[]]"
| "split_spaces (c # cs) =
     (if re_space c then [] # split_spaces cs
      else (case split_spaces cs of [] \<Rightarrow> [[c]] | w # ws \<Rightarrow> (c # w) # ws))"

definition split_ws :: "string \<Rightarrow> string list" where
  "split_ws s = filter (\<lambda>w. w \<noteq> []) (split_spaces s)"

text \<open>\<open>s.replace(old, new)\<close>, for an \<open>old\<close> that is not empty.\<close>

function replace_all :: "string \<Rightarrow> string \<Rightarrow> string \<Rightarrow> string" where
  "replace_all old new s =
     (case s of
        [] \<Rightarrow> []
      | c # cs \<Rightarrow>
          if old \<noteq> [] \<and> prefix old s then new @ replace_all old new (drop (length old) s)
          else c # replace_all old new cs)"
  by pat_completeness auto
termination by (relation "measure (\<lambda>(old, new, s). length s)") (auto simp: prefix_def)

declare replace_all.simps [simp del]

section \<open>Paths\<close>

definition basename :: "string \<Rightarrow> string" where
  "basename x = rev (takeWhile (\<lambda>c. c \<noteq> CHR ''/'') (rev x))"

definition path_join :: "string \<Rightarrow> string \<Rightarrow> string" where
  "path_join d n =
     (if prefix ''/'' n \<or> d = [] then n else if last d = CHR ''/'' then d @ n else d @ CHR ''/'' # n)"

text \<open>\<open>os.path.normpath\<close>, \<open>abspath\<close> in the directory \<open>here\<close>, and \<open>relpath\<close>.\<close>

definition slashes :: "string \<Rightarrow> nat" where
  "slashes p =
     (if prefix ''//'' p \<and> \<not> prefix ''///'' p then 2 else if prefix ''/'' p then 1 else 0)"

fun norm_comps :: "bool \<Rightarrow> string list \<Rightarrow> string list \<Rightarrow> string list" where
  "norm_comps rooted acc [] = acc"
| "norm_comps rooted acc (c # cs) =
     (if c = [] \<or> c = ''.'' then norm_comps rooted acc cs
      else if c \<noteq> ''..'' \<or> (\<not> rooted \<and> acc = []) \<or> (acc \<noteq> [] \<and> last acc = ''..'')
      then norm_comps rooted (acc @ [c]) cs
      else norm_comps rooted (butlast acc) cs)"

definition normpath :: "string \<Rightarrow> string" where
  "normpath p =
     (let n = slashes p;
          q = replicate n (CHR ''/'') @ join_with ''/'' (norm_comps (0 < n) [] (split_on (CHR ''/'') p))
      in if q = [] then ''.'' else q)"

definition abspath :: "string \<Rightarrow> string \<Rightarrow> string" where
  "abspath here p = normpath (path_join here p)"

definition path_comps :: "string \<Rightarrow> string list" where
  "path_comps p = filter (\<lambda>c. c \<noteq> []) (split_on (CHR ''/'') p)"

fun common_len :: "string list \<Rightarrow> string list \<Rightarrow> nat" where
  "common_len (x # xs) (y # ys) = (if x = y then Suc (common_len xs ys) else 0)"
| "common_len _ _ = 0"

definition relpath :: "string \<Rightarrow> string \<Rightarrow> string \<Rightarrow> string" where
  "relpath here p start =
     (let ss = path_comps (abspath here start); ps = path_comps (abspath here p); i = common_len ss ps;
          rel = replicate (length ss - i) ''..'' @ drop i ps
      in if rel = [] then ''.'' else join_with ''/'' rel)"

end
