(* ===== verification/ErrCheck.thy ===== *)
theory ErrCheck
  imports PyText
begin

text \<open>
  \<open>scripts/err_check.py\<close>: finding the jobs of a campaign whose logs end in a crash, and deleting
  their files. Texts are ASCII. The directory tree is an association list from paths (lists of names)
  to nodes. The sets of array ids are lists without duplicates; no result depends on their order.
\<close>

section \<open>read_tail_lines\<close>

definition TAIL_LINES :: nat where "TAIL_LINES = 100"
definition READ_BLOCK_SIZE :: nat where "READ_BLOCK_SIZE = 8192"

text \<open>The \<open>while\<close> loop: blocks are read backwards from \<open>pos\<close> and prepended to the buffer.\<close>

function tail_loop :: "string \<Rightarrow> nat \<Rightarrow> nat \<Rightarrow> string \<Rightarrow> string list \<Rightarrow> string list" where
  "tail_loop content max_lines pos buffer lines =
     (if 0 < pos \<and> length lines \<le> max_lines
      then (let read_size = min READ_BLOCK_SIZE pos;
                pos = pos - read_size;
                chunk = take read_size (drop pos content);
                buffer = chunk @ buffer
            in tail_loop content max_lines pos buffer (splitlines buffer))
      else lines)"
  by pat_completeness auto
termination
  by (relation "measure (\<lambda>(content, max_lines, pos, buffer, lines). pos)") (auto simp: READ_BLOCK_SIZE_def)

declare tail_loop.simps [simp del]

definition read_tail_lines :: "string \<Rightarrow> nat \<Rightarrow> string list" where
  "read_tail_lines content max_lines =
     (if content = [] then []
      else py_slice_from (tail_loop content max_lines (length content) [] []) (- int max_lines))"

section \<open>The algorithms of a Slurm script\<close>

type_synonym algo = "int \<times> int \<times> string"

definition match_array :: "string \<Rightarrow> (string \<times> string) option" where
  "match_array s = do {
     s \<leftarrow> lit ''#SBATCH'' s; (_, s) \<leftarrow> run1 re_space s; s \<leftarrow> lit ''--array=1-'' s; run1 is_digit s }"

definition match_le :: "string \<Rightarrow> (string \<times> string) option" where
  "match_le s = do { s \<leftarrow> lit ''-le'' s; (_, s) \<leftarrow> run1 re_space s; run1 is_digit s }"

definition match_name :: "string \<Rightarrow> (string \<times> string) option" where
  "match_name s = do {
     s \<leftarrow> lit ''SHORT_NAME='' s; s \<leftarrow> lit [CHR 0x22] s; (w, s) \<leftarrow> run1 re_word s; s \<leftarrow> lit [CHR 0x22] s; Some (w, s) }"

text \<open>The loop over the upper bounds: the ranges so far and \<open>low\<close>.\<close>

definition range_step :: "string list \<Rightarrow> algo list \<times> int \<Rightarrow> nat \<times> int \<Rightarrow> algo list \<times> int" where
  "range_step names st p =
     (let (ranges, low) = st; (i, high) = p in
      (if i < length names \<and> low \<le> high then ranges @ [(low, high, names ! i)] else ranges, high + 1))"

definition algo_ranges :: "int \<Rightarrow> int list \<Rightarrow> string list \<Rightarrow> algo list" where
  "algo_ranges max_id bounds names =
     (let (ranges, low) = foldl (range_step names) ([], 1) (enumerate 0 bounds) in
      if low \<le> max_id \<and> length bounds < length names then ranges @ [(low, max_id, last names)]
      else if low \<le> max_id \<and> bounds \<noteq> [] then ranges @ [(low, max_id, last names)]
      else ranges)"

definition parse_slurm_algos :: "string option \<Rightarrow> algo list" where
  "parse_slurm_algos file =
     (case file of
        None \<Rightarrow> []
      | Some content \<Rightarrow>
          (let max_id = (case search_first match_array content of Some (d, _) \<Rightarrow> int (nat_of_digits d) | None \<Rightarrow> 0);
               bounds = map (int \<circ> nat_of_digits) (find_all match_le content);
               names = find_all match_name content
           in if names = [] then [] else algo_ranges max_id bounds names))"

fun array_id_to_algo_run :: "int \<Rightarrow> algo list \<Rightarrow> (string \<times> int) option" where
  "array_id_to_algo_run array_id [] = None"
| "array_id_to_algo_run array_id ((low, high, name) # ranges) =
     (if low \<le> array_id \<and> array_id \<le> high then Some (name, array_id - low + 1)
      else array_id_to_algo_run array_id ranges)"

section \<open>The directory tree\<close>

type_synonym path = "string list"

text \<open>\<open>Locked e\<close> is a file that cannot be read; \<open>e\<close> is the text of the error.\<close>

datatype node = File string | Locked string | Dir

type_synonym fs = "(path \<times> node) list"

definition listdir :: "fs \<Rightarrow> path \<Rightarrow> string list" where
  "listdir t d = map last (filter (\<lambda>p. p \<noteq> [] \<and> butlast p = d) (map fst t))"

definition isfile :: "fs \<Rightarrow> path \<Rightarrow> bool" where
  "isfile t p = (case map_of t p of Some (File _) \<Rightarrow> True | Some (Locked _) \<Rightarrow> True | _ \<Rightarrow> False)"

definition isdir :: "fs \<Rightarrow> path \<Rightarrow> bool" where
  "isdir t p \<longleftrightarrow> map_of t p = Some Dir"

definition remove_file :: "path \<Rightarrow> fs \<Rightarrow> fs" where
  "remove_file p t = filter (\<lambda>(q, _). q \<noteq> p) t"

section \<open>The scan\<close>

text \<open>
  \<open>^quic-cc-(\d+)_(\d+)\.(err|out)$\<close> and the same for \<open>tcp\<close>: the second group, the array id. The
  final \<open>$\<close> lets a newline at the end of the name pass.
\<close>

definition log_id :: "string \<Rightarrow> string \<Rightarrow> int option" where
  "log_id proto filename = do {
     s \<leftarrow> lit (proto @ ''-cc-'') filename;
     (_, s) \<leftarrow> run1 is_digit s; s \<leftarrow> lit ''_'' s;
     (d, s) \<leftarrow> run1 is_digit s; s \<leftarrow> lit ''.'' s;
     (if s \<in> {''err'', ''out'', ''err'' @ [nl], ''out'' @ [nl]} then Some (int (nat_of_digits d)) else None) }"

definition log_name :: "string \<Rightarrow> bool" where
  "log_name filename \<longleftrightarrow> ends_with filename ''.err'' \<or> ends_with filename ''.out''"

type_synonym ids = "int list \<times> int list"

definition add_id :: "string \<Rightarrow> ids \<Rightarrow> ids" where
  "add_id filename st =
     (let (quic, tcp) = st in
      case log_id ''quic'' filename of
        Some i \<Rightarrow> (List.insert i quic, tcp)
      | None \<Rightarrow> (case log_id ''tcp'' filename of Some i \<Rightarrow> (quic, List.insert i tcp) | None \<Rightarrow> (quic, tcp)))"

definition get_existing_array_ids :: "fs \<Rightarrow> path \<Rightarrow> ids" where
  "get_existing_array_ids t directory =
     foldl (\<lambda>st filename.
       if log_name filename \<and> isfile t (directory @ [filename]) then add_id filename st else st)
     ([], []) (listdir t directory)"

definition is_corrupted :: "string \<Rightarrow> bool" where
  "is_corrupted line \<longleftrightarrow> str_in ''assert failed'' (lower line)
     \<or> (str_in ''Aborted'' line \<and> str_in ''(core dumped)'' line)"

definition failure_text :: "string \<Rightarrow> nat \<Rightarrow> nat \<Rightarrow> string \<Rightarrow> string list" where
  "failure_text filename max_lines idx line =
     [''  **FAILURE FOUND** in '' @ filename @ '' in last '' @ str_of_nat max_lines @ '' lines (line '' @ str_of_nat idx @ ''):'',
      ''    '' @ re_strip line]"

definition tail5 :: "string list \<Rightarrow> string list" where
  "tail5 tail_lines = (if 5 \<le> length tail_lines then py_slice_from tail_lines (-5) else tail_lines)"

text \<open>The state of the scan: what was printed, whether the tail was shown, and the ids found.\<close>

definition scan_line ::
    "string \<Rightarrow> nat \<Rightarrow> string list \<Rightarrow> string list \<times> bool \<times> ids \<Rightarrow> nat \<times> string \<Rightarrow> string list \<times> bool \<times> ids" where
  "scan_line filename max_lines tail_lines st p =
     (let (out, shown_tail, found) = st; (idx, line) = p in
      if is_corrupted line
      then (out @ failure_text filename max_lines idx line
              @ (if shown_tail then []
                 else ''    Last 5 lines from this file:'' # map (\<lambda>t. ''      '' @ re_strip_right t) (tail5 tail_lines)),
            True, add_id filename found)
      else st)"

definition scan_file :: "fs \<Rightarrow> path \<Rightarrow> nat \<Rightarrow> string list \<times> ids \<Rightarrow> string \<Rightarrow> string list \<times> ids" where
  "scan_file t directory max_lines st filename =
     (let (out, found) = st in
      if log_name filename \<and> isfile t (directory @ [filename])
      then (case map_of t (directory @ [filename]) of
              Some (File content) \<Rightarrow>
                (let tail_lines = read_tail_lines content max_lines;
                     (out, _, found) = foldl (scan_line filename max_lines tail_lines) (out, False, found) (enumerate 1 tail_lines)
                 in (out, found))
            | Some (Locked e) \<Rightarrow> (out @ [''  ERROR: Could not read file '' @ filename @ ''. '' @ e], found)
            | _ \<Rightarrow> (out, found))
      else (out, found))"

definition find_assertion_failures :: "fs \<Rightarrow> path \<Rightarrow> nat \<Rightarrow> string list \<times> ids" where
  "find_assertion_failures t directory max_lines =
     foldl (scan_file t directory max_lines) ([], [], []) (listdir t directory)"

section \<open>The summary\<close>

definition count_in :: "int \<Rightarrow> int \<Rightarrow> int list \<Rightarrow> int" where
  "count_in low high s = int (length (filter (\<lambda>aid. low \<le> aid \<and> aid \<le> high) s))"

definition summary_line :: "int list \<Rightarrow> int list \<Rightarrow> string \<Rightarrow> algo \<Rightarrow> string" where
  "summary_line corrupted existing sfx a =
     (let (low, high, name) = a;
          total = count_in low high existing;
          count = count_in low high corrupted;
          remaining = total - count
      in ''  '' @ name @ '': '' @ str_of_int remaining @ ''/'' @ str_of_int total @ '' remaining, '' @ str_of_int count
           @ '' '' @ sfx)"

definition print_run_summary :: "algo list \<Rightarrow> algo list \<Rightarrow> ids \<Rightarrow> ids \<Rightarrow> string \<Rightarrow> string list" where
  "print_run_summary quic_algos tcp_algos corrupted existing sfx =
     [[nl] @ ''--- QUIC ---''] @ map (summary_line (fst corrupted) (fst existing) sfx) quic_algos
     @ [''--- TCP ---''] @ map (summary_line (snd corrupted) (snd existing) sfx) tcp_algos"

section \<open>Deleting\<close>

definition run_name :: "int \<Rightarrow> string" where
  "run_name run_id = ''run_'' @ str_of_int run_id"

definition get_run_dirs :: "string \<Rightarrow> fs \<Rightarrow> int \<Rightarrow> path \<Rightarrow> algo list \<Rightarrow> path list" where
  "get_run_dirs artifacts t array_id repo_root algos =
     (case array_id_to_algo_run array_id algos of
        None \<Rightarrow> []
      | Some (short_name, run_id) \<Rightarrow>
          (let base = repo_root @ [artifacts] in
           if short_name = [] \<or> \<not> isdir t base then []
           else filter (isdir t) (map (\<lambda>entry. base @ [entry, short_name, run_name run_id])
             (filter (\<lambda>entry. starts_with entry ''relay_'') (listdir t base)))))"

definition get_quic_run_dirs_for_array_id :: "fs \<Rightarrow> int \<Rightarrow> path \<Rightarrow> algo list \<Rightarrow> path list" where
  "get_quic_run_dirs_for_array_id = get_run_dirs ''Quic_artifacts''"

definition get_tcp_run_dirs_for_array_id :: "fs \<Rightarrow> int \<Rightarrow> path \<Rightarrow> algo list \<Rightarrow> path list" where
  "get_tcp_run_dirs_for_array_id = get_run_dirs ''Tcp_artifacts''"

definition remove_if :: "(string \<Rightarrow> bool) \<Rightarrow> path \<Rightarrow> fs \<Rightarrow> fs" where
  "remove_if P d t = foldl (\<lambda>t entry. if P entry \<and> isfile t (d @ [entry]) then remove_file (d @ [entry]) t else t)
     t (listdir t d)"

definition delete_job :: "string \<Rightarrow> (fs \<Rightarrow> int \<Rightarrow> path list) \<Rightarrow> path \<Rightarrow> fs \<Rightarrow> int \<Rightarrow> fs" where
  "delete_job proto run_dirs directory t array_id =
     (let t = remove_if (\<lambda>filename. log_id proto filename = Some array_id) directory t
      in foldl (\<lambda>t run_dir. remove_if (\<lambda>entry. ends_with entry ''.txt'') run_dir t) t (run_dirs t array_id))"

definition delete_corrupted_jobs :: "algo list \<Rightarrow> algo list \<Rightarrow> path \<Rightarrow> ids \<Rightarrow> path \<Rightarrow> fs \<Rightarrow> fs" where
  "delete_corrupted_jobs quic_algos tcp_algos repo_root corrupted directory t =
     (let t = foldl (delete_job ''quic'' (\<lambda>t i. get_quic_run_dirs_for_array_id t i repo_root quic_algos) directory) t (fst corrupted)
      in foldl (delete_job ''tcp'' (\<lambda>t i. get_tcp_run_dirs_for_array_id t i repo_root tcp_algos) directory) t (snd corrupted))"

section \<open>The program\<close>

definition py_list :: "int list \<Rightarrow> string" where
  "py_list xs = ''['' @ concat (map (\<lambda>(i, x). (if i = 0 then [] else '', '') @ str_of_int x) (enumerate 0 xs)) @ '']''"

definition job_part :: "string \<Rightarrow> int list \<Rightarrow> string list" where
  "job_part proto s =
     (if s = [] then [] else [str_of_nat (length s) @ '' '' @ proto @ '' job(s) '' @ py_list (sort s)])"

definition prompt_text :: "ids \<Rightarrow> string" where
  "prompt_text corrupted =
     [nl] @ ''Corrupted jobs: ''
     @ concat (map (\<lambda>(i, p). (if i = 0 then [] else ''; '') @ p)
         (enumerate (0::nat) (job_part ''QUIC'' (fst corrupted) @ job_part ''TCP'' (snd corrupted))))
     @ ''. Press Enter to delete their .err/.out and .txt logs, or type anything to cancel: ''"

text \<open>A Slurm script that is a file can be read.\<close>

definition file_text :: "fs \<Rightarrow> path \<Rightarrow> string option" where
  "file_text t p = (case map_of t p of Some (File c) \<Rightarrow> Some c | _ \<Rightarrow> None)"

definition or_default :: "'a list \<Rightarrow> 'a list \<Rightarrow> 'a list" where
  "or_default xs ys = (if xs = [] then ys else xs)"

definition quic_algos_of :: "fs \<Rightarrow> path \<Rightarrow> algo list" where
  "quic_algos_of t repo_root = or_default (parse_slurm_algos (file_text t (repo_root @ [''quic_job_parallel.slurm''])))
     [(1, 20, ''NewReno''), (21, 40, ''BBR'')]"

definition tcp_algos_of :: "fs \<Rightarrow> path \<Rightarrow> algo list" where
  "tcp_algos_of t repo_root = or_default (parse_slurm_algos (file_text t (repo_root @ [''tcp_job_parallel.slurm''])))
     [(1, 20, ''Cubic''), (21, 40, ''NewReno''), (41, 60, ''BBR'')]"

definition scan_banner :: string where
  "scan_banner = ''Starting scan for corrupted jobs (''
     @ [CHR 0x27] @ ''assert failed'' @ [CHR 0x27] @ '', '' @ [CHR 0x27] @ ''Aborted (core dumped)'' @ [CHR 0x27]
     @ '') in *.err and *.out files (last '' @ str_of_nat TAIL_LINES @ '' lines only)...''"

text \<open>What is printed, the prompt included, and the tree that is left; \<open>response\<close> is what the user types.\<close>

definition err_check_main :: "string \<Rightarrow> path \<Rightarrow> path \<Rightarrow> fs \<Rightarrow> string list \<times> fs" where
  "err_check_main response repo_root cwd t =
     (let quic_algos = quic_algos_of t repo_root; tcp_algos = tcp_algos_of t repo_root;
          existing = get_existing_array_ids t cwd;
          (found, corrupted) = find_assertion_failures t cwd TAIL_LINES;
          summary = print_run_summary quic_algos tcp_algos;
          (rest, t) =
            (if fst corrupted \<noteq> [] \<or> snd corrupted \<noteq> []
             then (let deleted = (response = []) in
               (summary corrupted existing ''to remove'' @ [prompt_text corrupted]
                @ [if deleted then ''Deleted corrupted .err/.out files and .txt logs from Quic_artifacts and Tcp_artifacts.''
                   else ''Deletion cancelled.'']
                @ summary corrupted existing (if deleted then ''removed'' else ''to remove''),
                if deleted then delete_corrupted_jobs quic_algos tcp_algos repo_root corrupted cwd t else t))
             else ([[nl] @ ''No corrupted jobs found.''] @ summary ([], []) existing ''removed'', t))
      in ([scan_banner] @ found @ rest @ [''Scan complete.''], t))"

section \<open>The tail of a file\<close>

definition last_n :: "nat \<Rightarrow> 'a list \<Rightarrow> 'a list" where
  "last_n n xs = drop (length xs - n) xs"

lemma last_n_slice: "0 < n \<Longrightarrow> py_slice_from xs (- int n) = last_n n xs"
  by (simp add: py_slice_from_neg last_n_def)

lemma last_n_suffix: "n \<le> length ys \<Longrightarrow> last_n n (xs @ ys) = last_n n ys"
  by (simp add: last_n_def)

lemma last_n_lines:
  assumes "buffer \<noteq> []" and "n < length (splitlines buffer)"
  shows "last_n n (splitlines (front @ buffer)) = last_n n (splitlines buffer)"
proof -
  obtain X where X: "splitlines (front @ buffer) = X @ tl (splitlines buffer)"
    using splitlines_cut [OF assms(1)] by blast
  obtain l ls where "splitlines buffer = l # ls" using assms(2) by (cases "splitlines buffer") auto
  then show ?thesis
    using X assms(2) last_n_suffix [of n ls X] last_n_suffix [of n ls "[l]"] by simp
qed

lemma tail_loop_result:
  assumes "pos \<le> length content" and "buffer = drop pos content" and "lines = splitlines buffer" and "0 < n"
  shows "last_n n (tail_loop content n pos buffer lines) = last_n n (splitlines content)"
  using assms(1-3)
proof (induction content n pos buffer lines rule: tail_loop.induct)
  case (1 content n pos buffer lines)
  show ?case
  proof (cases "0 < pos \<and> length lines \<le> n")
    case True
    let ?r = "min READ_BLOCK_SIZE pos"
    let ?b = "take ?r (drop (pos - ?r) content) @ buffer"
    have "drop (pos - ?r) content = take ?r (drop (pos - ?r) content) @ drop ?r (drop (pos - ?r) content)"
      by (rule append_take_drop_id [symmetric])
    also have "drop ?r (drop (pos - ?r) content) = buffer" using 1(3) by simp
    finally have b: "?b = drop (pos - ?r) content" by (rule sym)
    have "last_n n (tail_loop content n (pos - ?r) ?b (splitlines ?b)) = last_n n (splitlines content)"
      by (rule 1(1) [OF True refl refl refl refl _ b refl]) (use 1(2) in simp)
    then show ?thesis using True by (subst tail_loop.simps) (simp add: Let_def)
  next
    case False
    then have stop: "tail_loop content n pos buffer lines = lines" by (subst tail_loop.simps) auto
    show ?thesis
    proof (cases "pos = 0")
      case True
      then show ?thesis using 1(3,4) stop by simp
    next
      case pos: False
      then have n: "n < length (splitlines buffer)" using False 1(4) by simp
      then have "buffer \<noteq> []" by auto
      from last_n_lines [OF this n, of "take pos content"] show ?thesis using 1(3,4) stop by simp
    qed
  qed
qed

lemma read_tail_lines_result:
  assumes "0 < max_lines"
  shows "read_tail_lines content max_lines = last_n max_lines (splitlines content)"
proof (cases "content = []")
  case True
  then show ?thesis by (simp add: read_tail_lines_def last_n_def)
next
  case False
  then show ?thesis
    using tail_loop_result [of "length content" content "[]" "[]" max_lines] assms
    by (simp add: read_tail_lines_def last_n_slice)
qed

text \<open>C21: \<open>read_tail_lines\<close> returns the last \<open>max_lines\<close> lines of the file, the lines
  the whole file splits into, although it only splits what it read from the end: a block that starts inside a
  line, or between the two characters of a line end, does no harm.\<close>

theorem read_tail_lines_correct:
  assumes "0 < max_lines"
  shows "read_tail_lines content max_lines = last_n max_lines (splitlines content)"
  by (rule read_tail_lines_result [OF assms])

theorem read_tail_lines_correct_witness:
  "read_tail_lines (''a'' @ [nl] @ ''b'' @ [cr, nl] @ ''c'') 2 = [''b'', ''c'']"
  using read_tail_lines_correct [of 2 "''a'' @ [nl] @ ''b'' @ [cr, nl] @ ''c''"]
  by (simp add: last_n_def nl_def cr_def)

section \<open>The ranges of the algorithms\<close>

lemma range_steps:
  assumes "sorted_wrt (<) (0 # bounds)" and "length bounds \<le> length names"
  shows "foldl (range_step names) ([], 1) (enumerate 0 bounds)
    = (map (\<lambda>k. ((0 # bounds) ! k + 1, bounds ! k, names ! k)) [0 ..< length bounds], last (0 # bounds) + 1)"
  using assms
proof (induction bounds rule: rev_induct)
  case Nil
  then show ?case by simp
next
  case (snoc b bs)
  have s: "sorted_wrt (<) (0 # bs)" "\<forall>x \<in> set (0 # bs). x < b"
    using snoc.prems(1) by (auto simp: sorted_wrt_append)
  have l: "last (0 # bs) < b" using s(2) last_in_set [of "0 # bs"] by blast
  have e: "last (0 # bs) = (0 # bs) ! length bs" by (simp add: last_conv_nth nth_Cons')
  have "(0 # bs @ [b]) ! k = (0 # bs) ! k" if "k \<le> length bs" for k
    using that by (cases k) (simp_all add: nth_append)
  then have m: "map (\<lambda>k. ((0 # bs @ [b]) ! k + 1, (bs @ [b]) ! k, names ! k)) [0 ..< length (bs @ [b])]
    = map (\<lambda>k. ((0 # bs) ! k + 1, bs ! k, names ! k)) [0 ..< length bs] @ [((0 # bs) ! length bs + 1, b, names ! length bs)]"
    by (simp add: nth_append)
  have "foldl (range_step names) ([], 1) (enumerate 0 (bs @ [b]))
      = range_step names (map (\<lambda>k. ((0 # bs) ! k + 1, bs ! k, names ! k)) [0 ..< length bs], last (0 # bs) + 1) (length bs, b)"
    using snoc.IH [OF s(1)] snoc.prems(2) by (simp add: enumerate_append_eq)
  also have "\<dots> = (map (\<lambda>k. ((0 # bs) ! k + 1, bs ! k, names ! k)) [0 ..< length bs]
      @ [((0 # bs) ! length bs + 1, b, names ! length bs)], b + 1)"
    using snoc.prems(2) l unfolding range_step_def e by simp
  finally show ?case unfolding m by simp
qed

lemma algo_ranges_eq:
  assumes "sorted_wrt (<) (0 # bounds @ [max_id])" and "length names = Suc (length bounds)"
  shows "algo_ranges max_id bounds names
    = map (\<lambda>k. ((0 # bounds) ! k + 1, (bounds @ [max_id]) ! k, names ! k)) [0 ..< length names]"
proof -
  have s: "sorted_wrt (<) (0 # bounds)" "\<forall>x \<in> set (0 # bounds). x < max_id"
    using assms(1) by (auto simp: sorted_wrt_append)
  have "last (0 # bounds) < max_id" using s(2) last_in_set [of "0 # bounds"] by blast
  moreover have "last (0 # bounds) = (0 # bounds) ! length bounds" by (simp add: last_conv_nth nth_Cons')
  moreover have "last names = names ! length bounds" using assms(2) by (simp add: last_conv_nth flip: length_0_conv)
  ultimately show ?thesis
    using range_steps [OF s(1), of names] assms(2)
    by (simp add: algo_ranges_def nth_append cong: map_cong)
qed

lemma algo_run_append:
  "\<forall>(low, high, name) \<in> set xs. \<not> (low \<le> i \<and> i \<le> high) \<Longrightarrow>
     array_id_to_algo_run i (xs @ ys) = array_id_to_algo_run i ys"
  by (induction xs) auto

text \<open>For a script whose bounds increase up to the size of the array, with one name per branch, every
  array id is resolved to the algorithm of the branch the script takes for it, and to its number within that branch,
  counted from 1.\<close>

theorem slurm_ranges:
  assumes "sorted_wrt (<) (0 # bounds @ [max_id])" and "length names = Suc (length bounds)"
    and "k < length names" and "(0 # bounds) ! k < i" and "i \<le> (bounds @ [max_id]) ! k"
  shows "array_id_to_algo_run i (algo_ranges max_id bounds names) = Some (names ! k, i - (0 # bounds) ! k)"
proof -
  let ?f = "\<lambda>k. ((0 # bounds) ! k + 1, (bounds @ [max_id]) ! k, names ! k)"
  have "[0 ..< length names] = [0 ..< k] @ [k ..< length names]"
    using upt_add_eq_append [of 0 k "length names - k"] assms(3) by simp
  then have split: "map ?f [0 ..< length names] = map ?f [0 ..< k] @ ?f k # map ?f [Suc k ..< length names]"
    using assms(3) by (simp add: upt_conv_Cons)
  have "(bounds @ [max_id]) ! j < i" if "j < k" for j
  proof -
    have "(0 # bounds @ [max_id]) ! Suc j \<le> (0 # bounds @ [max_id]) ! k"
      using that assms(1-3) sorted_wrt_nth_less [OF assms(1), of "Suc j" k] by (cases "Suc j = k") auto
    moreover have "(0 # bounds @ [max_id]) ! k = (0 # bounds) ! k" using assms(2,3) by (cases k) (simp_all add: nth_append)
    ultimately show ?thesis using assms(4) by simp
  qed
  then have "\<forall>(low, high, name) \<in> set (map ?f [0 ..< k]). \<not> (low \<le> i \<and> i \<le> high)" by fastforce
  then show ?thesis
    unfolding algo_ranges_eq [OF assms(1,2)] split using assms(4,5) by (subst algo_run_append) simp_all
qed

theorem slurm_ranges_witness:
  "array_id_to_algo_run 35 (algo_ranges 60 [20, 40] [''Cubic'', ''NewReno'', ''BBR'']) = Some (''NewReno'', 15)"
  using slurm_ranges [of "[20, 40]" 60 "[''Cubic'', ''NewReno'', ''BBR'']" 1 35] by simp

section \<open>What the scan finds\<close>

definition has_crash :: "fs \<Rightarrow> path \<Rightarrow> nat \<Rightarrow> string \<Rightarrow> bool" where
  "has_crash t d n f \<longleftrightarrow> log_name f \<and>
     (\<exists>c. map_of t (d @ [f]) = Some (File c) \<and> list_ex is_corrupted (read_tail_lines c n))"

lemma log_id_proto: "log_id ''quic'' f = Some i \<Longrightarrow> log_id ''tcp'' f = None"
  by (auto simp: log_id_def lit_def bind_eq_Some_conv prefix_def)

lemma add_id_sets:
  "set (fst (add_id f st)) = set (fst st) \<union> set_option (log_id ''quic'' f)"
  "set (snd (add_id f st)) = set (snd st) \<union> set_option (log_id ''tcp'' f)"
  by (auto simp: add_id_def case_prod_beta log_id_proto split: option.splits)

lemma add_id_distinct: "distinct (fst st) \<and> distinct (snd st) \<Longrightarrow> distinct (fst (add_id f st)) \<and> distinct (snd (add_id f st))"
  by (auto simp: add_id_def case_prod_beta split: option.splits)

lemma add_id_twice: "add_id f (add_id f st) = add_id f st"
  by (auto simp: add_id_def case_prod_beta split: option.splits)

lemma scan_lines_found:
  "snd (snd (foldl (scan_line f n tail) (out, b, found) (enumerate k ls)))
    = (if list_ex is_corrupted ls then add_id f found else found)"
proof (induction ls arbitrary: out b found k)
  case (Cons l ls)
  then show ?case by (simp add: scan_line_def add_id_twice)
qed simp

lemma scan_file_found:
  "snd (scan_file t d n (out, found) f) = (if has_crash t d n f then add_id f found else found)"
proof (cases "map_of t (d @ [f])")
  case None
  then show ?thesis by (simp add: scan_file_def isfile_def has_crash_def)
next
  case (Some x)
  have eq: "snd (case p of (out, uu, y) \<Rightarrow> (out, y)) = snd (snd p)" for p :: "string list \<times> bool \<times> ids"
    by (simp add: case_prod_beta)
  show ?thesis using Some scan_lines_found
    by (cases x) (simp_all add: scan_file_def isfile_def has_crash_def Let_def eq)
qed

lemma scan_files_found:
  "snd (foldl (scan_file t d n) st fs) = foldl (\<lambda>found f. if has_crash t d n f then add_id f found else found) (snd st) fs"
proof (induction fs arbitrary: st)
  case (Cons f fs)
  have "snd (scan_file t d n st f) = (if has_crash t d n f then add_id f (snd st) else snd st)"
    using scan_file_found [of t d n "fst st" "snd st"] by simp
  with Cons show ?case by simp
qed simp

lemma add_ids_sets:
  "set (fst (foldl (\<lambda>st f. if P f then add_id f st else st) st fs))
     = set (fst st) \<union> {i. \<exists>f \<in> set fs. P f \<and> log_id ''quic'' f = Some i}"
  "set (snd (foldl (\<lambda>st f. if P f then add_id f st else st) st fs))
     = set (snd st) \<union> {i. \<exists>f \<in> set fs. P f \<and> log_id ''tcp'' f = Some i}"
  by (induction fs arbitrary: st) (auto simp: add_id_sets split: if_splits)

lemma add_ids_distinct:
  "distinct (fst st) \<and> distinct (snd st) \<Longrightarrow>
    distinct (fst (foldl (\<lambda>st f. if P f then add_id f st else st) st fs))
    \<and> distinct (snd (foldl (\<lambda>st f. if P f then add_id f st else st) st fs))"
  by (induction fs arbitrary: st) (simp_all add: add_id_distinct)

text \<open>The scan reports exactly the array ids of the log files whose last lines hold a crash, each
  once.\<close>

theorem scan_finds:
  "set (fst (snd (find_assertion_failures t d n)))
     = {i. \<exists>f \<in> set (listdir t d). has_crash t d n f \<and> log_id ''quic'' f = Some i}
   \<and> set (snd (snd (find_assertion_failures t d n)))
     = {i. \<exists>f \<in> set (listdir t d). has_crash t d n f \<and> log_id ''tcp'' f = Some i}
   \<and> distinct (fst (snd (find_assertion_failures t d n))) \<and> distinct (snd (snd (find_assertion_failures t d n)))"
  using add_ids_distinct [of "([], [])" "has_crash t d n" "listdir t d"]
  by (simp add: find_assertion_failures_def scan_files_found add_ids_sets)

text \<open>In no line of the summary are there more corrupted jobs than existing ones, so that the number
  of the remaining ones is never negative.\<close>

theorem summary_counts:
  "count_in low high (fst (snd (find_assertion_failures t d n))) \<le> count_in low high (fst (get_existing_array_ids t d))
   \<and> count_in low high (snd (snd (find_assertion_failures t d n))) \<le> count_in low high (snd (get_existing_array_ids t d))"
proof -
  let ?P = "\<lambda>f. log_name f \<and> isfile t (d @ [f])"
  have sub: "has_crash t d n f \<Longrightarrow> ?P f" for f by (auto simp: has_crash_def isfile_def)
  have le: "count_in low high xs \<le> count_in low high ys" if "distinct xs" "distinct ys" "set xs \<subseteq> set ys" for xs ys
  proof -
    have "card (set (filter (\<lambda>i. low \<le> i \<and> i \<le> high) xs)) \<le> card (set (filter (\<lambda>i. low \<le> i \<and> i \<le> high) ys))"
      using that(3) by (intro card_mono) auto
    then show ?thesis using that(1,2) by (simp only: count_in_def distinct_card [OF distinct_filter])
  qed
  show ?thesis
    using add_ids_distinct [of "([], [])" "has_crash t d n" "listdir t d"]
      add_ids_distinct [of "([], [])" ?P "listdir t d"] sub
    by (intro conjI le) (auto simp: find_assertion_failures_def scan_files_found add_ids_sets get_existing_array_ids_def)
qed

section \<open>What is deleted\<close>

lemma listdir_iff: "e \<in> set (listdir t d) \<longleftrightarrow> map_of t (d @ [e]) \<noteq> None"
proof -
  have "e \<in> set (listdir t d) \<longleftrightarrow> d @ [e] \<in> fst ` set t"
  proof
    assume "e \<in> set (listdir t d)"
    then obtain p where "p \<in> fst ` set t" "p \<noteq> []" "butlast p = d" "last p = e" by (auto simp: listdir_def)
    then show "d @ [e] \<in> fst ` set t" by (metis append_butlast_last_id)
  next
    assume "d @ [e] \<in> fst ` set t"
    then have "d @ [e] \<in> set (filter (\<lambda>p. p \<noteq> [] \<and> butlast p = d) (map fst t))" by simp
    then have "last (d @ [e]) \<in> set (listdir t d)" unfolding listdir_def set_map by (rule imageI)
    then show "e \<in> set (listdir t d)" by simp
  qed
  then show ?thesis by (simp add: map_of_eq_None_iff)
qed

lemma map_of_remove_file: "map_of (remove_file p t) q = (if q = p then None else map_of t q)"
  by (induction t) (auto simp: remove_file_def)

lemma map_of_removes:
  "map_of (foldl (\<lambda>t e. if P e \<and> isfile t (d @ [e]) then remove_file (d @ [e]) t else t) t es) q
    = (if (\<exists>e \<in> set es. q = d @ [e] \<and> P e) \<and> isfile t q then None else map_of t q)"
proof (induction es arbitrary: t)
  case (Cons e es)
  have "isfile (remove_file p t) q = (isfile t q \<and> q \<noteq> p)" for p q
    by (simp add: isfile_def map_of_remove_file)
  then show ?case using Cons by (auto simp: map_of_remove_file)
qed simp

lemma map_of_remove_if:
  "map_of (remove_if P d t) q = (if (\<exists>e. q = d @ [e] \<and> P e) \<and> isfile t q then None else map_of t q)"
proof -
  have "q = d @ [e] \<Longrightarrow> isfile t q \<Longrightarrow> e \<in> set (listdir t d)" for e
    by (auto simp: listdir_iff isfile_def split: option.splits)
  then show ?thesis unfolding remove_if_def map_of_removes by auto
qed

text \<open>\<open>t'\<close> is \<open>t\<close> without the files whose path is in \<open>D\<close>.\<close>

definition less_files :: "(path \<Rightarrow> bool) \<Rightarrow> fs \<Rightarrow> fs \<Rightarrow> bool" where
  "less_files D t t' \<longleftrightarrow> (\<forall>q. map_of t' q = (if D q \<and> isfile t q then None else map_of t q))"

lemma less_files_none: "less_files (\<lambda>q. False) t t"
  by (simp add: less_files_def)

lemma less_files_trans:
  "less_files D t t' \<Longrightarrow> less_files E t' t'' \<Longrightarrow> less_files (\<lambda>q. D q \<or> E q) t t''"
  by (auto simp: less_files_def isfile_def)

lemma less_files_cong:
  assumes "\<And>q. isfile t q \<Longrightarrow> D q = E q"
  shows "less_files D t t' = less_files E t t'"
proof -
  have "(D q \<and> isfile t q) = (E q \<and> isfile t q)" for q using assms by blast
  then show ?thesis by (simp add: less_files_def)
qed

lemma less_files_remove_if: "less_files (\<lambda>q. \<exists>e. q = d @ [e] \<and> P e) t (remove_if P d t)"
  by (simp add: less_files_def map_of_remove_if)

lemma less_files_foldl:
  assumes "Q t" and "\<And>t x. Q t \<Longrightarrow> less_files (D x) t (f t x)" and "\<And>D t t'. less_files D t t' \<Longrightarrow> Q t \<Longrightarrow> Q t'"
  shows "less_files (\<lambda>q. \<exists>x \<in> set xs. D x q) t (foldl f t xs)"
  using assms(1)
proof (induction xs arbitrary: t)
  case Nil
  then show ?case by (simp add: less_files_none)
next
  case (Cons x xs)
  have "less_files (\<lambda>q. D x q \<or> (\<exists>x \<in> set xs. D x q)) t (foldl f (f t x) xs)"
    using less_files_trans [OF assms(2) [OF Cons.prems] Cons.IH] assms(2,3) Cons.prems by blast
  then show ?case by simp
qed

text \<open>In a tree, the parent of every node that is not at the top is a directory.\<close>

definition tree :: "fs \<Rightarrow> bool" where
  "tree t \<longleftrightarrow> (\<forall>p x. map_of t (p @ [x]) \<noteq> None \<longrightarrow> p = [] \<or> isdir t p)"

lemma less_files_isdir: "less_files D t t' \<Longrightarrow> isdir t' p = isdir t p"
  by (auto simp: less_files_def isdir_def isfile_def)

lemma less_files_tree: "less_files D t t' \<Longrightarrow> tree t \<Longrightarrow> tree t'"
  unfolding tree_def
proof (intro allI impI)
  fix p x
  assume h: "less_files D t t'" "\<forall>p x. map_of t (p @ [x]) \<noteq> None \<longrightarrow> p = [] \<or> isdir t p" "map_of t' (p @ [x]) \<noteq> None"
  have "map_of t' (p @ [x]) = (if D (p @ [x]) \<and> isfile t (p @ [x]) then None else map_of t (p @ [x]))"
    using h(1) unfolding less_files_def by blast
  then have "map_of t (p @ [x]) \<noteq> None" using h(3) by (metis (full_types))
  then have "p = [] \<or> isdir t p" using h(2) by blast
  then show "p = [] \<or> isdir t' p" using less_files_isdir [OF h(1)] by simp
qed

lemma isdir_parent: "tree t \<Longrightarrow> isdir t (p @ [x]) \<Longrightarrow> p \<noteq> [] \<Longrightarrow> isdir t p"
  by (auto simp: tree_def isdir_def)

lemma run_dirs_iff:
  assumes "tree t"
  shows "r \<in> set (get_run_dirs art t i rt algos) \<longleftrightarrow>
    (\<exists>s k e. array_id_to_algo_run i algos = Some (s, k) \<and> s \<noteq> [] \<and> starts_with e ''relay_''
      \<and> r = rt @ [art, e, s, run_name k] \<and> isdir t r)"
proof -
  have up: "isdir t (rt @ [art]) \<and> map_of t (rt @ [art, e]) \<noteq> None" if "isdir t (rt @ [art, e, s, x])" for e s x
  proof -
    have "isdir t (rt @ [art, e, s])" using isdir_parent [OF assms, of "rt @ [art, e, s]" x] that by simp
    then have "isdir t (rt @ [art, e])" using isdir_parent [OF assms, of "rt @ [art, e]" s] by simp
    then show ?thesis using isdir_parent [OF assms, of "rt @ [art]" e] by (auto simp: isdir_def)
  qed
  show ?thesis
  proof (cases "array_id_to_algo_run i algos")
    case None
    then show ?thesis by (simp add: get_run_dirs_def)
  next
    case (Some sk)
    obtain s k where sk: "sk = (s, k)" by (cases sk)
    have "r \<in> set (get_run_dirs art t i rt algos) \<longleftrightarrow> s \<noteq> [] \<and> isdir t (rt @ [art]) \<and>
        (\<exists>e. map_of t (rt @ [art, e]) \<noteq> None \<and> starts_with e ''relay_'' \<and> r = rt @ [art, e, s, run_name k] \<and> isdir t r)"
      by (auto simp: get_run_dirs_def Some sk Let_def listdir_iff)
    also have "\<dots> \<longleftrightarrow> s \<noteq> [] \<and> (\<exists>e. starts_with e ''relay_'' \<and> r = rt @ [art, e, s, run_name k] \<and> isdir t r)"
      using up by blast
    finally show ?thesis by (simp add: Some sk)
  qed
qed

text \<open>The files that belong to a job: its logs in the directory, and the \<open>.txt\<close> files of its runs.\<close>

definition job_file :: "string \<Rightarrow> string \<Rightarrow> algo list \<Rightarrow> path \<Rightarrow> path \<Rightarrow> int \<Rightarrow> path \<Rightarrow> bool" where
  "job_file proto art algos rt d i q \<longleftrightarrow>
     (\<exists>f. q = d @ [f] \<and> log_id proto f = Some i)
     \<or> (\<exists>s k e f. array_id_to_algo_run i algos = Some (s, k) \<and> s \<noteq> [] \<and> starts_with e ''relay_''
          \<and> q = rt @ [art, e, s, run_name k, f] \<and> ends_with f ''.txt'')"

lemma less_files_delete_job:
  assumes "tree t"
  shows "less_files (job_file proto art algos rt d i) t
    (delete_job proto (\<lambda>t i. get_run_dirs art t i rt algos) d t i)"
proof -
  let ?t1 = "remove_if (\<lambda>f. log_id proto f = Some i) d t"
  let ?dirs = "get_run_dirs art ?t1 i rt algos"
  let ?A = "\<lambda>q. \<exists>e. q = d @ [e] \<and> log_id proto e = Some i"
  let ?L = "\<lambda>q. \<exists>r \<in> set ?dirs. \<exists>e. q = r @ [e] \<and> ends_with e ''.txt''"
  let ?R = "\<lambda>q. \<exists>s k e f. array_id_to_algo_run i algos = Some (s, k) \<and> s \<noteq> [] \<and> starts_with e ''relay_''
          \<and> q = rt @ [art, e, s, run_name k, f] \<and> ends_with f ''.txt''"
  have 1: "less_files ?A t ?t1"
    by (rule less_files_remove_if)
  have t1: "tree ?t1" by (rule less_files_tree [OF 1 assms])
  have 2: "less_files ?L ?t1
      (foldl (\<lambda>t r. remove_if (\<lambda>e. ends_with e ''.txt'') r t) ?t1 ?dirs)"
    by (rule less_files_foldl [where Q = tree]) (auto intro: t1 less_files_remove_if less_files_tree)
  have "less_files (\<lambda>q. ?A q \<or> ?L q) t
      (delete_job proto (\<lambda>t i. get_run_dirs art t i rt algos) d t i)"
    using less_files_trans [OF 1 2] by (simp add: delete_job_def Let_def)
  moreover have "?L q = ?R q"
    if "isfile t q" for q
  proof
    assume "?L q"
    then obtain r e where r: "r \<in> set ?dirs" "q = r @ [e]" "ends_with e ''.txt''" by blast
    from r(1) obtain s k x where "array_id_to_algo_run i algos = Some (s, k)" "s \<noteq> []" "starts_with x ''relay_''"
      "r = rt @ [art, x, s, run_name k]" unfolding run_dirs_iff [OF t1] by blast
    moreover from this(4) have "q = rt @ [art, x, s, run_name k, e]" using r(2) by simp
    ultimately show "?R q" using r(3) by blast
  next
    assume "?R q"
    then obtain s k e f where h: "array_id_to_algo_run i algos = Some (s, k)" "s \<noteq> []" "starts_with e ''relay_''"
      "q = (rt @ [art, e, s, run_name k]) @ [f]" "ends_with f ''.txt''" by auto
    have "map_of t q \<noteq> None" using that by (auto simp: isfile_def split: option.splits)
    then have "isdir t (rt @ [art, e, s, run_name k])" using assms unfolding h(4) tree_def by blast
    then have "isdir ?t1 (rt @ [art, e, s, run_name k])" using less_files_isdir [OF 1] by simp
    then have "rt @ [art, e, s, run_name k] \<in> set ?dirs" unfolding run_dirs_iff [OF t1] using h(1-3) by blast
    then show "?L q" using h(4,5) by blast
  qed
  ultimately show ?thesis
    using less_files_cong [of t "\<lambda>q. ?A q \<or> ?L q" "job_file proto art algos rt d i"]
    by (simp only: job_file_def)
qed

lemma delete_result:
  assumes "tree t"
  shows "map_of (delete_corrupted_jobs quic_algos tcp_algos rt (quic, tcp) d t) q =
    (if isfile t q \<and> ((\<exists>i \<in> set quic. job_file ''quic'' ''Quic_artifacts'' quic_algos rt d i q)
        \<or> (\<exists>i \<in> set tcp. job_file ''tcp'' ''Tcp_artifacts'' tcp_algos rt d i q))
     then None else map_of t q)"
proof -
  let ?t1 = "foldl (delete_job ''quic'' (\<lambda>t i. get_run_dirs ''Quic_artifacts'' t i rt quic_algos) d) t quic"
  have 1: "less_files (\<lambda>q. \<exists>i \<in> set quic. job_file ''quic'' ''Quic_artifacts'' quic_algos rt d i q) t ?t1"
    by (rule less_files_foldl [where Q = tree]) (auto intro: assms less_files_delete_job less_files_tree)
  have 2: "less_files (\<lambda>q. \<exists>i \<in> set tcp. job_file ''tcp'' ''Tcp_artifacts'' tcp_algos rt d i q) ?t1
      (foldl (delete_job ''tcp'' (\<lambda>t i. get_run_dirs ''Tcp_artifacts'' t i rt tcp_algos) d) ?t1 tcp)"
    by (rule less_files_foldl [where Q = tree]) (auto intro: less_files_tree [OF 1 assms] less_files_delete_job less_files_tree)
  show ?thesis
    using less_files_trans [OF 1 2]
    by (simp add: less_files_def delete_corrupted_jobs_def get_quic_run_dirs_for_array_id_def
        get_tcp_run_dirs_for_array_id_def conj_commute)
qed

text \<open>C20: deleting the corrupted jobs removes exactly their files, that is the log files of the directory
  whose name carries one of the array ids, and the \<open>.txt\<close> files of the runs the ids stand for; every other file
  and every directory stays as it was.\<close>

theorem delete_exact:
  assumes "tree t"
  shows "map_of (delete_corrupted_jobs quic_algos tcp_algos rt (quic, tcp) d t) q =
    (if isfile t q \<and> ((\<exists>i \<in> set quic. job_file ''quic'' ''Quic_artifacts'' quic_algos rt d i q)
        \<or> (\<exists>i \<in> set tcp. job_file ''tcp'' ''Tcp_artifacts'' tcp_algos rt d i q))
     then None else map_of t q)"
  by (rule delete_result [OF assms])

lemma scan_found_sets:
  assumes "find_assertion_failures t d n = (out, quic, tcp)"
  shows "set quic = {i. \<exists>f \<in> set (listdir t d). has_crash t d n f \<and> log_id ''quic'' f = Some i}"
    and "set tcp = {i. \<exists>f \<in> set (listdir t d). has_crash t d n f \<and> log_id ''tcp'' f = Some i}"
proof -
  have "foldl (\<lambda>found f. if has_crash t d n f then add_id f found else found) ([], []) (listdir t d) = (quic, tcp)"
    using scan_files_found [of t d n "([], [], [])" "listdir t d"] assms by (simp add: find_assertion_failures_def)
  then show "set quic = {i. \<exists>f \<in> set (listdir t d). has_crash t d n f \<and> log_id ''quic'' f = Some i}"
    and "set tcp = {i. \<exists>f \<in> set (listdir t d). has_crash t d n f \<and> log_id ''tcp'' f = Some i}"
    using add_ids_sets [of "has_crash t d n" "([], [])" "listdir t d"] by simp_all
qed

lemma tree_keys: "(\<forall>q \<in> set (map fst t). q \<noteq> [] \<longrightarrow> butlast q = [] \<or> isdir t (butlast q)) \<Longrightarrow> tree t"
  unfolding tree_def
proof (intro allI impI)
  fix p x
  assume h: "\<forall>q \<in> set (map fst t). q \<noteq> [] \<longrightarrow> butlast q = [] \<or> isdir t (butlast q)" "map_of t (p @ [x]) \<noteq> None"
  from h(2) have "p @ [x] \<in> set (map fst t)" by (metis map_of_eq_None_iff list.set_map)
  with h(1) show "p = [] \<or> isdir t p" by force
qed

definition sample_tree :: fs where
  "sample_tree =
     [([''w''], Dir), ([''w'', ''quic-cc-7_2.err''], File (''ok'' @ [nl] @ ''assert failed'')),
      ([''w'', ''quic-cc-7_3.err''], File ''ok''),
      ([''r''], Dir), ([''r'', ''Quic_artifacts''], Dir), ([''r'', ''Quic_artifacts'', ''relay_1''], Dir),
      ([''r'', ''Quic_artifacts'', ''relay_1'', ''NewReno''], Dir),
      ([''r'', ''Quic_artifacts'', ''relay_1'', ''NewReno'', ''run_2''], Dir),
      ([''r'', ''Quic_artifacts'', ''relay_1'', ''NewReno'', ''run_2'', ''a.txt''], File ''x''),
      ([''r'', ''Quic_artifacts'', ''relay_1'', ''NewReno'', ''run_2'', ''a.png''], File ''y'')]"

lemma sample_tree_tree: "tree sample_tree"
  by (rule tree_keys) (simp add: sample_tree_def isdir_def)


text \<open>A run of the program deletes a file only when the user pressed Enter, and only a file of a
  job whose log in the directory holds a crash; in particular nothing is deleted when the scan finds nothing.\<close>

theorem err_check_deletes:
  assumes "tree t" and "map_of t q \<noteq> None" and "map_of (snd (err_check_main response rt cwd t)) q = None"
  shows "response = [] \<and> isfile t q \<and> (\<exists>i f. has_crash t cwd TAIL_LINES f \<and>
    (log_id ''quic'' f = Some i \<and> job_file ''quic'' ''Quic_artifacts'' (quic_algos_of t rt) rt cwd i q
     \<or> log_id ''tcp'' f = Some i \<and> job_file ''tcp'' ''Tcp_artifacts'' (tcp_algos_of t rt) rt cwd i q))"
proof -
  obtain out quic tcp where f: "find_assertion_failures t cwd TAIL_LINES = (out, quic, tcp)"
    by (cases "find_assertion_failures t cwd TAIL_LINES") auto
  note sets = scan_found_sets [OF f]
  have run: "response = [] \<and> map_of (delete_corrupted_jobs (quic_algos_of t rt) (tcp_algos_of t rt) rt (quic, tcp) cwd t) q = None"
    using assms(2,3) by (auto simp: err_check_main_def f Let_def split: if_splits)
  then have "isfile t q \<and> ((\<exists>i \<in> set quic. job_file ''quic'' ''Quic_artifacts'' (quic_algos_of t rt) rt cwd i q)
        \<or> (\<exists>i \<in> set tcp. job_file ''tcp'' ''Tcp_artifacts'' (tcp_algos_of t rt) rt cwd i q))"
    using assms(2) unfolding delete_result [OF assms(1)] by (auto split: if_splits)
  then show ?thesis using run unfolding sets by blast
qed

lemma sample_crash: "has_crash sample_tree [''w''] TAIL_LINES ''quic-cc-7_2.err''"
proof -
  have "read_tail_lines (''ok'' @ [nl] @ ''assert failed'') TAIL_LINES = [''ok'', ''assert failed'']"
    by (simp add: read_tail_lines_result TAIL_LINES_def last_n_def nl_def cr_def)
  moreover have "is_corrupted ''assert failed''"
    by (simp add: is_corrupted_def lower_def to_lower_def upper_letters_def lower_letters_def)
  moreover have "log_name ''quic-cc-7_2.err''" by (simp add: log_name_def ends_with_def suffix_def)
  ultimately show ?thesis by (simp add: has_crash_def sample_tree_def)
qed

lemma sample_id: "log_id ''quic'' ''quic-cc-7_2.err'' = Some 2"
  by code_simp

lemma sample_deleted:
  "map_of (snd (err_check_main [] [''r''] [''w''] sample_tree)) [''w'', ''quic-cc-7_2.err''] = None"
proof -
  obtain out quic tcp where f: "find_assertion_failures sample_tree [''w''] TAIL_LINES = (out, quic, tcp)"
    by (cases "find_assertion_failures sample_tree [''w''] TAIL_LINES") auto
  have "''quic-cc-7_2.err'' \<in> set (listdir sample_tree [''w''])" by (simp add: listdir_iff) (simp add: sample_tree_def)
  then have q: "2 \<in> set quic" unfolding scan_found_sets(1) [OF f] using sample_crash sample_id by blast
  then have "quic \<noteq> []" by auto
  then have "snd (err_check_main [] [''r''] [''w''] sample_tree) = delete_corrupted_jobs (quic_algos_of sample_tree [''r''])
      (tcp_algos_of sample_tree [''r'']) [''r''] (quic, tcp) [''w''] sample_tree"
    by (simp add: err_check_main_def f Let_def)
  moreover have "job_file ''quic'' ''Quic_artifacts'' a [''r''] [''w''] 2 [''w'', ''quic-cc-7_2.err'']" for a
    by (simp add: job_file_def sample_id)
  moreover have "isfile sample_tree [''w'', ''quic-cc-7_2.err'']" by (simp add: isfile_def sample_tree_def)
  ultimately show ?thesis using q by (auto simp: delete_result [OF sample_tree_tree])
qed

theorem err_check_deletes_witness:
  "\<exists>i f. has_crash sample_tree [''w''] TAIL_LINES f \<and> (log_id ''quic'' f = Some i \<or> log_id ''tcp'' f = Some i)"
proof -
  have "map_of sample_tree [''w'', ''quic-cc-7_2.err''] \<noteq> None" by (simp add: sample_tree_def)
  from err_check_deletes [OF sample_tree_tree this sample_deleted] show ?thesis by blast
qed

theorem delete_exact_witness:
  "map_of (delete_corrupted_jobs [] [] [''r''] ([2], []) [''w''] sample_tree) [''w'', ''quic-cc-7_2.err''] = None"
  by (subst delete_exact [OF sample_tree_tree]) (simp add: job_file_def sample_id isfile_def sample_tree_def)

end
