(* ===== verification/Ns3rc.thy ===== *)
theory Ns3rc
  imports Py
begin

text \<open>
  \<open>utils.py\<close>: reading the configuration file \<open>.ns3rc\<close>. A file is the list of its lines, \<open>None\<close> when
  it does not exist. What Python's \<open>eval\<close> makes of an expression is a parameter \<open>ev\<close>. Settings in any order, with comments and lists over several lines,
  are read back as they were written.
\<close>

datatype pval = VNone | VBool bool | VInt int | VStr string | VList "pval list"

fun truth :: "pval \<Rightarrow> bool" where
  "truth VNone = False"
| "truth (VBool b) = b"
| "truth (VInt i) = (i \<noteq> 0)"
| "truth (VStr s) = (s \<noteq> [])"
| "truth (VList xs) = (xs \<noteq> [])"

definition drop_comment :: "string \<Rightarrow> string" where
  "drop_comment line = takeWhile (\<lambda>c. c \<noteq> CHR ''#'') line"

text \<open>\<open>eval(s.split('=', 1)[1].strip())\<close>\<close>

definition eval_right :: "(string \<Rightarrow> pval py) \<Rightarrow> string \<Rightarrow> pval py" where
  "eval_right ev s =
     (case dropWhile (\<lambda>c. c \<noteq> CHR ''='') s of [] \<Rightarrow> Inl IndexError | _ # rest \<Rightarrow> ev (strip rest))"

text \<open>The loop of \<open>get_list_from_file\<close>: \<open>parsing_multiline_list\<close> and \<open>list_string\<close> are its state.\<close>

fun list_loop :: "(string \<Rightarrow> pval py) \<Rightarrow> string \<Rightarrow> bool \<Rightarrow> string \<Rightarrow> string list \<Rightarrow> pval py" where
  "list_loop ev list_name parsing list_string [] = Inr (VList [])"
| "list_loop ev list_name parsing list_string (l # lines) =
     (let line = drop_comment l in
      if str_in list_name line \<or> parsing
      then (let list_string = list_string @ line in
            if CHR '']'' \<notin> set list_string then list_loop ev list_name True list_string lines
            else eval_right ev list_string)
      else list_loop ev list_name parsing list_string lines)"

definition get_list_from_file :: "(string \<Rightarrow> pval py) \<Rightarrow> string list option \<Rightarrow> string \<Rightarrow> pval py" where
  "get_list_from_file ev file list_name =
     (case file of None \<Rightarrow> Inr (VList []) | Some lines \<Rightarrow> list_loop ev list_name False [] lines)"

text \<open>\<open>bool_found\<close> is only bound when the file exists.\<close>

fun bool_loop :: "(string \<Rightarrow> pval py) \<Rightarrow> string \<Rightarrow> string list \<Rightarrow> pval option py" where
  "bool_loop ev bool_name [] = Inr None"
| "bool_loop ev bool_name (l # lines) =
     (let line = drop_comment l in
      if str_in bool_name line then bind_e (eval_right ev line) (\<lambda>v. Inr (Some v))
      else bool_loop ev bool_name lines)"

definition get_bool_from_file :: "(string \<Rightarrow> pval py) \<Rightarrow> string list option \<Rightarrow> string \<Rightarrow> pval \<Rightarrow> pval py" where
  "get_bool_from_file ev file bool_name value_if_missing =
     (case file of
        None \<Rightarrow> Inl UnboundLocalError
      | Some lines \<Rightarrow> bind_e (bool_loop ev bool_name lines) (\<lambda>found.
          Inr (case found of Some v \<Rightarrow> v | None \<Rightarrow> value_if_missing)))"

type_synonym config = "bool \<times> pval \<times> pval \<times> pval"

definition all_modules :: pval where "all_modules = VList [VStr ''all_modules'']"

definition read_config_file :: "(string \<Rightarrow> pval py) \<Rightarrow> string list option \<Rightarrow> string list option \<Rightarrow> config py" where
  "read_config_file ev here home =
     (let file = (case here of None \<Rightarrow> home | Some f \<Rightarrow> Some f) in
      if file = None then Inr (False, all_modules, VBool False, VBool False)
      else
        bind_e (get_list_from_file ev file ''modules_enabled'') (\<lambda>modules.
        let modules_enabled = (if \<not> truth modules then all_modules else modules) in
        bind_e (get_bool_from_file ev file ''examples_enabled'' (VBool False)) (\<lambda>examples_enabled.
        bind_e (get_bool_from_file ev file ''tests_enabled'' (VBool False)) (\<lambda>tests_enabled.
        Inr (True, modules_enabled, examples_enabled, tests_enabled)))))"

section \<open>What the readers return\<close>

text \<open>
  The lines without their comments, from the first one that holds the name on; the assignment is their
  shortest non-empty beginning that holds a closing bracket.
\<close>

definition from_name :: "string \<Rightarrow> string list \<Rightarrow> string list" where
  "from_name n lines = dropWhile (\<lambda>l. \<not> str_in n l) (map drop_comment lines)"

fun upto_bracket :: "string list \<Rightarrow> string option" where
  "upto_bracket [] = None"
| "upto_bracket (l # ls) =
     (if CHR '']'' \<in> set l then Some l else map_option ((@) l) (upto_bracket ls))"

lemma list_loop_parsing:
  "CHR '']'' \<notin> set s \<Longrightarrow> list_loop ev n True s lines =
     (case upto_bracket (map drop_comment lines) of None \<Rightarrow> Inr (VList []) | Some t \<Rightarrow> eval_right ev (s @ t))"
proof (induction lines arbitrary: s)
  case Nil
  then show ?case by simp
next
  case (Cons l lines)
  show ?case
  proof (cases "CHR '']'' \<in> set (drop_comment l)")
    case True
    then show ?thesis by simp
  next
    case False
    then show ?thesis using Cons.IH [of "s @ drop_comment l"] Cons.prems
      by (simp add: Let_def option.case_eq_if option.map_sel)
  qed
qed

text \<open>\<open>get_list_from_file\<close> evaluates what follows the first \<open>=\<close> of the assignment, which may span
  several lines; the comments in them do not count. When the name does not occur, and also when the list is never
  closed, the result is the empty list.\<close>

theorem list_read:
  "get_list_from_file ev (Some lines) n =
     (case upto_bracket (from_name n lines) of None \<Rightarrow> Inr (VList []) | Some t \<Rightarrow> eval_right ev t)"
proof -
  have "list_loop ev n False [] lines =
     (case upto_bracket (from_name n lines) of None \<Rightarrow> Inr (VList []) | Some t \<Rightarrow> eval_right ev t)"
  proof (induction lines)
    case Nil
    then show ?case by (simp add: from_name_def)
  next
    case (Cons l lines)
    show ?case
    proof (cases "str_in n (drop_comment l) \<and> CHR '']'' \<notin> set (drop_comment l)")
      case True
      then show ?thesis using list_loop_parsing [of "drop_comment l" ev n lines]
        by (simp add: from_name_def Let_def option.case_eq_if option.map_sel)
    next
      case False
      then show ?thesis using Cons by (auto simp: from_name_def Let_def)
    qed
  qed
  then show ?thesis by (simp add: get_list_from_file_def)
qed

text \<open>\<open>get_bool_from_file\<close> evaluates what follows the first \<open>=\<close> of the first line that holds the name, and
  returns \<open>value_if_missing\<close> when no line does; but when there is no file, it does not return
  \<open>value_if_missing\<close>, as its documentation says, but raises \<open>UnboundLocalError\<close>.\<close>

theorem bool_read:
  "get_bool_from_file ev f n d =
     (case f of
        None \<Rightarrow> Inl UnboundLocalError
      | Some lines \<Rightarrow> (case from_name n lines of [] \<Rightarrow> Inr d | l # _ \<Rightarrow> eval_right ev l))"
proof (cases f)
  case None
  then show ?thesis by (simp add: get_bool_from_file_def)
next
  case (Some lines)
  have "bind_e (bool_loop ev n lines) (\<lambda>found. Inr (case found of Some v \<Rightarrow> v | None \<Rightarrow> d))
    = (case from_name n lines of [] \<Rightarrow> Inr d | l # _ \<Rightarrow> eval_right ev l)"
  proof (induction lines)
    case Nil
    then show ?case by (simp add: from_name_def)
  next
    case (Cons l lines)
    show ?case
    proof (cases "str_in n (drop_comment l)")
      case True
      then show ?thesis by (cases "eval_right ev (drop_comment l)") (simp_all add: from_name_def Let_def)
    next
      case False
      then show ?thesis using Cons by (simp add: from_name_def Let_def)
    qed
  qed
  with Some show ?thesis by (simp add: get_bool_from_file_def)
qed

lemma strip_nl: "strip (s @ [nl]) = strip s"
proof (cases "\<forall>c \<in> set s. is_space c")
  case True
  have sp: "is_space nl" by (simp add: is_space_def nl_def)
  have "dropWhile is_space s = []" "dropWhile is_space (s @ [nl]) = []"
    using True sp by (simp_all add: dropWhile_eq_Nil_conv)
  then show ?thesis by (simp only: strip_def lstrip_def)
next
  case False
  then have "dropWhile is_space (s @ [nl]) = dropWhile is_space s @ [nl]" by (auto simp: dropWhile_append1)
  then show ?thesis by (simp add: strip_def lstrip_def rstrip_def) (simp add: is_space_def nl_def)
qed

section \<open>Files as they are written\<close>

text \<open>
  A line is some code and perhaps a comment. A file is a list of settings, in any order: an assignment of the list of modules,
  whose right side may go on over several lines, assignments of the two flags, and other lines (blank ones, comments, code
  that is about something else).
\<close>

type_synonym code_line = "string \<times> string option"

definition written :: "code_line \<Rightarrow> string" where
  "written l = fst l @ (case snd l of None \<Rightarrow> [] | Some comment \<Rightarrow> CHR ''#'' # comment) @ [nl]"

datatype setting = Other code_line | Modules "code_line list" | Examples code_line | Tests code_line

definition assign :: "string \<Rightarrow> code_line \<Rightarrow> code_line" where
  "assign n l = (n @ '' ='' @ fst l, snd l)"

fun setting_lines :: "setting \<Rightarrow> code_line list" where
  "setting_lines (Other l) = [l]"
| "setting_lines (Modules []) = []"
| "setting_lines (Modules (l # ls)) = assign ''modules_enabled'' l # ls"
| "setting_lines (Examples l) = [assign ''examples_enabled'' l]"
| "setting_lines (Tests l) = [assign ''tests_enabled'' l]"

definition file_of :: "setting list \<Rightarrow> string list" where
  "file_of ss = map written (concat (map setting_lines ss))"

text \<open>Where a name may stand: only in the assignments of the variable; the closing bracket ends the list of modules.\<close>

fun names_allowed :: "setting \<Rightarrow> string \<Rightarrow> bool" where
  "names_allowed (Other l) n = False"
| "names_allowed (Modules ls) n = (n = ''modules_enabled'')"
| "names_allowed (Examples l) n = (n = ''examples_enabled'')"
| "names_allowed (Tests l) n = (n = ''tests_enabled'')"

definition variables :: "string list" where
  "variables = [''modules_enabled'', ''examples_enabled'', ''tests_enabled'']"

definition tidy_setting :: "setting \<Rightarrow> bool" where
  "tidy_setting s \<longleftrightarrow>
     list_all (\<lambda>l. CHR ''#'' \<notin> set (fst l) \<and> list_all (\<lambda>n. names_allowed s n \<or> \<not> str_in n (fst l)) variables) (setting_lines s) \<and>
     (case s of Modules ls \<Rightarrow> ls \<noteq> [] \<and> list_all (\<lambda>l. CHR '']'' \<notin> set (fst l)) (butlast ls) \<and> CHR '']'' \<in> set (fst (last ls))
      | _ \<Rightarrow> True)"

text \<open>What counts of a line: its code, with the end of the line when no comment hides it.\<close>

definition counted :: "code_line \<Rightarrow> string" where
  "counted l = fst l @ (if snd l = None then [nl] else [])"

text \<open>The values: the first assignment of a variable counts.\<close>

fun modules_value :: "(string \<Rightarrow> pval py) \<Rightarrow> setting list \<Rightarrow> pval py" where
  "modules_value ev (Modules ls # ss) = ev (strip (concat (map counted ls)))"
| "modules_value ev (s # ss) = modules_value ev ss"
| "modules_value ev [] = Inr (VList [])"

fun examples_value :: "(string \<Rightarrow> pval py) \<Rightarrow> setting list \<Rightarrow> pval py" where
  "examples_value ev (Examples l # ss) = ev (strip (fst l))"
| "examples_value ev (s # ss) = examples_value ev ss"
| "examples_value ev [] = Inr (VBool False)"

fun tests_value :: "(string \<Rightarrow> pval py) \<Rightarrow> setting list \<Rightarrow> pval py" where
  "tests_value ev (Tests l # ss) = ev (strip (fst l))"
| "tests_value ev (s # ss) = tests_value ev ss"
| "tests_value ev [] = Inr (VBool False)"

lemma drop_comment_written: "CHR ''#'' \<notin> set (fst l) \<Longrightarrow> drop_comment (written l) = counted l"
proof -
  assume h: "CHR ''#'' \<notin> set (fst l)"
  have "nl \<noteq> CHR ''#''" by (simp add: nl_def)
  moreover have "takeWhile (\<lambda>c. c \<noteq> CHR ''#'') (fst l @ r) = fst l @ takeWhile (\<lambda>c. c \<noteq> CHR ''#'') r" for r
    using h by (subst takeWhile_append2) auto
  ultimately show ?thesis by (simp add: drop_comment_def written_def counted_def split: option.splits)
qed

lemma str_in_counted:
  assumes "n \<in> set variables"
  shows "str_in n (counted l) \<longleftrightarrow> str_in n (fst l)"
proof -
  have n: "n \<noteq> []" "nl \<notin> set n" using assms by (auto simp: variables_def nl_def)
  have "str_in n (fst l)" if h: "str_in n (fst l @ [nl])"
  proof -
    obtain a b where ab: "fst l @ [nl] = a @ n @ b" using h by (auto simp: str_in_iff)
    show ?thesis
    proof (cases b rule: rev_cases)
      case Nil
      then have "last (a @ n) = nl" using ab by (metis append_Nil2 last_snoc)
      then show ?thesis using n last_in_set [of n] by simp
    next
      case (snoc b' c)
      then have "fst l = a @ n @ b'" using ab by simp
      then show ?thesis by (auto simp: str_in_iff)
    qed
  qed
  moreover have "str_in n (fst l @ [nl])" if "str_in n (fst l)"
    using that unfolding str_in_iff by (metis append.assoc)
  ultimately show ?thesis by (auto simp: counted_def)
qed

text \<open>The lines of a setting that is not about a variable are passed over.\<close>

lemma from_name_skip:
  assumes "tidy_setting s" and "n \<in> set variables" and "\<not> names_allowed s n"
  shows "from_name n (map written (setting_lines s) @ ls) = from_name n ls"
proof -
  have "\<not> str_in n (drop_comment (written l))" if "l \<in> set (setting_lines s)" for l
    using assms that str_in_counted [OF assms(2), of l]
    by (auto simp: tidy_setting_def list_all_iff drop_comment_written)
  then have "\<forall>l \<in> set (map drop_comment (map written (setting_lines s))). \<not> str_in n l" by auto
  then show ?thesis unfolding from_name_def map_append by (intro dropWhile_append2) blast
qed

lemma from_name_assign:
  assumes "CHR ''#'' \<notin> set (fst (assign n l))" and "n \<in> set variables"
  shows "from_name n (written (assign n l) # ls) = counted (assign n l) # map drop_comment ls"
proof -
  have "str_in n (fst (assign n l))" unfolding str_in_iff assign_def fst_conv by (metis append_Nil)
  then show ?thesis using str_in_counted [OF assms(2), of "assign n l"]
    by (simp add: from_name_def drop_comment_written [OF assms(1)])
qed

lemma upto_bracket_lines:
  "ls \<noteq> [] \<Longrightarrow> list_all (\<lambda>l. CHR '']'' \<notin> set l) (butlast ls) \<Longrightarrow> CHR '']'' \<in> set (last ls) \<Longrightarrow>
     upto_bracket (ls @ more) = Some (concat ls)"
  by (induction ls) (auto split: if_splits)

lemma counted_bracket: "CHR '']'' \<in> set (counted l) \<longleftrightarrow> CHR '']'' \<in> set (fst l)"
  by (simp add: counted_def nl_def)

lemma eval_right_assign:
  "n \<in> set variables \<Longrightarrow> eval_right ev (counted (assign n l) @ t) = ev (strip (counted l @ t))"
  by (auto simp: eval_right_def counted_def assign_def variables_def)

lemma modules_read:
  "list_all tidy_setting ss \<Longrightarrow>
   (case upto_bracket (from_name ''modules_enabled'' (file_of ss)) of None \<Rightarrow> Inr (VList []) | Some t \<Rightarrow> eval_right ev t)
     = modules_value ev ss"
proof (induction ss)
  case Nil
  then show ?case by (simp add: file_of_def from_name_def)
next
  case (Cons s ss)
  have v: "''modules_enabled'' \<in> set variables" by (simp add: variables_def)
  have f: "file_of (s # ss) = map written (setting_lines s) @ file_of ss" by (simp add: file_of_def)
  show ?case
  proof (cases "names_allowed s ''modules_enabled''")
    case True
    then obtain l ls where s: "s = Modules (l # ls)" using Cons.prems by (cases s) (auto simp: tidy_setting_def neq_Nil_conv)
    let ?a = "assign ''modules_enabled'' l"
    have h: "CHR ''#'' \<notin> set (fst k)" if "k \<in> set (?a # ls)" for k
      using Cons.prems that by (auto simp: s tidy_setting_def list_all_iff)
    have "from_name ''modules_enabled'' (file_of (s # ss)) = map counted (?a # ls) @ map drop_comment (file_of ss)"
      using from_name_assign [OF _ v, of l "map written ls @ file_of ss"] h
      by (simp add: f [unfolded s] s drop_comment_written)
    moreover have a: "CHR '']'' \<in> set (fst ?a) \<longleftrightarrow> CHR '']'' \<in> set (fst l)" by (simp add: assign_def)
    have "list_all (\<lambda>k. CHR '']'' \<notin> set k) (butlast (map counted (?a # ls)))" "CHR '']'' \<in> set (last (map counted (?a # ls)))"
      using Cons.prems a by (cases ls; auto simp: s tidy_setting_def list_all_iff counted_bracket map_butlast [symmetric] last_map)+
    then have "upto_bracket (map counted (?a # ls) @ map drop_comment (file_of ss)) = Some (concat (map counted (?a # ls)))"
      by (intro upto_bracket_lines) simp_all
    ultimately show ?thesis using eval_right_assign [OF v, of ev l "concat (map counted ls)"] by (simp add: s)
  next
    case False
    then have "modules_value ev (s # ss) = modules_value ev ss" by (cases s) simp_all
    then show ?thesis using Cons from_name_skip [OF _ v False] by (simp add: f)
  qed
qed

lemma flag_line:
  assumes "tidy_setting s" and "setting_lines s = [assign n l]" and "n \<in> set variables"
  shows "(case from_name n (map written (setting_lines s) @ ls) of [] \<Rightarrow> d | k # _ \<Rightarrow> eval_right ev k) = ev (strip (fst l))"
proof -
  have "CHR ''#'' \<notin> set (fst (assign n l))" using assms(1,2) by (simp add: tidy_setting_def)
  then show ?thesis using from_name_assign [OF _ assms(3)] eval_right_assign [OF assms(3), of ev l "[]"] strip_nl
    by (auto simp: assms(2) counted_def)
qed

lemma examples_read:
  "list_all tidy_setting ss \<Longrightarrow>
   (case from_name ''examples_enabled'' (file_of ss) of [] \<Rightarrow> Inr (VBool False) | k # _ \<Rightarrow> eval_right ev k) = examples_value ev ss"
proof (induction ss)
  case Nil
  then show ?case by (simp add: file_of_def from_name_def)
next
  case (Cons s ss)
  have v: "''examples_enabled'' \<in> set variables" by (simp add: variables_def)
  have f: "file_of (s # ss) = map written (setting_lines s) @ file_of ss" by (simp add: file_of_def)
  show ?case using Cons from_name_skip [OF _ v, of s "file_of ss"] flag_line [OF _ _ v, of s]
    by (cases s) (simp_all add: file_of_def)
qed

lemma tests_read:
  "list_all tidy_setting ss \<Longrightarrow>
   (case from_name ''tests_enabled'' (file_of ss) of [] \<Rightarrow> Inr (VBool False) | k # _ \<Rightarrow> eval_right ev k) = tests_value ev ss"
proof (induction ss)
  case Nil
  then show ?case by (simp add: file_of_def from_name_def)
next
  case (Cons s ss)
  have v: "''tests_enabled'' \<in> set variables" by (simp add: variables_def)
  have f: "file_of (s # ss) = map written (setting_lines s) @ file_of ss" by (simp add: file_of_def)
  show ?case using Cons from_name_skip [OF _ v, of s "file_of ss"] flag_line [OF _ _ v, of s]
    by (cases s) (simp_all add: file_of_def)
qed

text \<open>C38: whatever \<open>.ns3rc\<close> assigns is read back: with settings in any order, comments behind and between them, a list of
  modules that goes on over several lines, blank and foreign lines, the result has the values of the first assignments, with
  the comments left out; a variable that is not assigned has its default, and so has an empty list of modules. The file of the
  current directory wins over the one of the home directory; without any file all values are the defaults. An error
  of the evaluation is the error of the whole. The names of the variables occur only where they are assigned (or
  in comments), and the first closing bracket is at the end of the list.\<close>

theorem config_roundtrip:
  assumes "list_all tidy_setting ss" and "(here, home) \<in> {(Some (file_of ss), h), (None, Some (file_of ss))}"
  shows "read_config_file ev here home =
      bind_e (modules_value ev ss) (\<lambda>modules. bind_e (examples_value ev ss) (\<lambda>examples. bind_e (tests_value ev ss) (\<lambda>tests.
        Inr (True, if truth modules then modules else all_modules, examples, tests))))
    \<and> read_config_file ev None None = Inr (False, all_modules, VBool False, VBool False)"
proof -
  let ?f = "Some (file_of ss)"
  have found: "(case here of None \<Rightarrow> home | Some f \<Rightarrow> Some f) = ?f" using assms(2) by auto
  have "get_list_from_file ev ?f ''modules_enabled'' = modules_value ev ss"
    unfolding list_read by (rule modules_read [OF assms(1)])
  moreover have "get_bool_from_file ev ?f ''examples_enabled'' (VBool False) = examples_value ev ss"
    unfolding bool_read option.case by (rule examples_read [OF assms(1)])
  moreover have "get_bool_from_file ev ?f ''tests_enabled'' (VBool False) = tests_value ev ss"
    unfolding bool_read option.case by (rule tests_read [OF assms(1)])
  moreover have "(if \<not> b then x else y) = (if b then y else x)" for b and x y :: pval by simp
  ultimately show ?thesis unfolding read_config_file_def found by (simp add: Let_def del: if_not_P)
qed

definition sample_eval :: "string \<Rightarrow> pval py" where
  "sample_eval s = (if s = ''True'' then Inr (VBool True) else if s = ''False'' then Inr (VBool False)
     else if s = ''[\"all_modules\"]'' then Inr all_modules
     else if s = ''[\"core\",   \"dash\"]'' then Inr (VList [VStr ''core'', VStr ''dash'']) else Inl NameError)"

text \<open>The file \<open>utils/.ns3rc\<close>, with the other kind of quotes, and one with a longer list.\<close>

definition shipped_ns3rc :: "setting list" where
  "shipped_ns3rc =
     [Other ([], Some ''! /usr/bin/env python''), Other ([], None),
      Other ([], Some '' A list of the modules that will be enabled when ns-3 is run.''),
      Other ([], Some '' Modules that depend on the listed modules will be enabled also.''), Other ([], Some []),
      Other ([], Some '' All modules can be enabled by choosing all_modules.''),
      Modules [('' [\"all_modules\"]'', None)], Other ([], None),
      Other ([], Some '' Set this equal to true if you want examples to be run.''), Examples ('' False'', None), Other ([], None),
      Other ([], Some '' Set this equal to true if you want tests to be run.''), Tests ('' False'', None)]"

definition longer_ns3rc :: "setting list" where
  "longer_ns3rc =
     [Examples ('' True  '', Some '' for now''),
      Modules [('' [\"core\", '', Some '' modules_enabled = []''), (''  \"dash\"]'', Some '' the model'')]]"

theorem config_roundtrip_witness:
  "read_config_file sample_eval (Some (file_of shipped_ns3rc)) None = Inr (True, all_modules, VBool False, VBool False) \<and>
   read_config_file sample_eval None
     (Some [''examples_enabled = True  # for now'' @ [nl],
            ''modules_enabled = [\"core\", # modules_enabled = []'' @ [nl], ''  \"dash\"]# the model'' @ [nl]])
     = Inr (True, VList [VStr ''core'', VStr ''dash''], VBool True, VBool False)"
proof -
  have tidy: "list_all tidy_setting shipped_ns3rc" "list_all tidy_setting longer_ns3rc" by code_simp+
  have vals: "modules_value sample_eval shipped_ns3rc = Inr all_modules" "examples_value sample_eval shipped_ns3rc = Inr (VBool False)"
    "tests_value sample_eval shipped_ns3rc = Inr (VBool False)"
    "modules_value sample_eval longer_ns3rc = Inr (VList [VStr ''core'', VStr ''dash''])"
    "examples_value sample_eval longer_ns3rc = Inr (VBool True)" "tests_value sample_eval longer_ns3rc = Inr (VBool False)"
    by code_simp+
  have lines: "file_of longer_ns3rc = [''examples_enabled = True  # for now'' @ [nl],
      ''modules_enabled = [\"core\", # modules_enabled = []'' @ [nl], ''  \"dash\"]# the model'' @ [nl]]"
    by (simp add: file_of_def longer_ns3rc_def written_def assign_def)
  show ?thesis
    using config_roundtrip [OF tidy(1), of "Some (file_of shipped_ns3rc)" None None sample_eval]
      config_roundtrip [OF tidy(2), of None "Some (file_of longer_ns3rc)" None sample_eval]
    unfolding lines [symmetric] vals by (simp add: all_modules_def)
qed

end
