(* ===== verification/TestJobs.thy ===== *)
theory TestJobs
  imports PyText Ns3rc
begin

text \<open>
  \<open>test.py\<close>: the unit of work of the test driver, the command it runs, and the jobs a run dispatches.
  A process is what it leaves behind: its exit status, its output (with a flag that says whether it can be
  decoded), the time it took, and for a suite the results file it wrote. The messages of \<open>--verbose\<close> are
  not modelled.
\<close>

section \<open>Configuration and options\<close>

text \<open>The variables that \<open>read_waf_config\<close> sets, by their names.\<close>

record tcfg =
  NS3_BASEDIR :: string
  NS3_BUILDDIR :: string
  NS3_MODULE_PATH :: "string list"
  NS3_ENABLED_MODULES :: "string list"
  NS3_ENABLED_CONTRIBUTED_MODULES :: "string list"
  EXAMPLE_DIRECTORIES :: "string list"
  NSC_ENABLED :: bool
  ENABLE_EXAMPLES :: bool
  ENABLE_TESTS :: bool
  ENABLE_PYTHON_BINDINGS :: bool
  APPNAME :: string
  VERSION :: string
  BUILD_PROFILE :: string
  PYTHON :: "string list"
  VALGRIND_FOUND :: bool

text \<open>The options; \<open>list\<close> and \<open>text\<close> are \<open>list_tests\<close> and \<open>text_file\<close> here.\<close>

record opts =
  buildpath :: string
  constrain :: string
  duration :: bool
  example :: string
  update_data :: bool
  fullness :: string
  valgrind :: bool
  kinds :: bool
  list_tests :: bool
  multiple :: bool
  nowaf :: bool
  pyexample :: string
  retain :: bool
  suite :: string
  text_file :: string
  verbose :: bool
  html :: string
  xml :: string

definition default_opts :: opts where
  "default_opts =
     \<lparr>buildpath = [], constrain = [], duration = False, example = [], update_data = False,
      fullness = ''QUICK'', valgrind = False, kinds = False, list_tests = False, multiple = False,
      nowaf = False, pyexample = [], retain = False, suite = [], text_file = [], verbose = False,
      html = [], xml = []\<rparr>"

section \<open>Jobs\<close>

text \<open>The first return code is \<open>False\<close>, which is 0.\<close>

record job =
  is_break :: bool
  is_skip :: bool
  is_example :: bool
  is_pyexample :: bool
  shell_command :: string
  display_name :: string
  basedir :: string
  tempdir :: string
  cwd :: string
  tmp_file_name :: string
  returncode :: int
  elapsed_time :: rat
  build_path :: string

definition new_job :: job where
  "new_job =
     \<lparr>is_break = False, is_skip = False, is_example = False, is_pyexample = False, shell_command = [],
      display_name = [], basedir = [], tempdir = [], cwd = [], tmp_file_name = [], returncode = 0,
      elapsed_time = 0, build_path = []\<rparr>"

definition break_job :: job where
  "break_job = new_job\<lparr>is_break := True\<rparr>"

definition runs_example :: "job \<Rightarrow> bool" where
  "runs_example j \<longleftrightarrow> is_example j \<or> is_pyexample j"

section \<open>Running a command\<close>

record proc =
  proc_rc :: int
  proc_out :: "bool \<times> string"
  proc_err :: "bool \<times> string"
  proc_time :: rat
  proc_xml :: "string option"

definition valgrind_prefix :: "string \<Rightarrow> string" where
  "valgrind_prefix suppressions =
     ''valgrind --suppressions='' @ suppressions @
     '' --leak-check=full --show-reachable=yes --error-exitcode=2 --errors-for-leak-kinds=all ''"

definition job_cmd :: "tcfg \<Rightarrow> string \<Rightarrow> bool \<Rightarrow> bool \<Rightarrow> string \<Rightarrow> string py" where
  "job_cmd cfg command grind is_python bpath =
     bind_e
       (if is_python
        then bind_e (py_get (PYTHON cfg) 0) (\<lambda>py. Inr (py @ '' '' @ path_join (NS3_BASEDIR cfg) command))
        else Inr (path_join (if bpath \<noteq> [] then bpath else NS3_BUILDDIR cfg) command))
       (\<lambda>path_cmd. Inr
         (if grind then valgrind_prefix (path_join (NS3_BASEDIR cfg) ''testpy.supp'') @ path_cmd else path_cmd))"

text \<open>\<open>Popen\<close> may raise; output that cannot be decoded makes the return value 1.\<close>

definition run_job_synchronously ::
    "tcfg \<Rightarrow> string \<Rightarrow> bool \<Rightarrow> bool \<Rightarrow> string \<Rightarrow> proc py \<Rightarrow> (int \<times> string \<times> string \<times> rat) py" where
  "run_job_synchronously cfg command grind is_python bpath popen =
     bind_e (job_cmd cfg command grind is_python bpath) (\<lambda>cmd.
     bind_e popen (\<lambda>p.
       let retval = proc_rc p;
           retval = (if fst (proc_out p) then retval else 1);
           retval = (if fst (proc_err p) then retval else 1)
       in Inr (retval, snd (proc_out p), snd (proc_err p), proc_time p)))"

text \<open>What a worker thread does with a job that is neither a break nor skipped.\<close>

definition suite_args :: "opts \<Rightarrow> job \<Rightarrow> string" where
  "suite_args opt j =
     '' --xml --tempdir='' @ tempdir j @ '' --out='' @ tmp_file_name j @ '' '' @
     (if update_data opt then ''--update-data'' else [])"

definition run_worker_job :: "tcfg \<Rightarrow> opts \<Rightarrow> job \<Rightarrow> proc py \<Rightarrow> job py" where
  "run_worker_job cfg opt j popen =
     bind_e
       (if runs_example j
        then run_job_synchronously cfg (shell_command j) (valgrind opt) (is_pyexample j) (build_path j) popen
        else run_job_synchronously cfg (shell_command j @ suite_args opt j) (valgrind opt) False [] popen)
       (\<lambda>(rc, out, err, et). Inr (j\<lparr>returncode := rc, elapsed_time := et\<rparr>))"

section \<open>Dispatching\<close>

definition core_valgrind_skip_tests :: "string list" where
  "core_valgrind_skip_tests =
     [''ns3-tcp-cwnd'', ''nsc-tcp-loss'', ''ns3-tcp-interoperability'', ''routing-click'',
      ''lte-rr-ff-mac-scheduler'', ''lte-tdmt-ff-mac-scheduler'', ''lte-fdmt-ff-mac-scheduler'',
      ''lte-pf-ff-mac-scheduler'', ''lte-tta-ff-mac-scheduler'', ''lte-fdbet-ff-mac-scheduler'',
      ''lte-ttbet-ff-mac-scheduler'', ''lte-fdtbfq-ff-mac-scheduler'', ''lte-tdtbfq-ff-mac-scheduler'',
      ''lte-pss-ff-mac-scheduler'']"

definition core_nsc_missing_skip_tests :: "string list" where
  "core_nsc_missing_skip_tests = [''ns3-tcp-cwnd'', ''nsc-tcp-loss'', ''ns3-tcp-interoperability'']"

definition profile_suffix :: "tcfg \<Rightarrow> string" where
  "profile_suffix cfg = (if BUILD_PROFILE cfg = ''release'' then [] else ''-'' @ BUILD_PROFILE cfg)"

definition program_name :: "tcfg \<Rightarrow> string \<Rightarrow> string" where
  "program_name cfg name = APPNAME cfg @ VERSION cfg @ ''-'' @ name @ profile_suffix cfg"

definition test_runner_name :: "tcfg \<Rightarrow> string" where
  "test_runner_name cfg = program_name cfg ''test-runner''"

text \<open>One suite; \<open>outdir\<close> is \<open>testpy_output_dir\<close> and \<open>here\<close> the working directory.\<close>

definition suite_command :: "tcfg \<Rightarrow> opts \<Rightarrow> string \<Rightarrow> string" where
  "suite_command cfg opt test =
     path_join ''utils''
       (test_runner_name cfg @ '' --test-name='' @ test @
        (if multiple opt then [] else '' --stop-on-failure'') @
        (if fullness opt \<noteq> [] then '' --fullness='' @ upper (fullness opt) else '' --fullness=QUICK''))"

definition suite_job :: "tcfg \<Rightarrow> opts \<Rightarrow> string \<Rightarrow> string \<Rightarrow> string \<Rightarrow> job" where
  "suite_job cfg opt outdir here test =
     new_job\<lparr>display_name := test, tmp_file_name := path_join outdir (test @ ''.xml''), cwd := here,
       basedir := here, tempdir := outdir, shell_command := suite_command cfg opt test,
       is_skip := (valgrind opt \<and> test \<in> set core_valgrind_skip_tests) \<or>
                  (\<not> NSC_ENABLED cfg \<and> test \<in> set core_nsc_missing_skip_tests)\<rparr>"

definition suite_jobs :: "tcfg \<Rightarrow> opts \<Rightarrow> string \<Rightarrow> string \<Rightarrow> string list \<Rightarrow> job py list" where
  "suite_jobs cfg opt outdir here suites =
     map (\<lambda>t. Inr (suite_job cfg opt outdir here t)) (filter (\<lambda>t. t \<noteq> []) (map strip suites))"

text \<open>
  The examples. A condition is evaluated by \<open>ev\<close>, and may raise: the list of dispatched jobs then
  ends with the error. \<open>programs\<close> is \<open>ns3_runnable_programs_dictionary\<close>.
\<close>

definition plain_name :: "string \<Rightarrow> string" where
  "plain_name test = basename (fst (split_once (CHR '' '') test))"

type_synonym example_test = "string \<times> string \<times> string \<times> string"

definition example_job :: "opts \<Rightarrow> string \<Rightarrow> string \<Rightarrow> string \<Rightarrow> string \<Rightarrow> job" where
  "example_job opt outdir here name test =
     new_job\<lparr>is_example := True, display_name := name, cwd := outdir, basedir := here, tempdir := outdir,
       shell_command := test, build_path := buildpath opt\<rparr>"

definition example_entry ::
    "(string \<Rightarrow> pval py) \<Rightarrow> opts \<Rightarrow> string \<Rightarrow> string \<Rightarrow> (string \<rightharpoonup> string) \<Rightarrow> example_test \<Rightarrow> job option py" where
  "example_entry ev opt outdir here programs = (\<lambda>(name, test, do_run, do_valgrind_run).
     if programs (plain_name test) = None then Inr None
     else bind_e (ev do_run) (\<lambda>run.
       if \<not> truth run then Inr None
       else bind_e (if valgrind opt then bind_e (ev do_valgrind_run) (\<lambda>v. Inr (\<not> truth v)) else Inr False)
         (\<lambda>skip. Inr (Some ((example_job opt outdir here name test)\<lparr>is_skip := skip\<rparr>)))))"

fun entries :: "('a \<Rightarrow> job option py) \<Rightarrow> 'a list \<Rightarrow> job py list" where
  "entries f [] = []"
| "entries f (x # xs) =
     (case f x of Inl e \<Rightarrow> [Inl e] | Inr None \<Rightarrow> entries f xs | Inr (Some j) \<Rightarrow> Inr j # entries f xs)"

definition all_default :: "opts \<Rightarrow> bool" where
  "all_default opt \<longleftrightarrow> suite opt = [] \<and> example opt = [] \<and> pyexample opt = []"

definition example_jobs ::
    "(string \<Rightarrow> pval py) \<Rightarrow> tcfg \<Rightarrow> opts \<Rightarrow> string \<Rightarrow> string \<Rightarrow> (string \<rightharpoonup> string) \<Rightarrow> example_test list \<Rightarrow>
      job py list" where
  "example_jobs ev cfg opt outdir here programs example_tests =
     (if all_default opt
      then (if (constrain opt = [] \<or> constrain opt = ''example'') \<and> ENABLE_EXAMPLES cfg
            then entries (example_entry ev opt outdir here programs) example_tests else [])
      else if example opt \<noteq> []
      then (case programs (program_name cfg (example opt)) of
              None \<Rightarrow> []
            | Some p \<Rightarrow> let p = abspath here p in [Inr (example_job opt outdir here p p)])
      else [])"

definition pyexample_job :: "string \<Rightarrow> string \<Rightarrow> string \<Rightarrow> job" where
  "pyexample_job outdir here test =
     new_job\<lparr>is_pyexample := True, display_name := test, cwd := outdir, basedir := here, tempdir := outdir,
       shell_command := test\<rparr>"

definition pyexample_entry ::
    "(string \<Rightarrow> pval py) \<Rightarrow> tcfg \<Rightarrow> opts \<Rightarrow> string \<Rightarrow> string \<Rightarrow> string list \<Rightarrow> string \<times> string \<Rightarrow>
      job option py" where
  "pyexample_entry ev cfg opt outdir here scripts = (\<lambda>(test, do_run).
     if plain_name test \<notin> set scripts then Inr None
     else bind_e (ev do_run) (\<lambda>run.
       if \<not> truth run then Inr None
       else Inr (Some ((pyexample_job outdir here test)
              \<lparr>is_skip := valgrind opt \<or> \<not> ENABLE_PYTHON_BINDINGS cfg\<rparr>))))"

definition pyexample_jobs ::
    "(string \<Rightarrow> pval py) \<Rightarrow> tcfg \<Rightarrow> opts \<Rightarrow> string \<Rightarrow> string \<Rightarrow> string list \<Rightarrow> (string \<times> string) list \<Rightarrow>
      job py list" where
  "pyexample_jobs ev cfg opt outdir here scripts python_tests =
     (if all_default opt
      then (if (constrain opt = [] \<or> constrain opt = ''pyexample'') \<and> ENABLE_EXAMPLES cfg
            then entries (pyexample_entry ev cfg opt outdir here scripts) python_tests else [])
      else if pyexample opt \<noteq> []
      then (if basename (pyexample opt) \<in> set scripts
            then [Inr (pyexample_job outdir here (pyexample opt))] else [])
      else [])"

text \<open>The three loops; the thread that runs them ends at the first error.\<close>

definition dispatch ::
    "(string \<Rightarrow> pval py) \<Rightarrow> tcfg \<Rightarrow> opts \<Rightarrow> string \<Rightarrow> string \<Rightarrow> (string \<rightharpoonup> string) \<Rightarrow> string list \<Rightarrow>
      string list \<Rightarrow> example_test list \<Rightarrow> (string \<times> string) list \<Rightarrow> job py list" where
  "dispatch ev cfg opt outdir here programs scripts suites example_tests python_tests =
     suite_jobs cfg opt outdir here suites @
     example_jobs ev cfg opt outdir here programs example_tests @
     pyexample_jobs ev cfg opt outdir here scripts python_tests"

end
