(* ===== verification/TestSetup.thy ===== *)
theory TestSetup
  imports TestJobs
begin

text \<open>
  \<open>test.py\<close> before the first thread starts: reading the configuration of waf, the environment, the lists of
  examples, the suites to run and the listing options. The files are a function from paths to lines, \<open>ev\<close>
  is Python's \<open>eval\<close>, and \<open>exec_line\<close> runs one assignment of the waf cache on the variables.
\<close>

section \<open>The configuration of waf\<close>

definition interesting_config_items :: "string list" where
  "interesting_config_items =
     [''NS3_ENABLED_MODULES'', ''NS3_ENABLED_CONTRIBUTED_MODULES'', ''NS3_MODULE_PATH'', ''NSC_ENABLED'',
      ''ENABLE_REAL_TIME'', ''ENABLE_THREADING'', ''ENABLE_EXAMPLES'', ''ENABLE_TESTS'', ''EXAMPLE_DIRECTORIES'',
      ''ENABLE_PYTHON_BINDINGS'', ''NSCLICK'', ''ENABLE_BRITE'', ''ENABLE_OPENFLOW'', ''APPNAME'',
      ''BUILD_PROFILE'', ''VERSION'', ''PYTHON'', ''VALGRIND_FOUND'']"

text \<open>\<open>key, val = line.split('=')\<close>, then \<open>eval(val.strip())\<close>.\<close>

definition eval_assignment :: "(string \<Rightarrow> string py) \<Rightarrow> string \<Rightarrow> string py" where
  "eval_assignment ev line =
     (case split_on (CHR ''='') line of [key, val] \<Rightarrow> ev (strip val) | _ \<Rightarrow> Inl ValueError)"

fun lock_loop ::
    "(string \<Rightarrow> string py) \<Rightarrow> string option \<Rightarrow> string option \<Rightarrow> string list \<Rightarrow> (string option \<times> string option) py" where
  "lock_loop ev top_dir out_dir [] = Inr (top_dir, out_dir)"
| "lock_loop ev top_dir out_dir (line # lines) =
     bind_e (if starts_with line ''top_dir ='' then bind_e (eval_assignment ev line) (\<lambda>v. Inr (Some v)) else Inr top_dir)
       (\<lambda>top_dir.
     bind_e (if starts_with line ''out_dir ='' then bind_e (eval_assignment ev line) (\<lambda>v. Inr (Some v)) else Inr out_dir)
       (\<lambda>out_dir. lock_loop ev top_dir out_dir lines))"

definition bound :: "'a option \<Rightarrow> 'a py" where
  "bound x = (case x of None \<Rightarrow> Inl UnboundLocalError | Some v \<Rightarrow> Inr v)"

definition exec_cache_line :: "(string \<Rightarrow> 'g \<Rightarrow> 'g py) \<Rightarrow> 'g \<Rightarrow> string \<Rightarrow> 'g py" where
  "exec_cache_line exec_line g line =
     fold_e (\<lambda>g item. if starts_with line item then exec_line line g else Inr g) g interesting_config_items"

definition read_waf_config ::
    "(string \<Rightarrow> string py) \<Rightarrow> (string \<Rightarrow> 'g \<Rightarrow> 'g py) \<Rightarrow> (string \<rightharpoonup> string list) \<Rightarrow> string \<Rightarrow> 'g \<Rightarrow>
      (string \<times> string \<times> 'g) py" where
  "read_waf_config ev exec_line file platform g =
     (case file (''.lock-waf_'' @ platform @ ''_build'') of
        None \<Rightarrow> Inl IOError
      | Some lock \<Rightarrow>
          bind_e (lock_loop ev None None lock) (\<lambda>(top_dir, out_dir).
          bind_e (bound top_dir) (\<lambda>basedir.
          bind_e (bound out_dir) (\<lambda>builddir.
            (case file (builddir @ ''/c4che/_cache.py'') of
               None \<Rightarrow> Inl IOError
             | Some cache \<Rightarrow>
                 bind_e (fold_e (exec_cache_line exec_line) g cache) (\<lambda>g. Inr (basedir, builddir, g)))))))"

section \<open>The environment\<close>

definition append_paths :: "string \<Rightarrow> string \<Rightarrow> string list \<Rightarrow> string" where
  "append_paths sep start paths = foldl (\<lambda>v p. v @ sep @ p) start paths"

text \<open>A variable that is not set starts empty; every path is appended behind a separator.\<close>

definition extend_var :: "string \<Rightarrow> string \<Rightarrow> string list \<Rightarrow> (string \<rightharpoonup> string) \<Rightarrow> (string \<rightharpoonup> string)" where
  "extend_var name sep paths env =
     env(name \<mapsto> append_paths sep (case env name of None \<Rightarrow> [] | Some v \<Rightarrow> v) paths)"

definition make_paths :: "tcfg \<Rightarrow> string \<Rightarrow> (string \<rightharpoonup> string) \<Rightarrow> (string \<rightharpoonup> string)" where
  "make_paths cfg platform env =
     (let have_PYTHONPATH = (env ''PYTHONPATH'' \<noteq> None);
          pypath = path_join (path_join (NS3_BUILDDIR cfg) ''bindings'') ''python'';
          env = env(''PYTHONPATH'' \<mapsto> pypath);
          env = (if \<not> have_PYTHONPATH then env(''PYTHONPATH'' \<mapsto> pypath)
                 else env(''PYTHONPATH'' \<mapsto> the (env ''PYTHONPATH'') @ '':'' @ pypath))
      in if platform = ''darwin'' then extend_var ''DYLD_LIBRARY_PATH'' '':'' (NS3_MODULE_PATH cfg) env
         else if platform = ''win32'' then extend_var ''PATH'' '';'' (NS3_MODULE_PATH cfg) env
         else if platform = ''cygwin'' then extend_var ''PATH'' '':'' (NS3_MODULE_PATH cfg) env
         else extend_var ''LD_LIBRARY_PATH'' '':'' (NS3_MODULE_PATH cfg) env)"

definition library_variable :: "string \<Rightarrow> string" where
  "library_variable platform =
     (if platform = ''darwin'' then ''DYLD_LIBRARY_PATH''
      else if platform = ''win32'' \<or> platform = ''cygwin'' then ''PATH'' else ''LD_LIBRARY_PATH'')"

lemma append_paths_eq: "append_paths sep start paths = start @ concat (map (\<lambda>p. sep @ p) paths)"
  by (induction paths arbitrary: start) (simp_all add: append_paths_def)

section \<open>The lists of examples\<close>

text \<open>The entries of the lists are tuples of texts.\<close>

definition text_of :: "pval \<Rightarrow> string py" where
  "text_of v = (case v of VStr s \<Rightarrow> Inr s | _ \<Rightarrow> Inl AttributeError)"

definition unpack :: "nat \<Rightarrow> pval \<Rightarrow> string list py" where
  "unpack n v =
     (case v of
        VList xs \<Rightarrow> if length xs = n then fold_e (\<lambda>acc x. bind_e (text_of x) (\<lambda>s. Inr (acc @ [s]))) [] xs
                    else Inl ValueError
      | VStr s \<Rightarrow> if length s = n then Inr (map (\<lambda>c. [c]) s) else Inl ValueError
      | _ \<Rightarrow> Inl TypeError)"

definition list_items :: "pval \<Rightarrow> pval list py" where
  "list_items v = (case v of VList xs \<Rightarrow> Inr xs | VStr s \<Rightarrow> Inr (map (\<lambda>c. VStr [c]) s) | _ \<Rightarrow> Inl TypeError)"

definition with_args :: "string \<Rightarrow> string option \<Rightarrow> string" where
  "with_args name args = (case args of None \<Rightarrow> name | Some a \<Rightarrow> name @ '' '' @ a)"

type_synonym example_lists = "example_test list \<times> string list \<times> (string \<times> string) list"

definition add_cpp ::
    "tcfg \<Rightarrow> string \<Rightarrow> (string \<Rightarrow> bool) \<Rightarrow> string \<Rightarrow> example_lists \<Rightarrow> pval \<Rightarrow> example_lists py" where
  "add_cpp cfg here exists_path cpp_dir = (\<lambda>(tests, names, pys) v.
     bind_e (unpack 3 v) (\<lambda>ss.
       let original = ss ! 0; (name, args) = split_once (CHR '' '') original;
           example_path = path_join cpp_dir (program_name cfg name);
           example_name = path_join (relpath here cpp_dir (NS3_BUILDDIR cfg)) name
       in if exists_path example_path
          then Inr (tests @ [(with_args example_name args, with_args example_path args, ss ! 1, ss ! 2)],
                    names @ [original], pys)
          else Inr (tests, names, pys)))"

definition add_python :: "(string \<Rightarrow> bool) \<Rightarrow> string \<Rightarrow> example_lists \<Rightarrow> pval \<Rightarrow> example_lists py" where
  "add_python exists_path script_dir = (\<lambda>(tests, names, pys) v.
     bind_e (unpack 2 v) (\<lambda>ss.
       let (name, args) = split_once (CHR '' '') (ss ! 0);
           example_path = path_join script_dir name
       in if exists_path example_path then Inr (tests, names, pys @ [(with_args example_path args, ss ! 1)])
          else Inr (tests, names, pys)))"

definition parse_examples_to_run_file ::
    "(string \<Rightarrow> pval py) \<Rightarrow> tcfg \<Rightarrow> string \<Rightarrow> (string \<rightharpoonup> string list) \<Rightarrow> (string \<Rightarrow> bool) \<Rightarrow>
      string \<Rightarrow> string \<Rightarrow> string \<Rightarrow> example_lists \<Rightarrow> example_lists py" where
  "parse_examples_to_run_file ev cfg here file exists_path path cpp_dir script_dir ls =
     (case file path of
        None \<Rightarrow> Inr ls
      | Some lines \<Rightarrow>
          bind_e (get_list_from_file ev (Some lines) ''cpp_examples'') (\<lambda>v.
          bind_e (list_items v) (\<lambda>cpps.
          bind_e (fold_e (add_cpp cfg here exists_path cpp_dir) ls cpps) (\<lambda>ls.
          bind_e (get_list_from_file ev (Some lines) ''python_examples'') (\<lambda>v.
          bind_e (list_items v) (\<lambda>pys. fold_e (add_python exists_path script_dir) ls pys))))))"

text \<open>The directories of a run: \<open>examples\<close>, the modules and the contributed modules.\<close>

definition example_dirs :: "tcfg \<Rightarrow> (string \<times> string \<times> string) list" where
  "example_dirs cfg =
     map (\<lambda>d. let e = path_join ''examples'' d
              in (path_join e ''examples-to-run.py'', path_join (NS3_BUILDDIR cfg) e, e)) (EXAMPLE_DIRECTORIES cfg) @
     map (\<lambda>m. let d = path_join ''src'' (drop 4 m); e = path_join d ''examples''
              in (path_join (path_join d ''test'') ''examples-to-run.py'', path_join (NS3_BUILDDIR cfg) e, e))
       (NS3_ENABLED_MODULES cfg) @
     map (\<lambda>m. let d = path_join ''contrib'' (drop 4 m); e = path_join d ''examples''
              in (path_join (path_join d ''test'') ''examples-to-run.py'', path_join (NS3_BUILDDIR cfg) e, e))
       (NS3_ENABLED_CONTRIBUTED_MODULES cfg)"

definition collect_examples ::
    "(string \<Rightarrow> pval py) \<Rightarrow> tcfg \<Rightarrow> string \<Rightarrow> (string \<rightharpoonup> string list) \<Rightarrow> (string \<Rightarrow> bool) \<Rightarrow> example_lists py" where
  "collect_examples ev cfg here file exists_path =
     fold_e (\<lambda>ls (path, cpp_dir, script_dir).
       parse_examples_to_run_file ev cfg here file exists_path path cpp_dir script_dir ls)
       ([], [], []) (example_dirs cfg)"

definition programs_dictionary :: "string list \<Rightarrow> (string \<rightharpoonup> string)" where
  "programs_dictionary programs = foldl (\<lambda>m p. m(basename p \<mapsto> p)) Map.empty programs"

section \<open>Building and listing\<close>

definition core_kinds :: "string list" where
  "core_kinds = [''bvt'', ''core'', ''performance'', ''system'', ''unit'']"

definition waf_cmd :: "string \<Rightarrow> opts \<Rightarrow> string" where
  "waf_cmd interpreter opt =
     (if kinds opt \<or> list_tests opt \<or> (constrain opt \<noteq> [] \<and> constrain opt \<in> set core_kinds)
      then interpreter @ '' waf --target=test-runner''
      else if example opt \<noteq> [] then interpreter @ '' waf --target='' @ basename (example opt)
      else interpreter @ '' waf'')"

section \<open>The suites\<close>

text \<open>
  \<open>names\<close> is what \<open>test-runner --print-test-name-list\<close> prints, for one kind of test or for all. The result also
  says whether a suite was requested.
\<close>

definition chosen_suites :: "opts \<Rightarrow> (string option \<Rightarrow> string py) \<Rightarrow> (string list \<times> bool) py" where
  "chosen_suites opt names =
     (if suite opt \<noteq> []
      then bind_e (names None) (\<lambda>suites.
        if suite opt \<in> set (split_on nl suites) then Inr (split_on nl (suite opt @ [nl]), True)
        else Inl (SystemExit 2))
      else if example opt = [] \<and> pyexample opt = []
      then bind_e (names (if constrain opt \<noteq> [] then Some (constrain opt) else None)) (\<lambda>suites.
        Inr (split_on nl suites, False))
      else Inr (split_on nl [], False))"

definition suite_list :: "opts \<Rightarrow> (string option \<Rightarrow> string py) \<Rightarrow> string list py" where
  "suite_list opt names =
     bind_e (chosen_suites opt names) (\<lambda>(suites, single_suite).
       if \<not> single_suite \<and> constrain opt \<noteq> ''performance''
       then bind_e (names (Some ''performance'')) (\<lambda>performance.
         Inr (foldl (\<lambda>ss p. if p \<in> set ss then remove1 p ss else ss) suites (split_on nl performance)))
       else Inr suites)"

section \<open>What the setup gives\<close>

text \<open>\<open>make_paths\<close> changes two variables. The variable of the platform keeps its value and gets the
  module paths appended; \<open>PYTHONPATH\<close> loses the value it had, and when it had one it holds the path of the
  bindings twice.\<close>

theorem make_paths_env:
  "make_paths cfg platform env v =
     (let pypath = path_join (path_join (NS3_BUILDDIR cfg) ''bindings'') ''python'' in
      if v = ''PYTHONPATH''
      then Some (case env v of None \<Rightarrow> pypath | Some _ \<Rightarrow> pypath @ '':'' @ pypath)
      else if v = library_variable platform
      then Some ((case env v of None \<Rightarrow> [] | Some old \<Rightarrow> old) @
                 concat (map (\<lambda>p. (if platform = ''win32'' then '';'' else '':'') @ p) (NS3_MODULE_PATH cfg)))
      else env v)"
proof -
  define pypath where "pypath = path_join (path_join (NS3_BUILDDIR cfg) ''bindings'') ''python''"
  define env' where "env' = env(''PYTHONPATH'' \<mapsto>
    (case env ''PYTHONPATH'' of None \<Rightarrow> pypath | Some _ \<Rightarrow> pypath @ '':'' @ pypath))"
  have m: "make_paths cfg platform env =
      extend_var (library_variable platform) (if platform = ''win32'' then '';'' else '':'') (NS3_MODULE_PATH cfg) env'"
    by (cases "env ''PYTHONPATH''")
      (simp_all add: make_paths_def env'_def pypath_def Let_def library_variable_def)
  have l: "library_variable platform \<noteq> ''PYTHONPATH''" by (simp add: library_variable_def)
  show ?thesis
  proof (cases "v = ''PYTHONPATH''")
    case True
    then show ?thesis using l by (simp add: m extend_var_def env'_def pypath_def [symmetric] Let_def)
  next
    case False
    then show ?thesis by (simp add: m extend_var_def env'_def append_paths_eq Let_def)
  qed
qed

lemma remove_performance:
  "distinct ss \<Longrightarrow> foldl (\<lambda>ss p. if p \<in> set ss then remove1 p ss else ss) ss ps = filter (\<lambda>s. s \<notin> set ps) ss"
proof (induction ps arbitrary: ss)
  case (Cons p ps)
  have "(if p \<in> set ss then remove1 p ss else ss) = filter (\<lambda>s. s \<noteq> p) ss"
  proof (cases "p \<in> set ss")
    case True
    then show ?thesis using Cons.prems
      by (simp add: distinct_remove1_removeAll removeAll_filter_not_eq) (metis (full_types))
  next
    case False
    then show ?thesis by (metis (mono_tags, lifting) filter_True)
  qed
  then show ?case using Cons by (simp add: conj_commute)
qed simp

lemma suite_jobs_names:
  "map (\<lambda>j. display_name (projr j)) (suite_jobs cfg opt outdir here ss) = filter (\<lambda>s. s \<noteq> []) (map strip ss)"
  by (simp add: suite_jobs_def comp_def suite_job_def new_job_def)

lemma split_on_snoc: "c \<notin> set s \<Longrightarrow> split_on c (s @ [c]) = [s, []]"
  by (induction s) auto

text \<open>C23: a suite that is requested is the only one, even when it is a performance suite, and the run ends with
  status 2 exactly when the test runner does not know it. Otherwise, when no example is requested, the suites of the
  requested kind are dispatched in the order of the list, without the performance suites unless these were asked for.\<close>

theorem suites_dispatched:
  assumes "nl \<notin> set (suite opt)" and "strip (suite opt) = suite opt"
    and "distinct (split_on nl (names (if constrain opt \<noteq> [] then Some (constrain opt) else None)))"
  shows "if suite opt \<noteq> [] \<and> suite opt \<notin> set (split_on nl (names None))
         then suite_list opt (\<lambda>k. Inr (names k)) = Inl (SystemExit 2)
         else \<exists>ss. suite_list opt (\<lambda>k. Inr (names k)) = Inr ss \<and>
              map (\<lambda>j. display_name (projr j)) (suite_jobs cfg opt outdir here ss) =
                (if suite opt \<noteq> [] then [suite opt]
                 else if example opt \<noteq> [] \<or> pyexample opt \<noteq> [] then []
                 else filter (\<lambda>s. s \<noteq> []) (map strip (filter
                   (\<lambda>s. constrain opt = ''performance'' \<or> s \<notin> set (split_on nl (names (Some ''performance''))))
                   (split_on nl (names (if constrain opt \<noteq> [] then Some (constrain opt) else None))))))"
proof (cases "suite opt = []")
  case False
  then show ?thesis using assms(1,2)
    by (simp add: suite_list_def chosen_suites_def split_on_snoc suite_jobs_names strip_def lstrip_def rstrip_def)
next
  case True
  show ?thesis
  proof (cases "example opt = [] \<and> pyexample opt = []")
    case True
    then show ?thesis using \<open>suite opt = []\<close> assms(3)
      by (simp add: suite_list_def chosen_suites_def suite_jobs_names remove_performance)
  next
    case False
    have "distinct ([[]] :: string list)" by simp
    from remove_performance [OF this] have
      "foldl (\<lambda>ss p. if p \<in> set ss then remove1 p ss else ss) [[]] ps = filter (\<lambda>s. s \<notin> set ps) [[]]" for ps :: "string list" .
    then show ?thesis using \<open>suite opt = []\<close> False
      by (auto simp: strip_def lstrip_def rstrip_def suite_list_def chosen_suites_def suite_jobs_names)
  qed
qed

definition built_cfg :: tcfg where
  "built_cfg =
     \<lparr>NS3_BASEDIR = ''/n'', NS3_BUILDDIR = ''/n/build'', NS3_MODULE_PATH = [], NS3_ENABLED_MODULES = [],
      NS3_ENABLED_CONTRIBUTED_MODULES = [], EXAMPLE_DIRECTORIES = [''udp''], NSC_ENABLED = False,
      ENABLE_EXAMPLES = True, ENABLE_TESTS = True, ENABLE_PYTHON_BINDINGS = True, APPNAME = ''ns'',
      VERSION = ''3'', BUILD_PROFILE = ''debug'', PYTHON = [], VALGRIND_FOUND = True\<rparr>"

definition demo_names :: "string option \<Rightarrow> string" where
  "demo_names k = (if k = None then ''a'' @ [nl] @ ''slow'' @ [nl] else ''slow'' @ [nl])"

definition one_suite :: "string \<Rightarrow> opts" where
  "one_suite n = default_opts\<lparr>suite := n\<rparr>"

theorem suites_dispatched_witness:
  "(\<exists>ss. suite_list default_opts (\<lambda>k. Inr (demo_names k)) = Inr ss \<and>
     map (\<lambda>j. display_name (projr j)) (suite_jobs built_cfg default_opts ''out'' ''/n'' ss) = [''a'']) \<and>
   (\<exists>ss. suite_list (one_suite ''slow'') (\<lambda>k. Inr (demo_names k)) = Inr ss \<and>
     map (\<lambda>j. display_name (projr j)) (suite_jobs built_cfg (one_suite ''slow'') ''out'' ''/n'' ss) = [''slow'']) \<and>
   suite_list (one_suite ''b'') (\<lambda>k. Inr (demo_names k)) = Inl (SystemExit 2)"
proof -
  have o: "suite default_opts = []" "example default_opts = []" "pyexample default_opts = []" "constrain default_opts = []"
    by (simp_all add: default_opts_def)
  have s: "suite (one_suite n) = n" "constrain (one_suite n) = []" for n by (simp_all add: one_suite_def o)
  have d: "distinct (split_on nl (demo_names None))" "strip [] = []" "strip ''slow'' = ''slow''" "strip ''b'' = ''b''"
    "split_on nl (demo_names None) = [''a'', ''slow'', []]" "nl \<notin> set ''slow''" "nl \<notin> set ''b''"
    "filter (\<lambda>s. s \<noteq> []) (map strip (filter (\<lambda>s. s \<notin> set (split_on nl (demo_names (Some ''performance''))))
       (split_on nl (demo_names None)))) = [''a'']" by code_simp+
  show ?thesis
    using suites_dispatched [of default_opts demo_names built_cfg "''out''" "''/n''"]
      suites_dispatched [of "one_suite ''slow''" demo_names built_cfg "''out''" "''/n''"]
      suites_dispatched [of "one_suite ''b''" demo_names built_cfg "''out''" "''/n''"] o s d by simp
qed

lemma split_once_args: "c \<notin> set s \<Longrightarrow> split_once c (case a of None \<Rightarrow> s | Some r \<Rightarrow> s @ c # r) = (s, a)"
proof -
  assume c: "c \<notin> set s"
  then have tw: "takeWhile (\<lambda>d. d \<noteq> c) s = s" "dropWhile (\<lambda>d. d \<noteq> c) s = []"
    by (auto simp: takeWhile_eq_all_conv dropWhile_eq_Nil_conv)
  have "takeWhile (\<lambda>d. d \<noteq> c) (s @ c # r) = s" "dropWhile (\<lambda>d. d \<noteq> c) (s @ c # r) = c # r" for r
    using c by (subst takeWhile_append2 dropWhile_append2; auto)+
  then show ?thesis unfolding split_once_def by (cases a) (simp_all add: tw del: dropWhile_eq_Nil_conv)
qed

lemma split_once_with_args: "CHR '' '' \<notin> set s \<Longrightarrow> split_once (CHR '' '') (with_args s a) = (s, a)"
  using split_once_args [of "CHR '' ''" s a] by (simp add: with_args_def split: option.splits)

lemma basename_path_join:
  assumes "CHR ''/'' \<notin> set n" and "d \<noteq> []"
  shows "basename (path_join d n) = n"
proof -
  have "\<not> prefix ''/'' n" using assms(1) by (auto simp: prefix_def)
  then have "path_join d n = (if last d = CHR ''/'' then d else d @ ''/'') @ n"
    using assms(2) by (simp add: path_join_def)
  then obtain a where "path_join d n = a @ n" "a \<noteq> []" "last a = CHR ''/''"
    using assms(2) by (cases "last d = CHR ''/''") auto
  moreover have "takeWhile (\<lambda>c. c \<noteq> CHR ''/'') (rev a) = []"
    using \<open>a \<noteq> []\<close> \<open>last a = CHR ''/''\<close> by (cases a rule: rev_cases) auto
  moreover have "takeWhile (\<lambda>c. c \<noteq> CHR ''/'') (rev n @ rev a) = rev n @ takeWhile (\<lambda>c. c \<noteq> CHR ''/'') (rev a)"
    using assms(1) by (intro takeWhile_append2) auto
  ultimately show ?thesis by (simp add: basename_def)
qed

lemma path_join_chars: "c \<in> set (path_join d n) \<Longrightarrow> c \<in> set d \<or> c \<in> set n \<or> c = CHR ''/''"
  by (auto simp: path_join_def split: if_splits)

text \<open>C22: an entry of an \<open>examples-to-run.py\<close> that was built, is runnable and has a true condition is
  dispatched, and its worker runs the executable of the example with the arguments of the entry, provided
  that the build directory is absolute and neither it nor the names contain a blank or the name a slash.\<close>

theorem example_command:
  assumes built: "exists_path (path_join cpp_dir (program_name cfg name))"
    and runnable: "programs (program_name cfg name) = Some p"
    and run: "ev do_run = Inr r" "truth r" and opt: "\<not> valgrind opt" "buildpath opt = []"
    and dir: "prefix ''/'' cpp_dir" "CHR '' '' \<notin> set cpp_dir"
    and names: "CHR '' '' \<notin> set name" "CHR '' '' \<notin> set (program_name cfg name)" "CHR ''/'' \<notin> set (program_name cfg name)"
  shows "\<exists>e j. add_cpp cfg here exists_path cpp_dir ls (VList [VStr (with_args name args), VStr do_run, VStr do_grind]) =
      Inr (fst ls @ [e], fst (snd ls) @ [with_args name args], snd (snd ls)) \<and>
    example_entry ev opt outdir here programs e = Inr (Some j) \<and>
    job_cmd cfg (shell_command j) (valgrind opt) (is_pyexample j) (build_path j) =
      Inr (with_args (path_join cpp_dir (program_name cfg name)) args)"
proof -
  let ?path = "path_join cpp_dir (program_name cfg name)"
  let ?e = "(with_args (path_join (relpath here cpp_dir (NS3_BUILDDIR cfg)) name) args, with_args ?path args, do_run, do_grind)"
  let ?j = "(example_job opt outdir here (fst ?e) (with_args ?path args))\<lparr>is_skip := False\<rparr>"
  have ne: "cpp_dir \<noteq> []" using dir(1) by auto
  have np: "\<not> prefix ''/'' (program_name cfg name)" using names(3) by (auto simp: prefix_def)
  have blank: "CHR '' '' \<notin> set ?path" using path_join_chars [of "CHR '' ''" cpp_dir "program_name cfg name"] dir names by auto
  have plain: "plain_name (with_args ?path args) = program_name cfg name"
    by (simp add: plain_name_def split_once_with_args [OF blank] basename_path_join names(3) ne)
  have abs: "prefix ''/'' (with_args ?path args)"
    using dir(1) np ne by (auto simp: with_args_def path_join_def prefix_def split: option.splits)
  have "add_cpp cfg here exists_path cpp_dir ls (VList [VStr (with_args name args), VStr do_run, VStr do_grind]) =
      Inr (fst ls @ [?e], fst (snd ls) @ [with_args name args], snd (snd ls))"
    using built by (cases ls) (simp add: add_cpp_def unpack_def text_of_def split_once_with_args [OF names(1)] numeral_3_eq_3)
  moreover have "example_entry ev opt outdir here programs ?e = Inr (Some ?j)"
    using runnable run opt by (simp add: example_entry_def plain)
  moreover have "job_cmd cfg (shell_command ?j) (valgrind opt) (is_pyexample ?j) (build_path ?j) = Inr (with_args ?path args)"
    using opt abs by (simp add: job_cmd_def example_job_def new_job_def path_join_def)
  ultimately show ?thesis by blast
qed

text \<open>A blank in the build directory: the name that is looked up is a part of the directory.\<close>

lemma blank_in_build_directory:
  "CHR '' '' \<notin> set d \<Longrightarrow> plain_name (path_join (d @ '' '' @ d') n) = basename d \<or> prefix ''/'' n"
  by (auto simp: plain_name_def split_once_def path_join_def takeWhile_append takeWhile_eq_all_conv)

theorem example_command_witness:
  "\<exists>e j. add_cpp built_cfg ''/n'' (\<lambda>p. True) ''/n/build/examples/udp'' ([], [], [])
        (VList [VStr ''udp-echo --v=1'', VStr ''True'', VStr ''True'']) = Inr ([e], [''udp-echo --v=1''], []) \<and>
     example_entry (\<lambda>s. Inr (VBool True)) default_opts ''out'' ''/n'' [''ns3-udp-echo-debug'' \<mapsto> ''x''] e = Inr (Some j) \<and>
     job_cmd built_cfg (shell_command j) False (is_pyexample j) (build_path j) =
       Inr ''/n/build/examples/udp/ns3-udp-echo-debug --v=1''"
proof -
  have n: "program_name built_cfg ''udp-echo'' = ''ns3-udp-echo-debug''" by code_simp
  have p: "path_join ''/n/build/examples/udp'' ''ns3-udp-echo-debug'' = ''/n/build/examples/udp/ns3-udp-echo-debug''" by code_simp
  have o: "\<not> valgrind default_opts" "buildpath default_opts = []" by (simp_all add: default_opts_def)
  have "CHR '' '' \<notin> set ''/n/build/examples/udp''" "CHR '' '' \<notin> set ''udp-echo''" "CHR '' '' \<notin> set ''ns3-udp-echo-debug''"
    "CHR ''/'' \<notin> set ''ns3-udp-echo-debug''" "prefix ''/'' ''/n/build/examples/udp''" by code_simp+
  then show ?thesis
    using example_command [of "\<lambda>p. True" "''/n/build/examples/udp''" built_cfg "''udp-echo''"
        "[''ns3-udp-echo-debug'' \<mapsto> ''x'']" "''x''" "\<lambda>s. Inr (VBool True)" "''True''" "VBool True" default_opts
        "''/n''" "([], [], [])" "Some ''--v=1''" "''True''" "''out''"] o
    by (simp add: n p with_args_def)
qed

end
