(* ===== verification/TestReport.thy ===== *)
theory TestReport
  imports TestJobs "HOL-Library.List_Lexorder" "HOL-Library.Char_ord"
begin

text \<open>
  \<open>test.py\<close>: what the main thread does with the jobs that come back: counting, the status lines, the
  results file, the summary and the exit status. \<open>tmp\<close> maps the names of the temporary files that the
  suites wrote to their contents.
\<close>

section \<open>Status\<close>

datatype status = PASS | FAIL | VALGR | CRASH | SKIP

fun status_name :: "status \<Rightarrow> string" where
  "status_name PASS = ''PASS''"
| "status_name FAIL = ''FAIL''"
| "status_name VALGR = ''VALGR''"
| "status_name CRASH = ''CRASH''"
| "status_name SKIP = ''SKIP''"

definition job_status :: "job \<Rightarrow> status" where
  "job_status j =
     (if is_skip j then SKIP
      else if returncode j = 0 then PASS
      else if returncode j = 1 then FAIL
      else if returncode j = 2 then VALGR
      else CRASH)"

record tally =
  passed_tests :: nat
  failed_tests :: nat
  failed_testnames :: "string list"
  crashed_tests :: nat
  crashed_testnames :: "string list"
  valgrind_errors :: nat
  valgrind_testnames :: "string list"
  skipped_tests :: nat
  skipped_testnames :: "string list"
  printed :: "string list"
  results :: string

definition count_status :: "status \<Rightarrow> string \<Rightarrow> tally \<Rightarrow> tally" where
  "count_status st name t =
     (case st of
        SKIP \<Rightarrow> t\<lparr>skipped_tests := skipped_tests t + 1, skipped_testnames := skipped_testnames t @ [name]\<rparr>
      | PASS \<Rightarrow> t\<lparr>passed_tests := passed_tests t + 1\<rparr>
      | FAIL \<Rightarrow> t\<lparr>failed_tests := failed_tests t + 1, failed_testnames := failed_testnames t @ [name]\<rparr>
      | VALGR \<Rightarrow> t\<lparr>valgrind_errors := valgrind_errors t + 1, valgrind_testnames := valgrind_testnames t @ [name]\<rparr>
      | CRASH \<Rightarrow> t\<lparr>crashed_tests := crashed_tests t + 1, crashed_testnames := crashed_testnames t @ [name]\<rparr>)"

text \<open>\<open>'%.3f' % r\<close>, halves to the even neighbour.\<close>

definition thousandths :: "rat \<Rightarrow> nat" where
  "thousandths r =
     (let m = \<bar>r\<bar> * 1000; k = \<lfloor>m\<rfloor>; d = m - of_int k
      in nat (if 1 / 2 < d \<or> (d = 1 / 2 \<and> odd k) then k + 1 else k))"

definition fmt3 :: "rat \<Rightarrow> string" where
  "fmt3 r =
     (let n = thousandths r; f = n mod 1000
      in (if r < 0 then ''-'' else []) @ str_of_nat (n div 1000) @ ''.'' @
         [digit_char (f div 100), digit_char (f div 10 mod 10), digit_char (f mod 10)])"

definition status_line :: "opts \<Rightarrow> job \<Rightarrow> string" where
  "status_line opt j =
     (let st = status_name (job_status j); kind = (if runs_example j then ''Example'' else ''TestSuite'') in
      if duration opt \<or> constrain opt = ''performance''
      then st @ '' ('' @ fmt3 (elapsed_time j) @ ''): '' @ kind @ '' '' @ display_name j
      else st @ '': '' @ kind @ '' '' @ display_name j)"

section \<open>The results file\<close>

definition results_start :: string where
  "results_start = ''<?xml version=\"1.0\"?>'' @ [nl] @ ''<Results>'' @ [nl]"

definition results_end :: string where
  "results_end = ''</Results>'' @ [nl]"

definition example_xml :: "job \<Rightarrow> string" where
  "example_xml j =
     ''<Example>'' @ [nl] @
     ''  <Name>'' @ display_name j @ ''</Name>'' @ [nl] @
     ''  <Result>'' @ status_name (job_status j) @ ''</Result>'' @ [nl] @
     ''  <Time real=\"'' @ fmt3 (elapsed_time j) @ ''\"/>'' @ [nl] @
     ''</Example>'' @ [nl]"

definition fake_test :: "string \<Rightarrow> string \<Rightarrow> string" where
  "fake_test name result_line =
     ''<Test>'' @ [nl] @ ''  <Name>'' @ name @ ''</Name>'' @ [nl] @ result_line @ [nl] @ ''</Test>'' @ [nl]"

text \<open>
  A crashed suite gets a result that is closed by the wrong tag, as in the source; the entry for a
  valgrind error stands behind the test of the return code that rules it out.
\<close>

definition suite_xml :: "(string \<rightharpoonup> string) \<Rightarrow> job \<Rightarrow> string py" where
  "suite_xml tmp j =
     (if is_skip j then Inr (fake_test (display_name j) ''  <Result>SKIP</Result>'')
      else if returncode j = 0 \<or> returncode j = 1 \<or> returncode j = 2
      then (case tmp (tmp_file_name j) of None \<Rightarrow> Inl IOError | Some t \<Rightarrow> Inr t)
      else Inr (fake_test (display_name j) ''  <Result>CRASH</Suite>'' @
                (if returncode j = 2 then fake_test (display_name j) ''  <Result>VALGR</Result>'' else [])))"

definition job_xml :: "(string \<rightharpoonup> string) \<Rightarrow> job \<Rightarrow> string py" where
  "job_xml tmp j = (if runs_example j then Inr (example_xml j) else suite_xml tmp j)"

definition collect :: "opts \<Rightarrow> (string \<rightharpoonup> string) \<Rightarrow> tally \<Rightarrow> job \<Rightarrow> tally py" where
  "collect opt tmp t j =
     (if is_break j then Inr t
      else
        let t = count_status (job_status j) (display_name j) t;
            t = t\<lparr>printed := printed t @ [status_line opt j]\<rparr>
        in bind_e (job_xml tmp j) (\<lambda>x. Inr (t\<lparr>results := results t @ x\<rparr>)))"

definition tally0 :: tally where
  "tally0 =
     \<lparr>passed_tests = 0, failed_tests = 0, failed_testnames = [], crashed_tests = 0, crashed_testnames = [],
      valgrind_errors = 0, valgrind_testnames = [], skipped_tests = 0, skipped_testnames = [],
      printed = [], results = results_start\<rparr>"

section \<open>Summary and exit status\<close>

definition names_line :: "string \<Rightarrow> string list \<Rightarrow> string list" where
  "names_line what names =
     (if names = [] then []
      else [''List of '' @ what @ '':'' @ [nl] @ ''    '' @ join_with ([nl] @ ''    '') (sort names)])"

definition summary :: "nat \<Rightarrow> tally \<Rightarrow> string list" where
  "summary total_tests t =
     [str_of_nat (passed_tests t) @ '' of '' @ str_of_nat total_tests @ '' tests passed ('' @
      str_of_nat (passed_tests t) @ '' passed, '' @ str_of_nat (skipped_tests t) @ '' skipped, '' @
      str_of_nat (failed_tests t) @ '' failed, '' @ str_of_nat (crashed_tests t) @ '' crashed, '' @
      str_of_nat (valgrind_errors t) @ '' valgrind errors)''] @
     names_line ''SKIPped tests'' (skipped_testnames t) @
     names_line ''FAILed tests'' (failed_testnames t) @
     names_line ''CRASHed tests'' (crashed_testnames t) @
     names_line ''VALGR failures'' (valgrind_testnames t)"

definition closing_notes :: "tcfg \<Rightarrow> opts \<Rightarrow> string list" where
  "closing_notes cfg opt =
     (if \<not> ENABLE_TESTS cfg \<or> \<not> ENABLE_EXAMPLES cfg
      then [[]] @
        (if \<not> ENABLE_TESTS cfg
         then [''***  Note: ns-3 tests are currently disabled. Enable them by adding'',
               ''***  \"--enable-tests\" to ./waf configure or modifying your .ns3rc file.'', []]
         else []) @
        (if \<not> ENABLE_EXAMPLES cfg
         then [''***  Note: ns-3 examples are currently disabled. Enable them by adding'',
               ''***  \"--enable-examples\" to ./waf configure or modifying your .ns3rc file.'', []]
         else [])
      else []) @
     (if valgrind opt \<and> \<not> VALGRIND_FOUND cfg
      then [[], ''***  Note: you are trying to use valgrind, but valgrind could not be found'',
            ''***  on your machine.  All tests and examples will crash or be skipped.'', []]
      else [])"

definition exit_status :: "nat \<Rightarrow> tally \<Rightarrow> int" where
  "exit_status total_tests t = (if passed_tests t + skipped_tests t = total_tests then 0 else 1)"

section \<open>What is counted\<close>

definition real_jobs :: "job list \<Rightarrow> job list" where
  "real_jobs got = filter (\<lambda>j. \<not> is_break j) got"

definition with_status :: "status \<Rightarrow> job list \<Rightarrow> job list" where
  "with_status st got = filter (\<lambda>j. job_status j = st) (real_jobs got)"

text \<open>The tally of the jobs \<open>got\<close>, but for the results file.\<close>

definition tallies :: "opts \<Rightarrow> job list \<Rightarrow> tally \<Rightarrow> bool" where
  "tallies opt got t \<longleftrightarrow>
     passed_tests t = length (with_status PASS got) \<and>
     failed_tests t = length (with_status FAIL got) \<and>
     crashed_tests t = length (with_status CRASH got) \<and>
     valgrind_errors t = length (with_status VALGR got) \<and>
     skipped_tests t = length (with_status SKIP got) \<and>
     failed_testnames t = map display_name (with_status FAIL got) \<and>
     crashed_testnames t = map display_name (with_status CRASH got) \<and>
     valgrind_testnames t = map display_name (with_status VALGR got) \<and>
     skipped_testnames t = map display_name (with_status SKIP got) \<and>
     printed t = map (status_line opt) (real_jobs got)"

lemma with_status_snoc:
  "with_status st (got @ [j]) =
     with_status st got @ (if \<not> is_break j \<and> job_status j = st then [j] else [])"
  by (simp add: with_status_def real_jobs_def)

lemma real_jobs_snoc: "real_jobs (got @ [j]) = real_jobs got @ (if is_break j then [] else [j])"
  by (simp add: real_jobs_def)

lemma tallies_start: "tallies opt [] tally0"
  by (simp add: tallies_def tally0_def with_status_def real_jobs_def)

lemma tallies_results: "tallies opt got (t\<lparr>results := x\<rparr>) \<longleftrightarrow> tallies opt got t"
  by (simp add: tallies_def)

lemma tallies_collect:
  assumes "tallies opt got t" and "collect opt tmp t j = Inr t'"
  shows "tallies opt (got @ [j]) t'"
proof (cases "is_break j")
  case True
  then show ?thesis using assms
    by (simp add: collect_def tallies_def with_status_snoc real_jobs_snoc)
next
  case False
  define u where "u = count_status (job_status j) (display_name j) t"
  obtain x where t': "t' = u\<lparr>printed := printed u @ [status_line opt j], results := x\<rparr>"
    using assms(2) False by (auto simp: collect_def u_def bind_e_Inr_iff Let_def)
  have "tallies opt (got @ [j]) (u\<lparr>printed := printed u @ [status_line opt j]\<rparr>)"
    using assms(1) False
    by (cases "job_status j"; simp add: tallies_def u_def with_status_snoc real_jobs_snoc count_status_def)
  then show ?thesis
    using tallies_results [of opt _ x "u\<lparr>printed := printed u @ [status_line opt j]\<rparr>"] t' by simp
qed

lemma status_partition:
  "length (real_jobs got) =
     length (with_status PASS got) + length (with_status FAIL got) + length (with_status CRASH got) +
     length (with_status VALGR got) + length (with_status SKIP got)"
proof -
  have "length xs = length (filter (\<lambda>j. job_status j = PASS) xs) + length (filter (\<lambda>j. job_status j = FAIL) xs) +
      length (filter (\<lambda>j. job_status j = CRASH) xs) + length (filter (\<lambda>j. job_status j = VALGR) xs) +
      length (filter (\<lambda>j. job_status j = SKIP) xs)" for xs :: "job list"
  proof (induction xs)
    case (Cons x xs)
    then show ?case by (cases "job_status x") auto
  qed simp
  from this [of "real_jobs got"] show ?thesis unfolding with_status_def .
qed

text \<open>A job that passed or was skipped.\<close>

definition fine_job :: "job \<Rightarrow> bool" where
  "fine_job j \<longleftrightarrow> \<not> is_break j \<and> (is_skip j \<or> returncode j = 0)"

lemma fine_job_status: "\<not> is_break j \<Longrightarrow> fine_job j \<longleftrightarrow> job_status j = PASS \<or> job_status j = SKIP"
  by (simp add: fine_job_def job_status_def)

lemma fine_count:
  "length (with_status PASS got) + length (with_status SKIP got) = length (filter fine_job got)"
proof (induction got)
  case (Cons j got)
  then show ?case
    by (cases "job_status j"; cases "is_break j")
      (simp_all add: with_status_def real_jobs_def fine_job_status, simp_all add: fine_job_def)
qed (simp add: with_status_def real_jobs_def)

lemma exit_status_tallies:
  assumes "tallies opt got t"
  shows "exit_status (length got) t = (if list_all fine_job got then 0 else 1)"
proof -
  have "length (filter fine_job got) = length got \<longleftrightarrow> list_all fine_job got"
    by (metis filter_True length_filter_less list_all_iff less_irrefl)
  then show ?thesis using assms fine_count [of got] by (simp add: exit_status_def tallies_def)
qed

end
