(* ===== verification/TestThreads.thy ===== *)
theory TestThreads
  imports TestReport
begin

text \<open>
  \<open>test.py\<close>: the threads of the test driver. The main thread puts the jobs into the input queue, then one
  break job per worker, takes as many jobs from the output queue as it dispatched, and joins the
  workers. A worker takes a job, looks at \<open>thread_exit\<close>, and skips the job or runs it. Each rule of the step
  relation is one access to what the threads share; any thread that can move may move next, and an
  interrupt may come at any time.
\<close>

section \<open>State\<close>

datatype worker = WGet | WJob job | WRun job | WDone | WDied pyerr

datatype main_pc =
    MDispatch "job py list" nat
  | MBreaks nat nat
  | MCollect nat nat tally
  | MJoin nat nat tally
  | MEnd nat tally
  | MDied pyerr

record driver =
  input_queue :: "job list"
  output_queue :: "job list"
  threads :: "worker list"
  main_thread :: main_pc
  thread_exit :: bool
  tmp_files :: "string \<rightharpoonup> string"

definition start_driver :: "nat \<Rightarrow> job py list \<Rightarrow> driver" where
  "start_driver processors items =
     \<lparr>input_queue = [], output_queue = [], threads = replicate processors WGet,
      main_thread = MDispatch items 0, thread_exit = False, tmp_files = Map.empty\<rparr>"

section \<open>Steps\<close>

text \<open>The main thread; \<open>None\<close> when it has to wait or has ended.\<close>

definition finished :: "worker \<Rightarrow> bool" where
  "finished w = (case w of WDone \<Rightarrow> True | WDied _ \<Rightarrow> True | _ \<Rightarrow> False)"

definition main_step :: "opts \<Rightarrow> driver \<Rightarrow> driver option" where
  "main_step opt s =
     (case main_thread s of
        MDispatch [] n \<Rightarrow> Some (s\<lparr>main_thread := MBreaks (length (threads s)) n\<rparr>)
      | MDispatch (Inl e # items) n \<Rightarrow> Some (s\<lparr>main_thread := MDied e\<rparr>)
      | MDispatch (Inr j # items) n \<Rightarrow>
          Some (s\<lparr>input_queue := input_queue s @ [j], main_thread := MDispatch items (n + 1)\<rparr>)
      | MBreaks 0 n \<Rightarrow> Some (s\<lparr>main_thread := MCollect n n tally0\<rparr>)
      | MBreaks (Suc k) n \<Rightarrow>
          Some (s\<lparr>input_queue := input_queue s @ [break_job], main_thread := MBreaks k n\<rparr>)
      | MCollect 0 n t \<Rightarrow> Some (s\<lparr>main_thread := MJoin 0 n t\<rparr>)
      | MCollect (Suc k) n t \<Rightarrow>
          (case output_queue s of
             [] \<Rightarrow> None
           | j # q \<Rightarrow>
               (case collect opt (tmp_files s) t j of
                  Inl e \<Rightarrow> Some (s\<lparr>output_queue := q, main_thread := MDied e\<rparr>)
                | Inr t' \<Rightarrow> Some (s\<lparr>output_queue := q, main_thread := MCollect k n t'\<rparr>)))
      | MJoin i n t \<Rightarrow>
          if i < length (threads s)
          then (if finished (threads s ! i) then Some (s\<lparr>main_thread := MJoin (i + 1) n t\<rparr>) else None)
          else Some (s\<lparr>main_thread := MEnd n (t\<lparr>results := results t @ results_end\<rparr>)\<rparr>)
      | MEnd n t \<Rightarrow> None
      | MDied e \<Rightarrow> None)"

text \<open>
  Worker \<open>i\<close>: \<open>input_queue.get()\<close>; the tests of \<open>thread_exit\<close> and \<open>is_skip\<close>; the end of the command, which
  ended as \<open>p\<close> and may have written the file it was given.
\<close>

definition worker_get :: "nat \<Rightarrow> driver \<Rightarrow> driver option" where
  "worker_get i s =
     (case (threads s ! i, input_queue s) of
        (WGet, j # q) \<Rightarrow>
          Some (s\<lparr>input_queue := q, threads := (threads s)[i := if is_break j then WDone else WJob j]\<rparr>)
      | _ \<Rightarrow> None)"

definition worker_check :: "nat \<Rightarrow> driver \<Rightarrow> driver option" where
  "worker_check i s =
     (case threads s ! i of
        WJob j \<Rightarrow>
          Some (if thread_exit s
                then s\<lparr>output_queue := output_queue s @ [j\<lparr>is_break := True\<rparr>], threads := (threads s)[i := WGet]\<rparr>
                else if is_skip j
                then s\<lparr>output_queue := output_queue s @ [j], threads := (threads s)[i := WGet]\<rparr>
                else s\<lparr>threads := (threads s)[i := WRun j]\<rparr>)
      | _ \<Rightarrow> None)"

definition write_tmp :: "job \<Rightarrow> proc py \<Rightarrow> (string \<rightharpoonup> string) \<Rightarrow> (string \<rightharpoonup> string)" where
  "write_tmp j p m =
     (case p of
        Inl e \<Rightarrow> m
      | Inr r \<Rightarrow> if runs_example j then m
                 else (case proc_xml r of None \<Rightarrow> m | Some x \<Rightarrow> m(tmp_file_name j \<mapsto> x)))"

definition worker_finish :: "tcfg \<Rightarrow> opts \<Rightarrow> nat \<Rightarrow> proc py \<Rightarrow> driver \<Rightarrow> driver option" where
  "worker_finish cfg opt i p s =
     (case threads s ! i of
        WRun j \<Rightarrow>
          (case run_worker_job cfg opt j p of
             Inl e \<Rightarrow> Some (s\<lparr>threads := (threads s)[i := WDied e]\<rparr>)
           | Inr j' \<Rightarrow>
               Some (s\<lparr>output_queue := output_queue s @ [j'], threads := (threads s)[i := WGet],
                       tmp_files := write_tmp j p (tmp_files s)\<rparr>))
      | _ \<Rightarrow> None)"

definition sigint_hook :: "driver \<Rightarrow> driver" where
  "sigint_hook s = s\<lparr>thread_exit := True\<rparr>"

text \<open>
  The steps of a run in which a command of job \<open>j\<close> can end as any \<open>p\<close> with \<open>out j p\<close>, and which may be
  interrupted when \<open>intr\<close> holds.
\<close>

inductive driver_step ::
    "tcfg \<Rightarrow> opts \<Rightarrow> (job \<Rightarrow> proc py \<Rightarrow> bool) \<Rightarrow> bool \<Rightarrow> driver \<Rightarrow> driver \<Rightarrow> bool"
  for cfg opt out intr where
  main: "main_step opt s = Some s' \<Longrightarrow> driver_step cfg opt out intr s s'"
| get: "i < length (threads s) \<Longrightarrow> worker_get i s = Some s' \<Longrightarrow> driver_step cfg opt out intr s s'"
| check: "i < length (threads s) \<Longrightarrow> worker_check i s = Some s' \<Longrightarrow> driver_step cfg opt out intr s s'"
| finish: "i < length (threads s) \<Longrightarrow> threads s ! i = WRun j \<Longrightarrow> out j p \<Longrightarrow>
    worker_finish cfg opt i p s = Some s' \<Longrightarrow> driver_step cfg opt out intr s s'"
| interrupt: "intr \<Longrightarrow> \<not> thread_exit s \<Longrightarrow> driver_step cfg opt out intr s (sigint_hook s)"

text \<open>The process ends when its threads have ended.\<close>

definition main_ended :: "driver \<Rightarrow> bool" where
  "main_ended s = (case main_thread s of MEnd _ _ \<Rightarrow> True | MDied _ \<Rightarrow> True | _ \<Rightarrow> False)"

definition process_ended :: "driver \<Rightarrow> bool" where
  "process_ended s \<longleftrightarrow> main_ended s \<and> list_all finished (threads s)"

section \<open>The invariant\<close>

text \<open>
  Where the dispatched jobs are: still to be put (\<open>coming\<close>), in the input queue, held by a worker,
  processed (\<open>pr\<close>), or lost with a worker that died (\<open>lost\<close>).
\<close>

fun put_jobs :: "job py list \<Rightarrow> job list" where
  "put_jobs [] = []"
| "put_jobs (Inl e # items) = []"
| "put_jobs (Inr j # items) = j # put_jobs items"

definition coming :: "main_pc \<Rightarrow> job list" where
  "coming m = (case m of MDispatch items n \<Rightarrow> put_jobs items | _ \<Rightarrow> [])"

fun held :: "worker \<Rightarrow> job list" where
  "held (WJob j) = [j]"
| "held (WRun j) = [j]"
| "held WGet = []"
| "held WDone = []"
| "held (WDied e) = []"

fun died :: "worker \<Rightarrow> bool" where
  "died (WDied e) = True"
| "died (WJob j) = False"
| "died (WRun j) = False"
| "died WGet = False"
| "died WDone = False"

definition waiting :: "driver \<Rightarrow> job list" where
  "waiting s = filter (\<lambda>j. \<not> is_break j) (input_queue s)"

definition breaks :: "driver \<Rightarrow> nat" where
  "breaks s = length (filter is_break (input_queue s))"

definition place_inv :: "job list \<Rightarrow> job list \<Rightarrow> job list \<Rightarrow> driver \<Rightarrow> bool" where
  "place_inv js pr lost s \<longleftrightarrow>
     mset js = mset (coming (main_thread s)) + mset (waiting s) + mset (concat (map held (threads s))) +
               mset pr + mset lost \<and>
     length lost = length (filter died (threads s))"

text \<open>How a job \<open>j\<close> comes back as \<open>j'\<close>.\<close>

definition came ::
    "tcfg \<Rightarrow> opts \<Rightarrow> (job \<Rightarrow> proc py \<Rightarrow> bool) \<Rightarrow> bool \<Rightarrow> job \<Rightarrow> job \<Rightarrow> bool" where
  "came cfg opt out ex j j' \<longleftrightarrow>
     (ex \<and> j' = j\<lparr>is_break := True\<rparr>) \<or>
     (is_skip j \<and> j' = j) \<or>
     (\<not> is_skip j \<and> (\<exists>p. out j p \<and> run_worker_job cfg opt j p = Inr j'))"

text \<open>The input queue holds the jobs before the breaks; a worker that is done has seen no job behind it.\<close>

fun breaks_last :: "job list \<Rightarrow> bool" where
  "breaks_last [] = True"
| "breaks_last (j # q) = (if is_break j then list_all is_break q else breaks_last q)"

definition dones :: "driver \<Rightarrow> nat" where
  "dones s = length (filter (\<lambda>w. w = WDone) (threads s))"

definition queue_inv :: "driver \<Rightarrow> bool" where
  "queue_inv s \<longleftrightarrow>
     breaks_last (input_queue s) \<and>
     (0 < dones s \<longrightarrow> waiting s = []) \<and>
     (case main_thread s of
        MDispatch _ _ \<Rightarrow> breaks s = 0 \<and> dones s = 0
      | MBreaks k _ \<Rightarrow> k + breaks s + dones s = length (threads s)
      | MDied _ \<Rightarrow> True
      | _ \<Rightarrow> breaks s + dones s = length (threads s))"

definition main_inv :: "opts \<Rightarrow> job list \<Rightarrow> job list \<Rightarrow> driver \<Rightarrow> bool" where
  "main_inv opt js got s \<longleftrightarrow>
     (case main_thread s of
        MDispatch items n \<Rightarrow> got = [] \<and> n + length (put_jobs items) = length js
      | MBreaks k n \<Rightarrow> got = [] \<and> n = length js
      | MCollect k n t \<Rightarrow> n = length js \<and> length got + k = n \<and> tallies opt got t
      | MJoin i n t \<Rightarrow> n = length js \<and> length got = n \<and> tallies opt got t \<and>
          i \<le> length (threads s) \<and> list_all finished (take i (threads s))
      | MEnd n t \<Rightarrow> n = length js \<and> length got = n \<and> tallies opt got t \<and> list_all finished (threads s)
      | MDied e \<Rightarrow> True)"

fun unskipped :: "worker \<Rightarrow> bool" where
  "unskipped (WRun j) \<longleftrightarrow> \<not> is_skip j"
| "unskipped _ \<longleftrightarrow> True"

definition driver_inv ::
    "tcfg \<Rightarrow> opts \<Rightarrow> (job \<Rightarrow> proc py \<Rightarrow> bool) \<Rightarrow> job list \<Rightarrow> job list \<Rightarrow> job list \<Rightarrow> job list \<Rightarrow>
      driver \<Rightarrow> bool" where
  "driver_inv cfg opt out js pr lost got s \<longleftrightarrow>
     place_inv js pr lost s \<and> list_all2 (came cfg opt out (thread_exit s)) pr (got @ output_queue s) \<and>
     queue_inv s \<and> main_inv opt js got s \<and> list_all unskipped (threads s)"

section \<open>Updating one worker\<close>

lemma filter_count_update:
  "i < length ts \<Longrightarrow>
     length (filter P (ts[i := w])) + (if P (ts ! i) then 1 else 0) =
     length (filter P ts) + (if P w then 1 else (0::nat))"
proof (induction ts arbitrary: i)
  case (Cons t ts)
  then show ?case by (cases i) auto
qed simp

lemma held_update:
  "i < length ts \<Longrightarrow>
     mset (concat (map held (ts[i := w]))) + mset (held (ts ! i)) =
     mset (concat (map held ts)) + mset (held w)"
proof (induction ts arbitrary: i)
  case (Cons t ts)
  then show ?case by (cases i) (auto simp: add_ac)
qed simp

lemma take_finished_update:
  assumes "list_all finished (take k ts)" and "\<not> finished (ts ! i)"
  shows "list_all finished (take k (ts[i := w]))"
proof -
  have "finished (ts[i := w] ! n)" if "n < length ts" "n < k" for n
    using assms that by (cases "i = n") (auto simp: list_all_length)
  then show ?thesis by (auto simp: list_all_length)
qed

lemma unskipped_update: "list_all unskipped ts \<Longrightarrow> unskipped w \<Longrightarrow> list_all unskipped (ts[i := w])"
  by (auto simp: list_all_iff dest: set_update_subset_insert [THEN subsetD])

lemma main_inv_worker:
  assumes "main_inv opt js got s" and "\<not> finished (threads s ! i)" and "main_thread s' = main_thread s"
    and "threads s' = (threads s)[i := w]"
  shows "main_inv opt js got s'"
  using assms take_finished_update [of _ "threads s" i w]
    take_finished_update [of "length (threads s)" "threads s" i w]
  by (auto simp: main_inv_def split: main_pc.splits)

lemma came_inv_more:
  assumes "list_all2 (came cfg opt out ex) pr got" and "ex \<Longrightarrow> ex'"
  shows "list_all2 (came cfg opt out ex') pr got"
  using assms(1) by (rule list_all2_mono) (use assms(2) in \<open>auto simp: came_def\<close>)

section \<open>Every step keeps the invariant\<close>

lemma break_job_is_break [simp]: "is_break break_job"
  by (simp add: break_job_def)

lemma breaks_last_snoc_break: "breaks_last q \<Longrightarrow> is_break j \<Longrightarrow> breaks_last (q @ [j])"
  by (induction q) auto

lemma breaks_last_snoc: "filter is_break q = [] \<Longrightarrow> breaks_last (q @ [j])"
  by (induction q) (auto split: if_splits)

lemma breaks_last_Cons: "breaks_last (j # q) \<Longrightarrow> breaks_last q"
  by (induction q arbitrary: j) (auto split: if_splits)

lemma no_waiting: "list_all is_break q \<Longrightarrow> filter (\<lambda>j. \<not> is_break j) q = []"
  by (induction q) auto

lemma get_keeps:
  assumes inv: "driver_inv cfg opt out js pr lost got s" and i: "i < length (threads s)"
    and step: "worker_get i s = Some s'"
  shows "driver_inv cfg opt out js pr lost got s'"
proof -
  obtain j q where w: "threads s ! i = WGet" and q: "input_queue s = j # q"
    and s': "s' = s\<lparr>input_queue := q, threads := (threads s)[i := if is_break j then WDone else WJob j]\<rparr>"
    using step by (auto simp: worker_get_def split: worker.splits list.splits)
  let ?w = "if is_break j then WDone else WJob j"
  have "place_inv js pr lost s'"
    using inv held_update [OF i, of ?w] filter_count_update [OF i, of died ?w] w q
    by (simp add: driver_inv_def place_inv_def s' waiting_def split: if_splits)
  moreover have "queue_inv s'"
  proof -
    have "breaks_last q" using inv q breaks_last_Cons by (auto simp: driver_inv_def queue_inv_def)
    moreover have "dones s' + (if is_break j then 0 else 1) = dones s + 1"
      using filter_count_update [OF i, of "\<lambda>w. w = WDone" ?w] w by (simp add: dones_def s')
    moreover have "is_break j \<Longrightarrow> filter (\<lambda>j. \<not> is_break j) q = []"
      using inv q no_waiting [of q] by (simp add: driver_inv_def queue_inv_def)
    ultimately show ?thesis
      using inv q unfolding driver_inv_def queue_inv_def
      by (cases "is_break j"; cases "main_thread s"; simp add: s' waiting_def breaks_def)
  qed
  moreover have "main_inv opt js got s'"
    using inv by - (rule main_inv_worker [of opt js got s i], (auto simp: driver_inv_def s' w finished_def))
  ultimately show ?thesis using inv by (simp add: driver_inv_def s' unskipped_update)
qed

lemma keep_waiting_queue:
  assumes "queue_inv s" and i: "i < length (threads s)" and "w \<noteq> WDone" and "threads s ! i \<noteq> WDone"
    and "input_queue s' = input_queue s" and "threads s' = (threads s)[i := w]" and "main_thread s' = main_thread s"
  shows "queue_inv s'"
proof -
  have "dones s' = dones s"
    using filter_count_update [OF i, of "\<lambda>w. w = WDone" w] assms by (simp add: dones_def)
  then show ?thesis using assms(1,5,6,7)
    unfolding queue_inv_def waiting_def breaks_def by (cases "main_thread s"; simp)
qed

text \<open>A worker that hands back its job: it is processed.\<close>

lemma hand_back_keeps:
  assumes inv: "driver_inv cfg opt out js pr lost got s" and i: "i < length (threads s)"
    and w: "held (threads s ! i) = [j]" and j': "came cfg opt out (thread_exit s) j j'"
    and s': "input_queue s' = input_queue s" "threads s' = (threads s)[i := WGet]"
      "main_thread s' = main_thread s" "thread_exit s' = thread_exit s" "output_queue s' = output_queue s @ [j']"
  shows "driver_inv cfg opt out js (pr @ [j]) lost got s'"
proof -
  have u: "\<not> finished (threads s ! i)" "threads s ! i \<noteq> WDone" "\<not> died (threads s ! i)"
    using w by (cases "threads s ! i"; simp add: finished_def)+
  have "place_inv js (pr @ [j]) lost s'"
    using inv held_update [OF i, of WGet] filter_count_update [OF i, of died WGet] w u(3) s'
    by (simp add: driver_inv_def place_inv_def waiting_def)
  moreover have "queue_inv s'"
    using inv u(2) s' by - (rule keep_waiting_queue [of s i WGet], (auto simp: driver_inv_def i))
  moreover have "main_inv opt js got s'"
    using inv u(1) s' by - (rule main_inv_worker [of opt js got s i], (auto simp: driver_inv_def))
  moreover have "list_all2 (came cfg opt out (thread_exit s')) (pr @ [j]) (got @ output_queue s')"
    using inv j' s' by (auto simp: driver_inv_def simp flip: append_assoc intro: list_all2_appendI)
  ultimately show ?thesis using inv s' by (simp add: driver_inv_def unskipped_update)
qed

lemma check_keeps:
  assumes inv: "driver_inv cfg opt out js pr lost got s" and i: "i < length (threads s)"
    and step: "worker_check i s = Some s'"
  shows "\<exists>pr'. driver_inv cfg opt out js pr' lost got s'"
proof -
  obtain j where w: "threads s ! i = WJob j"
    using step by (auto simp: worker_check_def split: worker.splits)
  consider "thread_exit s" | "\<not> thread_exit s" "is_skip j" | "\<not> thread_exit s" "\<not> is_skip j" by blast
  then show ?thesis
  proof cases
    case 1
    then have "driver_inv cfg opt out js (pr @ [j]) lost got s'"
      using step w by (intro hand_back_keeps [OF inv i, of j "j\<lparr>is_break := True\<rparr>"])
        (auto simp: worker_check_def came_def)
    then show ?thesis ..
  next
    case 2
    then have "driver_inv cfg opt out js (pr @ [j]) lost got s'"
      using step w by (intro hand_back_keeps [OF inv i, of j j]) (auto simp: worker_check_def came_def)
    then show ?thesis ..
  next
    case 3
    then have s': "s' = s\<lparr>threads := (threads s)[i := WRun j]\<rparr>" using step w by (simp add: worker_check_def)
    have "place_inv js pr lost s'"
      using inv held_update [OF i, of "WRun j"] filter_count_update [OF i, of died "WRun j"] w
      by (simp add: driver_inv_def place_inv_def waiting_def s')
    moreover have "queue_inv s'"
      using inv w by - (rule keep_waiting_queue [of s i "WRun j"], (auto simp: driver_inv_def i s'))
    moreover have "main_inv opt js got s'"
      using inv w by - (rule main_inv_worker [of opt js got s i], (auto simp: driver_inv_def s' finished_def))
    ultimately have "driver_inv cfg opt out js pr lost got s'" using inv 3 by (simp add: driver_inv_def s' unskipped_update)
    then show ?thesis ..
  qed
qed

lemma finish_keeps:
  assumes inv: "driver_inv cfg opt out js pr lost got s" and i: "i < length (threads s)"
    and w: "threads s ! i = WRun j" and p: "out j p"
    and step: "worker_finish cfg opt i p s = Some s'"
  shows "\<exists>pr' lost'. driver_inv cfg opt out js pr' lost' got s' \<and>
    (lost' = lost \<or> (lost' = lost @ [j] \<and> (\<exists>e. run_worker_job cfg opt j p = Inl e)))"
proof -
  have skip: "\<not> is_skip j" using inv i w by (force simp: driver_inv_def list_all_length)
  show ?thesis
proof (cases "run_worker_job cfg opt j p")
  case (Inr j')
  have "driver_inv cfg opt out js (pr @ [j]) lost got s'"
    using step w Inr p skip by (intro hand_back_keeps [OF inv i, of j j']) (auto simp: worker_finish_def came_def)
  then show ?thesis by blast
next
  case (Inl e)
  then have s': "s' = s\<lparr>threads := (threads s)[i := WDied e]\<rparr>" using step w by (simp add: worker_finish_def)
  have "place_inv js pr (lost @ [j]) s'"
    using inv held_update [OF i, of "WDied e"] filter_count_update [OF i, of died "WDied e"] w
    by (simp add: driver_inv_def place_inv_def waiting_def s')
  moreover have "queue_inv s'"
    using inv w by - (rule keep_waiting_queue [of s i "WDied e"], (auto simp: driver_inv_def i s'))
  moreover have "main_inv opt js got s'"
    using inv w by - (rule main_inv_worker [of opt js got s i], (auto simp: driver_inv_def s' finished_def))
  ultimately have "driver_inv cfg opt out js pr (lost @ [j]) got s'"
    using inv by (simp add: driver_inv_def s' unskipped_update)
  then show ?thesis using Inl by blast
qed
qed

lemma MDispatch_nobreak:
  assumes "place_inv js pr lost s" and "list_all (\<lambda>j. \<not> is_break j) js" and "main_thread s = MDispatch (Inr j # items) n"
  shows "\<not> is_break j"
proof -
  have "j \<in># mset js" using assms(1,3) by (simp add: place_inv_def coming_def)
  then show ?thesis using assms(2) by (simp add: list_all_iff)
qed

lemma main_keeps:
  assumes inv: "driver_inv cfg opt out js pr lost got s" and nb: "list_all (\<lambda>j. \<not> is_break j) js"
    and step: "main_step opt s = Some s'"
  shows "\<exists>got'. driver_inv cfg opt out js pr lost got' s'"
proof (cases "main_thread s")
  case (MDispatch items n)
  show ?thesis
  proof (cases items)
    case Nil
    then show ?thesis using inv step MDispatch
      by (auto simp: main_step_def driver_inv_def place_inv_def coming_def waiting_def queue_inv_def breaks_def
            dones_def main_inv_def)
  next
    case (Cons x items')
    show ?thesis
    proof (cases x)
      case (Inl e)
      then have "driver_inv cfg opt out js pr lost got s'" using inv step MDispatch Cons
        by (auto simp: main_step_def driver_inv_def place_inv_def coming_def waiting_def queue_inv_def
              dones_def main_inv_def)
      then show ?thesis ..
    next
      case (Inr j)
      have j: "\<not> is_break j" using MDispatch_nobreak [of js pr lost s j] inv nb MDispatch Cons Inr
        by (auto simp: driver_inv_def)
      show ?thesis using inv step MDispatch Cons Inr j
        by (auto simp: main_step_def driver_inv_def place_inv_def coming_def waiting_def queue_inv_def breaks_def
              dones_def main_inv_def breaks_last_snoc)
    qed
  qed
next
  case (MBreaks k n)
  then show ?thesis using inv step
    by (cases k) (auto simp: main_step_def driver_inv_def place_inv_def coming_def waiting_def queue_inv_def
        breaks_def dones_def main_inv_def breaks_last_snoc_break tallies_start)
next
  case (MCollect k n t)
  show ?thesis
  proof (cases k)
    case 0
    then show ?thesis using inv step MCollect
      by (auto simp: main_step_def driver_inv_def place_inv_def coming_def waiting_def queue_inv_def
          breaks_def dones_def main_inv_def)
  next
    case (Suc k')
    obtain j q where q: "output_queue s = j # q"
      using step MCollect Suc by (cases "output_queue s") (auto simp: main_step_def)
    show ?thesis
    proof (cases "collect opt (tmp_files s) t j")
      case (Inl e)
      then have "driver_inv cfg opt out js pr lost (got @ [j]) s'" using inv step MCollect Suc q
        by (auto simp: main_step_def driver_inv_def place_inv_def coming_def waiting_def queue_inv_def
            breaks_def dones_def main_inv_def)
      then show ?thesis ..
    next
      case (Inr t')
      then have "driver_inv cfg opt out js pr lost (got @ [j]) s'" using inv step MCollect Suc q
        by (auto simp: main_step_def driver_inv_def place_inv_def coming_def waiting_def queue_inv_def
            breaks_def dones_def main_inv_def tallies_collect)
      then show ?thesis ..
    qed
  qed
next
  case (MJoin i n t)
  then show ?thesis using inv step
    by (auto simp: main_step_def driver_inv_def place_inv_def coming_def waiting_def queue_inv_def
        breaks_def dones_def main_inv_def tallies_results take_Suc_conv_app_nth split: if_splits)
next
  case MEnd
  then show ?thesis using step by (simp add: main_step_def)
next
  case MDied
  then show ?thesis using step by (simp add: main_step_def)
qed

lemma interrupt_keeps:
  assumes "driver_inv cfg opt out js pr lost got s"
  shows "driver_inv cfg opt out js pr lost got (sigint_hook s)"
proof -
  have "list_all2 (came cfg opt out True) pr (got @ output_queue s)"
    using assms came_inv_more [of cfg opt out "thread_exit s" pr "got @ output_queue s" True]
    by (simp add: driver_inv_def)
  then show ?thesis using assms
    by (cases "main_thread s")
      (simp_all add: driver_inv_def sigint_hook_def place_inv_def waiting_def queue_inv_def breaks_def dones_def
        main_inv_def)
qed

end
