(* ===== verification/TestDriver.thy ===== *)
theory TestDriver
  imports TestThreads Steps
begin

text \<open>
  The runs of the driver of \<open>test.py\<close>: the states that can be reached, the bound on the length of a run, which
  thread can move, and what holds when the main thread has come to its end, for every interleaving.
\<close>

section \<open>Reachable states\<close>

text \<open>Commands whose end makes a worker thread raise.\<close>

definition never_raises :: "tcfg \<Rightarrow> opts \<Rightarrow> (job \<Rightarrow> proc py \<Rightarrow> bool) \<Rightarrow> bool" where
  "never_raises cfg opt out \<longleftrightarrow> (\<forall>j p. out j p \<longrightarrow> is_ok (run_worker_job cfg opt j p))"

lemma step_keeps:
  assumes "driver_step cfg opt out intr s s'" and "driver_inv cfg opt out js pr lost got s"
    and "list_all (\<lambda>j. \<not> is_break j) js"
  shows "\<exists>pr' lost' got'. driver_inv cfg opt out js pr' lost' got' s' \<and>
    (never_raises cfg opt out \<longrightarrow> lost' = lost)"
  using assms(1)
proof cases
  case main
  then show ?thesis using main_keeps [OF assms(2,3)] by blast
next
  case (get i)
  then show ?thesis using get_keeps [OF assms(2)] by blast
next
  case (check i)
  then show ?thesis using check_keeps [OF assms(2)] by blast
next
  case (finish i j p)
  then obtain pr' lost' where l: "driver_inv cfg opt out js pr' lost' got s'"
      "lost' = lost \<or> (lost' = lost @ [j] \<and> (\<exists>e. run_worker_job cfg opt j p = Inl e))"
    using finish_keeps [OF assms(2), of i j p s'] by blast
  moreover have "never_raises cfg opt out \<Longrightarrow> lost' = lost"
    using l(2) finish by (force simp: never_raises_def)
  ultimately show ?thesis by blast
next
  case interrupt
  then show ?thesis using interrupt_keeps [OF assms(2)] by blast
qed

lemma start_inv:
  "driver_inv cfg opt out (put_jobs items) [] [] [] (start_driver n items)"
proof -
  have "concat (map held (replicate n WGet)) = []" "filter died (replicate n WGet) = []"
    "filter (\<lambda>w. w = WDone) (replicate n WGet) = []" "list_all unskipped (replicate n WGet)"
    by (induction n) auto
  then show ?thesis
    by (simp add: driver_inv_def start_driver_def place_inv_def coming_def waiting_def queue_inv_def breaks_def
        dones_def main_inv_def)
qed

abbreviation driver_steps ::
    "tcfg \<Rightarrow> opts \<Rightarrow> (job \<Rightarrow> proc py \<Rightarrow> bool) \<Rightarrow> bool \<Rightarrow> driver \<Rightarrow> driver \<Rightarrow> bool" where
  "driver_steps cfg opt out intr \<equiv> (driver_step cfg opt out intr)\<^sup>*\<^sup>*"

text \<open>The invariant of a run over the jobs \<open>js\<close>; where no command makes a thread raise, no job is lost.\<close>

definition driver_ok ::
    "tcfg \<Rightarrow> opts \<Rightarrow> (job \<Rightarrow> proc py \<Rightarrow> bool) \<Rightarrow> job list \<Rightarrow> driver \<Rightarrow> bool" where
  "driver_ok cfg opt out js s \<longleftrightarrow>
     list_all (\<lambda>j. \<not> is_break j) js \<and>
     (\<exists>pr lost got. driver_inv cfg opt out js pr lost got s \<and> (never_raises cfg opt out \<longrightarrow> lost = []))"

interpretation counted: kept_by_steps "driver_step cfg opt out intr" "driver_ok cfg opt out js" for cfg opt out intr js
proof
  fix s s' assume "driver_step cfg opt out intr s s'" "driver_ok cfg opt out js s"
  then show "driver_ok cfg opt out js s'" using step_keeps unfolding driver_ok_def by metis
qed

lemma driver_ok_queue: "driver_ok cfg opt out js s \<Longrightarrow> queue_inv s"
  by (auto simp: driver_ok_def driver_inv_def)

section \<open>Every run ends\<close>

text \<open>Each step makes this smaller.\<close>

definition job_weight :: "job \<Rightarrow> nat" where
  "job_weight j = (if is_break j then 1 else 4)"

fun worker_weight :: "worker \<Rightarrow> nat" where
  "worker_weight (WJob j) = 3"
| "worker_weight (WRun j) = 2"
| "worker_weight WGet = 0"
| "worker_weight WDone = 0"
| "worker_weight (WDied e) = 0"

fun main_weight :: "nat \<Rightarrow> main_pc \<Rightarrow> nat" where
  "main_weight ts (MDispatch items n) = 5 * length items + 3 * ts + 4"
| "main_weight ts (MBreaks k n) = 2 * k + ts + 3"
| "main_weight ts (MCollect k n t) = ts + 2"
| "main_weight ts (MJoin i n t) = Suc (ts - i)"
| "main_weight ts (MEnd n t) = 0"
| "main_weight ts (MDied e) = 0"

definition weight :: "driver \<Rightarrow> nat" where
  "weight s =
     main_weight (length (threads s)) (main_thread s) + sum_list (map job_weight (input_queue s)) +
     sum_list (map worker_weight (threads s)) + length (output_queue s) + (if thread_exit s then 0 else 1)"

lemma worker_weight_update:
  "i < length ts \<Longrightarrow>
     sum_list (map worker_weight (ts[i := w])) + worker_weight (ts ! i) =
     sum_list (map worker_weight ts) + worker_weight w"
proof (induction ts arbitrary: i)
  case (Cons t ts)
  then show ?case by (cases i) auto
qed simp

lemma main_weight_less: "main_step opt s = Some s' \<Longrightarrow> weight s' < weight s"
proof (cases "main_thread s")
  case (MDispatch items n)
  assume "main_step opt s = Some s'"
  then show ?thesis using MDispatch
    by (cases items; cases "hd items") (auto simp: main_step_def weight_def job_weight_def)
next
  case (MBreaks k n)
  assume "main_step opt s = Some s'"
  then show ?thesis using MBreaks by (cases k) (auto simp: main_step_def weight_def job_weight_def)
next
  case (MCollect k n t)
  assume "main_step opt s = Some s'"
  then show ?thesis using MCollect
    by (cases k) (auto simp: main_step_def weight_def split: list.splits sum.splits)
next
  case (MJoin i n t)
  assume "main_step opt s = Some s'"
  then show ?thesis using MJoin by (auto simp: main_step_def weight_def split: if_splits)
qed (auto simp: main_step_def)

lemma step_weight: "driver_step cfg opt out intr s s' \<Longrightarrow> weight s' < weight s"
proof (induction rule: driver_step.induct)
  case (main s s')
  then show ?case by (rule main_weight_less)
next
  case (get i s s')
  obtain j q where "threads s ! i = WGet" "input_queue s = j # q"
    and s': "s' = s\<lparr>input_queue := q, threads := (threads s)[i := if is_break j then WDone else WJob j]\<rparr>"
    using get by (auto simp: worker_get_def split: worker.splits list.splits)
  then show ?case
    using worker_weight_update [OF get(1), of "if is_break j then WDone else WJob j"]
    by (simp add: weight_def job_weight_def split: if_splits)
next
  case (check i s s')
  then obtain j where "threads s ! i = WJob j" by (auto simp: worker_check_def split: worker.splits)
  then show ?case
    using check worker_weight_update [OF check(1), of WGet] worker_weight_update [OF check(1), of "WRun j"]
    by (auto simp: worker_check_def weight_def split: if_splits)
next
  case (finish i s j p s')
  show ?case
    using finish worker_weight_update [OF finish(1), of WGet]
      worker_weight_update [OF finish(1), of "WDied (projl (run_worker_job cfg opt j p))"]
    by (cases "run_worker_job cfg opt j p") (auto simp: worker_finish_def weight_def)
next
  case (interrupt s)
  then show ?case by (simp add: weight_def sigint_hook_def)
qed

lemma start_weight: "weight (start_driver n items) = 5 * length items + 3 * n + 5"
proof -
  have "sum_list (map worker_weight (replicate n WGet)) = 0" by (induction n) auto
  then show ?thesis by (simp add: weight_def start_driver_def)
qed

interpretation measured: bounded_steps "driver_step cfg opt out intr" weight for cfg opt out intr
  by unfold_locales (rule step_weight)

section \<open>Who can move\<close>

text \<open>
  Where the dispatching met no error, the main thread dies only after it has put the breaks; where it met
  one, no break is ever put.
\<close>

definition late_inv :: "driver \<Rightarrow> bool" where
  "late_inv s \<longleftrightarrow>
     (case main_thread s of
        MDispatch items n \<Rightarrow> list_all is_ok items
      | MDied e \<Rightarrow> breaks s + dones s = length (threads s)
      | _ \<Rightarrow> True)"

definition early_inv :: "driver \<Rightarrow> bool" where
  "early_inv s \<longleftrightarrow>
     (case main_thread s of
        MDispatch items n \<Rightarrow> \<not> list_all is_ok items
      | MDied e \<Rightarrow> breaks s = 0 \<and> dones s = 0
      | _ \<Rightarrow> False)"

lemma worker_breaks:
  assumes "i < length (threads s)"
  shows "worker_get i s = Some s' \<Longrightarrow> breaks s' + dones s' = breaks s + dones s \<and>
      main_thread s' = main_thread s \<and> length (threads s') = length (threads s)"
    and "worker_check i s = Some s' \<Longrightarrow> breaks s' + dones s' = breaks s + dones s \<and>
      main_thread s' = main_thread s \<and> length (threads s') = length (threads s)"
    and "worker_finish cfg opt i p s = Some s' \<Longrightarrow> breaks s' + dones s' = breaks s + dones s \<and>
      main_thread s' = main_thread s \<and> length (threads s') = length (threads s)"
proof -
  assume a: "worker_get i s = Some s'"
  then obtain j q where "threads s ! i = WGet" "input_queue s = j # q"
    and "s' = s\<lparr>input_queue := q, threads := (threads s)[i := if is_break j then WDone else WJob j]\<rparr>"
    by (auto simp: worker_get_def split: worker.splits list.splits)
  then show "breaks s' + dones s' = breaks s + dones s \<and> main_thread s' = main_thread s \<and> length (threads s') = length (threads s)"
    using filter_count_update [OF assms, of "\<lambda>w. w = WDone" "if is_break j then WDone else WJob j"]
    by (simp add: breaks_def dones_def split: if_splits)
next
  assume a: "worker_check i s = Some s'"
  then obtain j where "threads s ! i = WJob j" by (auto simp: worker_check_def split: worker.splits)
  then show "breaks s' + dones s' = breaks s + dones s \<and> main_thread s' = main_thread s \<and> length (threads s') = length (threads s)"
    using a filter_count_update [OF assms, of "\<lambda>w. w = WDone" WGet]
      filter_count_update [OF assms, of "\<lambda>w. w = WDone" "WRun j"]
    by (auto simp: worker_check_def breaks_def dones_def split: if_splits)
next
  assume a: "worker_finish cfg opt i p s = Some s'"
  then obtain j where "threads s ! i = WRun j" by (auto simp: worker_finish_def split: worker.splits)
  then show "breaks s' + dones s' = breaks s + dones s \<and> main_thread s' = main_thread s \<and> length (threads s') = length (threads s)"
    using a filter_count_update [OF assms, of "\<lambda>w. w = WDone" WGet]
      filter_count_update [OF assms, of "\<lambda>w. w = WDone" "WDied e" for e]
    by (auto simp: worker_finish_def breaks_def dones_def split: sum.splits)
qed

lemma late_keeps:
  assumes "driver_step cfg opt out intr s s'" and "late_inv s" and "queue_inv s"
  shows "late_inv s'"
  using assms(1)
proof cases
  case main
  then show ?thesis using assms(2,3)
    by (auto simp: main_step_def late_inv_def queue_inv_def breaks_def dones_def
        split: main_pc.splits list.splits sum.splits nat.splits if_splits)
next
  case (get i)
  then show ?thesis using assms(2) worker_breaks(1) [OF get] by (simp add: late_inv_def split: main_pc.splits)
next
  case (check i)
  then show ?thesis using assms(2) worker_breaks(2) [OF check] by (simp add: late_inv_def split: main_pc.splits)
next
  case (finish i j p)
  then show ?thesis using assms(2) worker_breaks(3) [OF finish(1,4)] by (simp add: late_inv_def split: main_pc.splits)
next
  case interrupt
  then show ?thesis using assms(2)
    by (simp add: late_inv_def sigint_hook_def breaks_def dones_def split: main_pc.splits)
qed

lemma early_keeps:
  assumes "driver_step cfg opt out intr s s'" and "early_inv s" and "queue_inv s"
  shows "early_inv s'"
  using assms(1)
proof cases
  case main
  then show ?thesis using assms(2,3)
    by (auto simp: main_step_def early_inv_def queue_inv_def breaks_def dones_def
        split: main_pc.splits list.splits sum.splits nat.splits if_splits)
next
  case (get i)
  then show ?thesis using assms(2) worker_breaks(1) [OF get] by (simp add: early_inv_def split: main_pc.splits)
next
  case (check i)
  then show ?thesis using assms(2) worker_breaks(2) [OF check] by (simp add: early_inv_def split: main_pc.splits)
next
  case (finish i j p)
  then show ?thesis using assms(2) worker_breaks(3) [OF finish(1,4)] by (simp add: early_inv_def split: main_pc.splits)
next
  case interrupt
  then show ?thesis using assms(2)
    by (simp add: early_inv_def sigint_hook_def breaks_def dones_def split: main_pc.splits)
qed

lemma idle_or_moves:
  assumes i: "i < length (threads s)" and "\<not> finished (threads s ! i)" and "threads s ! i \<noteq> WGet"
    and out: "\<And>j. \<exists>p. out j p"
  shows "\<exists>s'. driver_step cfg opt out False s s'"
proof (cases "threads s ! i")
  case (WJob j)
  then show ?thesis using i driver_step.check [of i s] by (simp add: worker_check_def) blast
next
  case (WRun j)
  obtain p where "out j p" using out by blast
  moreover obtain s' where "worker_finish cfg opt i p s = Some s'"
    using WRun by (cases "run_worker_job cfg opt j p") (auto simp: worker_finish_def)
  ultimately show ?thesis using i WRun driver_step.finish [of i s j out p cfg opt s'] by blast
qed (use assms in \<open>auto simp: finished_def\<close>)

lemma idle_gets:
  assumes "i < length (threads s)" and "threads s ! i = WGet" and "input_queue s \<noteq> []"
  shows "\<exists>s'. driver_step cfg opt out False s s'"
proof -
  obtain j q where "input_queue s = j # q" using assms(3) by (cases "input_queue s") auto
  then have "worker_get i s \<noteq> None" using assms(2) by (simp add: worker_get_def)
  then show ?thesis using driver_step.get [OF assms(1)] by blast
qed

text \<open>All breaks are in the queue or taken: a worker that has not ended can move.\<close>

lemma unfinished_moves:
  assumes i: "i < length (threads s)" and u: "\<not> finished (threads s ! i)"
    and b: "breaks s + dones s = length (threads s)" and out: "\<And>j. \<exists>p. out j p"
  shows "\<exists>s'. driver_step cfg opt out False s s'"
proof (cases "threads s ! i = WGet")
  case True
  have "dones s < length (threads s)"
    unfolding dones_def using i u by (intro length_filter_less [of "threads s ! i"]) (auto simp: finished_def)
  then have "input_queue s \<noteq> []" using b by (auto simp: breaks_def)
  then show ?thesis by (rule idle_gets [OF i True])
next
  case False
  then show ?thesis using idle_or_moves [OF i u] out by blast
qed

lemma not_all_finished: "\<not> list_all finished ts \<Longrightarrow> \<exists>i < length ts. \<not> finished (ts ! i)"
  by (auto simp: list_all_length)

lemma progress:
  assumes inv: "driver_inv cfg opt out js pr [] got s" and late: "late_inv s" and n: "threads s \<noteq> []"
    and out: "\<And>j. \<exists>p. out j p" and "\<not> process_ended s"
  shows "\<exists>s'. driver_step cfg opt out False s s'"
proof (cases "main_step opt s")
  case (Some s')
  then show ?thesis by (auto intro: driver_step.main)
next
  case None
  have q: "queue_inv s" and m: "main_inv opt js got s" using inv by (simp_all add: driver_inv_def)
  show ?thesis
  proof (cases "main_thread s")
    case (MDispatch items k)
    then show ?thesis using None by (auto simp: main_step_def split: list.splits sum.splits)
  next
    case (MBreaks k l)
    then show ?thesis using None by (auto simp: main_step_def split: nat.splits)
  next
    case (MCollect k l t)
    have k: "k \<noteq> 0" and oq: "output_queue s = []"
      using None MCollect by (auto simp: main_step_def split: nat.splits list.splits sum.splits)
    show ?thesis
    proof (cases "\<exists>i < length (threads s). \<not> finished (threads s ! i) \<and> threads s ! i \<noteq> WGet")
      case True
      then show ?thesis using idle_or_moves [of _ s out] out by blast
    next
      case False
      then have "held w = []" if "w \<in> set (threads s)" for w
        using that by (cases w) (force simp: in_set_conv_nth finished_def)+
      then have "concat (map held (threads s)) = []" by auto
      moreover have "length pr = length got" using inv oq list_all2_lengthD by (force simp: driver_inv_def)
      moreover have "mset js = mset (waiting s) + mset (concat (map held (threads s))) + mset pr"
        using inv MCollect by (simp add: driver_inv_def place_inv_def coming_def)
      moreover have "length got < length js" using m k MCollect by (simp add: main_inv_def)
      ultimately have "length js = length (waiting s) + length pr"
        by (metis add.right_neutral mset.simps(1) size_mset size_union)
      then have w: "waiting s \<noteq> []" using \<open>length pr = length got\<close> \<open>length got < length js\<close> by auto
      have "threads s ! 0 \<in> set (threads s)" using n by simp
      moreover have "WDone \<notin> set (threads s)"
        using q w by (auto simp: queue_inv_def dones_def filter_empty_conv)
      moreover have "filter died (threads s) = []" using inv by (simp add: driver_inv_def place_inv_def)
      moreover have "finished w \<Longrightarrow> w = WDone \<or> died w" for w by (cases w) (auto simp: finished_def)
      ultimately have "\<not> finished (threads s ! 0)" by (metis filter_empty_conv)
      then have "threads s ! 0 = WGet" using False n by blast
      moreover have "input_queue s \<noteq> []" using w by (auto simp: waiting_def)
      ultimately show ?thesis using idle_gets [of 0 s] n by blast
    qed
  next
    case (MJoin i l t)
    then have "i < length (threads s)" "\<not> finished (threads s ! i)"
      using None by (auto simp: main_step_def split: if_splits)
    then show ?thesis using unfinished_moves [of i s out] out q MJoin by (simp add: queue_inv_def)
  next
    case (MEnd l t)
    then show ?thesis using m assms(5) by (simp add: main_inv_def process_ended_def main_ended_def)
  next
    case (MDied e)
    then obtain i where "i < length (threads s)" "\<not> finished (threads s ! i)"
      using assms(5) not_all_finished by (auto simp: process_ended_def main_ended_def)
    then show ?thesis using unfinished_moves [of i s out] out late MDied by (simp add: late_inv_def)
  qed
qed

section \<open>Runs of the driver\<close>

lemma process_keeps_threads:
  "driver_steps cfg opt out intr s s' \<Longrightarrow> length (threads s') = length (threads s)"
proof (induction rule: rtranclp_induct)
  case (step u v)
  from step.hyps(2) have "length (threads v) = length (threads u)"
  proof cases
    case main
    then show ?thesis by (auto simp: main_step_def split: main_pc.splits list.splits sum.splits nat.splits if_splits)
  next
    case (get i)
    then show ?thesis using worker_breaks(1) by blast
  next
    case (check i)
    then show ?thesis using worker_breaks(2) by blast
  next
    case (finish i j p)
    then show ?thesis using worker_breaks(3) by blast
  next
    case interrupt
    then show ?thesis by (simp add: sigint_hook_def)
  qed
  then show ?case using step.IH by simp
qed simp

interpretation late: kept_by_steps "driver_step cfg opt out intr" "\<lambda>s. driver_ok cfg opt out js s \<and> late_inv s"
  for cfg opt out intr js
  by unfold_locales (use counted.kept late_keeps driver_ok_queue in blast)

interpretation early: kept_by_steps "driver_step cfg opt out intr" "\<lambda>s. driver_ok cfg opt out js s \<and> early_inv s"
  for cfg opt out intr js
  by unfold_locales (use counted.kept early_keeps driver_ok_queue in blast)

lemma start_ok:
  "list_all (\<lambda>j. \<not> is_break j) (put_jobs items) \<Longrightarrow> driver_ok cfg opt out (put_jobs items) (start_driver n items)"
  using start_inv unfolding driver_ok_def by blast

lemma start_reach:
  assumes "driver_steps cfg opt out intr (start_driver n items) s"
    and "list_all (\<lambda>j. \<not> is_break j) (put_jobs items)"
  obtains pr lost got where "driver_inv cfg opt out (put_jobs items) pr lost got s"
    and "never_raises cfg opt out \<Longrightarrow> lost = []"
  using counted.reach [OF assms(1) start_ok [OF assms(2)]] that by (auto simp: driver_ok_def)

lemma start_reach_late:
  assumes "driver_steps cfg opt out intr (start_driver n items) s" and "list_all is_ok items"
    and "list_all (\<lambda>j. \<not> is_break j) (put_jobs items)"
  shows "late_inv s"
proof -
  have "late_inv (start_driver n items)" using assms(2) by (simp add: late_inv_def start_driver_def)
  then show ?thesis using late.reach [OF assms(1)] start_ok [OF assms(3)] by blast
qed

lemma start_reach_early:
  assumes "driver_steps cfg opt out intr (start_driver n items) s" and "\<not> list_all is_ok items"
    and "list_all (\<lambda>j. \<not> is_break j) (put_jobs items)"
  shows "early_inv s"
proof -
  have "early_inv (start_driver n items)" using assms(2) by (simp add: early_inv_def start_driver_def)
  then show ?thesis using early.reach [OF assms(1)] start_ok [OF assms(3)] by blast
qed

lemma steps_intr: "driver_steps cfg opt out False s s' \<Longrightarrow> driver_steps cfg opt out intr s s'"
proof (induction rule: rtranclp_induct)
  case (step u v)
  from step.hyps(2) have "driver_step cfg opt out intr u v" by cases (auto intro: driver_step.intros)
  then show ?case using step.IH by simp
qed simp

text \<open>At the end every job has been processed, and in the order \<open>pr\<close> in which the tally has them.\<close>

lemma at_the_end:
  assumes inv: "driver_inv cfg opt out js pr lost got s" and m: "main_thread s = MEnd total_tests t"
  shows "mset pr = mset js" and "list_all2 (came cfg opt out (thread_exit s)) pr got" and "tallies opt got t"
    and "total_tests = length js" and "lost = []"
proof -
  have g: "length got = length js" "total_tests = length js" "tallies opt got t"
    using inv m by (simp_all add: driver_inv_def main_inv_def)
  have l: "length pr = length got + length (output_queue s)"
    using inv list_all2_lengthD by (fastforce simp: driver_inv_def)
  have p: "mset js = mset (waiting s) + mset (concat (map held (threads s))) + mset pr + mset lost"
    using inv m by (simp add: driver_inv_def place_inv_def coming_def)
  then have "length js = length (waiting s) + length (concat (map held (threads s))) + length pr + length lost"
    by (metis size_mset size_union)
  then have e: "waiting s = []" "concat (map held (threads s)) = []" "lost = []" "output_queue s = []"
    using g l by auto
  show "mset pr = mset js" using p unfolding e by simp
  show "list_all2 (came cfg opt out (thread_exit s)) pr got" using inv e(4) by (simp add: driver_inv_def)
  show "tallies opt got t" "total_tests = length js" "lost = []" using g e by simp_all
qed

text \<open>A schedule as a list of choices, and the state it leads to.\<close>

datatype choice = Main | Get nat | Check nat | Finish nat "proc py" | Interrupt

fun play :: "tcfg \<Rightarrow> opts \<Rightarrow> (job \<Rightarrow> proc py \<Rightarrow> bool) \<Rightarrow> choice \<Rightarrow> driver \<Rightarrow> driver option" where
  "play cfg opt out Main s = main_step opt s"
| "play cfg opt out (Get i) s = (if i < length (threads s) then worker_get i s else None)"
| "play cfg opt out (Check i) s = (if i < length (threads s) then worker_check i s else None)"
| "play cfg opt out (Finish i p) s =
     (if i < length (threads s)
      then (case threads s ! i of WRun j \<Rightarrow> if out j p then worker_finish cfg opt i p s else None | _ \<Rightarrow> None)
      else None)"
| "play cfg opt out Interrupt s = (if thread_exit s then None else Some (sigint_hook s))"

fun play_all :: "tcfg \<Rightarrow> opts \<Rightarrow> (job \<Rightarrow> proc py \<Rightarrow> bool) \<Rightarrow> choice list \<Rightarrow> driver \<Rightarrow> driver option" where
  "play_all cfg opt out [] s = Some s"
| "play_all cfg opt out (c # cs) s =
     (case play cfg opt out c s of None \<Rightarrow> None | Some s' \<Rightarrow> play_all cfg opt out cs s')"

lemma play_step: "play cfg opt out c s = Some s' \<Longrightarrow> (c = Interrupt \<Longrightarrow> intr) \<Longrightarrow> driver_step cfg opt out intr s s'"
  by (cases c) (auto split: if_splits worker.splits intro: driver_step.intros)

lemma play_steps:
  "play_all cfg opt out cs s = Some s' \<Longrightarrow> (Interrupt \<in> set cs \<Longrightarrow> intr) \<Longrightarrow> driver_steps cfg opt out intr s s'"
proof (induction cs arbitrary: s)
  case (Cons c cs)
  then obtain u where "play cfg opt out c s = Some u" "play_all cfg opt out cs u = Some s'"
    by (auto split: option.splits)
  then show ?case using Cons play_step [of cfg opt out c s u intr]
    by (auto intro: converse_rtranclp_into_rtranclp)
qed simp

text \<open>A run of one worker over two suites, the second of which fails.\<close>

definition demo_cfg :: tcfg where
  "demo_cfg =
     \<lparr>NS3_BASEDIR = ''/n'', NS3_BUILDDIR = ''/n/build'', NS3_MODULE_PATH = [], NS3_ENABLED_MODULES = [],
      NS3_ENABLED_CONTRIBUTED_MODULES = [], EXAMPLE_DIRECTORIES = [], NSC_ENABLED = False,
      ENABLE_EXAMPLES = True, ENABLE_TESTS = True, ENABLE_PYTHON_BINDINGS = True, APPNAME = ''ns'',
      VERSION = ''3'', BUILD_PROFILE = ''debug'', PYTHON = [], VALGRIND_FOUND = True\<rparr>"

definition demo_items :: "job py list" where
  "demo_items =
     [Inr (new_job\<lparr>display_name := ''b'', tmp_file_name := ''b''\<rparr>),
      Inr (new_job\<lparr>display_name := ''a'', tmp_file_name := ''a''\<rparr>)]"

definition demo_res :: "job \<Rightarrow> proc py" where
  "demo_res j =
     Inr \<lparr>proc_rc = (if display_name j = ''a'' then 1 else 0), proc_out = (True, []), proc_err = (True, []),
          proc_time = 1, proc_xml = Some ''x''\<rparr>"

definition demo_run :: "choice list" where
  "demo_run =
     [Main, Get 0, Check 0, Main, Main, Main, Main, Finish 0 (demo_res (new_job\<lparr>display_name := ''b''\<rparr>)),
      Main, Get 0, Check 0, Finish 0 (demo_res (new_job\<lparr>display_name := ''a''\<rparr>)), Get 0, Main, Main, Main, Main]"

definition demo_end :: "driver option" where
  "demo_end = play_all demo_cfg default_opts (\<lambda>j p. p = demo_res j) demo_run (start_driver 1 demo_items)"

lemma demo_end_main:
  "(case map_option main_thread demo_end of Some (MEnd n t) \<Rightarrow> (n, exit_status n t) | _ \<Rightarrow> (0, 0)) = (2, 1)"
  by code_simp

lemma demo_reached:
  obtains s t where "driver_steps demo_cfg default_opts (\<lambda>j p. p = demo_res j) False (start_driver 1 demo_items) s"
    and "main_thread s = MEnd 2 t" and "exit_status 2 t = 1"
proof -
  obtain s where s: "demo_end = Some s" using demo_end_main by (cases demo_end) auto
  moreover obtain t where "main_thread s = MEnd 2 t" "exit_status 2 t = 1"
    using demo_end_main unfolding s by (cases "main_thread s") auto
  moreover have "Interrupt \<notin> set demo_run" by (simp add: demo_run_def)
  ultimately show thesis using play_steps [of _ _ _ demo_run _ s False] that by (force simp: demo_end_def)
qed

lemma demo_no_break: "list_all (\<lambda>j. \<not> is_break j) (put_jobs demo_items)"
  by (simp add: demo_items_def new_job_def)

section \<open>What the driver reports\<close>

text \<open>
  Whatever the interleaving, and interrupted or not, a driver that reaches its end has taken back every
  dispatched job exactly once and counted it.
\<close>

lemma driver_counts:
  assumes "list_all (\<lambda>j. \<not> is_break j) (put_jobs items)"
    and "driver_steps cfg opt out intr (start_driver n items) s" and "main_thread s = MEnd total_tests t"
  shows "\<exists>pr got. mset pr = mset (put_jobs items) \<and> list_all2 (came cfg opt out (thread_exit s)) pr got \<and>
    total_tests = length got \<and> tallies opt got t \<and>
    passed_tests t + failed_tests t + crashed_tests t + valgrind_errors t + skipped_tests t +
      length (filter is_break got) = total_tests \<and>
    (exit_status total_tests t = 0 \<longleftrightarrow> list_all fine_job got)"
proof -
  obtain pr lost got where inv: "driver_inv cfg opt out (put_jobs items) pr lost got s"
    using start_reach [OF assms(2,1)] by blast
  note e = at_the_end [OF inv assms(3)]
  have n: "total_tests = length got" using e by (metis list_all2_lengthD size_mset)
  have "length (real_jobs got) + length (filter is_break got) = length got"
    using sum_length_filter_compl [of is_break got] by (simp add: real_jobs_def)
  then show ?thesis using e n exit_status_tallies [OF e(3)] status_partition [of got]
    by (intro exI [of _ pr] exI [of _ got]) (auto simp: tallies_def)
qed

lemma no_interrupt:
  "driver_steps cfg opt out False (start_driver n items) s \<Longrightarrow> \<not> thread_exit s"
proof (induction rule: rtranclp_induct)
  case base
  show ?case by (simp add: start_driver_def)
next
  case (step u v)
  from step.hyps(2) show ?case
    by cases (use step.IH in \<open>auto simp: main_step_def worker_get_def worker_check_def worker_finish_def
      split: main_pc.splits list.splits sum.splits nat.splits worker.splits if_splits\<close>)
qed

text \<open>The reference: the jobs run one after the other, in the order of their dispatch.\<close>

definition run_one :: "tcfg \<Rightarrow> opts \<Rightarrow> (job \<Rightarrow> proc py) \<Rightarrow> job \<Rightarrow> job" where
  "run_one cfg opt res j =
     (if is_skip j then j
      else (case run_worker_job cfg opt j (res j) of Inl e \<Rightarrow> j | Inr j' \<Rightarrow> j'))"

definition tally_of :: "opts \<Rightarrow> job list \<Rightarrow> tally" where
  "tally_of opt got =
     \<lparr>passed_tests = length (with_status PASS got),
      failed_tests = length (with_status FAIL got), failed_testnames = map display_name (with_status FAIL got),
      crashed_tests = length (with_status CRASH got), crashed_testnames = map display_name (with_status CRASH got),
      valgrind_errors = length (with_status VALGR got), valgrind_testnames = map display_name (with_status VALGR got),
      skipped_tests = length (with_status SKIP got), skipped_testnames = map display_name (with_status SKIP got),
      printed = map (status_line opt) (real_jobs got), results = []\<rparr>"

lemma came_run_one: "came cfg opt (\<lambda>j p. p = res j) False j j' \<Longrightarrow> j' = run_one cfg opt res j"
  by (auto simp: came_def run_one_def)

lemma came_all: "list_all2 (came cfg opt (\<lambda>j p. p = res j) False) pr got \<Longrightarrow> got = map (run_one cfg opt res) pr"
  by (induction rule: list_all2_induct) (auto dest: came_run_one)

lemma with_status_mset: "mset got = mset got' \<Longrightarrow> mset (with_status st got) = mset (with_status st got')"
  by (simp add: with_status_def real_jobs_def mset_filter)

lemma names_line_mset: "mset xs = mset ys \<Longrightarrow> names_line what xs = names_line what ys"
  using properties_for_sort [of "sort ys" xs] by (auto simp: names_line_def dest: mset_eq_length)

lemma summary_mset:
  assumes "tallies opt got t" and "mset got = mset got'"
  shows "summary k t = summary k (tally_of opt got')" and "exit_status k t = exit_status k (tally_of opt got')"
proof -
  have l: "length (with_status st got) = length (with_status st got')" for st
    using with_status_mset [OF assms(2), of st] by (rule mset_eq_length)
  have m: "mset (map display_name (with_status st got)) = mset (map display_name (with_status st got'))" for st
    using with_status_mset [OF assms(2), of st] by (metis mset_map)
  show "summary k t = summary k (tally_of opt got')"
    using assms(1) l names_line_mset [OF m] by (simp add: summary_def tallies_def tally_of_def)
  show "exit_status k t = exit_status k (tally_of opt got')"
    using assms(1) l by (simp add: exit_status_def tallies_def tally_of_def)
qed

text \<open>C3: when no interrupt comes and the commands are deterministic, any number of workers in any interleaving
  leads to the summary and the exit status of running the jobs one after the other, and to its status lines
  up to their order.\<close>

theorem driver_schedule_independent:
  assumes "list_all (\<lambda>j. \<not> is_break j) (put_jobs items)"
    and "driver_steps cfg opt (\<lambda>j p. p = res j) False (start_driver n items) s"
    and "main_thread s = MEnd total_tests t"
  shows "summary total_tests t =
      summary (length (put_jobs items)) (tally_of opt (map (run_one cfg opt res) (put_jobs items))) \<and>
    exit_status total_tests t =
      exit_status (length (put_jobs items)) (tally_of opt (map (run_one cfg opt res) (put_jobs items))) \<and>
    mset (printed t) = mset (printed (tally_of opt (map (run_one cfg opt res) (put_jobs items))))"
proof -
  obtain pr lost got where inv: "driver_inv cfg opt (\<lambda>j p. p = res j) (put_jobs items) pr lost got s"
    using start_reach [OF assms(2,1)] by blast
  note e = at_the_end [OF inv assms(3)]
  have "got = map (run_one cfg opt res) pr" using e(2) no_interrupt [OF assms(2)] came_all by simp
  then have m: "mset got = mset (map (run_one cfg opt res) (put_jobs items))" using e(1) by simp
  have "mset (printed t) = mset (map (status_line opt) (real_jobs got))" using e(3) by (simp add: tallies_def)
  also have "\<dots> = mset (printed (tally_of opt (map (run_one cfg opt res) (put_jobs items))))"
    using m by (simp add: tally_of_def real_jobs_def mset_filter)
  finally show ?thesis using summary_mset [OF e(3) m] e(4) by simp
qed

theorem driver_schedule_independent_witness:
  "\<exists>s t. driver_steps demo_cfg default_opts (\<lambda>j p. p = demo_res j) False (start_driver 1 demo_items) s \<and>
     main_thread s = MEnd 2 t \<and>
     summary 2 t = summary 2 (tally_of default_opts (map (run_one demo_cfg default_opts demo_res) (put_jobs demo_items)))"
proof -
  obtain s t where s: "driver_steps demo_cfg default_opts (\<lambda>j p. p = demo_res j) False (start_driver 1 demo_items) s"
    "main_thread s = MEnd 2 t" using demo_reached .
  have "length (put_jobs demo_items) = 2" by (simp add: demo_items_def)
  then show ?thesis using driver_schedule_independent [OF demo_no_break s] s by auto
qed

text \<open>C4: with at least one worker, conditions that all evaluate and commands that end without making a thread
  raise, every run of the driver is over after at most five steps per job, three per worker and five more. A run
  that cannot go on has ended with all its threads, and every run can be continued to its end: there is no
  deadlock, with or without an interrupt.\<close>

theorem driver_terminates:
  assumes "list_all is_ok items" and "list_all (\<lambda>j. \<not> is_break j) (put_jobs items)" and "0 < n"
    and "never_raises cfg opt out" and "\<And>j. \<exists>p. out j p"
    and "(driver_step cfg opt out intr ^^ k) (start_driver n items) s"
  shows "k \<le> 5 * length items + 3 * n + 5 \<and>
    (process_ended s \<or> (\<exists>s'. driver_step cfg opt out False s s')) \<and>
    (\<exists>s'. driver_steps cfg opt out False s s' \<and> process_ended s')"
proof -
  have moves: "process_ended u \<or> (\<exists>s'. driver_step cfg opt out False u s')"
    if r: "driver_steps cfg opt out intr (start_driver n items) u" for u
  proof -
    obtain pr got where inv: "driver_inv cfg opt out (put_jobs items) pr [] got u"
      using start_reach [OF r assms(2)] assms(4) by metis
    have "late_inv u" by (rule start_reach_late [OF r assms(1,2)])
    moreover have "threads u \<noteq> []" using process_keeps_threads [OF r] assms(3) by (auto simp: start_driver_def)
    ultimately show ?thesis using progress [OF inv _ _ assms(5)] by blast
  qed
  have r: "driver_steps cfg opt out intr (start_driver n items) s" using assms(6) by (rule relpowp_imp_rtranclp)
  obtain s' where s': "driver_steps cfg opt out False s s'" "\<forall>u. \<not> driver_step cfg opt out False s' u"
    using measured.last_state by blast
  have "driver_steps cfg opt out intr (start_driver n items) s'" using r steps_intr [OF s'(1)] by (rule rtranclp_trans)
  then have "process_ended s'" using moves s'(2) by blast
  moreover have "k \<le> 5 * length items + 3 * n + 5" using measured.run_length [OF assms(6)] by (simp add: start_weight)
  ultimately show ?thesis using moves [OF r] s'(1) by blast
qed

text \<open>In the witness the interpreter is configured, and a command can end with any result.\<close>

definition ends_ok :: "job \<Rightarrow> proc py \<Rightarrow> bool" where
  "ends_ok j p \<longleftrightarrow> is_ok p"

definition with_python :: tcfg where
  "with_python = demo_cfg\<lparr>PYTHON := [''python3'']\<rparr>"

lemma with_python_ok: "never_raises with_python opt ends_ok"
proof -
  have "is_ok (run_worker_job with_python opt j (Inr p))" for j p
    by (simp add: run_worker_job_def run_job_synchronously_def job_cmd_def Let_def with_python_def py_get_def
        norm_index_def)
  then show ?thesis by (auto simp: never_raises_def ends_ok_def is_ok_iff)
qed

theorem driver_terminates_witness:
  "\<exists>s. (driver_step with_python default_opts ends_ok True ^^ 1) (start_driver 2 demo_items) s \<and>
     (\<exists>s'. driver_steps with_python default_opts ends_ok False s s' \<and> process_ended s')"
proof -
  obtain s where "main_step default_opts (start_driver 2 demo_items) = Some s"
    by (auto simp: main_step_def start_driver_def demo_items_def)
  then have s: "(driver_step with_python default_opts ends_ok True ^^ 1) (start_driver 2 demo_items) s"
    by (auto intro: driver_step.main)
  have "\<exists>p. ends_ok j p" for j by (intro exI [of _ "Inr undefined"]) (simp add: ends_ok_def)
  then show ?thesis
    using driver_terminates [OF _ demo_no_break _ with_python_ok _ s] s by (force simp: demo_items_def)
qed

text \<open>C24: a worker that runs a python example while \<open>PYTHON\<close> is empty, its value when the configuration
  does not set it, dies of an IndexError and never hands its job back: the driver waits for it and never
  reaches its summary, its reports and its exit status.\<close>

theorem driver_dead_worker:
  assumes "list_all (\<lambda>j. \<not> is_break j) (put_jobs items)" and "PYTHON cfg = []"
    and "j \<in> set (put_jobs items)" and "is_pyexample j" and "\<not> is_skip j"
    and "driver_steps cfg opt out False (start_driver n items) s"
  shows "main_thread s \<noteq> MEnd total_tests t"
proof
  assume m: "main_thread s = MEnd total_tests t"
  obtain pr lost got where inv: "driver_inv cfg opt out (put_jobs items) pr lost got s"
    using start_reach [OF assms(6,1)] by blast
  note e = at_the_end [OF inv m]
  have "j \<in> set pr" using e(1) assms(3) by (metis set_mset_mset)
  then obtain j' where "came cfg opt out False j j'"
    using e(2) no_interrupt [OF assms(6)] by (auto simp: list_all2_conv_all_nth in_set_conv_nth)
  then show False using assms(2,4,5)
    by (simp add: came_def run_worker_job_def runs_example_def run_job_synchronously_def job_cmd_def py_get_def
        norm_index_def)
qed

definition py_item :: job where
  "py_item = new_job\<lparr>is_pyexample := True, shell_command := ''a.py''\<rparr>"

theorem driver_dead_worker_witness:
  "\<exists>s. driver_steps demo_cfg default_opts (\<lambda>j p. is_ok p) False (start_driver 1 [Inr py_item]) s \<and>
     WDied IndexError \<in> set (threads s) \<and> (\<forall>k t. main_thread s \<noteq> MEnd k t)"
proof -
  let ?out = "\<lambda>j p. is_ok p"
  let ?cs = "[Main, Get 0, Check 0, Finish 0 (demo_res py_item)]"
  have "map_option threads (play_all demo_cfg default_opts ?out ?cs (start_driver 1 [Inr py_item])) =
      Some [WDied IndexError]" by code_simp
  then obtain s where p: "play_all demo_cfg default_opts ?out ?cs (start_driver 1 [Inr py_item]) = Some s"
    and w: "threads s = [WDied IndexError]" by (auto simp: map_option_eq_Some)
  from p have s: "driver_steps demo_cfg default_opts ?out False (start_driver 1 [Inr py_item]) s"
    by (rule play_steps) simp
  moreover have "WDied IndexError \<in> set (threads s)" by (simp add: w)
  moreover have "main_thread s \<noteq> MEnd k t" for k t
    using driver_dead_worker [OF _ _ _ _ _ s, of py_item] by (simp add: py_item_def new_job_def demo_cfg_def)
  ultimately show ?thesis by blast
qed

text \<open>C5: the workers are started before the conditions of the examples are evaluated, and the breaks are put
  after that. So when a condition raises, the main thread ends without a break, and the process
  never ends: its workers wait for ever, also after an interrupt.\<close>

theorem driver_dispatch_error:
  assumes "\<not> list_all is_ok items" and "list_all (\<lambda>j. \<not> is_break j) (put_jobs items)" and "0 < n"
    and "never_raises cfg opt out" and "driver_steps cfg opt out intr (start_driver n items) s"
  shows "\<not> process_ended s"
proof
  assume e: "process_ended s"
  have "early_inv s" by (rule start_reach_early [OF assms(5,1,2)])
  then have "dones s = 0" using e
    by (auto simp: early_inv_def process_ended_def main_ended_def split: main_pc.splits)
  then have "WDone \<notin> set (threads s)" by (auto simp: dones_def filter_empty_conv)
  moreover obtain pr got where "driver_inv cfg opt out (put_jobs items) pr [] got s"
    using start_reach [OF assms(5,2)] assms(4) by metis
  then have "filter died (threads s) = []" by (simp add: driver_inv_def place_inv_def)
  moreover have "threads s \<noteq> []" using process_keeps_threads [OF assms(5)] assms(3) by (auto simp: start_driver_def)
  moreover have "finished w \<Longrightarrow> w = WDone \<or> died w" for w by (cases w) (auto simp: finished_def)
  ultimately show False using e
    by (metis filter_empty_conv list.set_sel(1) list_all_iff process_ended_def)
qed

theorem driver_dispatch_error_witness:
  "\<exists>s. driver_steps with_python default_opts ends_ok True (start_driver 2 [Inl NameError]) s \<and>
     main_thread s = MDied NameError \<and> \<not> process_ended s"
proof -
  let ?s0 = "start_driver 2 [Inl NameError]"
  have "main_step default_opts ?s0 = Some (?s0\<lparr>main_thread := MDied NameError\<rparr>)"
    by (simp add: main_step_def start_driver_def)
  then have s: "driver_steps with_python default_opts ends_ok True ?s0 (?s0\<lparr>main_thread := MDied NameError\<rparr>)"
    by (intro r_into_rtranclp driver_step.main)
  show ?thesis
    using driver_dispatch_error [OF _ _ _ with_python_ok s] s
    by (intro exI [of _ "?s0\<lparr>main_thread := MDied NameError\<rparr>"]) simp
qed

end
