(* ===== verification/TestMain.thy ===== *)
theory TestMain
  imports TestSetup TestDriver
begin

text \<open>
  \<open>run_tests\<close> of \<open>test.py\<close>: what it does before it starts the threads, and the whole run. \<open>waf\<close> gives the
  return code of a command of the build, \<open>runner\<close> what a call of the test runner leaves behind.
\<close>

section \<open>Asking the test runner\<close>

text \<open>The return value, whether the output could be decoded, and the output.\<close>

definition ask_runner :: "tcfg \<Rightarrow> (string \<Rightarrow> proc py) \<Rightarrow> string \<Rightarrow> (int \<times> bool \<times> string) py" where
  "ask_runner cfg runner args =
     (let command = path_join ''utils'' (test_runner_name cfg @ args) in
      bind_e (job_cmd cfg command False False []) (\<lambda>cmd.
      bind_e (runner cmd) (\<lambda>p.
      bind_e (run_job_synchronously cfg command False False [] (Inr p)) (\<lambda>(rc, out, err, et).
        Inr (rc, fst (proc_out p), out)))))"

text \<open>A byte string that cannot be decoded stays one, and decoding it again raises.\<close>

definition runner_names :: "tcfg \<Rightarrow> (string \<Rightarrow> proc py) \<Rightarrow> string option \<Rightarrow> string py" where
  "runner_names cfg runner kind =
     bind_e (ask_runner cfg runner
              ('' --print-test-name-list'' @ (case kind of None \<Rightarrow> [] | Some k \<Rightarrow> '' --test-type='' @ k)))
       (\<lambda>(rc, decoded, out). if decoded then Inr out else Inl ValueError)"

text \<open>
  \<open>print(standard_out.decode())\<close>: in Python 3 the output is a text by then, which has no \<open>decode\<close>, unless it
  could not be decoded.
\<close>

definition kinds_report :: "tcfg \<Rightarrow> (string \<Rightarrow> proc py) \<Rightarrow> string list py" where
  "kinds_report cfg runner =
     bind_e (ask_runner cfg runner '' --print-test-type-list'')
       (\<lambda>(rc, decoded, out). if decoded then Inl AttributeError else Inl ValueError)"

text \<open>The flag says whether the listing was made; without it \<open>run_tests\<close> returns after the two messages.\<close>

definition list_report :: "tcfg \<Rightarrow> opts \<Rightarrow> (string \<Rightarrow> proc py) \<Rightarrow> string list \<Rightarrow> (bool \<times> string list) py" where
  "list_report cfg opt runner example_names =
     bind_e (ask_runner cfg runner
              ('' --print-test-name-list --print-test-types'' @
               (if constrain opt \<noteq> [] then '' --test-type='' @ constrain opt else [])))
       (\<lambda>(rc, decoded, out).
          if rc \<noteq> 0
          then Inr (False,
                 [''test.py error:  test-runner return code returned '' @ str_of_int rc,
                  ''To debug, try running '' @ [CHR 0x27] @ ''./waf --run \"test-runner --print-test-name-list\"'' @
                    [CHR 0x27] @ [nl]])
          else if \<not> decoded then Inl ValueError
          else Inr (True,
                 [''Test Type    Test Name'', ''---------    ---------''] @
                 filter (\<lambda>item. strip item \<noteq> []) (sort (split_on nl out)) @
                 map (\<lambda>item. ''example      '' @ item) (sort example_names) @ [[]]))"

section \<open>Before the threads\<close>

datatype outcome = Returned "int option" "string list" | Planned "string \<rightharpoonup> string" "job py list"

definition names_in :: "pval \<Rightarrow> string list py" where
  "names_in v =
     (case v of
        VList xs \<Rightarrow> fold_e (\<lambda>acc x. case x of VStr s \<Rightarrow> Inr (acc @ [s]) | _ \<Rightarrow> Inl TypeError) [] xs
      | _ \<Rightarrow> Inl TypeError)"

definition build_status ::
    "(string \<Rightarrow> pval py) \<Rightarrow> tcfg \<Rightarrow> (string \<rightharpoonup> string list) \<Rightarrow> ((string \<rightharpoonup> string) \<times> string list) py" where
  "build_status ev cfg file =
     (case file (path_join (NS3_BUILDDIR cfg) ''build-status.py'') of
        None \<Rightarrow> Inl (SystemExit 2)
      | Some lines \<Rightarrow>
          bind_e (get_list_from_file ev (Some lines) ''ns3_runnable_programs'') (\<lambda>programs.
          bind_e (get_list_from_file ev (Some lines) ''ns3_runnable_scripts'') (\<lambda>scripts.
          bind_e (names_in programs) (\<lambda>ps.
          bind_e (names_in scripts) (\<lambda>ss. Inr (programs_dictionary ps, ss))))))"

definition listings ::
    "tcfg \<Rightarrow> opts \<Rightarrow> (string \<Rightarrow> proc py) \<Rightarrow> string list \<Rightarrow> string list py" where
  "listings cfg opt runner example_names =
     bind_e (if kinds opt then kinds_report cfg runner else Inr []) (\<lambda>ls.
     bind_e (if list_tests opt then list_report cfg opt runner example_names else Inr (True, [])) (\<lambda>(_, ls').
       Inr (ls @ ls')))"

definition plan ::
    "(string \<Rightarrow> pval py) \<Rightarrow> tcfg \<Rightarrow> opts \<Rightarrow> (string \<Rightarrow> proc py) \<Rightarrow> string \<Rightarrow> string \<Rightarrow> (string \<rightharpoonup> string) \<Rightarrow>
      string list \<Rightarrow> example_lists \<Rightarrow> job py list py" where
  "plan ev cfg opt runner here outdir programs scripts ls =
     bind_e (suite_list opt (runner_names cfg runner)) (\<lambda>suites.
       Inr (dispatch ev cfg opt outdir here programs scripts suites (fst ls) (snd (snd ls))))"

definition prepare ::
    "(string \<Rightarrow> pval py) \<Rightarrow> tcfg \<Rightarrow> opts \<Rightarrow> string \<Rightarrow> string \<Rightarrow> (string \<Rightarrow> int) \<Rightarrow> (string \<rightharpoonup> string list) \<Rightarrow>
      (string \<Rightarrow> bool) \<Rightarrow> (string \<Rightarrow> proc py) \<Rightarrow> string \<Rightarrow> string \<Rightarrow> (string \<rightharpoonup> string) \<Rightarrow> outcome py" where
  "prepare ev cfg opt platform interpreter waf file exists_path runner here outdir env =
     (let rc = (if nowaf opt then 0 else waf (waf_cmd interpreter opt)) in
      if rc \<noteq> 0 then Inr (Returned (Some rc) [''Waf died. Not running tests''])
      else
        let env = make_paths cfg platform env in
        bind_e (build_status ev cfg file) (\<lambda>(programs, scripts).
        bind_e (collect_examples ev cfg here file exists_path) (\<lambda>ls.
        let env = env(''NS_LOG'' \<mapsto> []) in
        if kinds opt \<or> list_tests opt
        then bind_e (listings cfg opt runner (fst (snd ls))) (\<lambda>lines. Inr (Returned None lines))
        else bind_e (plan ev cfg opt runner here outdir programs scripts ls) (\<lambda>items. Inr (Planned env items)))))"

section \<open>The whole run\<close>

lemma put_jobs_append: "j \<in> set (put_jobs (xs @ ys)) \<Longrightarrow> j \<in> set (put_jobs xs) \<or> j \<in> set (put_jobs ys)"
  by (induction xs rule: put_jobs.induct) auto

lemma put_jobs_map_Inr: "put_jobs (map (\<lambda>x. Inr (f x)) xs) = map f xs"
  by (induction xs) auto

lemma put_jobs_entries: "j \<in> set (put_jobs (entries f xs)) \<Longrightarrow> \<exists>x \<in> set xs. f x = Inr (Some j)"
  by (induction xs) (auto split: sum.splits option.splits)

lemma dispatch_no_break:
  "list_all (\<lambda>j. \<not> is_break j) (put_jobs (dispatch ev cfg opt outdir here programs scripts suites tests pys))"
proof -
  have s: "\<not> is_break j" if "j \<in> set (put_jobs (suite_jobs cfg opt outdir here suites))" for j
    using that by (auto simp: suite_jobs_def put_jobs_map_Inr suite_job_def new_job_def)
  have e: "\<not> is_break j" if "j \<in> set (put_jobs (example_jobs ev cfg opt outdir here programs tests))" for j
    using that put_jobs_entries [of j "example_entry ev opt outdir here programs" tests]
    by (auto simp: example_jobs_def example_entry_def example_job_def new_job_def bind_e_Inr_iff Let_def
        split: if_splits option.splits)
  have y: "\<not> is_break j" if "j \<in> set (put_jobs (pyexample_jobs ev cfg opt outdir here scripts pys))" for j
    using that put_jobs_entries [of j "pyexample_entry ev cfg opt outdir here scripts" pys]
    by (auto simp: pyexample_jobs_def pyexample_entry_def pyexample_job_def new_job_def bind_e_Inr_iff
        split: if_splits)
  show ?thesis unfolding dispatch_def list_all_iff
  proof
    fix j assume "j \<in> set (put_jobs (suite_jobs cfg opt outdir here suites @
      example_jobs ev cfg opt outdir here programs tests @ pyexample_jobs ev cfg opt outdir here scripts pys))"
    then show "\<not> is_break j" using put_jobs_append s e y by blast
  qed
qed

lemma prepare_no_break:
  "prepare ev cfg opt platform interpreter waf file exists_path runner here outdir env = Inr (Planned env' items) \<Longrightarrow>
     list_all (\<lambda>j. \<not> is_break j) (put_jobs items)"
  by (auto simp: prepare_def plan_def Let_def bind_e_Inr_iff dispatch_no_break split: if_splits prod.splits)

text \<open>C2: whatever the interleaving of the threads, and interrupted or not, a run that comes to its end has taken
  every dispatched job back exactly once: as a break after an interrupt, unchanged when it is skipped, or with
  the result of its command. Each is counted once, under its status, and the exit status is 0 exactly when
  each was skipped or returned 0.\<close>

theorem run_tests_status:
  assumes "prepare ev cfg opt platform interpreter waf file exists_path runner here outdir env = Inr (Planned env' items)"
    and "driver_steps cfg opt out intr (start_driver n items) s" and "main_thread s = MEnd total_tests t"
  shows "\<exists>pr got. mset pr = mset (put_jobs items) \<and> list_all2 (came cfg opt out (thread_exit s)) pr got \<and>
    total_tests = length got \<and> tallies opt got t \<and>
    passed_tests t + failed_tests t + crashed_tests t + valgrind_errors t + skipped_tests t +
      length (filter is_break got) = total_tests \<and>
    (exit_status total_tests t = 0 \<longleftrightarrow> list_all fine_job got)"
  by (rule driver_counts [OF prepare_no_break [OF assms(1)] assms(2,3)])

text \<open>A run of the suite \<open>a\<close>, which fails.\<close>

definition demo_opts :: opts where
  "demo_opts = default_opts\<lparr>nowaf := True, suite := ''a''\<rparr>"

definition demo_file :: "string \<rightharpoonup> string list" where
  "demo_file = [''/n/build/build-status.py'' \<mapsto> []]"

definition demo_proc :: "int \<Rightarrow> string \<Rightarrow> proc" where
  "demo_proc rc out = \<lparr>proc_rc = rc, proc_out = (True, out), proc_err = (True, []), proc_time = 1, proc_xml = Some ''x''\<rparr>"

definition demo_plan :: "outcome py" where
  "demo_plan = prepare (\<lambda>s. Inl NameError) demo_cfg demo_opts ''linux'' ''python3'' (\<lambda>c. 1) demo_file (\<lambda>p. False)
     (\<lambda>c. Inr (demo_proc 0 (''a'' @ [nl]))) ''/n'' ''out'' Map.empty"

definition demo_suite :: job where
  "demo_suite = suite_job demo_cfg demo_opts ''out'' ''/n'' ''a''"

lemma demo_planned: "(case demo_plan of Inr (Planned e items) \<Rightarrow> items = [Inr demo_suite] | _ \<Rightarrow> False)"
  by code_simp

definition demo_schedule :: "choice list" where
  "demo_schedule =
     [Main, Main, Main, Main, Get 0, Check 0, Finish 0 (Inr (demo_proc 1 [])), Get 0, Main, Main, Main, Main]"

lemma demo_played:
  "(case map_option main_thread (play_all demo_cfg demo_opts (\<lambda>j p. is_ok p) demo_schedule (start_driver 1 [Inr demo_suite]))
    of Some (MEnd n t) \<Rightarrow> (n, exit_status n t) | _ \<Rightarrow> (0, 0)) = (1, 1)"
  by code_simp

theorem run_tests_status_witness:
  "\<exists>env s t got. demo_plan = Inr (Planned env [Inr demo_suite]) \<and>
     driver_steps demo_cfg demo_opts (\<lambda>j p. is_ok p) False (start_driver 1 [Inr demo_suite]) s \<and>
     main_thread s = MEnd 1 t \<and> length got = 1 \<and> tallies demo_opts got t \<and> \<not> list_all fine_job got"
proof -
  obtain env where p: "demo_plan = Inr (Planned env [Inr demo_suite])"
    using demo_planned by (auto split: sum.splits outcome.splits)
  obtain s where s: "play_all demo_cfg demo_opts (\<lambda>j p. is_ok p) demo_schedule (start_driver 1 [Inr demo_suite]) = Some s"
    using demo_played by (cases "play_all demo_cfg demo_opts (\<lambda>j p. is_ok p) demo_schedule (start_driver 1 [Inr demo_suite])") auto
  then obtain t where t: "main_thread s = MEnd 1 t" "exit_status 1 t = 1"
    using demo_played unfolding s by (cases "main_thread s") auto
  have r: "driver_steps demo_cfg demo_opts (\<lambda>j p. is_ok p) False (start_driver 1 [Inr demo_suite]) s"
    using s by (rule play_steps) (simp add: demo_schedule_def)
  obtain got where "1 = length got" "tallies demo_opts got t" "exit_status 1 t = 0 \<longleftrightarrow> list_all fine_job got"
    using run_tests_status [OF p [unfolded demo_plan_def] r t(1)] by blast
  moreover from this(1,3) have "\<not> list_all fine_job got" using t(2) by simp
  ultimately show ?thesis using p r t(1) by metis
qed

text \<open>With \<open>--kinds\<close> no run gets further than the build: what the test runner prints has been decoded, and
  decoding it again raises.\<close>

theorem kinds_raises:
  assumes "kinds opt" and "prepare ev cfg opt platform interpreter waf file exists_path runner here outdir env = Inr r"
  shows "\<not> nowaf opt \<and> waf (waf_cmd interpreter opt) \<noteq> 0 \<and>
    r = Returned (Some (waf (waf_cmd interpreter opt))) [''Waf died. Not running tests'']"
proof -
  have "listings cfg opt runner names \<noteq> Inr ls" for names ls
    using assms(1) by (auto simp: listings_def kinds_report_def bind_e_Inr_iff split: if_splits)
  then show ?thesis using assms by (auto simp: prepare_def Let_def bind_e_Inr_iff split: if_splits)
qed

lemma remove_subset: "set (foldl (\<lambda>ss p. if p \<in> set ss then remove1 p ss else ss) ss ps) \<subseteq> set ss"
proof (induction ps arbitrary: ss)
  case (Cons p ps)
  then show ?case using set_remove1_subset [of p ss] Cons.IH [of "remove1 p ss"] Cons.IH [of ss] by auto
qed simp

theorem kinds_raises_witness:
  "kinds (demo_opts\<lparr>kinds := True, nowaf := False\<rparr>) \<and>
   prepare (\<lambda>s. Inl NameError) demo_cfg (demo_opts\<lparr>kinds := True, nowaf := False\<rparr>) ''linux'' ''python3'' (\<lambda>c. 1) demo_file
     (\<lambda>p. False) (\<lambda>c. Inr (demo_proc 0 [])) ''/n'' ''out'' Map.empty = Inr (Returned (Some 1) [''Waf died. Not running tests''])"
proof -
  have k: "kinds (demo_opts\<lparr>kinds := True, nowaf := False\<rparr>)" by simp
  moreover have "prepare (\<lambda>s. Inl NameError) demo_cfg (demo_opts\<lparr>kinds := True, nowaf := False\<rparr>) ''linux'' ''python3'' (\<lambda>c. 1) demo_file
     (\<lambda>p. False) (\<lambda>c. Inr (demo_proc 0 [])) ''/n'' ''out'' Map.empty = Inr (Returned (Some 1) [''Waf died. Not running tests''])"
    (is "?p = Inr ?r") by (simp add: prepare_def)
  moreover from this have "?r = Returned (Some 1) [''Waf died. Not running tests'']" by (rule kinds_raises [OF k, THEN conjunct2, THEN conjunct2])
  ultimately show ?thesis by simp
qed

text \<open>A request for an example that does not exist is not an error, while an unknown suite ends
  with status 2: nothing is dispatched, and a driver that ends reports that 0 of 0 tests passed, with exit status 0.\<close>

theorem unknown_example_succeeds:
  assumes "suite opt = []" and "example opt \<noteq> []" and "pyexample opt = []"
    and "programs (program_name cfg (example opt)) = None" and "suite_list opt names = Inr suites"
    and "driver_steps cfg opt out intr
      (start_driver n (dispatch ev cfg opt outdir here programs scripts suites tests pys)) s"
    and "main_thread s = MEnd total_tests t"
  shows "total_tests = 0 \<and> exit_status total_tests t = 0 \<and>
    summary total_tests t = [''0 of 0 tests passed (0 passed, 0 skipped, 0 failed, 0 crashed, 0 valgrind errors)'']"
proof -
  have "set suites \<subseteq> {[]}"
    using assms(1-3,5) remove_subset [of "[[]]"]
    by (auto simp: suite_list_def chosen_suites_def bind_e_Inr_iff split: if_splits)
  then have "suite_jobs cfg opt outdir here suites = []"
    by (auto simp: suite_jobs_def filter_empty_conv strip_def lstrip_def rstrip_def)
  then have "dispatch ev cfg opt outdir here programs scripts suites tests pys = []"
    using assms(1-4) by (simp add: dispatch_def example_jobs_def pyexample_jobs_def all_default_def)
  then have "driver_steps cfg opt out intr (start_driver n []) s" using assms(6) by simp
  then obtain pr lost got where inv: "driver_inv cfg opt out [] pr lost got s"
    by (rule start_reach) auto
  note e = at_the_end [OF inv assms(7)]
  have "got = []" using e(1,2) by simp
  moreover have "str_of_nat 0 = ''0''" by code_simp
  ultimately show ?thesis using e(3,4)
    by (simp add: tallies_def with_status_def real_jobs_def exit_status_def summary_def names_line_def)
qed

theorem unknown_example_succeeds_witness:
  "\<exists>s t. driver_steps demo_cfg (default_opts\<lparr>example := ''none''\<rparr>) (\<lambda>j p. is_ok p) False (start_driver 1
      (dispatch (\<lambda>s. Inl NameError) demo_cfg (default_opts\<lparr>example := ''none''\<rparr>) ''out'' ''/n'' Map.empty [] [] [] [])) s \<and>
     main_thread s = MEnd 0 t \<and> exit_status 0 t = 0"
proof -
  let ?o = "default_opts\<lparr>example := ''none''\<rparr>"
  let ?d = "dispatch (\<lambda>s. Inl NameError) demo_cfg ?o ''out'' ''/n'' Map.empty [] [] [] []"
  let ?cs = "[Main, Main, Main, Get 0, Main, Main, Main]"
  have m: "(case map_option main_thread (play_all demo_cfg ?o (\<lambda>j p. is_ok p) ?cs (start_driver 1 ?d))
      of Some (MEnd n t) \<Rightarrow> n = 0 | _ \<Rightarrow> False)" by code_simp
  obtain s where s: "play_all demo_cfg ?o (\<lambda>j p. is_ok p) ?cs (start_driver 1 ?d) = Some s"
    using m by (cases "play_all demo_cfg ?o (\<lambda>j p. is_ok p) ?cs (start_driver 1 ?d)") auto
  then obtain t where t: "main_thread s = MEnd 0 t"
    using m unfolding s by (cases "main_thread s") auto
  have r: "driver_steps demo_cfg ?o (\<lambda>j p. is_ok p) False (start_driver 1 ?d) s"
    using s by (rule play_steps) simp
  have "suite_list ?o (\<lambda>k. Inr []) = Inr []" by code_simp
  then show ?thesis
    using unknown_example_succeeds [of ?o Map.empty demo_cfg "\<lambda>k. Inr []", OF _ _ _ _ _ r t] r t
    by (auto simp: default_opts_def)
qed

end
