(* ===== verification/Xml.thy ===== *)
theory Xml
  imports PyText
begin

text \<open>
  What \<open>test.py\<close> uses of \<open>xml.etree.ElementTree\<close>: \<open>parse\<close>, \<open>find\<close>, \<open>findall\<close>, \<open>text\<close> and \<open>get\<close>. The parser
  knows elements, attributes, text, the five predefined entities and the declaration; comments, sections of
  character data, other entities and document types, which no writer of the program uses, are errors here.
  A parse error is \<open>PyException\<close>.
\<close>

section \<open>Elements\<close>

datatype elem = Elem (tag: string) (attrs: "(string \<times> string) list") (elem_text: "string option") (kids: "elem list")

definition find_elem :: "string \<Rightarrow> elem \<Rightarrow> elem option" where
  "find_elem n e = List.find (\<lambda>k. tag k = n) (kids e)"

definition findall :: "string \<Rightarrow> elem \<Rightarrow> elem list" where
  "findall n e = filter (\<lambda>k. tag k = n) (kids e)"

section \<open>Tokens\<close>

datatype token = Open string "(string \<times> string) list" | Close string | Chars string

definition entities :: "(string \<times> char) list" where
  "entities = [(''amp'', CHR ''&''), (''lt'', CHR ''<''), (''gt'', CHR ''>''), (''quot'', CHR 0x22), (''apos'', CHR 0x27)]"

function unescape :: "string \<Rightarrow> string py" where
  "unescape s =
     (case s of
        [] \<Rightarrow> Inr []
      | c # cs \<Rightarrow>
          if c = CHR ''&''
          then (case (map_of entities (takeWhile (\<lambda>d. d \<noteq> CHR '';'') cs), dropWhile (\<lambda>d. d \<noteq> CHR '';'') cs) of
                  (Some d, _ # rest) \<Rightarrow> if length rest < length s then bind_e (unescape rest) (\<lambda>r. Inr (d # r)) else Inr []
                | _ \<Rightarrow> Inl PyException)
          else bind_e (unescape cs) (\<lambda>r. Inr (c # r)))"
  by pat_completeness auto
termination by (relation "measure length") auto

declare unescape.simps [simp del]

text \<open>Attributes: \<open>name="value"\<close>, separated by blanks.\<close>

function parse_attrs :: "string \<Rightarrow> (string \<times> string) list py" where
  "parse_attrs s =
     (case lstrip s of
        [] \<Rightarrow> Inr []
      | a # as \<Rightarrow>
          (case dropWhile (\<lambda>c. c \<noteq> CHR ''='') (a # as) of
             _ # q # r \<Rightarrow>
               if q \<in> {CHR 0x22, CHR 0x27}
               then (case dropWhile (\<lambda>c. c \<noteq> q) r of
                       [] \<Rightarrow> Inl PyException
                     | _ # rest \<Rightarrow>
                         if length rest < length s
                         then bind_e (unescape (takeWhile (\<lambda>c. c \<noteq> q) r)) (\<lambda>v.
                              bind_e (parse_attrs rest) (\<lambda>more.
                                Inr ((rstrip (takeWhile (\<lambda>c. c \<noteq> CHR ''='') (a # as)), v) # more)))
                         else Inr [])
               else Inl PyException
           | _ \<Rightarrow> Inl PyException))"
  by pat_completeness auto
termination by (relation "measure length") auto

declare parse_attrs.simps [simp del]

definition open_tag :: "string \<Rightarrow> (string \<times> (string \<times> string) list) py" where
  "open_tag body =
     bind_e (parse_attrs (dropWhile (\<lambda>c. \<not> is_space c) body)) (\<lambda>as.
       Inr (takeWhile (\<lambda>c. \<not> is_space c) body, as))"

definition tag_tokens :: "string \<Rightarrow> token list py" where
  "tag_tokens body =
     (if body = [] then Inl PyException
      else if hd body = CHR ''?'' then Inr []
      else if hd body = CHR ''/'' then Inr [Close (rstrip (tl body))]
      else if last body = CHR ''/''
      then bind_e (open_tag (butlast body)) (\<lambda>(n, as). Inr [Open n as, Close n])
      else bind_e (open_tag body) (\<lambda>(n, as). Inr [Open n as]))"

function tokens :: "string \<Rightarrow> token list py" where
  "tokens s =
     (case s of
        [] \<Rightarrow> Inr []
      | c # cs \<Rightarrow>
          if c = CHR ''<''
          then (case dropWhile (\<lambda>d. d \<noteq> CHR ''>'') cs of
                  [] \<Rightarrow> Inl PyException
                | _ # rest \<Rightarrow>
                    if length rest < length s
                    then bind_e (tag_tokens (takeWhile (\<lambda>d. d \<noteq> CHR ''>'') cs)) (\<lambda>t.
                         bind_e (tokens rest) (\<lambda>ts. Inr (t @ ts)))
                    else Inr [])
          else bind_e (unescape (takeWhile (\<lambda>d. d \<noteq> CHR ''<'') s)) (\<lambda>w.
               bind_e (tokens (dropWhile (\<lambda>d. d \<noteq> CHR ''<'') cs)) (\<lambda>ts. Inr (Chars w # ts))))"
  by pat_completeness auto
termination by (relation "measure length") (auto simp: less_Suc_eq_le length_dropWhile_le)

declare tokens.simps [simp del]

section \<open>The tree\<close>

text \<open>An open element: its name, its attributes, the text before its first child, its children.\<close>

type_synonym frame = "string \<times> (string \<times> string) list \<times> string \<times> elem list"

definition close_frame :: "frame \<Rightarrow> elem" where
  "close_frame = (\<lambda>(n, as, w, ks). Elem n as (if w = [] then None else Some w) ks)"

fun build :: "token list \<Rightarrow> frame list \<Rightarrow> elem option \<Rightarrow> elem py" where
  "build [] [] (Some r) = Inr r"
| "build [] _ _ = Inl PyException"
| "build (Chars w # ts) [] r = (if list_all is_space w then build ts [] r else Inl PyException)"
| "build (Chars w # ts) ((n, as, v, ks) # fs) r = build ts ((n, as, if ks = [] then v @ w else v, ks) # fs) r"
| "build (Open n as # ts) [] (Some r) = Inl PyException"
| "build (Open n as # ts) [] None = build ts [(n, as, [], [])] None"
| "build (Open n as # ts) (f # fs) r = build ts ((n, as, [], []) # f # fs) r"
| "build (Close n # ts) [] r = Inl PyException"
| "build (Close n # ts) [f] r = (if fst f = n then build ts [] (Some (close_frame f)) else Inl PyException)"
| "build (Close n # ts) (f # (m, as, w, ks) # fs) r =
     (if fst f = n then build ts ((m, as, w, ks @ [close_frame f]) # fs) r else Inl PyException)"

definition et_parse :: "string \<Rightarrow> elem py" where
  "et_parse s = bind_e (tokens s) (\<lambda>ts. build ts [] None)"

section \<open>Parsing what was written\<close>

lemma takeWhile_stop: "b = [] \<or> \<not> P (hd b) \<Longrightarrow> takeWhile P (a @ b) = takeWhile P a"
  by (induction a) (cases b; auto)+

lemma dropWhile_stop: "b = [] \<or> \<not> P (hd b) \<Longrightarrow> dropWhile P (a @ b) = dropWhile P a @ b"
  by (induction a) (cases b; auto)+

lemma tokens_Nil [simp]: "tokens [] = Inr []"
  by (subst tokens.simps) simp

lemma tokens_tag:
  assumes "CHR ''>'' \<notin> set body"
  shows "tokens (CHR ''<'' # body @ CHR ''>'' # rest) =
    bind_e (tag_tokens body) (\<lambda>t. bind_e (tokens rest) (\<lambda>ts. Inr (t @ ts)))"
proof -
  have "takeWhile (\<lambda>d. d \<noteq> CHR ''>'') (body @ CHR ''>'' # rest) = body"
    "dropWhile (\<lambda>d. d \<noteq> CHR ''>'') (body @ CHR ''>'' # rest) = CHR ''>'' # rest"
    using assms by (subst takeWhile_append2 dropWhile_append2; auto)+
  then show ?thesis by (subst tokens.simps) simp
qed

lemma tokens_chars:
  assumes "w \<noteq> []" and "CHR ''<'' \<notin> set w" and "b = [] \<or> hd b = CHR ''<''"
  shows "tokens (w @ b) = bind_e (unescape w) (\<lambda>w. bind_e (tokens b) (\<lambda>ts. Inr (Chars w # ts)))"
proof -
  obtain c w' where w: "w = c # w'" using assms(1) by (cases w) auto
  have "takeWhile (\<lambda>d. d \<noteq> CHR ''<'') (w @ b) = w"
    using assms(2,3) by (subst takeWhile_stop) (auto simp: takeWhile_eq_all_conv)
  moreover have "dropWhile (\<lambda>d. d \<noteq> CHR ''<'') (w' @ b) = b"
    using assms(2,3) w by (subst dropWhile_stop) (auto simp: dropWhile_eq_Nil_conv)
  moreover have "c \<noteq> CHR ''<''" using assms(2) w by auto
  ultimately show ?thesis unfolding w by (subst tokens.simps) simp
qed

lemma unescape_Nil [simp]: "unescape [] = Inr []"
  by (subst unescape.simps) simp

lemma unescape_plain: "CHR ''&'' \<notin> set w \<Longrightarrow> unescape w = Inr w"
proof (induction w)
  case (Cons c w)
  then show ?case by (subst unescape.simps) auto
qed simp

lemma tokens_plain:
  assumes "CHR ''<'' \<notin> set w" and "CHR ''&'' \<notin> set w" and "b = [] \<or> hd b = CHR ''<''"
  shows "tokens (w @ b) = bind_e (tokens b) (\<lambda>ts. Inr ((if w = [] then [] else [Chars w]) @ ts))"
  using assms by (cases "w = []"; cases "tokens b") (simp_all add: tokens_chars unescape_plain)

lemma starts_append: "x = [] \<or> hd x = c \<Longrightarrow> b = [] \<or> hd b = c \<Longrightarrow> x @ b = [] \<or> hd (x @ b) = c"
  by (cases x) auto

text \<open>A text that ends between tokens can be cut off.\<close>

lemma tokens_append:
  "tokens a = Inr ta \<Longrightarrow> b = [] \<or> hd b = CHR ''<'' \<Longrightarrow>
     tokens (a @ b) = bind_e (tokens b) (\<lambda>tb. Inr (ta @ tb))"
proof (induction a arbitrary: ta rule: tokens.induct)
  case (1 a)
  show ?case
  proof (cases a)
    case Nil
    then show ?thesis using 1 by (cases "tokens b") auto
  next
    case (Cons c cs)
    show ?thesis
    proof (cases "c = CHR ''<''")
      case True
      obtain d rest where d: "dropWhile (\<lambda>d. d \<noteq> CHR ''>'') cs = d # rest"
        using 1(3) Cons True by (subst (asm) tokens.simps) (auto split: list.splits)
      have l: "length rest < Suc (length cs)" using d length_dropWhile_le [of "\<lambda>d. d \<noteq> CHR ''>''" cs] by simp
      have cs: "cs = takeWhile (\<lambda>d. d \<noteq> CHR ''>'') cs @ d # rest" using d by (metis takeWhile_dropWhile_id)
      have dd: "d = CHR ''>''" using d by (metis (full_types) hd_dropWhile list.sel(1) list.distinct(1))
      let ?body = "takeWhile (\<lambda>d. d \<noteq> CHR ''>'') cs"
      have b: "CHR ''>'' \<notin> set ?body" by (auto dest: set_takeWhileD)
      have a: "a = CHR ''<'' # ?body @ CHR ''>'' # rest" using Cons True cs dd by simp
      obtain t ts where t: "tag_tokens ?body = Inr t" "tokens rest = Inr ts" "ta = t @ ts"
        using 1(3) unfolding a tokens_tag [OF b] by (auto simp: bind_e_Inr_iff)
      have "tokens (rest @ b) = bind_e (tokens b) (\<lambda>tb. Inr (ts @ tb))"
        using 1(1) [OF Cons True d _ t(1) t(2) 1(4)] l Cons by simp
      moreover have "a @ b = CHR ''<'' # ?body @ CHR ''>'' # (rest @ b)" using a by simp
      ultimately show ?thesis using t b by (simp add: tokens_tag bind_e_assoc)
    next
      case False
      let ?w = "takeWhile (\<lambda>d. d \<noteq> CHR ''<'') a"
      let ?r = "dropWhile (\<lambda>d. d \<noteq> CHR ''<'') a"
      have w: "?w \<noteq> []" "CHR ''<'' \<notin> set ?w" using Cons False by (auto dest: set_takeWhileD)
      have r: "?r = [] \<or> hd ?r = CHR ''<''" using hd_dropWhile [of "\<lambda>d. d \<noteq> CHR ''<''" a] by auto
      have a: "a = ?w @ ?r" by simp
      have "bind_e (unescape ?w) (\<lambda>w. bind_e (tokens ?r) (\<lambda>ts. Inr (Chars w # ts))) = Inr ta"
        using 1(3) tokens_chars [OF w r] by simp
      then obtain v ts where t: "unescape ?w = Inr v" "tokens ?r = Inr ts" "ta = Chars v # ts"
        by (auto simp: bind_e_Inr_iff)
      have d: "dropWhile (\<lambda>d. d \<noteq> CHR ''<'') cs = ?r" using Cons False by simp
      have t2: "tokens (dropWhile (\<lambda>d. d \<noteq> CHR ''<'') cs) = Inr ts" unfolding d by (rule t(2))
      have tb: "tokens (?r @ b) = bind_e (tokens b) (\<lambda>tb. Inr (ts @ tb))"
        using 1(2) [OF Cons False t(1) t2 1(4)] unfolding d .
      have "?r @ b = [] \<or> hd (?r @ b) = CHR ''<''" by (rule starts_append [OF r 1(4)])
      from tokens_chars [OF w this] have "tokens (?w @ (?r @ b)) = bind_e (tokens b) (\<lambda>tb. Inr (ta @ tb))"
        unfolding t(1) tb t(3) by (simp only: bind_e_Inr bind_e_assoc append_Cons)
      then show ?thesis by (metis a append_assoc)
    qed
  qed
qed

section \<open>Parts of a document\<close>

text \<open>Tokens that add the elements \<open>es\<close> to an open element, and the text \<open>w\<close> while it has no children.\<close>

definition yields :: "token list \<Rightarrow> string \<Rightarrow> elem list \<Rightarrow> bool" where
  "yields ts w es \<longleftrightarrow>
     (\<forall>n as v ks fs r rest.
        build (ts @ rest) ((n, as, v, ks) # fs) r =
        build rest ((n, as, if ks = [] then v @ w else v, ks @ es) # fs) r)"

lemma yields_Nil: "yields [] [] []"
  by (simp add: yields_def)

lemma yields_Chars: "yields [Chars w] w []"
  by (simp add: yields_def)

lemma yields_append:
  "yields ts w es \<Longrightarrow> yields ts' w' es' \<Longrightarrow> yields (ts @ ts') (if es = [] then w @ w' else w) (es @ es')"
  by (simp add: yields_def)

definition element :: "string \<Rightarrow> (string \<times> string) list \<Rightarrow> string \<Rightarrow> elem list \<Rightarrow> elem" where
  "element n as w es = Elem n as (if w = [] then None else Some w) es"

lemma yields_element: "yields ts w es \<Longrightarrow> yields (Open n as # ts @ [Close n]) [] [element n as w es]"
  by (simp add: yields_def close_frame_def element_def)

lemma build_document:
  assumes "yields ts w es" and "list_all is_space ws"
  shows "build (Open n as # ts @ [Close n, Chars ws]) [] None = Inr (element n as w es)"
  using assms by (simp add: yields_def close_frame_def element_def)

text \<open>A text that is such a part.\<close>

definition xml_part :: "string \<Rightarrow> string \<Rightarrow> elem list \<Rightarrow> bool" where
  "xml_part s w es \<longleftrightarrow> (s = [] \<or> hd s = CHR ''<'') \<and> (\<exists>ts. tokens s = Inr ts \<and> yields ts w es)"

lemma xml_part_Nil: "xml_part [] [] []"
  by (simp add: xml_part_def yields_Nil)

lemma xml_part_append:
  assumes "xml_part s w es" and "xml_part s' w' es'"
  shows "xml_part (s @ s') (if es = [] then w @ w' else w) (es @ es')"
proof -
  obtain ts ts' where t: "tokens s = Inr ts" "yields ts w es" "tokens s' = Inr ts'" "yields ts' w' es'"
    using assms by (auto simp: xml_part_def)
  have h: "s = [] \<or> hd s = CHR ''<''" "s' = [] \<or> hd s' = CHR ''<''" using assms by (simp_all add: xml_part_def)
  have "tokens (s @ s') = Inr (ts @ ts')" using tokens_append [OF t(1) h(2)] t(3) by simp
  then show ?thesis using yields_append [OF t(2,4)] starts_append [OF h] by (simp add: xml_part_def)
qed

lemma xml_parts:
  assumes "list_all2 (\<lambda>s es. \<exists>w. xml_part s w es) ss ess"
  shows "\<exists>w. xml_part (concat ss) w (concat ess)"
  using assms
proof (induction rule: list_all2_induct)
  case Nil
  then show ?case using xml_part_Nil by auto
next
  case (Cons s ss es ess)
  then show ?case using xml_part_append [of s _ es "concat ss" _ "concat ess"] by fastforce
qed

end
