(* ===== verification/TestTranslate.thy ===== *)
theory TestTranslate
  imports TestReport Xml
begin

text \<open>
  \<open>test.py\<close>: the readable reports. The results file is parsed, and its elements are written as text or as
  HTML. A part of an element that is missing raises; a text that is empty is printed as \<open>None\<close>.
\<close>

section \<open>Reading an element\<close>

definition py_str :: "string option \<Rightarrow> string" where
  "py_str s = (case s of None \<Rightarrow> ''None'' | Some s \<Rightarrow> s)"

definition child_text :: "string \<Rightarrow> elem \<Rightarrow> string option py" where
  "child_text n e = bind_e (attr (find_elem n e)) (\<lambda>k. Inr (elem_text k))"

definition read_test :: "elem \<Rightarrow> (string option \<times> string option \<times> string option) py" where
  "read_test test =
     bind_e (child_text ''Result'' test) (\<lambda>result.
     bind_e (child_text ''Name'' test) (\<lambda>name.
       Inr (result, name,
            case find_elem ''Time'' test of None \<Rightarrow> Some [] | Some t \<Rightarrow> map_of (attrs t) ''real'')))"

section \<open>Text\<close>

definition detail_line :: "elem \<Rightarrow> string \<times> string \<Rightarrow> string py" where
  "detail_line details = (\<lambda>(label, n).
     bind_e (child_text n details) (\<lambda>t. Inr (label @ py_str t @ [nl])))"

fun concat_e :: "string py list \<Rightarrow> string py" where
  "concat_e [] = Inr []"
| "concat_e (x # xs) = bind_e x (\<lambda>a. bind_e (concat_e xs) (\<lambda>b. Inr (a @ b)))"

definition details_text :: "elem \<Rightarrow> string py" where
  "details_text details =
     bind_e (concat_e (map (detail_line details)
       [(''      Message:   '', ''Message''), (''      Condition: '', ''Condition''), (''      Actual:    '', ''Actual''),
        (''      Limit:     '', ''Limit''), (''      File:      '', ''File''), (''      Line:      '', ''Line'')]))
       (\<lambda>t. Inr (''    Details:'' @ [nl] @ t))"

fun node_to_text :: "elem \<Rightarrow> string py" where
  "node_to_text (Elem tg as tx ks) =
     bind_e (read_test (Elem tg as tx ks)) (\<lambda>(result, name, time_real).
     bind_e (concat_e (map details_text (findall ''FailureDetails'' (Elem tg as tx ks)))) (\<lambda>details.
     bind_e (concat_e (map (\<lambda>k. if tag k = ''Test'' then node_to_text k else Inr []) ks)) (\<lambda>below.
       Inr (py_str result @ '': Test Suite \"'' @ py_str name @ ''\" ('' @ py_str time_real @ '')'' @ [nl] @
            details @ below))))"

definition example_text :: "elem \<Rightarrow> string py" where
  "example_text e =
     bind_e (read_test e) (\<lambda>(result, name, time_real).
       Inr (py_str result @ '': Example \"'' @ py_str name @ ''\" ('' @ py_str time_real @ '')'' @ [nl]))"

definition translate_to_text :: "string \<Rightarrow> string py" where
  "translate_to_text results_file =
     bind_e (et_parse results_file) (\<lambda>et.
     bind_e (concat_e (map node_to_text (findall ''Test'' et))) (\<lambda>suites.
     bind_e (concat_e (map example_text (findall ''Example'' et))) (\<lambda>examples. Inr (suites @ examples))))"

section \<open>HTML\<close>

definition heading :: "string option \<Rightarrow> string option \<Rightarrow> string option \<Rightarrow> string" where
  "heading result name time =
     (if result = Some ''PASS'' then ''<h3 style=\"color:green\">''
      else if result = Some ''SKIP'' then ''<h3 style=\"color:#ff6600\">''
      else ''<h3 style=\"color:red\">'') @
     py_str result @ '': '' @ py_str name @ '' ('' @ py_str time @ '')</h3>'' @ [nl]"

definition html_detail :: "elem \<Rightarrow> string \<times> string \<times> string \<Rightarrow> string py" where
  "html_detail details = (\<lambda>(label, n, behind).
     bind_e (child_text n details) (\<lambda>t. Inr (''<b>'' @ label @ '': </b>'' @ py_str t @ behind)))"

definition details_cell :: "elem \<Rightarrow> string py" where
  "details_cell details =
     bind_e (concat_e (map (html_detail details)
       [(''Message'', ''Message'', '', ''), (''Condition'', ''Condition'', '', ''), (''Actual'', ''Actual'', '', ''),
        (''Limit'', ''Limit'', '', ''), (''File'', ''File'', '', ''), (''Line'', ''Line'', [])]))
       (\<lambda>t. Inr (''<td>'' @ t @ ''</td>'' @ [nl]))"

text \<open>One row for each failure of a test case; a row is ended by the tag of a cell, as in the source.\<close>

fun failure_rows :: "string option \<Rightarrow> string option \<Rightarrow> string option \<Rightarrow> bool \<Rightarrow> elem list \<Rightarrow> string py" where
  "failure_rows result name time first_row [] = Inr []"
| "failure_rows result name time first_row (d # ds) =
     bind_e (details_cell d) (\<lambda>cell.
     bind_e (failure_rows result name time False ds) (\<lambda>rows.
       Inr (''<tr>'' @ [nl] @
            (if first_row
             then ''<td style=\"color:red\">'' @ py_str result @ ''</td>'' @ [nl] @
                  ''<td>'' @ py_str name @ ''</td>'' @ [nl] @ ''<td>'' @ py_str time @ ''</td>'' @ [nl]
             else ''<td></td>'' @ [nl] @ ''<td></td>'' @ [nl] @ ''<td></td>'' @ [nl]) @
            cell @ ''</td>'' @ [nl] @ rows)))"

definition case_rows :: "elem \<Rightarrow> string py" where
  "case_rows tc =
     bind_e (read_test tc) (\<lambda>(result, name, time).
       if result = Some ''FAIL''
       then failure_rows result name time True (findall ''FailureDetails'' tc)
       else Inr (''<tr>'' @ [nl] @ ''<td style=\"color:green\">'' @ py_str result @ ''</td>'' @ [nl] @
                 ''<td>'' @ py_str name @ ''</td>'' @ [nl] @ ''<td>'' @ py_str time @ ''</td>'' @ [nl] @
                 ''<td></td>'' @ [nl] @ ''</tr>'' @ [nl]))"

definition suite_html :: "elem \<Rightarrow> string py" where
  "suite_html s =
     bind_e (read_test s) (\<lambda>(result, name, time).
       let start = heading result name time @ ''<table border=\"1\">'' @ [nl] @ ''<th> Result </th>'' @ [nl] in
       if result \<in> {Some ''CRASH'', Some ''SKIP'', Some ''VALGR''}
       then Inr (start @ ''<tr>'' @ [nl] @
              (if result = Some ''SKIP'' then ''<td style=\"color:#ff6600\">'' else ''<td style=\"color:red\">'') @
              py_str result @ ''</td>'' @ [nl] @ ''</tr>'' @ [nl] @ ''</table>'' @ [nl])
       else bind_e (concat_e (map case_rows (findall ''Test'' s))) (\<lambda>rows.
              Inr (start @ ''<th>Test Case Name</th>'' @ [nl] @ ''<th> Time </th>'' @ [nl] @
                   (if result = Some ''FAIL'' then ''<th>Failure Details</th>'' @ [nl] else []) @
                   rows @ ''</table>'' @ [nl])))"

text \<open>The cell of a skipped example is ended by \<open></fd>\<close>, as in the source.\<close>

definition example_html :: "elem \<Rightarrow> string py" where
  "example_html e =
     bind_e (read_test e) (\<lambda>(result, name, time).
       Inr (''<tr>'' @ [nl] @
            (if result = Some ''PASS'' then ''<td style=\"color:green\">'' @ py_str result @ ''</td>''
             else if result = Some ''SKIP'' then ''<td style=\"color:#ff6600\">'' @ py_str result @ ''</fd>''
             else ''<td style=\"color:red\">'' @ py_str result @ ''</td>'') @ [nl] @
            ''<td>'' @ py_str name @ ''</td>'' @ [nl] @ ''<td>'' @ py_str time @ ''</td>'' @ [nl] @
            ''</tr>'' @ [nl]))"

definition translate_to_html :: "string \<Rightarrow> string py" where
  "translate_to_html results_file =
     bind_e (et_parse results_file) (\<lambda>et.
     bind_e (concat_e (map suite_html (findall ''Test'' et))) (\<lambda>suites.
     bind_e (concat_e (map example_html (findall ''Example'' et))) (\<lambda>examples.
       Inr (''<html>'' @ [nl] @ ''<body>'' @ [nl] @ ''<center><h1>ns-3 Test Results</h1></center>'' @ [nl] @
            ''<h2>Test Suites</h2>'' @ [nl] @ suites @
            ''<h2>Examples</h2>'' @ [nl] @ ''<table border=\"1\">'' @ [nl] @ ''<th> Result </th>'' @ [nl] @
            ''<th>Example Name</th>'' @ [nl] @ ''<th>Elapsed Time</th>'' @ [nl] @
            examples @ ''</table>'' @ [nl] @ ''</body>'' @ [nl] @ ''</html>'' @ [nl]))))"

section \<open>The results file is parsed\<close>

definition plain_text :: "string \<Rightarrow> bool" where
  "plain_text s \<longleftrightarrow> CHR ''<'' \<notin> set s \<and> CHR ''&'' \<notin> set s"

lemma plain_tokens: "plain_text s \<Longrightarrow> b = [] \<or> hd b = CHR ''<'' \<Longrightarrow>
    tokens (s @ b) = bind_e (tokens b) (\<lambda>ts. Inr ((if s = [] then [] else [Chars s]) @ ts))"
  by (simp add: plain_text_def tokens_plain)

text \<open>The pieces the writers are made of: a tag followed by a text.\<close>

lemma tokens_tag_text:
  assumes "CHR ''>'' \<notin> set body" and "tag_tokens body = Inr t" and "plain_text s" and "b = [] \<or> hd b = CHR ''<''"
  shows "tokens (CHR ''<'' # body @ CHR ''>'' # s @ b) =
    bind_e (tokens b) (\<lambda>ts. Inr (t @ (if s = [] then [] else [Chars s]) @ ts))"
  using tokens_tag [OF assms(1), of "s @ b"] plain_tokens [OF assms(3,4)] assms(2)
  by (simp add: bind_e_assoc)

definition piece :: "string \<times> string \<Rightarrow> string" where
  "piece = (\<lambda>(body, s). CHR ''<'' # body @ CHR ''>'' # s)"

definition piece_ok :: "string \<times> string \<Rightarrow> bool" where
  "piece_ok = (\<lambda>(body, s). CHR ''>'' \<notin> set body \<and> is_ok (tag_tokens body) \<and> plain_text s)"

definition piece_tokens :: "string \<times> string \<Rightarrow> token list" where
  "piece_tokens = (\<lambda>(body, s). projr (tag_tokens body) @ (if s = [] then [] else [Chars s]))"

lemma tokens_pieces:
  assumes "list_all piece_ok ps" and "b = [] \<or> hd b = CHR ''<''"
  shows "tokens (concat (map piece ps) @ b) =
    bind_e (tokens b) (\<lambda>ts. Inr (concat (map piece_tokens ps) @ ts))"
  using assms(1)
proof (induction ps)
  case Nil
  then show ?case by (cases "tokens b") auto
next
  case (Cons p ps)
  obtain body s where p: "p = (body, s)" by (cases p)
  then have o: "CHR ''>'' \<notin> set body" "is_ok (tag_tokens body)" "plain_text s"
    using Cons.prems by (simp_all add: piece_ok_def)
  then obtain t where t: "tag_tokens body = Inr t" by (auto simp: is_ok_iff)
  have h: "concat (map piece ps) @ b = [] \<or> hd (concat (map piece ps) @ b) = CHR ''<''"
    using assms(2) by (cases ps) (auto simp: piece_def)
  have "tokens (concat (map piece (p # ps)) @ b) =
      bind_e (tokens (concat (map piece ps) @ b)) (\<lambda>ts. Inr (t @ (if s = [] then [] else [Chars s]) @ ts))"
    using tokens_tag_text [OF o(1) t o(3) h] by (simp add: piece_def p)
  also have "tokens (concat (map piece ps) @ b) = bind_e (tokens b)
      (\<lambda>ts. Inr (concat (map piece_tokens ps) @ ts))"
    using Cons by simp
  finally show ?case by (simp add: p t bind_e_assoc piece_tokens_def)
qed

lemma piece_start: "concat (map piece ps) = [] \<or> hd (concat (map piece ps)) = CHR ''<''"
  by (cases ps) (auto simp: piece_def)

lemma xml_part_pieces:
  assumes "list_all piece_ok ps" and "yields (concat (map piece_tokens ps)) w es"
  shows "xml_part (concat (map piece ps)) w es"
  using tokens_pieces [OF assms(1), of "[]"] assms(2) piece_start [of ps] by (simp add: xml_part_def)

definition example_elem :: "job \<Rightarrow> elem" where
  "example_elem j =
     element ''Example'' [] (nl # ''  '')
       [element ''Name'' [] (display_name j) [], element ''Result'' [] (status_name (job_status j)) [],
        element ''Time'' [(''real'', fmt3 (elapsed_time j))] [] []]"

definition skip_elem :: "job \<Rightarrow> elem" where
  "skip_elem j = element ''Test'' [] (nl # ''  '') [element ''Name'' [] (display_name j) [], element ''Result'' [] ''SKIP'' []]"

lemma plain_status: "plain_text (status_name st)"
  by (cases st) (simp_all add: plain_text_def)

lemma example_xml_pieces:
  "example_xml j = concat (map piece
     [(''Example'', nl # ''  ''), (''Name'', display_name j), (''/Name'', nl # ''  ''),
      (''Result'', status_name (job_status j)), (''/Result'', nl # ''  ''),
      (''Time real=\"'' @ fmt3 (elapsed_time j) @ ''\"/'', [nl]), (''/Example'', [nl])])"
  by (simp add: example_xml_def piece_def)

lemma digit_char_chars: "d < 10 \<Longrightarrow> digit_char d \<notin> {CHR ''<'', CHR ''>'', CHR ''&'', CHR 0x22}"
  using is_digit_digit_char [of d] by (auto simp: is_digit_def)

lemma fmt3_chars: "c \<in> set (fmt3 r) \<Longrightarrow> is_digit c \<or> c \<in> {CHR ''-'', CHR ''.''}"
proof -
  assume c: "c \<in> set (fmt3 r)"
  define n where "n = thousandths r"
  have "n mod 1000 div 100 < 10" "n mod 1000 div 10 mod 10 < 10" "n mod 1000 mod 10 < 10" by auto
  then have "is_digit (digit_char (n mod 1000 div 100))" "is_digit (digit_char (n mod 1000 div 10 mod 10))"
    "is_digit (digit_char (n mod 1000 mod 10))" using is_digit_digit_char by blast+
  then show ?thesis using c str_of_nat_digits [of c "n div 1000"]
    by (auto simp: fmt3_def n_def Let_def split: if_splits)
qed

lemma fmt3_absent: "fmt3 r \<noteq> []" "c \<in> {CHR ''<'', CHR ''>'', CHR ''&'', CHR 0x22, CHR 0x27, CHR '' '', CHR ''=''} \<Longrightarrow> c \<notin> set (fmt3 r)"
  using fmt3_chars [of c r] by (auto simp: fmt3_def Let_def is_digit_def)

lemma time_tag: "tag_tokens (''Time real=\"'' @ fmt3 r @ ''\"/'') = Inr [Open ''Time'' [(''real'', fmt3 r)], Close ''Time'']"
proof -
  let ?v = "fmt3 r @ [CHR 0x22]"
  have q: "takeWhile (\<lambda>c. c \<noteq> CHR 0x22) ?v = fmt3 r" "dropWhile (\<lambda>c. c \<noteq> CHR 0x22) ?v = [CHR 0x22]"
    using fmt3_absent(2) [of "CHR 0x22" r] by (subst takeWhile_append2 dropWhile_append2; auto)+
  have u: "unescape (fmt3 r) = Inr (fmt3 r)" using fmt3_absent(2) [of "CHR ''&''" r] by (simp add: unescape_plain)
  have "parse_attrs [] = Inr []" by (subst parse_attrs.simps) (simp add: lstrip_def)
  then have "parse_attrs ('' real=\"'' @ ?v) = Inr [(''real'', fmt3 r)]"
    using q u by (subst parse_attrs.simps) (simp add: lstrip_def is_space_def rstrip_def)
  then have "open_tag (''Time real=\"'' @ ?v) = Inr (''Time'', [(''real'', fmt3 r)])"
    by (simp add: open_tag_def is_space_def)
  moreover have "butlast (''Time real=\"'' @ fmt3 r @ ''\"/'') = ''Time real=\"'' @ ?v" by (simp add: butlast_append)
  moreover have "last (''Time real=\"'' @ fmt3 r @ ''\"/'') = CHR ''/''" by simp
  ultimately show ?thesis unfolding tag_tokens_def by simp
qed

definition name_ok :: "string \<Rightarrow> bool" where
  "name_ok n \<longleftrightarrow> n \<noteq> [] \<and> list_all (\<lambda>c. \<not> is_space c \<and> c \<noteq> CHR ''?'' \<and> c \<noteq> CHR ''/'' \<and> c \<noteq> CHR ''>'') n"

lemma parse_attrs_Nil [simp]: "parse_attrs [] = Inr []"
  by (subst parse_attrs.simps) (simp add: lstrip_def)

lemma name_tag: "name_ok n \<Longrightarrow> tag_tokens n = Inr [Open n []]"
proof -
  assume n: "name_ok n"
  then have "takeWhile (\<lambda>c. \<not> is_space c) n = n" "dropWhile (\<lambda>c. \<not> is_space c) n = []"
    by (auto simp: name_ok_def list_all_iff takeWhile_eq_all_conv dropWhile_eq_Nil_conv)
  moreover have "last n \<noteq> CHR ''/''" "hd n \<noteq> CHR ''/''" "hd n \<noteq> CHR ''?''" "n \<noteq> []"
    using n by (auto simp: name_ok_def list_all_iff)
  ultimately show ?thesis by (simp add: tag_tokens_def open_tag_def del: dropWhile_eq_Nil_conv)
qed

lemma close_tag: "name_ok n \<Longrightarrow> tag_tokens (CHR ''/'' # n) = Inr [Close n]"
proof -
  assume n: "name_ok n"
  then have "rstrip n = n"
    by (cases n rule: rev_cases) (auto simp: rstrip_def name_ok_def)
  then show ?thesis by (simp add: tag_tokens_def)
qed

lemma name_ok_tags:
  "name_ok n \<Longrightarrow> CHR ''>'' \<notin> set n"
  by (auto simp: name_ok_def list_all_iff)

lemma names_ok:
  "name_ok ''Example''" "name_ok ''Name''" "name_ok ''Result''" "name_ok ''Test''" "name_ok ''Suite''" "name_ok ''Results''"
  by (simp_all add: name_ok_def is_space_def)

lemmas open_tags = names_ok [THEN name_tag]
lemmas close_tags = names_ok [THEN close_tag]

lemma plain_blank: "plain_text [nl]" "plain_text (nl # ''  '')" "plain_text ''SKIP''" "plain_text ''CRASH''" "plain_text ''VALGR''"
  by (simp_all add: plain_text_def nl_def)

lemma status_not_Nil: "status_name st \<noteq> []"
  by (cases st) simp_all

lemma example_part:
  assumes "plain_text (display_name j)"
  shows "xml_part (example_xml j) [] [example_elem j]"
proof -
  let ?ps = "[(''Example'', nl # ''  ''), (''Name'', display_name j), (''/Name'', nl # ''  ''),
      (''Result'', status_name (job_status j)), (''/Result'', nl # ''  ''),
      (''Time real=\"'' @ fmt3 (elapsed_time j) @ ''\"/'', [nl]), (''/Example'', [nl])]"
  have "list_all piece_ok ?ps"
    using assms fmt3_absent(2) [of "CHR ''>''" "elapsed_time j"] time_tag [of "elapsed_time j"]
    by (simp add: piece_ok_def open_tags close_tags plain_blank plain_status del: append.simps)
  moreover have "yields (concat (map piece_tokens ?ps)) [] [example_elem j]"
    using time_tag [of "elapsed_time j"]
    by (cases "display_name j = []") (simp_all add: yields_def piece_tokens_def open_tags close_tags close_frame_def
      example_elem_def element_def status_not_Nil)
  ultimately show ?thesis unfolding example_xml_pieces by (rule xml_part_pieces)
qed

text \<open>What the main thread writes by itself for a suite.\<close>

lemma fake_test_pieces:
  "fake_test name (''  <Result>'' @ res @ ''</'' @ c @ ''>'') = concat (map piece
     [(''Test'', nl # ''  ''), (''Name'', name), (''/Name'', nl # ''  ''), (''Result'', res),
      (CHR ''/'' # c, [nl]), (''/Test'', [nl])])"
  by (simp add: fake_test_def piece_def)

lemma skip_part:
  assumes "plain_text (display_name j)"
  shows "xml_part (fake_test (display_name j) ''  <Result>SKIP</Result>'') [] [skip_elem j]"
proof -
  let ?ps = "[(''Test'', nl # ''  ''), (''Name'', display_name j), (''/Name'', nl # ''  ''), (''Result'', ''SKIP''),
      (''/Result'', [nl]), (''/Test'', [nl])]"
  have "list_all piece_ok ?ps"
    using assms by (simp add: piece_ok_def open_tags close_tags plain_blank)
  moreover have "yields (concat (map piece_tokens ?ps)) [] [skip_elem j]"
    by (cases "display_name j = []") (simp_all add: yields_def piece_tokens_def open_tags close_tags close_frame_def
      skip_elem_def element_def)
  moreover have "fake_test (display_name j) ''  <Result>SKIP</Result>'' = concat (map piece ?ps)"
    using fake_test_pieces [of "display_name j" "''SKIP''" "''Result''"] by simp
  ultimately show ?thesis using xml_part_pieces by metis
qed

text \<open>The entry of a crashed suite: nothing behind it is looked at.\<close>

lemma crash_tokens:
  assumes "plain_text name" and "b = [] \<or> hd b = CHR ''<''"
  shows "\<exists>ts. tokens (fake_test name ''  <Result>CRASH</Suite>'' @ b) = bind_e (tokens b) (\<lambda>tb. Inr (ts @ tb)) \<and>
    (\<forall>f fs r rest. \<exists>e. build (ts @ rest) (f # fs) r = Inl e)"
proof -
  let ?ps = "[(''Test'', nl # ''  ''), (''Name'', name), (''/Name'', nl # ''  ''), (''Result'', ''CRASH''),
      (''/Suite'', [nl]), (''/Test'', [nl])]"
  have "list_all piece_ok ?ps"
    using assms by (simp add: piece_ok_def open_tags close_tags plain_blank)
  moreover have "\<exists>e. build (concat (map piece_tokens ?ps) @ rest) (f # fs) r = Inl e" for f fs r rest
    by (cases f; cases "name = []") (simp_all add: piece_tokens_def open_tags close_tags)
  moreover have "fake_test name ''  <Result>CRASH</Suite>'' = concat (map piece ?ps)"
    using fake_test_pieces [of name "''CRASH''" "''Suite''"] by simp
  ultimately show ?thesis using tokens_pieces [OF _ assms(2), of ?ps] by metis
qed

section \<open>Whole results files\<close>

text \<open>The loop of the main thread over the jobs that come back, each with the temporary files of that moment.\<close>

type_synonym arrival = "(string \<rightharpoonup> string) \<times> job"

definition collect_all :: "opts \<Rightarrow> arrival list \<Rightarrow> tally py" where
  "collect_all opt arrivals =
     bind_e (fold_e (\<lambda>t (tmp, j). collect opt tmp t j) tally0 arrivals) (\<lambda>t.
       Inr (t\<lparr>results := results t @ results_end\<rparr>))"

fun entry :: "arrival \<Rightarrow> string py" where
  "entry (tmp, j) = (if is_break j then Inr [] else job_xml tmp j)"

lemma collect_results:
  "fold_e (\<lambda>t (tmp, j). collect opt tmp t j) t0 arrivals = Inr t \<Longrightarrow>
     \<exists>xs. list_all2 (\<lambda>a x. entry a = Inr x) arrivals xs \<and> results t = results t0 @ concat xs"
proof (induction arrivals arbitrary: t0)
  case (Cons a arrivals)
  obtain tmp j where a: "a = (tmp, j)" by (cases a)
  obtain t1 where t1: "collect opt tmp t0 j = Inr t1"
    "fold_e (\<lambda>t (tmp, j). collect opt tmp t j) t1 arrivals = Inr t"
    using Cons.prems a by (auto simp: bind_e_Inr_iff)
  obtain xs where xs: "list_all2 (\<lambda>a x. entry a = Inr x) arrivals xs" "results t = results t1 @ concat xs"
    using Cons.IH [OF t1(2)] by blast
  obtain x where "entry a = Inr x" "results t1 = results t0 @ x"
    using t1(1) by (auto simp: collect_def a bind_e_Inr_iff count_status_def Let_def split: if_splits status.splits)
  then show ?case using xs by (intro exI [of _ "x # xs"]) simp
qed simp

lemma collect_all_results:
  assumes "collect_all opt arrivals = Inr t"
  obtains xs where "list_all2 (\<lambda>a x. entry a = Inr x) arrivals xs" and "results t = results_start @ concat xs @ results_end"
  using assms collect_results [of opt tally0 arrivals] that by (auto simp: collect_all_def bind_e_Inr_iff tally0_def)

definition crashed_suite :: "job \<Rightarrow> bool" where
  "crashed_suite j \<longleftrightarrow> \<not> is_break j \<and> \<not> runs_example j \<and> job_status j = CRASH"

text \<open>
  The names hold no markup, and the files of the suites that ran to their end are elements: \<open>es j\<close> for job \<open>j\<close>.
\<close>

definition clean_arrival :: "(job \<Rightarrow> elem list) \<Rightarrow> arrival \<Rightarrow> bool" where
  "clean_arrival es = (\<lambda>(tmp, j).
     is_break j \<or>
     plain_text (display_name j) \<and>
     (runs_example j \<or> is_skip j \<or> crashed_suite j \<or>
      (case tmp (tmp_file_name j) of None \<Rightarrow> False | Some x \<Rightarrow> \<exists>w. xml_part x w (es j))))"

definition job_elems :: "(job \<Rightarrow> elem list) \<Rightarrow> job \<Rightarrow> elem list" where
  "job_elems es j =
     (if is_break j then [] else if runs_example j then [example_elem j]
      else if is_skip j then [skip_elem j] else es j)"

lemma entry_part:
  assumes "clean_arrival es (tmp, j)" and "\<not> crashed_suite j" and "entry (tmp, j) = Inr x"
  shows "\<exists>w. xml_part x w (job_elems es j)"
proof -
  consider "is_break j" | "\<not> is_break j" "runs_example j" | "\<not> is_break j" "\<not> runs_example j" "is_skip j"
    | "\<not> is_break j" "\<not> runs_example j" "\<not> is_skip j" "returncode j = 0 \<or> returncode j = 1 \<or> returncode j = 2"
    using assms(2) by (auto simp: crashed_suite_def job_status_def split: if_splits)
  then show ?thesis
  proof cases
    case 1
    then show ?thesis using assms(3) xml_part_Nil by (auto simp: job_elems_def)
  next
    case 2
    then show ?thesis using assms example_part [of j] by (auto simp: job_xml_def job_elems_def clean_arrival_def)
  next
    case 3
    then show ?thesis using assms skip_part [of j]
      by (auto simp: job_xml_def suite_xml_def job_elems_def clean_arrival_def simp del: append.simps)
  next
    case 4
    then show ?thesis using assms
      by (auto simp: job_xml_def suite_xml_def job_elems_def clean_arrival_def split: option.splits)
  qed
qed

lemma entries_part:
  assumes "list_all2 (\<lambda>a x. entry a = Inr x) arrivals xs" and "list_all (clean_arrival es) arrivals"
    and "list_all (\<lambda>a. \<not> crashed_suite (snd a)) arrivals"
  shows "\<exists>w. xml_part (concat xs) w (concat (map (job_elems es \<circ> snd) arrivals))"
proof -
  have "list_all2 (\<lambda>s e. \<exists>w. xml_part s w e) xs (map (job_elems es \<circ> snd) arrivals)"
    using assms
  proof (induction rule: list_all2_induct)
    case (Cons a as x xs)
    then show ?case using entry_part [of es "fst a" "snd a" x] by (cases a) auto
  qed simp
  then show ?thesis by (rule xml_parts)
qed

lemma tokens_start:
  assumes "b = [] \<or> hd b = CHR ''<''"
  shows "tokens (results_start @ b) =
    bind_e (tokens b) (\<lambda>tb. Inr (Chars [nl] # Open ''Results'' [] # Chars [nl] # tb))"
proof -
  let ?ps = "[(''?xml version=\"1.0\"?'', [nl]), (''Results'', [nl])]"
  have "results_start = concat (map piece ?ps)" by (simp add: results_start_def piece_def)
  moreover have "list_all piece_ok ?ps" by (simp add: piece_ok_def open_tags plain_blank) (simp add: tag_tokens_def)
  ultimately show ?thesis using tokens_pieces [OF _ assms, of ?ps]
    by (simp add: piece_tokens_def open_tags) (simp add: tag_tokens_def)
qed

lemma tokens_end: "tokens results_end = Inr [Close ''Results'', Chars [nl]]"
proof -
  let ?ps = "[(''/Results'', [nl])]"
  have "results_end = concat (map piece ?ps) @ []" by (simp add: results_end_def piece_def)
  moreover have "list_all piece_ok ?ps" by (simp add: piece_ok_def close_tags plain_blank)
  ultimately show ?thesis using tokens_pieces [of ?ps "[]"] by (simp add: piece_tokens_def close_tags)
qed

lemma hd_end: "hd results_end = CHR ''<''" by (simp add: results_end_def)

lemma parse_results:
  assumes "xml_part s w es"
  shows "\<exists>w. et_parse (results_start @ s @ results_end) = Inr (element ''Results'' [] w es)"
proof -
  obtain ts where t: "tokens s = Inr ts" "yields ts w es" "s = [] \<or> hd s = CHR ''<''"
    using assms by (auto simp: xml_part_def)
  have "tokens (s @ results_end) = Inr (ts @ [Close ''Results'', Chars [nl]])"
    using tokens_append [OF t(1), of results_end] hd_end tokens_end by simp
  moreover have "s @ results_end = [] \<or> hd (s @ results_end) = CHR ''<''"
    by (rule starts_append) (use t(3) hd_end in auto)
  ultimately have "et_parse (results_start @ s @ results_end) =
      build (Chars [nl] # Open ''Results'' [] # Chars [nl] # ts @ [Close ''Results'', Chars [nl]]) [] None"
    using tokens_start by (simp add: et_parse_def)
  also have "\<dots> = Inr (element ''Results'' [] ([nl] @ w) es)"
    using build_document [OF yields_append [OF yields_Chars [of "[nl]"] t(2)], of "[nl]" "''Results''" "[]"]
    by (simp add: is_space_def nl_def)
  finally show ?thesis by blast
qed

lemma crash_entry:
  assumes "crashed_suite j" and "entry (tmp, j) = Inr x"
  shows "x = fake_test (display_name j) ''  <Result>CRASH</Suite>''"
  using assms by (auto simp: crashed_suite_def job_status_def job_xml_def suite_xml_def split: if_splits)

lemma entry_start:
  assumes "clean_arrival es a" and "entry a = Inr x"
  shows "x = [] \<or> hd x = CHR ''<''"
proof (cases "crashed_suite (snd a)")
  case True
  then have "x = fake_test (display_name (snd a)) ''  <Result>CRASH</Suite>''"
    using crash_entry [of "snd a" "fst a" x] assms(2) by simp
  then show ?thesis by (simp add: fake_test_def)
next
  case False
  then show ?thesis using entry_part [of es "fst a" "snd a" x] assms by (auto simp: xml_part_def)
qed

lemma entries_start:
  assumes "list_all2 (\<lambda>a x. entry a = Inr x) arrivals xs" and "list_all (clean_arrival es) arrivals"
  shows "concat xs = [] \<or> hd (concat xs) = CHR ''<''"
  using assms
proof (induction rule: list_all2_induct)
  case (Cons a as x xs)
  then show ?case using entry_start [of es a x] starts_append [of x "CHR ''<''" "concat xs"] by simp
qed simp

lemma crashed_results:
  assumes "list_all2 (\<lambda>a x. entry a = Inr x) arrivals xs" and "list_all (clean_arrival es) arrivals"
    and "\<not> list_all (\<lambda>a. \<not> crashed_suite (snd a)) arrivals"
  shows "\<exists>e. et_parse (results_start @ concat xs @ results_end) = Inl e"
proof -
  obtain us a vs where a: "arrivals = us @ a # vs" "crashed_suite (snd a)" "\<forall>u \<in> set us. \<not> crashed_suite (snd u)"
    using split_list_first_prop [of arrivals "\<lambda>a. crashed_suite (snd a)"] assms(3) by (auto simp: list_all_iff)
  obtain xs1 x xs2 where x: "xs = xs1 @ x # xs2" "list_all2 (\<lambda>a x. entry a = Inr x) us xs1" "entry a = Inr x"
    "list_all2 (\<lambda>a x. entry a = Inr x) vs xs2"
    using assms(1) a(1) by (auto simp: list_all2_append1 list_all2_Cons1)
  obtain w where "xml_part (concat xs1) w (concat (map (job_elems es \<circ> snd) us))"
    using entries_part [OF x(2), of es] assms(2) a by (auto simp: list_all_iff)
  then obtain ts where t: "tokens (concat xs1) = Inr ts" "yields ts w (concat (map (job_elems es \<circ> snd) us))"
    "concat xs1 = [] \<or> hd (concat xs1) = CHR ''<''" by (auto simp: xml_part_def)
  define b where "b = concat xs2 @ results_end"
  have b: "b = [] \<or> hd b = CHR ''<''" unfolding b_def
    by (rule starts_append [OF entries_start [OF x(4)]]) (use assms(2) a hd_end in auto)
  have "clean_arrival es a" "\<not> is_break (snd a)" using assms(2) a by (auto simp: crashed_suite_def)
  then have "plain_text (display_name (snd a))" by (cases a) (auto simp: clean_arrival_def)
  then obtain cs where c: "tokens (x @ b) = bind_e (tokens b) (\<lambda>tb. Inr (cs @ tb))"
    "\<forall>f fs r rest. \<exists>e. build (cs @ rest) (f # fs) r = Inl e"
    using crash_tokens [OF _ b] crash_entry [OF a(2), of "fst a" x] x(3) by (metis prod.collapse)
  have xb: "x @ b = [] \<or> hd (x @ b) = CHR ''<''"
    by (rule starts_append [OF entry_start [of es a]]) (use assms(2) a x(3) b in auto)
  have e: "results_start @ concat xs @ results_end = results_start @ (concat xs1 @ x @ b)" by (simp add: x(1) b_def)
  have "tokens (concat xs1 @ x @ b) = bind_e (tokens b) (\<lambda>tb. Inr (ts @ cs @ tb))"
    using tokens_append [OF t(1) xb] c(1) by (simp add: bind_e_assoc)
  then have "et_parse (results_start @ concat xs @ results_end) =
      bind_e (tokens b) (\<lambda>tb. build (Chars [nl] # Open ''Results'' [] # Chars [nl] # ts @ cs @ tb) [] None)"
    unfolding e et_parse_def using tokens_start [OF starts_append [OF t(3) xb]] by (simp add: bind_e_assoc)
  moreover have "\<exists>e. build (Chars [nl] # Open ''Results'' [] # Chars [nl] # ts @ cs @ tb) [] None = Inl e" for tb
    using t(2) c(2) by (simp add: yields_def is_space_def nl_def)
  ultimately show ?thesis by (cases "tokens b") auto
qed

text \<open>C6: the results file of a run can be parsed, which every report needs, exactly when no test suite
  crashed: the entry of a crashed suite is closed by the wrong tag. The names of the jobs hold no markup here and
  the suites that ran to their end wrote well-formed elements.\<close>

theorem reports_parse:
  assumes "collect_all opt arrivals = Inr t" and "list_all (clean_arrival es) arrivals"
  shows "is_ok (et_parse (results t)) \<longleftrightarrow> (\<forall>a \<in> set arrivals. \<not> crashed_suite (snd a))"
proof -
  obtain xs where xs: "list_all2 (\<lambda>a x. entry a = Inr x) arrivals xs" "results t = results_start @ concat xs @ results_end"
    using collect_all_results [OF assms(1)] .
  show ?thesis
  proof (cases "list_all (\<lambda>a. \<not> crashed_suite (snd a)) arrivals")
    case True
    then obtain w where "xml_part (concat xs) w (concat (map (job_elems es \<circ> snd) arrivals))"
      using entries_part [OF xs(1) assms(2)] by blast
    from parse_results [OF this] show ?thesis using True xs(2) by (auto simp: list_all_iff)
  next
    case False
    then show ?thesis using crashed_results [OF xs(1) assms(2)] xs(2) by (auto simp: list_all_iff)
  qed
qed

definition demo_arrivals :: "arrival list" where
  "demo_arrivals =
     [(Map.empty, new_job\<lparr>is_example := True, display_name := ''a''\<rparr>),
      (Map.empty, new_job\<lparr>is_skip := True, display_name := ''b''\<rparr>)]"

lemma demo_clean: "list_all (clean_arrival (\<lambda>j. [])) demo_arrivals"
  by (simp add: demo_arrivals_def clean_arrival_def new_job_def plain_text_def runs_example_def)

lemma demo_collected: "is_ok (collect_all default_opts demo_arrivals)"
  by code_simp

theorem reports_parse_witness:
  "\<exists>t. collect_all default_opts demo_arrivals = Inr t \<and> is_ok (et_parse (results t))"
proof -
  obtain t where t: "collect_all default_opts demo_arrivals = Inr t" using demo_collected by (auto simp: is_ok_iff)
  show ?thesis using reports_parse [OF t demo_clean] t
    by (auto simp: demo_arrivals_def crashed_suite_def runs_example_def new_job_def job_status_def)
qed

definition example_line :: "job \<Rightarrow> string" where
  "example_line j =
     status_name (job_status j) @ '': Example \"'' @ (if display_name j = [] then ''None'' else display_name j) @
     ''\" ('' @ fmt3 (elapsed_time j) @ '')'' @ [nl]"

lemma example_elem_text: "example_text (example_elem j) = Inr (example_line j)"
  by (simp add: example_text_def read_test_def child_text_def find_elem_def example_elem_def element_def
      example_line_def py_str_def status_not_Nil)

lemma concat_e_Inr: "concat_e (map (\<lambda>x. Inr (f x)) xs) = Inr (concat (map f xs))"
  by (induction xs) auto

section \<open>What the suites reported\<close>

text \<open>
  The test runner (\<open>PrintReport\<close> in \<open>src/core/model/test.cc\<close>) writes a tree of test cases for a suite: a name, a
  result, three times, the failures and the test cases below. \<open>test_elem\<close> is the element it writes,
  with \<open>lay n\<close> the blanks in front of the first child at depth \<open>n\<close>.
\<close>

datatype failure =
  Failure (f_condition: string) (f_actual: string) (f_limit: string) (f_message: string) (f_file: string) (f_line: string)

datatype reported =
  Reported (r_name: string) (r_result: string) (r_real: string) (r_user: string) (r_system: string)
    (r_failures: "failure list") (r_cases: "reported list")

definition leaf_elem :: "string \<Rightarrow> string \<Rightarrow> elem" where
  "leaf_elem n v = element n [] v []"

definition failure_elem :: "string \<Rightarrow> failure \<Rightarrow> elem" where
  "failure_elem blanks f =
     element ''FailureDetails'' [] blanks
       [leaf_elem ''Condition'' (f_condition f), leaf_elem ''Actual'' (f_actual f), leaf_elem ''Limit'' (f_limit f),
        leaf_elem ''Message'' (f_message f), leaf_elem ''File'' (f_file f), leaf_elem ''Line'' (f_line f)]"

fun test_elem :: "(nat \<Rightarrow> string) \<Rightarrow> nat \<Rightarrow> reported \<Rightarrow> elem" where
  "test_elem lay level (Reported name result wall user system failures cases) =
     element ''Test'' [] (lay level)
       ([leaf_elem ''Name'' name, leaf_elem ''Result'' result,
         element ''Time'' [(''real'', wall), (''user'', user), (''system'', system)] [] []] @
        map (failure_elem (lay (level + 2))) failures @ map (test_elem lay (level + 1)) cases)"

text \<open>The lines a reader expects for it.\<close>

definition shown :: "string \<Rightarrow> string" where
  "shown s = (if s = [] then ''None'' else s)"

definition test_line :: "string \<Rightarrow> string \<Rightarrow> string \<Rightarrow> string" where
  "test_line result name time = shown result @ '': Test Suite \"'' @ shown name @ ''\" ('' @ time @ '')'' @ [nl]"

definition failure_lines :: "failure \<Rightarrow> string" where
  "failure_lines f =
     ''    Details:'' @ [nl] @
     ''      Message:   '' @ shown (f_message f) @ [nl] @
     ''      Condition: '' @ shown (f_condition f) @ [nl] @
     ''      Actual:    '' @ shown (f_actual f) @ [nl] @
     ''      Limit:     '' @ shown (f_limit f) @ [nl] @
     ''      File:      '' @ shown (f_file f) @ [nl] @
     ''      Line:      '' @ shown (f_line f) @ [nl]"

fun report_lines :: "reported \<Rightarrow> string" where
  "report_lines (Reported name result wall user system failures cases) =
     test_line result name wall @ concat (map failure_lines failures) @ concat (map report_lines cases)"

definition suite_lines :: "(job \<Rightarrow> reported list) \<Rightarrow> job \<Rightarrow> string" where
  "suite_lines reps j =
     (if is_break j \<or> runs_example j then []
      else if is_skip j then test_line ''SKIP'' (display_name j) []
      else concat (map report_lines (reps j)))"

lemma py_str_text: "py_str (if s = [] then None else Some s) = shown s"
  by (simp add: py_str_def shown_def)

lemma details_text_failure: "details_text (failure_elem blanks f) = Inr (failure_lines f)"
  by (simp add: details_text_def detail_line_def child_text_def find_elem_def failure_elem_def leaf_elem_def element_def
      failure_lines_def py_str_text)

lemma tag_test_elem: "tag (test_elem lay level r) = ''Test''"
  by (cases r) (simp add: element_def)

lemma concat_e_append: "concat_e (xs @ ys) = bind_e (concat_e xs) (\<lambda>a. bind_e (concat_e ys) (\<lambda>b. Inr (a @ b)))"
  by (induction xs) (simp_all add: bind_e_assoc, cases "concat_e ys", auto)

lemma findall_failures:
  "filter (\<lambda>k. tag k = ''FailureDetails'') (map (failure_elem blanks) fs) = map (failure_elem blanks) fs"
  "filter (\<lambda>k. tag k = ''FailureDetails'') (map (test_elem lay level) rs) = []"
  by (simp_all add: filter_id_conv filter_empty_conv tag_test_elem) (simp add: failure_elem_def element_def)

text \<open>The writer gives these lines for every tree.\<close>

lemma node_to_text_test: "node_to_text (test_elem lay level r) = Inr (report_lines r)"
proof (induction r arbitrary: level)
  case (Reported name result wall user system fs cs)
  have below: "concat_e (map (\<lambda>k. if tag k = ''Test'' then node_to_text k else Inr []) (map (test_elem lay (level + 1)) cs)) =
      Inr (concat (map report_lines cs))"
    using Reported.IH by (simp add: tag_test_elem o_def concat_e_Inr [symmetric] cong: map_cong)
  have other: "concat_e (map (\<lambda>k. if tag k = ''Test'' then node_to_text k else Inr []) (map (failure_elem b) fs)) = Inr []" for b
    by (induction fs) (simp_all add: failure_elem_def element_def)
  have details: "concat_e (map details_text (map (failure_elem b) fs)) = Inr (concat (map failure_lines fs))" for b
    by (simp add: o_def details_text_failure concat_e_Inr)
  have "read_test (test_elem lay level (Reported name result wall user system fs cs)) =
      Inr (if result = [] then None else Some result, if name = [] then None else Some name, Some wall)"
    by (simp add: read_test_def child_text_def find_elem_def leaf_elem_def element_def)
  then show ?case using below other details findall_failures
    by (simp add: element_def findall_def leaf_elem_def concat_e_append shown_def test_line_def py_str_def del: map_map)
qed

text \<open>The elements of the suites among the arrivals.\<close>

definition suite_elems :: "(job \<Rightarrow> elem list) \<Rightarrow> job \<Rightarrow> elem list" where
  "suite_elems es j =
     (if is_break j \<or> runs_example j then [] else if is_skip j then [skip_elem j] else es j)"

lemma findall_tests:
  "list_all (\<lambda>a. list_all (\<lambda>e. tag e = ''Test'') (es (snd a))) arrivals \<Longrightarrow>
   filter (\<lambda>k. tag k = ''Test'') (concat (map (job_elems es \<circ> snd) arrivals)) =
     concat (map (suite_elems es \<circ> snd) arrivals)"
  by (induction arrivals)
    (auto simp: job_elems_def suite_elems_def example_elem_def skip_elem_def element_def list_all_iff filter_id_conv)

lemma findall_examples:
  "list_all (\<lambda>a. list_all (\<lambda>e. tag e = ''Test'') (es (snd a))) arrivals \<Longrightarrow>
   filter (\<lambda>k. tag k = ''Example'') (concat (map (job_elems es \<circ> snd) arrivals)) =
     map example_elem (filter (\<lambda>j. \<not> is_break j \<and> runs_example j) (map snd arrivals))"
  by (induction arrivals)
    (auto simp: job_elems_def example_elem_def skip_elem_def element_def list_all_iff filter_empty_conv)

lemma suites_text:
  "concat_e (map node_to_text (concat (map (suite_elems (\<lambda>j. map (test_elem lay 0) (reps j)) \<circ> snd) arrivals))) =
     Inr (concat (map (suite_lines reps \<circ> snd) arrivals))"
proof (induction arrivals)
  case (Cons a as)
  have "node_to_text (skip_elem j) = Inr (test_line ''SKIP'' (display_name j) [])" for j
    by (simp add: skip_elem_def element_def read_test_def child_text_def find_elem_def findall_def py_str_text test_line_def)
      (simp add: py_str_def shown_def)
  then have "concat_e (map node_to_text (suite_elems (\<lambda>j. map (test_elem lay 0) (reps j)) (snd a))) = Inr (suite_lines reps (snd a))"
    by (simp add: suite_elems_def suite_lines_def o_def node_to_text_test concat_e_Inr)
  then show ?case using Cons by (simp add: concat_e_append)
qed simp

text \<open>C7: when no suite crashed, the text report consists of the lines of every suite that ran, which are those of
  its tree of test cases with the details of all failures, at every depth, and a line for each suite that was
  skipped; and after that of one line for each example, with its status, its name and its time; all in the order
  in which the jobs came back. A text that is empty is printed as \<open>None\<close>.\<close>

theorem text_report:
  assumes "collect_all opt arrivals = Inr t"
    and "list_all (clean_arrival (\<lambda>j. map (test_elem lay 0) (reps j))) arrivals"
    and "list_all (\<lambda>a. \<not> crashed_suite (snd a)) arrivals"
  shows "translate_to_text (results t) =
    Inr (concat (map (suite_lines reps \<circ> snd) arrivals) @
         concat (map example_line (filter (\<lambda>j. \<not> is_break j \<and> runs_example j) (map snd arrivals))))"
proof -
  let ?es = "\<lambda>j. map (test_elem lay 0) (reps j)"
  obtain xs where xs: "list_all2 (\<lambda>a x. entry a = Inr x) arrivals xs" "results t = results_start @ concat xs @ results_end"
    using collect_all_results [OF assms(1)] .
  obtain w where "xml_part (concat xs) w (concat (map (job_elems ?es \<circ> snd) arrivals))"
    using entries_part [OF xs(1) assms(2,3)] by blast
  then obtain w where "et_parse (results t) = Inr (element ''Results'' [] w (concat (map (job_elems ?es \<circ> snd) arrivals)))"
    using parse_results xs(2) by metis
  moreover have "map example_text (map example_elem js) = map (\<lambda>j. Inr (example_line j)) js" for js
    by (simp add: example_elem_text)
  moreover have "list_all (\<lambda>a. list_all (\<lambda>e. tag e = ''Test'') (?es (snd a))) arrivals"
    by (simp add: list_all_iff tag_test_elem)
  note findall_tests [OF this] findall_examples [OF this]
  ultimately show ?thesis using suites_text [of lay reps arrivals]
    by (simp add: translate_to_text_def findall_def element_def concat_e_Inr del: map_map)
qed

text \<open>A suite with a test case that failed, beside the two jobs above.\<close>

definition failed_run :: "reported list" where
  "failed_run =
     [Reported ''s'' ''FAIL'' ''1'' ''0'' ''0'' []
        [Reported ''c'' ''FAIL'' ''1'' ''0'' ''0'' [Failure ''a == b'' ''3'' ''4'' ''bad'' ''x.cc'' ''7''] []]]"

definition failed_file :: string where
  "failed_file =
     ''<Test><Name>s</Name><Result>FAIL</Result><Time real=\"1\" user=\"0\" system=\"0\"/>'' @
     ''<Test><Name>c</Name><Result>FAIL</Result><Time real=\"1\" user=\"0\" system=\"0\"/>'' @
     ''<FailureDetails><Condition>a == b</Condition><Actual>3</Actual><Limit>4</Limit><Message>bad</Message>'' @
     ''<File>x.cc</File><Line>7</Line></FailureDetails></Test></Test>''"

lemma failed_file_part: "xml_part failed_file [] (map (test_elem (\<lambda>n. []) 0) failed_run)"
proof -
  have "tokens failed_file = Inr
    [Open ''Test'' [], Open ''Name'' [], Chars ''s'', Close ''Name'', Open ''Result'' [], Chars ''FAIL'', Close ''Result'',
     Open ''Time'' [(''real'', ''1''), (''user'', ''0''), (''system'', ''0'')], Close ''Time'',
     Open ''Test'' [], Open ''Name'' [], Chars ''c'', Close ''Name'', Open ''Result'' [], Chars ''FAIL'', Close ''Result'',
     Open ''Time'' [(''real'', ''1''), (''user'', ''0''), (''system'', ''0'')], Close ''Time'',
     Open ''FailureDetails'' [], Open ''Condition'' [], Chars ''a == b'', Close ''Condition'', Open ''Actual'' [], Chars ''3'',
     Close ''Actual'', Open ''Limit'' [], Chars ''4'', Close ''Limit'', Open ''Message'' [], Chars ''bad'', Close ''Message'',
     Open ''File'' [], Chars ''x.cc'', Close ''File'', Open ''Line'' [], Chars ''7'', Close ''Line'', Close ''FailureDetails'',
     Close ''Test'', Close ''Test'']" by code_simp
  then show ?thesis
    by (simp add: xml_part_def yields_def close_frame_def failed_run_def leaf_elem_def failure_elem_def element_def)
      (simp add: failed_file_def)
qed

definition failed_arrivals :: "arrival list" where
  "failed_arrivals = demo_arrivals @ [(Map.empty(''s.xml'' \<mapsto> failed_file), new_job\<lparr>tmp_file_name := ''s.xml'', returncode := 1\<rparr>)]"

lemma failed_collected: "is_ok (collect_all default_opts failed_arrivals)"
  by code_simp

theorem text_report_witness:
  "\<exists>t. collect_all default_opts failed_arrivals = Inr t \<and>
     translate_to_text (results t) =
       Inr (''SKIP: Test Suite \"b\" ()'' @ [nl] @ ''FAIL: Test Suite \"s\" (1)'' @ [nl] @
            ''FAIL: Test Suite \"c\" (1)'' @ [nl] @ ''    Details:'' @ [nl] @ ''      Message:   bad'' @ [nl] @
            ''      Condition: a == b'' @ [nl] @ ''      Actual:    3'' @ [nl] @ ''      Limit:     4'' @ [nl] @
            ''      File:      x.cc'' @ [nl] @ ''      Line:      7'' @ [nl] @ ''PASS: Example \"a\" (0.000)'' @ [nl])"
proof -
  obtain t where t: "collect_all default_opts failed_arrivals = Inr t" using failed_collected by (auto simp: is_ok_iff)
  have "list_all (clean_arrival (\<lambda>j. map (test_elem (\<lambda>n. []) 0) failed_run)) failed_arrivals"
    using failed_file_part
    by (auto simp: failed_arrivals_def demo_arrivals_def clean_arrival_def new_job_def plain_text_def runs_example_def)
  moreover have "list_all (\<lambda>a. \<not> crashed_suite (snd a)) failed_arrivals"
    by (simp add: failed_arrivals_def demo_arrivals_def crashed_suite_def runs_example_def new_job_def job_status_def)
  ultimately have "translate_to_text (results t) =
    Inr (concat (map (suite_lines (\<lambda>j. failed_run) \<circ> snd) failed_arrivals) @
         concat (map example_line (filter (\<lambda>j. \<not> is_break j \<and> runs_example j) (map snd failed_arrivals))))"
    by (rule text_report [OF t])
  also have "concat (map (suite_lines (\<lambda>j. failed_run) \<circ> snd) failed_arrivals) @
         concat (map example_line (filter (\<lambda>j. \<not> is_break j \<and> runs_example j) (map snd failed_arrivals))) =
     ''SKIP: Test Suite \"b\" ()'' @ [nl] @ ''FAIL: Test Suite \"s\" (1)'' @ [nl] @
            ''FAIL: Test Suite \"c\" (1)'' @ [nl] @ ''    Details:'' @ [nl] @ ''      Message:   bad'' @ [nl] @
            ''      Condition: a == b'' @ [nl] @ ''      Actual:    3'' @ [nl] @ ''      Limit:     4'' @ [nl] @
            ''      File:      x.cc'' @ [nl] @ ''      Line:      7'' @ [nl] @ ''PASS: Example \"a\" (0.000)'' @ [nl]" by code_simp
  finally show ?thesis using t by blast
qed

end
