(* ===== verification/TestHtml.thy ===== *)
theory TestHtml
  imports TestTranslate
begin

text \<open>
  The HTML report of \<open>test.py\<close> as a tree of tags: which pieces of it are closed properly, and when the whole is.
\<close>

section \<open>Well-formed and broken pieces\<close>

definition starts_tag :: "string \<Rightarrow> bool" where
  "starts_tag s \<longleftrightarrow> s = [] \<or> hd s = CHR ''<''"

definition html_ok :: "string \<Rightarrow> bool" where
  "html_ok s \<longleftrightarrow> (\<exists>w es. xml_part s w es)"

text \<open>No document goes on behind a broken piece.\<close>

definition html_bad :: "string \<Rightarrow> bool" where
  "html_bad s \<longleftrightarrow> starts_tag s \<and>
     (\<forall>f fs r b. starts_tag b \<longrightarrow> \<not> is_ok (bind_e (tokens (s @ b)) (\<lambda>ts. build ts (f # fs) r)))"

lemma starts_tag_append: "starts_tag s \<Longrightarrow> starts_tag b \<Longrightarrow> starts_tag (s @ b)"
  using starts_append [of s _ b] by (simp add: starts_tag_def)

lemma starts_tag_piece: "starts_tag (piece p)"
  by (cases p) (simp add: starts_tag_def piece_def)

lemma html_ok_starts: "html_ok s \<Longrightarrow> starts_tag s"
  by (auto simp: html_ok_def xml_part_def starts_tag_def)

lemma html_bad_starts: "html_bad s \<Longrightarrow> starts_tag s"
  by (simp add: html_bad_def)

lemma html_ok_Nil: "html_ok []"
  using xml_part_Nil by (auto simp: html_ok_def)

lemma html_ok_append: "html_ok s \<Longrightarrow> html_ok s' \<Longrightarrow> html_ok (s @ s')"
  using xml_part_append unfolding html_ok_def by blast

lemma html_bad_append: "html_bad s \<Longrightarrow> starts_tag s' \<Longrightarrow> html_bad (s @ s')"
  by (simp add: html_bad_def starts_tag_append)

lemma html_ok_bad:
  assumes "html_ok s" and "html_bad s'"
  shows "html_bad (s @ s')"
proof -
  obtain ts w es where t: "tokens s = Inr ts" "yields ts w es"
    using assms(1) by (auto simp: html_ok_def xml_part_def)
  have "\<not> is_ok (bind_e (tokens ((s @ s') @ b)) (\<lambda>ts. build ts (f # fs) r))" if b: "starts_tag b" for f fs r b
  proof -
    have "starts_tag (s' @ b)" by (rule starts_tag_append [OF html_bad_starts [OF assms(2)] b])
    then have "tokens (s @ (s' @ b)) = bind_e (tokens (s' @ b)) (\<lambda>tb. Inr (ts @ tb))"
      using tokens_append [OF t(1), of "s' @ b"] by (simp add: starts_tag_def)
    moreover obtain n as v ks where f: "f = (n, as, v, ks)" by (cases f)
    have "\<not> is_ok (bind_e (tokens (s' @ b)) (\<lambda>ts. build ts ((n, as, if ks = [] then v @ w else v, ks @ es) # fs) r))"
      using assms(2) b unfolding html_bad_def by blast
    ultimately show ?thesis using t(2) by (simp add: bind_e_assoc yields_def f)
  qed
  then show ?thesis using starts_tag_append [OF html_ok_starts [OF assms(1)] html_bad_starts [OF assms(2)]]
    by (simp add: html_bad_def)
qed

text \<open>Closed properly unless \<open>bad\<close>.\<close>

definition html_is :: "bool \<Rightarrow> string \<Rightarrow> bool" where
  "html_is bad s \<longleftrightarrow> (if bad then html_bad s else html_ok s)"

lemma html_is_starts: "html_is bad s \<Longrightarrow> starts_tag s"
  using html_bad_starts html_ok_starts by (auto simp: html_is_def split: if_splits)

lemma html_is_False: "html_is False s \<longleftrightarrow> html_ok s"
  by (simp add: html_is_def)

lemma html_is_append: "html_is b s \<Longrightarrow> html_is b' s' \<Longrightarrow> html_is (b \<or> b') (s @ s')"
  using html_bad_append [OF _ html_is_starts] html_ok_bad html_ok_append by (auto simp: html_is_def split: if_splits)

section \<open>Elements\<close>

definition opens :: "string \<Rightarrow> string \<Rightarrow> bool" where
  "opens body n \<longleftrightarrow> CHR ''>'' \<notin> set body \<and> (\<exists>as. tag_tokens body = Inr [Open n as]) \<and> name_ok n"

lemma tokens_open:
  assumes "opens body n" and "plain_text v" and "starts_tag b"
  obtains as where "tokens (piece (body, v) @ b) =
    bind_e (tokens b) (\<lambda>ts. Inr (Open n as # (if v = [] then [] else [Chars v]) @ ts))"
proof -
  obtain as where "tag_tokens body = Inr [Open n as]" "CHR ''>'' \<notin> set body" using assms(1) by (auto simp: opens_def)
  then have "tokens (piece (body, v) @ b) =
      bind_e (tokens b) (\<lambda>ts. Inr (Open n as # (if v = [] then [] else [Chars v]) @ ts))"
    using tokens_tag_text [of body "[Open n as]" v b] assms(2,3) by (simp add: piece_def starts_tag_def)
  then show thesis by (rule that)
qed

lemma tokens_close:
  assumes "name_ok n" and "plain_text v" and "starts_tag b"
  shows "tokens (piece (CHR ''/'' # n, v) @ b) =
    bind_e (tokens b) (\<lambda>ts. Inr (Close n # (if v = [] then [] else [Chars v]) @ ts))"
  using tokens_tag_text [of "CHR ''/'' # n" "[Close n]" v b] assms close_tag [OF assms(1)] name_ok_tags [OF assms(1)]
  by (simp add: piece_def starts_tag_def)

lemma element_ok:
  assumes "opens body n" and "plain_text v" and "plain_text v'" and "html_ok s"
  shows "html_ok (piece (body, v) @ s @ piece (CHR ''/'' # n, v'))"
proof -
  obtain ts w es where t: "tokens s = Inr ts" "yields ts w es"
    using assms(4) by (auto simp: html_ok_def xml_part_def)
  have n: "name_ok n" using assms(1) by (simp add: opens_def)
  have c: "tokens (piece (CHR ''/'' # n, v')) = Inr (Close n # (if v' = [] then [] else [Chars v']))"
    using tokens_close [OF n assms(3), of "[]"] by (simp add: starts_tag_def)
  have "tokens (s @ piece (CHR ''/'' # n, v')) = Inr (ts @ Close n # (if v' = [] then [] else [Chars v']))"
    using tokens_append [OF t(1)] c starts_tag_piece by (simp add: starts_tag_def)
  moreover have st: "starts_tag (s @ piece (CHR ''/'' # n, v'))"
    by (rule starts_tag_append [OF html_ok_starts [OF assms(4)] starts_tag_piece])
  ultimately obtain as where k: "tokens (piece (body, v) @ s @ piece (CHR ''/'' # n, v')) =
      Inr (Open n as # (if v = [] then [] else [Chars v]) @ ts @ Close n # (if v' = [] then [] else [Chars v']))"
    using tokens_open [OF assms(1,2) st] by (metis bind_e_Inr)
  have "yields (Open n as # (if v = [] then [] else [Chars v]) @ ts @ Close n # (if v' = [] then [] else [Chars v'])) []
      [element n as (v @ w) es]"
    using t(2) by (simp add: yields_def close_frame_def element_def)
  moreover have "starts_tag (piece (body, v) @ s @ piece (CHR ''/'' # n, v'))"
    by (rule starts_tag_append [OF starts_tag_piece st])
  ultimately show ?thesis using k unfolding html_ok_def xml_part_def starts_tag_def by blast
qed

lemma element_bad:
  assumes "opens body n" and "plain_text v" and "html_bad s"
  shows "html_bad (piece (body, v) @ s)"
proof -
  have "\<not> is_ok (bind_e (tokens ((piece (body, v) @ s) @ b)) (\<lambda>ts. build ts (f # fs) r))" if b: "starts_tag b" for f fs r b
  proof -
    have st: "starts_tag (s @ b)" by (rule starts_tag_append [OF html_bad_starts [OF assms(3)] b])
    obtain as where "tokens (piece (body, v) @ (s @ b)) =
        bind_e (tokens (s @ b)) (\<lambda>ts. Inr (Open n as # (if v = [] then [] else [Chars v]) @ ts))"
      using tokens_open [OF assms(1,2) st] .
    moreover have "\<not> is_ok (bind_e (tokens (s @ b)) (\<lambda>ts. build ts ((n, as, v, []) # f # fs) r))"
      using assms(3) b unfolding html_bad_def by blast
    ultimately show ?thesis by (cases "v = []") (simp_all add: bind_e_assoc)
  qed
  then show ?thesis using starts_tag_append [OF starts_tag_piece html_bad_starts [OF assms(3)]] by (simp add: html_bad_def)
qed

lemma mismatch_bad:
  assumes "opens body n" and "plain_text v" and "plain_text v'" and "html_ok s" and "name_ok m" and "m \<noteq> n"
  shows "html_bad (piece (body, v) @ s @ piece (CHR ''/'' # m, v'))"
proof -
  obtain ts w es where t: "tokens s = Inr ts" "yields ts w es"
    using assms(4) by (auto simp: html_ok_def xml_part_def)
  have "\<not> is_ok (bind_e (tokens ((piece (body, v) @ s @ piece (CHR ''/'' # m, v')) @ b)) (\<lambda>ts. build ts (f # fs) r))"
    if b: "starts_tag b" for f fs r b
  proof -
    have st1: "starts_tag (piece (CHR ''/'' # m, v') @ b)" by (rule starts_tag_append [OF starts_tag_piece b])
    have st: "starts_tag (s @ piece (CHR ''/'' # m, v') @ b)" by (rule starts_tag_append [OF html_ok_starts [OF assms(4)] st1])
    obtain as where "tokens (piece (body, v) @ (s @ piece (CHR ''/'' # m, v') @ b)) =
        bind_e (tokens (s @ piece (CHR ''/'' # m, v') @ b)) (\<lambda>ts. Inr (Open n as # (if v = [] then [] else [Chars v]) @ ts))"
      using tokens_open [OF assms(1,2) st] .
    moreover have "tokens (s @ piece (CHR ''/'' # m, v') @ b) =
        bind_e (tokens b) (\<lambda>tb. Inr (ts @ Close m # (if v' = [] then [] else [Chars v']) @ tb))"
      using tokens_append [OF t(1)] st1 tokens_close [OF assms(5,3) b] by (simp add: starts_tag_def bind_e_assoc)
    ultimately show ?thesis using t(2) assms(6)
      by (cases "tokens b"; cases f; cases "v = []") (simp_all add: yields_def)
  qed
  moreover have "starts_tag (piece (body, v) @ s @ piece (CHR ''/'' # m, v'))"
    by (intro starts_tag_append starts_tag_piece html_ok_starts [OF assms(4)])
  ultimately show ?thesis by (simp add: html_bad_def)
qed

lemma element_is:
  assumes "opens body n" and "plain_text v" and "plain_text v'" and "html_is bad s"
  shows "html_is bad (piece (body, v) @ s @ piece (CHR ''/'' # n, v'))"
proof (cases bad)
  case True
  then show ?thesis using element_bad [OF assms(1,2) html_bad_append [OF _ starts_tag_piece]] assms(4) by (simp add: html_is_def)
next
  case False
  then show ?thesis using element_ok [OF assms(1-3)] assms(4) by (simp add: html_is_def)
qed

lemma leaf_ok: "opens body n \<Longrightarrow> plain_text v \<Longrightarrow> plain_text v' \<Longrightarrow> html_ok (piece (body, v) @ piece (CHR ''/'' # n, v'))"
  using element_ok [of body n v v' "[]"] html_ok_Nil by simp

lemma leaf_bad:
  "opens body n \<Longrightarrow> plain_text v \<Longrightarrow> plain_text v' \<Longrightarrow> name_ok m \<Longrightarrow> m \<noteq> n \<Longrightarrow>
     html_bad (piece (body, v) @ piece (CHR ''/'' # m, v'))"
  using mismatch_bad [of body n v v' "[]" m] html_ok_Nil by simp

section \<open>The tags of the report\<close>

lemma opens_name: "name_ok n \<Longrightarrow> opens n n"
  using name_tag name_ok_tags by (auto simp: opens_def)

lemma html_names:
  "name_ok ''html''" "name_ok ''body''" "name_ok ''center''" "name_ok ''h1''" "name_ok ''h2''" "name_ok ''h3''"
  "name_ok ''table''" "name_ok ''th''" "name_ok ''tr''" "name_ok ''td''" "name_ok ''b''" "name_ok ''fd''"
  by (simp_all add: name_ok_def is_space_def)

lemma styled_tags:
  "opens ''h3 style=\"color:green\"'' ''h3''" "opens ''h3 style=\"color:#ff6600\"'' ''h3''" "opens ''h3 style=\"color:red\"'' ''h3''"
  "opens ''td style=\"color:green\"'' ''td''" "opens ''td style=\"color:#ff6600\"'' ''td''" "opens ''td style=\"color:red\"'' ''td''"
  "opens ''table border=\"1\"'' ''table''"
proof -
  have "tag_tokens ''h3 style=\"color:green\"'' = Inr [Open ''h3'' [(''style'', ''color:green'')]]"
    "tag_tokens ''h3 style=\"color:#ff6600\"'' = Inr [Open ''h3'' [(''style'', ''color:#ff6600'')]]"
    "tag_tokens ''h3 style=\"color:red\"'' = Inr [Open ''h3'' [(''style'', ''color:red'')]]"
    "tag_tokens ''td style=\"color:green\"'' = Inr [Open ''td'' [(''style'', ''color:green'')]]"
    "tag_tokens ''td style=\"color:#ff6600\"'' = Inr [Open ''td'' [(''style'', ''color:#ff6600'')]]"
    "tag_tokens ''td style=\"color:red\"'' = Inr [Open ''td'' [(''style'', ''color:red'')]]"
    "tag_tokens ''table border=\"1\"'' = Inr [Open ''table'' [(''border'', ''1'')]]"
    by code_simp+
  then show
    "opens ''h3 style=\"color:green\"'' ''h3''" "opens ''h3 style=\"color:#ff6600\"'' ''h3''" "opens ''h3 style=\"color:red\"'' ''h3''"
    "opens ''td style=\"color:green\"'' ''td''" "opens ''td style=\"color:#ff6600\"'' ''td''" "opens ''td style=\"color:red\"'' ''td''"
    "opens ''table border=\"1\"'' ''table''"
    by (simp_all add: opens_def html_names)
qed

lemmas html_opens = html_names [THEN opens_name] styled_tags

section \<open>Elements whose texts hold no markup\<close>

definition plain_opt :: "string option \<Rightarrow> bool" where
  "plain_opt s = (case s of None \<Rightarrow> True | Some s \<Rightarrow> plain_text s)"

fun plain_tree :: "elem \<Rightarrow> bool" where
  "plain_tree (Elem tg as tx ks) \<longleftrightarrow>
     plain_opt tx \<and> list_all (\<lambda>(n, v). plain_text v) as \<and> list_all plain_tree ks"

lemma plain_py_str: "plain_opt s \<Longrightarrow> plain_text (py_str s)"
  by (cases s) (simp_all add: plain_opt_def py_str_def plain_text_def)

lemma plain_kid: "plain_tree e \<Longrightarrow> k \<in> set (kids e) \<Longrightarrow> plain_tree k"
  by (cases e) (auto simp: list_all_iff)

lemma plain_found: "plain_tree e \<Longrightarrow> find_elem n e = Some k \<Longrightarrow> plain_tree k"
  using plain_kid [of e k] by (auto simp: find_elem_def find_Some_iff)

lemma plain_findall: "plain_tree e \<Longrightarrow> k \<in> set (findall n e) \<Longrightarrow> plain_tree k"
  using plain_kid [of e k] by (auto simp: findall_def)

lemma plain_child_text: "plain_tree e \<Longrightarrow> child_text n e = Inr t \<Longrightarrow> plain_opt t"
proof -
  assume e: "plain_tree e" and t: "child_text n e = Inr t"
  then obtain k where "find_elem n e = Some k" "t = elem_text k" by (auto simp: child_text_def bind_e_Inr_iff attr_Inr_iff)
  then show ?thesis using plain_found [OF e, of n k] by (cases k) auto
qed

lemma plain_read_test:
  assumes "plain_tree e" and "read_test e = Inr (result, name, time)"
  shows "plain_opt result" and "plain_opt name" and "plain_opt time"
proof -
  show "plain_opt result" "plain_opt name"
    using assms plain_child_text [OF assms(1)] by (auto simp: read_test_def bind_e_Inr_iff)
  have t: "time = (case find_elem ''Time'' e of None \<Rightarrow> Some [] | Some t \<Rightarrow> map_of (attrs t) ''real'')"
    using assms(2) by (auto simp: read_test_def bind_e_Inr_iff)
  show "plain_opt time"
  proof (cases "find_elem ''Time'' e")
    case None
    then show ?thesis using t by (simp add: plain_opt_def plain_text_def)
  next
    case (Some k)
    then have "plain_tree k" by (rule plain_found [OF assms(1)])
    then have "list_all (\<lambda>(n, v). plain_text v) (attrs k)" by (cases k) simp
    then show ?thesis using t Some
      by (auto simp: plain_opt_def list_all_iff dest!: map_of_SomeD split: option.splits)
  qed
qed

lemma plain_append: "plain_text (s @ t) \<longleftrightarrow> plain_text s \<and> plain_text t"
  by (auto simp: plain_text_def)

lemma plain_letters:
  "plain_text '': ''" "plain_text '' (''" "plain_text '')''" "plain_text [nl]" "plain_text []" "plain_text '', ''"
  by (simp_all add: plain_text_def nl_def)

section \<open>The pieces of the report\<close>

lemma concat_e_parts: "concat_e xs = Inr t \<Longrightarrow> \<exists>ss. list_all2 (\<lambda>x s. x = Inr s) xs ss \<and> t = concat ss"
proof (induction xs arbitrary: t)
  case (Cons x xs)
  then obtain a b where ab: "x = Inr a" "concat_e xs = Inr b" "t = a @ b" by (auto simp: bind_e_Inr_iff)
  then obtain ss where "list_all2 (\<lambda>x s. x = Inr s) xs ss" "b = concat ss" using Cons.IH by blast
  then show ?case using ab by (intro exI [of _ "a # ss"]) simp
qed simp

lemma mixed_parts:
  assumes "list_all2 (\<lambda>e s. html_is (bad e) s) es ss"
  shows "html_is (\<exists>e \<in> set es. bad e) (concat ss)"
  using assms
proof (induction rule: list_all2_induct)
  case Nil
  then show ?case using html_ok_Nil by (simp add: html_is_False)
next
  case (Cons e es s ss)
  then show ?case using html_is_append [of "bad e" s "\<exists>e \<in> set es. bad e" "concat ss"] by simp
qed

lemma mixed_pieces:
  assumes "concat_e (map f es) = Inr t"
    and "\<And>e s. e \<in> set es \<Longrightarrow> f e = Inr s \<Longrightarrow> html_is (bad e) s"
  shows "html_is (\<exists>e \<in> set es. bad e) t"
proof -
  obtain ss where ss: "list_all2 (\<lambda>x s. x = Inr s) (map f es) ss" "t = concat ss" using concat_e_parts [OF assms(1)] by blast
  have "list_all2 (\<lambda>e s. f e = Inr s) es ss" using ss(1) by (simp add: list_all2_map1)
  then have "list_all2 (\<lambda>e s. html_is (bad e) s) es ss"
    by (rule list.rel_mono_strong) (rule assms(2))
  then show ?thesis using mixed_parts ss(2) by blast
qed

lemma heading_ok: "plain_opt result \<Longrightarrow> plain_opt name \<Longrightarrow> plain_opt time \<Longrightarrow> html_ok (heading result name time)"
proof -
  assume "plain_opt result" "plain_opt name" "plain_opt time"
  then have p: "plain_text (py_str result @ '': '' @ py_str name @ '' ('' @ py_str time @ '')'')"
    using plain_letters by (simp add: plain_append plain_py_str del: append.simps)
  have "heading result name time =
      piece (if result = Some ''PASS'' then ''h3 style=\"color:green\"''
             else if result = Some ''SKIP'' then ''h3 style=\"color:#ff6600\"'' else ''h3 style=\"color:red\"'',
        py_str result @ '': '' @ py_str name @ '' ('' @ py_str time @ '')'') @ piece (CHR ''/'' # ''h3'', [nl])"
    by (simp add: heading_def piece_def)
  moreover have "html_ok \<dots>" using p plain_letters(4) html_opens by (intro leaf_ok) simp_all
  ultimately show ?thesis by simp
qed

lemma cell_ok: "opens body ''td'' \<Longrightarrow> plain_text v \<Longrightarrow> html_ok (piece (body, v) @ piece (CHR ''/'' # ''td'', [nl]))"
  by (rule leaf_ok) (simp_all add: plain_letters)

lemma details_cell_ok:
  assumes "plain_tree d" and "details_cell d = Inr c"
  shows "html_ok c"
proof -
  let ?f = "html_detail d"
  let ?xs = "[(''Message'', ''Message'', '', ''), (''Condition'', ''Condition'', '', ''), (''Actual'', ''Actual'', '', ''),
        (''Limit'', ''Limit'', '', ''), (''File'', ''File'', '', ''), (''Line'', ''Line'', [])]"
  obtain t where t: "concat_e (map ?f ?xs) = Inr t" "c = ''<td>'' @ t @ ''</td>'' @ [nl]"
    using assms(2) unfolding details_cell_def by (auto simp: bind_e_Inr_iff simp del: list.map concat_e.simps append.simps)
  have "html_is False s" if e: "e \<in> set ?xs" "?f e = Inr s" for e s
  proof -
    obtain label n behind where l: "e = (label, n, behind)" by (cases e)
    then obtain x where x: "child_text n d = Inr x" "s = ''<b>'' @ label @ '': </b>'' @ py_str x @ behind"
      using e(2) by (auto simp: html_detail_def bind_e_Inr_iff simp del: append.simps)
    have "plain_text label" "plain_text behind"
      using e(1) l by (auto simp: plain_text_def)
    then have "plain_text (label @ '': '')" "plain_text (py_str x @ behind)"
      using plain_letters plain_py_str [OF plain_child_text [OF assms(1) x(1)]] by (simp_all only: plain_append)
    moreover have "s = piece (''b'', label @ '': '') @ piece (CHR ''/'' # ''b'', py_str x @ behind)"
      by (simp add: x(2) piece_def)
    ultimately show ?thesis using leaf_ok [of "''b''" "''b''"] html_opens by (simp only: html_is_False)
  qed
  then have "html_is (\<exists>e \<in> set ?xs. False) t" by (rule mixed_pieces [OF t(1)])
  moreover have "(\<exists>e \<in> set ?xs. False) = False" by blast
  ultimately have "html_ok t" by (simp only: html_is_False)
  then have "html_ok (piece (''td'', []) @ t @ piece (CHR ''/'' # ''td'', [nl]))"
    using html_opens plain_letters by (intro element_ok) simp_all
  then show ?thesis by (simp add: t(2) piece_def)
qed

lemma failure_rows_bad:
  assumes "plain_opt result" and "plain_opt name" and "plain_opt time" and "list_all plain_tree ds"
    and "failure_rows result name time first_row ds = Inr s"
  shows "if ds = [] then s = [] else html_bad s"
  using assms(4,5)
proof (induction ds arbitrary: first_row s)
  case (Cons d ds)
  let ?cells = "if first_row
     then (piece (''td style=\"color:red\"'', py_str result) @ piece (CHR ''/'' # ''td'', [nl])) @
          (piece (''td'', py_str name) @ piece (CHR ''/'' # ''td'', [nl])) @
          (piece (''td'', py_str time) @ piece (CHR ''/'' # ''td'', [nl]))
     else (piece (''td'', []) @ piece (CHR ''/'' # ''td'', [nl])) @ (piece (''td'', []) @ piece (CHR ''/'' # ''td'', [nl])) @
          (piece (''td'', []) @ piece (CHR ''/'' # ''td'', [nl]))"
  obtain cell rows where r: "details_cell d = Inr cell" "failure_rows result name time False ds = Inr rows"
    "s = (piece (''tr'', [nl]) @ (?cells @ cell) @ piece (CHR ''/'' # ''td'', [nl])) @ rows"
    using Cons.prems(2) by (auto simp: bind_e_Inr_iff piece_def)
  have "html_ok ?cells"
  proof (cases first_row)
    case True
    then show ?thesis using assms(1-3)
      by (simp only: if_True) (intro html_ok_append cell_ok plain_py_str html_opens)
  next
    case False
    then show ?thesis
      by (simp only: if_False) (intro html_ok_append cell_ok plain_letters html_opens)
  qed
  moreover have "html_ok cell" using details_cell_ok [OF _ r(1)] Cons.prems(1) by simp
  ultimately have "html_bad (piece (''tr'', [nl]) @ (?cells @ cell) @ piece (CHR ''/'' # ''td'', [nl]))"
    using html_opens html_names plain_letters by (intro mismatch_bad [of "''tr''" "''tr''"] html_ok_append) simp_all
  moreover have "starts_tag rows"
  proof (cases ds)
    case Nil
    then show ?thesis using r(2) by (simp add: starts_tag_def)
  next
    case (Cons d' ds')
    then show ?thesis using Cons.IH [OF _ r(2)] \<open>list_all plain_tree (d # ds)\<close> html_bad_starts by simp
  qed
  ultimately have "html_bad s" unfolding r(3) by (rule html_bad_append)
  then show ?case by simp
qed simp

lemma cells_ok:
  assumes "opens body ''td''" and "plain_opt result" and "plain_opt name" and "plain_opt time"
  shows "html_ok ((piece (body, py_str result) @ piece (CHR ''/'' # ''td'', [nl])) @
    (piece (''td'', py_str name) @ piece (CHR ''/'' # ''td'', [nl])) @
    (piece (''td'', py_str time) @ piece (CHR ''/'' # ''td'', [nl])))"
  by (intro html_ok_append cell_ok plain_py_str html_opens assms)

section \<open>The test cases, the suites and the examples\<close>

text \<open>The text of the \<open>Result\<close> of an element.\<close>

definition result_of :: "elem \<Rightarrow> string option" where
  "result_of e = (case find_elem ''Result'' e of None \<Rightarrow> None | Some k \<Rightarrow> elem_text k)"

definition broken_case :: "elem \<Rightarrow> bool" where
  "broken_case tc \<longleftrightarrow> result_of tc = Some ''FAIL'' \<and> findall ''FailureDetails'' tc \<noteq> []"

definition broken_suite :: "elem \<Rightarrow> bool" where
  "broken_suite s \<longleftrightarrow> result_of s \<notin> {Some ''CRASH'', Some ''SKIP'', Some ''VALGR''} \<and>
     list_ex broken_case (findall ''Test'' s)"

definition broken_example :: "elem \<Rightarrow> bool" where
  "broken_example e \<longleftrightarrow> result_of e = Some ''SKIP''"

lemma read_result: "read_test e = Inr (result, name, time) \<Longrightarrow> result_of e = result"
  by (auto simp: read_test_def child_text_def result_of_def bind_e_Inr_iff attr_Inr_iff)

lemma case_rows_html:
  assumes "plain_tree tc" and "case_rows tc = Inr s"
  shows "html_is (broken_case tc) s"
proof -
  obtain result name time where r: "read_test tc = Inr (result, name, time)"
    using assms(2) by (auto simp: case_rows_def bind_e_Inr_iff)
  note p = plain_read_test [OF assms(1) r]
  show ?thesis
  proof (cases "result = Some ''FAIL''")
    case True
    let ?ds = "findall ''FailureDetails'' tc"
    have "failure_rows result name time True ?ds = Inr s" using assms(2) r True by (simp add: case_rows_def)
    moreover have "list_all plain_tree ?ds" using plain_findall [OF assms(1)] by (simp add: list_all_iff)
    ultimately have "if ?ds = [] then s = [] else html_bad s" by (intro failure_rows_bad [OF p])
    then show ?thesis using read_result [OF r] True html_ok_Nil by (auto simp: broken_case_def html_is_def)
  next
    case False
    have s: "s = piece (''tr'', [nl]) @ (((piece (''td style=\"color:green\"'', py_str result) @ piece (CHR ''/'' # ''td'', [nl])) @
        (piece (''td'', py_str name) @ piece (CHR ''/'' # ''td'', [nl])) @
        (piece (''td'', py_str time) @ piece (CHR ''/'' # ''td'', [nl]))) @
        (piece (''td'', []) @ piece (CHR ''/'' # ''td'', [nl]))) @ piece (CHR ''/'' # ''tr'', [nl])"
      using assms(2) r False by (simp add: case_rows_def piece_def)
    have "html_ok s" unfolding s
      by (intro element_ok html_ok_append cells_ok cell_ok html_opens plain_letters p)
    then show ?thesis using read_result [OF r] False by (simp add: broken_case_def html_is_def)
  qed
qed

lemma example_html_html:
  assumes "plain_tree e" and "example_html e = Inr s"
  shows "html_is (broken_example e) s"
proof -
  obtain result name time where r: "read_test e = Inr (result, name, time)"
    using assms(2) by (auto simp: example_html_def bind_e_Inr_iff)
  note p = plain_read_test [OF assms(1) r]
  let ?tail = "(piece (''td'', py_str name) @ piece (CHR ''/'' # ''td'', [nl])) @
        (piece (''td'', py_str time) @ piece (CHR ''/'' # ''td'', [nl]))"
  have tail: "html_ok ?tail" by (intro html_ok_append cell_ok plain_py_str html_opens p)
  show ?thesis
  proof (cases "result = Some ''SKIP''")
    case True
    have s: "s = piece (''tr'', [nl]) @ (piece (''td style=\"color:#ff6600\"'', ''SKIP'') @ piece (CHR ''/'' # ''fd'', [nl])) @
        (?tail @ piece (CHR ''/'' # ''tr'', [nl]))"
      using assms(2) r True by (simp add: example_html_def piece_def py_str_def)
    have "plain_text ''SKIP''" by (simp add: plain_text_def)
    then have "html_bad (piece (''td style=\"color:#ff6600\"'', ''SKIP'') @ piece (CHR ''/'' # ''fd'', [nl]))"
      by (intro leaf_bad [OF styled_tags(5)] plain_letters html_names) simp_all
    moreover have "starts_tag (?tail @ piece (CHR ''/'' # ''tr'', [nl]))"
      by (intro starts_tag_append html_ok_starts tail starts_tag_piece)
    ultimately have "html_bad ((piece (''td style=\"color:#ff6600\"'', ''SKIP'') @ piece (CHR ''/'' # ''fd'', [nl])) @
        (?tail @ piece (CHR ''/'' # ''tr'', [nl])))" by (rule html_bad_append)
    then have "html_bad s" unfolding s by (rule element_bad [OF opens_name [OF html_names(9)] plain_letters(4)])
    then show ?thesis using read_result [OF r] True by (simp add: broken_example_def html_is_def)
  next
    case False
    define body where "body = (if result = Some ''PASS'' then ''td style=\"color:green\"'' else ''td style=\"color:red\"'')"
    have b: "opens body ''td''" by (simp only: body_def split: if_split) (intro conjI impI html_opens)
    have s: "s = piece (''tr'', [nl]) @ ((piece (body, py_str result) @ piece (CHR ''/'' # ''td'', [nl])) @ ?tail) @
        piece (CHR ''/'' # ''tr'', [nl])"
      using assms(2) r False by (auto simp: example_html_def piece_def body_def)
    have "html_ok s" unfolding s
      by (intro element_ok html_ok_append cell_ok plain_py_str html_opens plain_letters p b)
    then show ?thesis using read_result [OF r] False by (simp add: broken_example_def html_is_def)
  qed
qed

lemma suite_html_html:
  assumes "plain_tree e" and "suite_html e = Inr s"
  shows "html_is (broken_suite e) s"
proof -
  obtain result name time where r: "read_test e = Inr (result, name, time)"
    using assms(2) by (auto simp: suite_html_def bind_e_Inr_iff)
  note p = plain_read_test [OF assms(1) r]
  have words: "plain_text '' Result ''" "plain_text ''Test Case Name''" "plain_text '' Time ''" "plain_text ''Failure Details''"
    by (simp_all add: plain_text_def)
  have th: "html_ok (piece (''th'', v) @ piece (CHR ''/'' # ''th'', [nl]))" if "plain_text v" for v
    by (intro leaf_ok html_opens plain_letters that)
  let ?first = "piece (''th'', '' Result '') @ piece (CHR ''/'' # ''th'', [nl])"
  have head: "html_ok (heading result name time)" by (rule heading_ok [OF p])
  show ?thesis
  proof (cases "result \<in> {Some ''CRASH'', Some ''SKIP'', Some ''VALGR''}")
    case True
    define body where "body = (if result = Some ''SKIP'' then ''td style=\"color:#ff6600\"'' else ''td style=\"color:red\"'')"
    have b: "opens body ''td''" by (simp only: body_def split: if_split) (intro conjI impI html_opens)
    have s: "s = heading result name time @ piece (''table border=\"1\"'', [nl]) @ (?first @
        (piece (''tr'', [nl]) @ (piece (body, py_str result) @ piece (CHR ''/'' # ''td'', [nl])) @
         piece (CHR ''/'' # ''tr'', [nl]))) @ piece (CHR ''/'' # ''table'', [nl])"
      using assms(2) r True by (auto simp: suite_html_def piece_def body_def)
    have "html_ok s" unfolding s
      by (intro html_ok_append [OF head] element_ok html_ok_append th words cell_ok plain_py_str html_opens plain_letters p b)
    then show ?thesis using read_result [OF r] True by (simp only: broken_suite_def html_is_def if_False simp_thms)
  next
    case False
    obtain rows where rows: "concat_e (map case_rows (findall ''Test'' e)) = Inr rows"
      using assms(2) r False by (auto simp: suite_html_def bind_e_Inr_iff)
    have c: "html_is (\<exists>tc \<in> set (findall ''Test'' e). broken_case tc) rows"
      by (rule mixed_pieces [OF rows]) (rule case_rows_html [OF plain_findall [OF assms(1)]])
    then have c: "html_is (broken_suite e) rows"
      using False read_result [OF r] by (simp add: broken_suite_def list_ex_iff)
    define before where "before = (?first @ (piece (''th'', ''Test Case Name'') @ piece (CHR ''/'' # ''th'', [nl])) @
        (piece (''th'', '' Time '') @ piece (CHR ''/'' # ''th'', [nl]))) @
        (if result = Some ''FAIL'' then piece (''th'', ''Failure Details'') @ piece (CHR ''/'' # ''th'', [nl]) else [])"
    have before: "html_ok before" unfolding before_def
      by (intro html_ok_append th words) (simp add: th words html_ok_Nil)
    have "suite_html e = Inr (heading result name time @ piece (''table border=\"1\"'', [nl]) @ (before @ rows) @
        piece (CHR ''/'' # ''table'', [nl]))"
      using r False rows
      by (cases "result = Some ''FAIL''") (simp_all add: suite_html_def piece_def before_def Let_def)
    then have "s = heading result name time @ piece (''table border=\"1\"'', [nl]) @ (before @ rows) @
        piece (CHR ''/'' # ''table'', [nl])" using assms(2) by (simp only: sum.inject)
    moreover have "html_is (False \<or> broken_suite e) (heading result name time @ piece (''table border=\"1\"'', [nl]) @
        (before @ rows) @ piece (CHR ''/'' # ''table'', [nl]))"
      using html_is_append [of False before "broken_suite e" rows] before c
      by (intro html_is_append element_is html_opens plain_letters) (simp_all add: html_is_False head)
    ultimately show ?thesis by simp
  qed
qed

section \<open>The report\<close>

lemma tokens_line: "starts_tag b \<Longrightarrow> opens body n \<Longrightarrow> \<exists>as. tokens (piece (body, [nl]) @ b) =
    bind_e (tokens b) (\<lambda>ts. Inr (Open n as # Chars [nl] # ts))"
  by (rule tokens_open [of body n "[nl]" b]) (auto simp: plain_letters)

lemma document_html:
  assumes "html_is bad s"
  shows "is_ok (et_parse (piece (''html'', [nl]) @ s @ piece (CHR ''/'' # ''html'', [nl]))) \<longleftrightarrow> \<not> bad"
proof -
  let ?last = "piece (CHR ''/'' # ''html'', [nl])"
  have s: "starts_tag s" using assms by (rule html_is_starts)
  then have st: "starts_tag (s @ ?last)" by (rule starts_tag_append [OF _ starts_tag_piece])
  obtain as where t: "tokens (piece (''html'', [nl]) @ s @ ?last) =
      bind_e (tokens (s @ ?last)) (\<lambda>ts. Inr (Open ''html'' as # Chars [nl] # ts))"
    using tokens_line [OF st opens_name [OF html_names(1)]] by blast
  have e: "et_parse (piece (''html'', [nl]) @ s @ ?last) =
      bind_e (tokens (s @ ?last)) (\<lambda>ts. build ts [(''html'', as, [nl], [])] None)"
    unfolding et_parse_def t by (simp add: bind_e_assoc)
  show ?thesis
  proof (cases bad)
    case True
    then have "html_bad s" using assms by (simp add: html_is_def)
    then have "\<not> is_ok (bind_e (tokens (s @ ?last)) (\<lambda>ts. build ts [(''html'', as, [nl], [])] None))"
      using starts_tag_piece unfolding html_bad_def by blast
    then show ?thesis using True e by simp
  next
    case False
    then obtain ts w es where ts: "tokens s = Inr ts" "yields ts w es"
      using assms by (auto simp: html_ok_def xml_part_def html_is_def)
    have "tokens ?last = Inr [Close ''html'', Chars [nl]]"
      using tokens_close [OF html_names(1) plain_letters(4), of "[]"] by (simp add: starts_tag_def)
    then have "tokens (s @ ?last) = Inr (ts @ [Close ''html'', Chars [nl]])"
      using tokens_append [OF ts(1)] starts_tag_piece by (simp add: starts_tag_def)
    then show ?thesis using False e ts(2) by (simp add: yields_def is_space_def nl_def)
  qed
qed

text \<open>C8: The HTML report written of a results file whose texts hold no markup can itself be parsed as a tree of tags
  exactly if no example was skipped and no suite that ran has a failed test case with failure details: the cell of a
  skipped example is closed by \<open></fd>\<close>, and the row of a failure by \<open></td>\<close>.
\<close>

theorem html_wellformed:
  assumes "et_parse results_file = Inr et" and "plain_tree et" and "translate_to_html results_file = Inr h"
  shows "is_ok (et_parse h) \<longleftrightarrow>
    \<not> list_ex broken_suite (findall ''Test'' et) \<and> \<not> list_ex broken_example (findall ''Example'' et)"
proof -
  obtain suites examples where p: "concat_e (map suite_html (findall ''Test'' et)) = Inr suites"
    "concat_e (map example_html (findall ''Example'' et)) = Inr examples"
    using assms(1,3) by (auto simp: translate_to_html_def bind_e_Inr_iff)
  have parts: "html_is (list_ex broken_suite (findall ''Test'' et)) suites"
    "html_is (list_ex broken_example (findall ''Example'' et)) examples"
    unfolding list_ex_iff
    by (rule mixed_pieces [OF p(1)], erule (1) suite_html_html [OF plain_findall [OF assms(2)]])
       (rule mixed_pieces [OF p(2)], erule (1) example_html_html [OF plain_findall [OF assms(2)]])
  have words: "plain_text ''ns-3 Test Results''" "plain_text ''Test Suites''" "plain_text ''Examples''"
    "plain_text '' Result ''" "plain_text ''Example Name''" "plain_text ''Elapsed Time''"
    by (simp_all add: plain_text_def)
  define leaf where "leaf = (\<lambda>n v. piece (n, v) @ piece (CHR ''/'' # n, [nl]))"
  have leaf: "html_is False (leaf n v)" if "opens n n" and "plain_text v" for n v
    unfolding html_is_False leaf_def by (intro leaf_ok that plain_letters)
  let ?top = "piece (''center'', []) @ (piece (''h1'', ''ns-3 Test Results'') @ piece (CHR ''/'' # ''h1'', [])) @
      piece (CHR ''/'' # ''center'', [nl])"
  have top: "html_is False ?top" unfolding html_is_False
    by (intro element_ok leaf_ok html_opens words plain_letters)
  let ?body = "?top @ leaf ''h2'' ''Test Suites'' @ suites @ leaf ''h2'' ''Examples'' @
      (piece (''table border=\"1\"'', [nl]) @ (leaf ''th'' '' Result '' @ leaf ''th'' ''Example Name'' @ leaf ''th'' ''Elapsed Time'' @
       examples) @ piece (CHR ''/'' # ''table'', [nl]))"
  let ?bad = "False \<or> False \<or> list_ex broken_suite (findall ''Test'' et) \<or> False \<or>
      False \<or> False \<or> False \<or> list_ex broken_example (findall ''Example'' et)"
  have "html_is ?bad ?body"
    by (intro html_is_append top leaf html_opens words parts element_is plain_letters)
  then have "html_is ?bad (piece (''body'', [nl]) @ ?body @ piece (CHR ''/'' # ''body'', [nl]))"
    by (intro element_is html_opens plain_letters)
  note document_html [OF this]
  moreover have "h = piece (''html'', [nl]) @ (piece (''body'', [nl]) @ ?body @ piece (CHR ''/'' # ''body'', [nl])) @
      piece (CHR ''/'' # ''html'', [nl])"
    using assms(1,3) p by (auto simp: translate_to_html_def piece_def leaf_def)
  ultimately show ?thesis by simp
qed

definition one_example :: "string \<Rightarrow> string" where
  "one_example result = ''<Results><Example><Result>'' @ result @ ''</Result><Name>wimax</Name></Example></Results>''"

lemma one_example_run:
  assumes "result = ''SKIP'' \<or> result = ''PASS''"
  obtains et h where "et_parse (one_example result) = Inr et" "plain_tree et" "translate_to_html (one_example result) = Inr h"
    "findall ''Test'' et = []" "list_ex broken_example (findall ''Example'' et) \<longleftrightarrow> result = ''SKIP''"
proof -
  let ?et = "Elem ''Results'' [] None [Elem ''Example'' [] None [Elem ''Result'' [] (Some result) [], Elem ''Name'' [] (Some ''wimax'') []]]"
  have "et_parse (one_example ''SKIP'') = Inr (Elem ''Results'' [] None [Elem ''Example'' [] None
      [Elem ''Result'' [] (Some ''SKIP'') [], Elem ''Name'' [] (Some ''wimax'') []]])"
    "et_parse (one_example ''PASS'') = Inr (Elem ''Results'' [] None [Elem ''Example'' [] None
      [Elem ''Result'' [] (Some ''PASS'') [], Elem ''Name'' [] (Some ''wimax'') []]])"
    by code_simp+
  then have et: "et_parse (one_example result) = Inr ?et" using assms by auto
  have "is_ok (translate_to_html (one_example ''SKIP''))" "is_ok (translate_to_html (one_example ''PASS''))" by code_simp+
  then obtain h where h: "translate_to_html (one_example result) = Inr h" using assms by (auto simp: is_ok_iff)
  have "plain_tree ?et" "findall ''Test'' ?et = []" "list_ex broken_example (findall ''Example'' ?et) \<longleftrightarrow> result = ''SKIP''"
    using assms by (auto simp: plain_opt_def plain_text_def findall_def broken_example_def result_of_def find_elem_def)
  then show thesis using that et h by blast
qed

theorem html_wellformed_witness:
  "\<exists>h h'. translate_to_html (one_example ''SKIP'') = Inr h \<and> \<not> is_ok (et_parse h) \<and>
     translate_to_html (one_example ''PASS'') = Inr h' \<and> is_ok (et_parse h')"
proof -
  obtain et h where e: "et_parse (one_example ''SKIP'') = Inr et" "plain_tree et" "translate_to_html (one_example ''SKIP'') = Inr h"
    "findall ''Test'' et = []" "list_ex broken_example (findall ''Example'' et)"
    using one_example_run [of "''SKIP''"] by auto
  obtain et' h' where e': "et_parse (one_example ''PASS'') = Inr et'" "plain_tree et'" "translate_to_html (one_example ''PASS'') = Inr h'"
    "findall ''Test'' et' = []" "\<not> list_ex broken_example (findall ''Example'' et')"
    using one_example_run [of "''PASS''"] by auto
  show ?thesis using html_wellformed [OF e(1-3)] html_wellformed [OF e'(1-3)] e e' by auto
qed

end
