(* ===== verification/PyNum.thy ===== *)
theory PyNum
  imports PyText
begin

text \<open>
  Numbers of the Python 3 log scripts: \<open>int\<close> and \<open>float\<close> of a text, division, and the built-in
  functions on lists of numbers. A float is the rational number it stands for: rounding, \<open>inf\<close> and
  \<open>nan\<close> are not modelled, so a text that denotes one of the last two is outside the model.
\<close>

section \<open>int and float of a text\<close>

fun sign_of :: "string \<Rightarrow> int \<times> string" where
  "sign_of [] = (1, [])"
| "sign_of (c # s) = (if c = CHR ''-'' then (-1, s) else if c = CHR ''+'' then (1, s) else (1, c # s))"

text \<open>Digits, in groups that may be separated by single underscores.\<close>

definition digits_ok :: "string \<Rightarrow> bool" where
  "digits_ok s \<longleftrightarrow> list_all (\<lambda>w. w \<noteq> [] \<and> list_all is_digit w) (split_on (CHR ''_'') s)"

definition digits_val :: "string \<Rightarrow> nat" where
  "digits_val s = nat_of_digits (filter is_digit s)"

definition int_of :: "string \<Rightarrow> int py" where
  "int_of t =
     (let (sg, s) = sign_of (re_strip t)
      in if digits_ok s then Inr (sg * int (digits_val s)) else Inl ValueError)"

definition upto_char :: "(char \<Rightarrow> bool) \<Rightarrow> string \<Rightarrow> string \<times> string option" where
  "upto_char P s = (takeWhile (\<lambda>c. \<not> P c) s, case dropWhile (\<lambda>c. \<not> P c) s of [] \<Rightarrow> None | _ # r \<Rightarrow> Some r)"

definition mantissa :: "string \<Rightarrow> rat option" where
  "mantissa s =
     (case upto_char (\<lambda>c. c = CHR ''.'') s of
        (a, None) \<Rightarrow> if digits_ok a then Some (of_nat (digits_val a)) else None
      | (a, Some b) \<Rightarrow>
          if (a = [] \<or> digits_ok a) \<and> (b = [] \<or> digits_ok b) \<and> (a \<noteq> [] \<or> b \<noteq> [])
          then Some (of_nat (digits_val a) + of_nat (digits_val b) / 10 ^ length (filter is_digit b)) else None)"

definition float_of :: "string \<Rightarrow> rat py" where
  "float_of t =
     (let (sg, s) = sign_of (re_strip t); (m, e) = upto_char (\<lambda>c. c \<in> {CHR ''e'', CHR ''E''}) s in
      case mantissa m of
        None \<Rightarrow> Inl ValueError
      | Some v \<Rightarrow>
          (case e of
             None \<Rightarrow> Inr (of_int sg * v)
           | Some x \<Rightarrow>
               (let (es, d) = sign_of x in
                if \<not> digits_ok d then Inl ValueError
                else Inr (of_int sg * (if es = 1 then v * 10 ^ digits_val d else v / 10 ^ digits_val d)))))"

lemma split_on_absent: "c \<notin> set s \<Longrightarrow> split_on c s = [s]"
  by (induction s) auto

lemma digits_ok_str_of_nat: "digits_ok (str_of_nat n)"
proof -
  have "CHR ''_'' \<notin> set (str_of_nat n)" using str_of_nat_digits [of "CHR ''_''" n] by (auto simp: is_digit_def)
  then show ?thesis
    using str_of_nat_digits [of _ n] by (auto simp: digits_ok_def split_on_absent list_all_iff str_of_nat_not_Nil)
qed

lemma digits_val_str_of_nat: "digits_val (str_of_nat n) = n"
proof -
  have "filter is_digit (str_of_nat n) = str_of_nat n" using str_of_nat_digits by (simp add: filter_id_conv)
  then show ?thesis by (simp add: digits_val_def)
qed

lemma digit_not_space: "is_digit c \<Longrightarrow> \<not> re_space c"
  by (auto simp: is_digit_def re_space_def is_space_def)

lemma re_strip_id:
  assumes "s \<noteq> []" and "\<not> re_space (hd s)" and "\<not> re_space (last s)"
  shows "re_strip s = s"
proof -
  have "dropWhile re_space s = s" using assms(1,2) by (cases s) auto
  moreover have "dropWhile re_space (rev s) = rev s" using assms(1,3) by (cases "rev s") (auto simp: hd_rev [symmetric])
  ultimately show ?thesis by (simp add: re_strip_def re_strip_right_def)
qed

lemma int_of_str_of_int: "int_of (str_of_int i) = Inr i"
proof -
  have d: "is_digit (hd (str_of_nat n))" "is_digit (last (str_of_nat n))" for n
    using str_of_nat_digits [of "hd (str_of_nat n)" n] str_of_nat_digits [of "last (str_of_nat n)" n] str_of_nat_not_Nil
    by simp_all
  have nm: "hd (str_of_nat n) \<noteq> CHR ''-''" "hd (str_of_nat n) \<noteq> CHR ''+''" for n
    using d(1) [of n] by (auto simp: is_digit_def)
  show ?thesis
  proof (cases "i < 0")
    case True
    let ?s = "str_of_nat (nat (- i))"
    have "re_strip (CHR ''-'' # ?s) = CHR ''-'' # ?s"
      using d(2) [of "nat (- i)"] digit_not_space str_of_nat_not_Nil
      by (intro re_strip_id) (simp_all add: re_space_def is_space_def)
    then show ?thesis using True by (simp add: int_of_def str_of_int_def digits_ok_str_of_nat digits_val_str_of_nat)
  next
    case False
    let ?s = "str_of_nat (nat i)"
    have "re_strip ?s = ?s" using d [of "nat i"] digit_not_space str_of_nat_not_Nil by (intro re_strip_id) simp_all
    moreover have "sign_of ?s = (1, ?s)"
      using nm [of "nat i"] str_of_nat_not_Nil [of "nat i"] by (cases ?s) auto
    ultimately show ?thesis using False
      by (simp add: int_of_def str_of_int_def digits_ok_str_of_nat digits_val_str_of_nat)
  qed
qed

section \<open>Arithmetic\<close>

definition rdiv :: "rat \<Rightarrow> rat \<Rightarrow> rat py" where
  "rdiv a b = (if b = 0 then Inl ZeroDivisionError else Inr (a / b))"

text \<open>\<open>min(xs, key = k)\<close>: the first element with the least key.\<close>

fun min_by :: "('a \<Rightarrow> rat) \<Rightarrow> 'a \<Rightarrow> 'a list \<Rightarrow> 'a" where
  "min_by k m [] = m"
| "min_by k m (x # xs) = min_by k (if k x < k m then x else m) xs"

lemma min_by_least: "min_by k m xs \<in> set (m # xs) \<and> (\<forall>x \<in> set (m # xs). k (min_by k m xs) \<le> k x)"
proof (induction xs arbitrary: m)
  case (Cons x xs)
  show ?case using Cons [of "if k x < k m then x else m"] by (auto split: if_splits)
qed simp

end
