(* ===== verification/DashTrace.thy ===== *)
theory DashTrace
  imports PyNum
begin

text \<open>
  \<open>scripts/verify_dash_traces.py\<close>: the parsers of the DASH and QUIC trace files and the report of
  \<open>main\<close>. The trace files are a map from names to lists of lines. The report is the list of the
  numbers it prints, in order, each with its label: their layout in text is not modelled, nor the
  second unit in which some of them are printed again.
\<close>

section \<open>Constants\<close>

definition MPEG_FRAMES_PER_SEGMENT :: int where "MPEG_FRAMES_PER_SEGMENT = 100"
definition MPEG_TIME_BETWEEN_FRAMES :: int where "MPEG_TIME_BETWEEN_FRAMES = 20"
definition FRAME_RATE :: int where "FRAME_RATE = 50"
definition MPEG_HEADER_SIZE :: int where "MPEG_HEADER_SIZE = 32"
definition HTTP_HEADER_SIZE :: int where "HTTP_HEADER_SIZE = 28"
definition TOTAL_HEADER_OVERHEAD :: int where "TOTAL_HEADER_OVERHEAD = MPEG_HEADER_SIZE + HTTP_HEADER_SIZE"
definition SIMULATION_TIME :: rat where "SIMULATION_TIME = 2"
definition TARGET_DT :: rat where "TARGET_DT = 1 / 10"
definition BUFFER_SPACE :: int where "BUFFER_SPACE = 1048576"
definition WINDOW :: rat where "WINDOW = 1"

definition VIDEO_BITRATES :: "int list" where
  "VIDEO_BITRATES = [
    45000, 89000, 131000, 178000, 221000, 263000, 334000,
    396000, 522000, 595000, 791000, 1033000, 1245000, 1547000,
    2134000, 2484000, 3079000, 3527000, 3840000, 4220000, 9500000,
    15000000, 30000000, 66000000, 85000000]"

section \<open>The parsers\<close>

type_synonym packet = "rat \<times> int"

record rx_data =
  rx_packets :: "packet list"
  rx_total_packets :: int
  rx_total_bytes :: int
  first_time :: "rat option"
  last_time :: "rat option"

record request_data =
  rq_requests :: "packet list"
  rq_total_requests :: int
  rq_total_bytes :: int

text \<open>The parts of a line that is neither blank nor a comment.\<close>

definition line_parts :: "string \<Rightarrow> string list option" where
  "line_parts line =
     (if re_strip line \<noteq> [] \<and> \<not> starts_with line ''#'' then Some (split_on tab (re_strip line)) else None)"

text \<open>A row of four columns: \<open>None\<close> when the line is passed over.\<close>

definition parse_row :: "string \<Rightarrow> (rat \<times> int \<times> int \<times> int) option py" where
  "parse_row line =
     (case line_parts line of
        Some (p0 # p1 # p2 # p3 # _) \<Rightarrow>
          bind_e (float_of p0) (\<lambda>time. bind_e (int_of p1) (\<lambda>sz.
          bind_e (int_of p2) (\<lambda>total. bind_e (int_of p3) (\<lambda>bytes. Inr (Some (time, sz, total, bytes))))))
      | _ \<Rightarrow> Inr None)"

definition rx_start :: rx_data where
  "rx_start = \<lparr>rx_packets = [], rx_total_packets = 0, rx_total_bytes = 0, first_time = None, last_time = None\<rparr>"

definition rx_step :: "rx_data \<Rightarrow> string \<Rightarrow> rx_data py" where
  "rx_step data line =
     bind_e (parse_row line) (\<lambda>r. Inr (case r of
        None \<Rightarrow> data
      | Some (time, sz, total_packets, total_bytes) \<Rightarrow>
          data\<lparr>rx_packets := rx_packets data @ [(time, sz)], rx_total_packets := total_packets,
            rx_total_bytes := total_bytes,
            first_time := (case first_time data of None \<Rightarrow> Some time | Some t \<Rightarrow> Some t),
            last_time := Some time\<rparr>))"

definition parse_dash_client_rx :: "string list option \<Rightarrow> rx_data py" where
  "parse_dash_client_rx file = (case file of None \<Rightarrow> Inr rx_start | Some lines \<Rightarrow> fold_e rx_step rx_start (drop 2 lines))"

definition request_start :: request_data where
  "request_start = \<lparr>rq_requests = [], rq_total_requests = 0, rq_total_bytes = 0\<rparr>"

definition request_step :: "request_data \<Rightarrow> string \<Rightarrow> request_data py" where
  "request_step data line =
     bind_e (parse_row line) (\<lambda>r. Inr (case r of
        None \<Rightarrow> data
      | Some (time, sz, total_requests, total_bytes) \<Rightarrow>
          data\<lparr>rq_requests := rq_requests data @ [(time, sz)], rq_total_requests := total_requests,
            rq_total_bytes := total_bytes\<rparr>))"

definition parse_dash_client_tx :: "string list option \<Rightarrow> request_data py" where
  "parse_dash_client_tx file =
     (case file of None \<Rightarrow> Inr request_start | Some lines \<Rightarrow> fold_e request_step request_start (drop 2 lines))"

definition parse_dash_server_rx :: "string list option \<Rightarrow> request_data py" where
  "parse_dash_server_rx file =
     (case file of None \<Rightarrow> Inr request_start | Some lines \<Rightarrow> fold_e request_step request_start (drop 2 lines))"

text \<open>The QUIC trace has no header to skip, and the totals are counted here.\<close>

type_synonym quic_data = "packet list \<times> int \<times> int"

definition quic_step :: "quic_data \<Rightarrow> string \<Rightarrow> quic_data py" where
  "quic_step data line =
     (case line_parts line of
        Some (p0 # p1 # _) \<Rightarrow>
          bind_e (float_of p0) (\<lambda>time. bind_e (int_of p1) (\<lambda>sz.
            let (packets, n, bytes) = data in Inr (packets @ [(time, sz)], n + 1, bytes + sz)))
      | _ \<Rightarrow> Inr data)"

definition parse_quic_rx_data :: "string list option \<Rightarrow> quic_data py" where
  "parse_quic_rx_data file = (case file of None \<Rightarrow> Inr ([], 0, 0) | Some lines \<Rightarrow> fold_e quic_step ([], 0, 0) lines)"

section \<open>Expected statistics\<close>

record expected_stats =
  segment_duration_sec :: rat
  max_segments_possible :: int
  frames_per_segment :: int
  min_segment_size_bytes :: rat
  max_segment_size_bytes :: rat
  min_bitrate_bps :: int
  max_bitrate_bps :: int

definition calculate_expected_stats :: expected_stats where
  "calculate_expected_stats =
     (let segment_duration = of_int (MPEG_FRAMES_PER_SEGMENT * MPEG_TIME_BETWEEN_FRAMES) / 1000;
          min_bitrate = hd VIDEO_BITRATES; max_bitrate = last VIDEO_BITRATES
      in \<lparr>segment_duration_sec = segment_duration,
          max_segments_possible = \<lfloor>SIMULATION_TIME / segment_duration\<rfloor> + 1,
          frames_per_segment = MPEG_FRAMES_PER_SEGMENT,
          min_segment_size_bytes = of_int min_bitrate * segment_duration / 8,
          max_segment_size_bytes = of_int max_bitrate * segment_duration / 8,
          min_bitrate_bps = min_bitrate, max_bitrate_bps = max_bitrate\<rparr>)"

section \<open>The report on one UE\<close>

type_synonym field = "string \<times> rat"

definition request_fields :: "request_data \<Rightarrow> field list" where
  "request_fields d =
     [(''Total Requests'', of_int (rq_total_requests d)), (''Total Bytes'', of_int (rq_total_bytes d))]
     @ (if rq_requests d = [] then []
        else [(''First Request'', fst (hd (rq_requests d))), (''Last Request'', fst (last (rq_requests d)))])"

definition intervals :: "rat list \<Rightarrow> rat list" where
  "intervals ts = map (\<lambda>i. ts ! (i + 1) - ts ! i) [0 ..< length ts - 1]"

definition interval_fields :: "request_data \<Rightarrow> field list" where
  "interval_fields tx =
     (let ts = map fst (rq_requests tx) in
      if 1 < length ts
      then [(''Avg Interval'', sum_list (intervals ts) / of_nat (length (intervals ts)))] else [])"

definition reception_fields :: "rx_data \<Rightarrow> rat \<Rightarrow> rat \<Rightarrow> field list" where
  "reception_fields rx t0 t1 =
     (let duration = t1 - t0 in
      [(''First Frame'', t0), (''Last Frame'', t1), (''Reception Duration'', duration)]
      @ (if 0 < duration then [(''Average Throughput'', of_int (rx_total_bytes rx) * 8 / duration / 1000000)] else []))"

definition missing_fields :: "int \<Rightarrow> int \<Rightarrow> field list py" where
  "missing_fields expected_frames total_packets =
     (let missing_frames = expected_frames - total_packets in
      if 0 < missing_frames
      then bind_e (rdiv (of_int missing_frames * 100) (of_int expected_frames)) (\<lambda>percent.
        Inr [(''Missing Frames'', of_int missing_frames), (''Missing Percent'', percent)])
      else if missing_frames = 0 then Inr [(''All expected frames received'', of_int expected_frames)]
      else Inr [])"

definition bitrate_fields :: "expected_stats \<Rightarrow> rx_data \<Rightarrow> request_data \<Rightarrow> field list py" where
  "bitrate_fields expected rx tx =
     (if 0 < rx_total_packets rx
      then
        (let estimated_total_payload = rx_total_bytes rx - rx_total_packets rx * TOTAL_HEADER_OVERHEAD in
         bind_e (rdiv (of_int estimated_total_payload * 8) (of_int (rq_total_requests tx) * segment_duration_sec expected))
           (\<lambda>estimated_bitrate_bps.
             let closest = min_by (\<lambda>x. \<bar>of_int x - estimated_bitrate_bps\<bar>) (hd VIDEO_BITRATES) (tl VIDEO_BITRATES)
             in Inr [(''Estimated Bitrate'', estimated_bitrate_bps / 1000), (''Closest Match'', of_int closest / 1000)]))
      else Inr [])"

definition segment_fields :: "expected_stats \<Rightarrow> rat \<Rightarrow> field list" where
  "segment_fields expected avg_frame_size =
     (let overhead = of_int (frames_per_segment expected * TOTAL_HEADER_OVERHEAD) in
      [(''Header Overhead'', of_int TOTAL_HEADER_OVERHEAD),
       (''Avg Payload Size'', avg_frame_size - of_int TOTAL_HEADER_OVERHEAD),
       (''Expected Seg Size (min)'', of_int (min_bitrate_bps expected) * segment_duration_sec expected / 8 + overhead),
       (''Expected Seg Size (max)'', of_int (max_bitrate_bps expected) * segment_duration_sec expected / 8 + overhead)])"

definition frame_fields :: "expected_stats \<Rightarrow> rx_data \<Rightarrow> request_data \<Rightarrow> field list py" where
  "frame_fields expected rx tx =
     (let sizes = map snd (rx_packets rx);
          avg_frame_size = of_int (sum_list sizes) / of_nat (length sizes);
          expected_frames = rq_total_requests tx * frames_per_segment expected;
          completeness = (if 0 < expected_frames then of_int (rx_total_packets rx) / of_int expected_frames * 100 else 0)
      in
      bind_e (bitrate_fields expected rx tx) (\<lambda>bitrate.
      bind_e (missing_fields expected_frames (rx_total_packets rx)) (\<lambda>missing.
      Inr ([(''Avg Frame Size'', avg_frame_size), (''Min Frame Size'', of_int (Min (set sizes))),
            (''Max Frame Size'', of_int (Max (set sizes))),
            (''Expected Frames'', of_int expected_frames), (''Actual Frames'', of_int (rx_total_packets rx)),
            (''Frame Completeness'', completeness)]
        @ segment_fields expected avg_frame_size
        @ [(''Actual Total Bytes'', of_int (rx_total_bytes rx))]
        @ bitrate
        @ (if 0 < rq_total_requests tx
           then [(''Avg Bytes/Segment'', of_int (rx_total_bytes rx) / of_int (rq_total_requests tx))] else [])
        @ missing))))"

definition video_fields :: "expected_stats \<Rightarrow> rx_data \<Rightarrow> request_data \<Rightarrow> field list py" where
  "video_fields expected rx tx =
     bind_e (case (first_time rx, last_time rx) of
          (Some t0, Some t1) \<Rightarrow> if rx_packets rx = [] then Inr []
             else bind_e (frame_fields expected rx tx) (\<lambda>fs. Inr (reception_fields rx t0 t1 @ fs))
        | _ \<Rightarrow> Inr [])
       (\<lambda>fs. Inr ([(''Total Frames'', of_int (rx_total_packets rx)), (''Total Bytes'', of_int (rx_total_bytes rx))] @ fs))"

definition requests_match :: "request_data \<Rightarrow> request_data \<Rightarrow> bool" where
  "requests_match tx server \<longleftrightarrow> rq_total_requests tx = rq_total_requests server"

definition passed :: "bool \<Rightarrow> rat" where
  "passed b = (if b then 1 else 0)"

definition verification_fields :: "expected_stats \<Rightarrow> rx_data \<Rightarrow> request_data \<Rightarrow> request_data \<Rightarrow> field list" where
  "verification_fields expected rx tx server =
     [(''Requests Match'', passed (requests_match tx server)),
      (''Client Sent'', of_int (rq_total_requests tx)), (''Server Received'', of_int (rq_total_requests server))]
     @ (if 0 < rx_total_bytes rx
        then (let min_expected = of_int (rq_total_requests tx) * (min_segment_size_bytes expected * (1 / 2)) in
              [(''Sufficient Data Rx'', passed (min_expected \<le> of_int (rx_total_bytes rx))),
               (''Expected Min'', min_expected), (''Actual Received'', of_int (rx_total_bytes rx))])
        else [])"

section \<open>main\<close>

type_synonym traces = "string \<Rightarrow> string list option"

definition client_rx_name :: "nat \<Rightarrow> string" where
  "client_rx_name i = ''DashClientRx_UE_'' @ str_of_nat i @ ''.txt''"

definition client_tx_name :: "nat \<Rightarrow> string" where
  "client_tx_name i = ''DashClientTx_UE_'' @ str_of_nat i @ ''.txt''"

definition server_rx_name :: string where "server_rx_name = ''DashServerRx.txt''"

definition ue_ids_of :: "traces \<Rightarrow> nat list" where
  "ue_ids_of fs = filter (\<lambda>i. fs (client_rx_name i) \<noteq> None) [0 ..< 10]"

record totals =
  total_client_tx_bytes :: int
  total_client_rx_bytes :: int
  total_server_rx_bytes :: int

definition analyze_ue :: "traces \<Rightarrow> expected_stats \<Rightarrow> totals \<times> field list \<Rightarrow> nat \<Rightarrow> (totals \<times> field list) py" where
  "analyze_ue fs expected st ue_id =
     (let (tot, out) = st in
      bind_e (parse_dash_client_rx (fs (client_rx_name ue_id))) (\<lambda>client_rx.
      bind_e (parse_dash_client_tx (fs (client_tx_name ue_id))) (\<lambda>client_tx.
      bind_e (parse_dash_server_rx (fs server_rx_name)) (\<lambda>server_rx.
      bind_e (parse_quic_rx_data (fs (''clientQUIC-rx-data'' @ str_of_nat (ue_id + 2) @ ''.txt''))) (\<lambda>(_, client_n, client_bytes).
      bind_e (parse_quic_rx_data (fs (''serverQUIC-rx-data'' @ str_of_nat (ue_id + 5) @ ''.txt''))) (\<lambda>(_, server_n, server_bytes).
      bind_e (video_fields expected client_rx client_tx) (\<lambda>video.
      Inr (\<lparr>total_client_tx_bytes = total_client_tx_bytes tot + rq_total_bytes client_tx,
             total_client_rx_bytes = total_client_rx_bytes tot + rx_total_bytes client_rx,
             total_server_rx_bytes = total_server_rx_bytes tot + rq_total_bytes server_rx\<rparr>,
           out @ [(''UE'', of_nat ue_id)] @ request_fields client_tx @ interval_fields client_tx @ video
             @ request_fields server_rx
             @ [(''Total Packets'', of_int client_n), (''Total Bytes'', of_int client_bytes),
                (''Total Packets'', of_int server_n), (''Total Bytes'', of_int server_bytes)]
             @ verification_fields expected client_rx client_tx server_rx))))))))"

definition summary_fields :: "totals \<Rightarrow> field list" where
  "summary_fields tot =
     [(''Total Client Tx'', of_int (total_client_tx_bytes tot)), (''Total Server Rx'', of_int (total_server_rx_bytes tot)),
      (''Total Client Rx'', of_int (total_client_rx_bytes tot)),
      (''Overall Throughput'', of_int (total_client_rx_bytes tot) * 8 / SIMULATION_TIME / 1000000)]"

definition expected_fields :: "expected_stats \<Rightarrow> field list" where
  "expected_fields expected =
     [(''Simulation Time'', SIMULATION_TIME), (''Target Buffering Time'', TARGET_DT), (''Buffer Space'', of_int BUFFER_SPACE),
      (''Throughput Window'', WINDOW), (''Segment Duration'', segment_duration_sec expected),
      (''Frames per Segment'', of_int (frames_per_segment expected)), (''Frame Rate'', of_int FRAME_RATE),
      (''Max Segments Possible'', of_int (max_segments_possible expected)),
      (''Min Video Bitrate'', of_int (min_bitrate_bps expected) / 1000),
      (''Max Video Bitrate'', of_int (max_bitrate_bps expected) / 1000000),
      (''Min Segment Size'', min_segment_size_bytes expected), (''Max Segment Size'', max_segment_size_bytes expected)]"

text \<open>Without a client trace the program says so and stops: \<open>None\<close>. The totals are part of the result.\<close>

definition dash_main :: "traces \<Rightarrow> (totals \<times> field list) option py" where
  "dash_main fs =
     (let expected = calculate_expected_stats; ue_ids = ue_ids_of fs in
      if ue_ids = [] then Inr None
      else bind_e (fold_e (analyze_ue fs expected)
           (\<lparr>total_client_tx_bytes = 0, total_client_rx_bytes = 0, total_server_rx_bytes = 0\<rparr>,
            expected_fields expected @ [(''UEs'', of_nat (length ue_ids))]) ue_ids)
         (\<lambda>(tot, out). Inr (Some (tot, out @ summary_fields tot))))"

section \<open>What the parsers return\<close>

fun row_list :: "'a option list \<Rightarrow> 'a list" where
  "row_list [] = []"
| "row_list (None # rs) = row_list rs"
| "row_list (Some x # rs) = x # row_list rs"

lemma row_list_append: "row_list (rs @ qs) = row_list rs @ row_list qs"
  by (induction rs rule: row_list.induct) simp_all

lemma row_list_snoc: "row_list (rs @ [None]) = row_list rs" "row_list (rs @ [Some x]) = row_list rs @ [x]"
  by (simp_all add: row_list_append)

definition rx_of :: "(rat \<times> int \<times> int \<times> int) list \<Rightarrow> rx_data" where
  "rx_of rows = (if rows = [] then rx_start else
     \<lparr>rx_packets = map (\<lambda>(t, s, n, b). (t, s)) rows, rx_total_packets = fst (snd (snd (last rows))),
      rx_total_bytes = snd (snd (snd (last rows))), first_time = Some (fst (hd rows)), last_time = Some (fst (last rows))\<rparr>)"

definition requests_of :: "(rat \<times> int \<times> int \<times> int) list \<Rightarrow> request_data" where
  "requests_of rows = (if rows = [] then request_start else
     \<lparr>rq_requests = map (\<lambda>(t, s, n, b). (t, s)) rows, rq_total_requests = fst (snd (snd (last rows))),
      rq_total_bytes = snd (snd (snd (last rows)))\<rparr>)"

lemma rx_steps:
  "list_all2 (\<lambda>l r. parse_row l = Inr r) ls rs \<Longrightarrow> fold_e rx_step rx_start ls = Inr (rx_of (row_list rs))"
proof (induction ls arbitrary: rs rule: rev_induct)
  case Nil
  then show ?case by (simp add: rx_of_def)
next
  case (snoc l ls)
  then obtain rs' r where rs: "rs = rs' @ [r]" "list_all2 (\<lambda>l r. parse_row l = Inr r) ls rs'" "parse_row l = Inr r"
    by (auto simp: list_all2_append1 list_all2_Cons1)
  show ?case
  proof (cases r)
    case None
    then show ?thesis using snoc.IH [OF rs(2)] rs by (simp add: fold_e_append rx_step_def row_list_snoc)
  next
    case (Some x)
    obtain t s n b where x: "x = (t, s, n, b)" by (cases x)
    show ?thesis using snoc.IH [OF rs(2)] rs Some x
      by (cases "row_list rs'") (simp_all add: fold_e_append rx_step_def row_list_snoc rx_of_def rx_start_def)
  qed
qed

lemma request_steps:
  "list_all2 (\<lambda>l r. parse_row l = Inr r) ls rs \<Longrightarrow> fold_e request_step request_start ls = Inr (requests_of (row_list rs))"
proof (induction ls arbitrary: rs rule: rev_induct)
  case Nil
  then show ?case by (simp add: requests_of_def)
next
  case (snoc l ls)
  then obtain rs' r where rs: "rs = rs' @ [r]" "list_all2 (\<lambda>l r. parse_row l = Inr r) ls rs'" "parse_row l = Inr r"
    by (auto simp: list_all2_append1 list_all2_Cons1)
  show ?case
  proof (cases r)
    case None
    then show ?thesis using snoc.IH [OF rs(2)] rs by (simp add: fold_e_append request_step_def row_list_snoc)
  next
    case (Some x)
    obtain t s n b where x: "x = (t, s, n, b)" by (cases x)
    show ?thesis using snoc.IH [OF rs(2)] rs Some x
      by (cases "row_list rs'") (simp_all add: fold_e_append request_step_def row_list_snoc requests_of_def request_start_def)
  qed
qed

text \<open>When every line after the two header lines parses, the client parser keeps the time and size of
  every row in order, takes the totals of the last row, and remembers the times of the first and the last row; the
  request parsers do the same without the times.\<close>

theorem dash_rows_read:
  assumes "list_all2 (\<lambda>l r. parse_row l = Inr r) (drop 2 lines) rs"
  shows "parse_dash_client_rx (Some lines) = Inr (rx_of (row_list rs))
    \<and> parse_dash_client_tx (Some lines) = Inr (requests_of (row_list rs))
    \<and> parse_dash_server_rx (Some lines) = Inr (requests_of (row_list rs))"
  using rx_steps [OF assms] request_steps [OF assms]
  by (simp add: parse_dash_client_rx_def parse_dash_client_tx_def parse_dash_server_rx_def)

section \<open>Runs that cannot be reported\<close>

text \<open>When frames were received but no request was recorded, for instance because the client's
  request trace is missing, the bitrate estimate divides by zero: the report of the UE ends in
  \<open>ZeroDivisionError\<close>, although the statement after it guards against that case.\<close>

theorem zero_requests_crash:
  assumes "rx_packets rx \<noteq> []" and "first_time rx = Some t0" and "last_time rx = Some t1"
    and "0 < rx_total_packets rx" and "rq_total_requests tx = 0"
  shows "video_fields expected rx tx = Inl ZeroDivisionError"
  using assms by (simp add: video_fields_def frame_fields_def bitrate_fields_def rdiv_def Let_def)

section \<open>Several UEs\<close>

lemma analyze_totals:
  assumes "fold_e (analyze_ue fs expected) (tot, out) us = Inr (tot', out')"
    and "parse_dash_server_rx (fs server_rx_name) = Inr server"
  shows "total_server_rx_bytes tot' = total_server_rx_bytes tot + int (length us) * rq_total_bytes server"
  using assms(1)
proof (induction us arbitrary: tot out)
  case Nil
  then show ?case by simp
next
  case (Cons u us)
  from Cons.prems obtain t1 o1 where 1: "analyze_ue fs expected (tot, out) u = Inr (t1, o1)"
    "fold_e (analyze_ue fs expected) (t1, o1) us = Inr (tot', out')" by (auto elim!: bind_e_InrE)
  have "total_server_rx_bytes t1 = total_server_rx_bytes tot + rq_total_bytes server"
    using 1(1) assms(2) by (auto simp: analyze_ue_def elim!: bind_e_InrE)
  then show ?case using Cons.IH [OF 1(2)] by (simp add: algebra_simps)
qed

text \<open>The one server trace is read again for every UE, so that the total the summary prints for
  the server is the number of UEs times what the server received.\<close>

theorem server_bytes_counted:
  assumes "dash_main fs = Inr (Some (tot, out))" and "parse_dash_server_rx (fs server_rx_name) = Inr server"
  shows "total_server_rx_bytes tot = int (length (ue_ids_of fs)) * rq_total_bytes server"
proof -
  from assms(1) obtain o1 where
    "fold_e (analyze_ue fs calculate_expected_stats)
       (\<lparr>total_client_tx_bytes = 0, total_client_rx_bytes = 0, total_server_rx_bytes = 0\<rparr>,
        expected_fields calculate_expected_stats @ [(''UEs'', of_nat (length (ue_ids_of fs)))]) (ue_ids_of fs) = Inr (tot, o1)"
    by (auto simp: dash_main_def Let_def split: if_splits elim!: bind_e_InrE)
  from analyze_totals [OF this assms(2)] show ?thesis by simp
qed

text \<open>With at least two UEs that each sent a request, none of them passes the check that the
  requests match when the server received every request, since the server's count is that of all of them.\<close>

theorem requests_never_match:
  assumes "\<forall>u \<in> set us. 0 < rq_total_requests (tx u)" and "distinct us" and "2 \<le> length us"
    and "rq_total_requests server = sum_list (map (rq_total_requests \<circ> tx) us)" and "u \<in> set us"
  shows "\<not> requests_match (tx u) server"
proof -
  obtain v where v: "v \<in> set us" "v \<noteq> u"
  proof -
    have "card (set us) = length us" by (rule distinct_card [OF assms(2)])
    then have "\<not> set us \<subseteq> {u}" using assms(3) card_mono [of "{u}" "set us"] by auto
    then show ?thesis using that by blast
  qed
  have "sum_list (map (rq_total_requests \<circ> tx) us) = (\<Sum>x \<in> set us. rq_total_requests (tx x))"
    using assms(2) by (simp add: sum_list_distinct_conv_sum_set)
  also have "\<dots> = rq_total_requests (tx u) + (\<Sum>x \<in> set us - {u}. rq_total_requests (tx x))"
    using assms(5) by (simp add: sum.remove)
  finally have s: "rq_total_requests server = rq_total_requests (tx u) + (\<Sum>x \<in> set us - {u}. rq_total_requests (tx x))"
    using assms(4) by simp
  have "0 < (\<Sum>x \<in> set us - {u}. rq_total_requests (tx x))"
    using assms(1) v by (intro sum_pos) auto
  then show ?thesis using s by (simp add: requests_match_def)
qed

theorem requests_never_match_witness:
  "\<not> requests_match (request_start\<lparr>rq_total_requests := 3\<rparr>) (request_start\<lparr>rq_total_requests := 6\<rparr>)"
  using requests_never_match [of "[0 :: nat, 1]" "\<lambda>_. request_start\<lparr>rq_total_requests := 3\<rparr>"
    "request_start\<lparr>rq_total_requests := 6\<rparr>" 0] by simp

definition sample_row :: string where
  "sample_row = ''1.5'' @ [tab] @ ''700'' @ [tab] @ ''2'' @ [tab] @ ''1400'' @ [nl]"

lemma sample_row_parsed: "parse_row sample_row = Inr (Some (3 / 2, 700, 2, 1400))"
  by code_simp

theorem dash_rows_read_witness:
  "parse_dash_client_rx (Some [''h'', ''h'', sample_row]) = Inr \<lparr>rx_packets = [(3 / 2, 700)], rx_total_packets = 2,
     rx_total_bytes = 1400, first_time = Some (3 / 2), last_time = Some (3 / 2)\<rparr>"
proof -
  have "list_all2 (\<lambda>l r. parse_row l = Inr r) (drop 2 [''h'', ''h'', sample_row]) [Some (3 / 2, 700, 2, 1400)]"
    by (simp add: sample_row_parsed)
  from dash_rows_read [OF this] show ?thesis by (simp add: rx_of_def)
qed

theorem zero_requests_crash_witness:
  "video_fields calculate_expected_stats (rx_of [(1, 700, 2, 1400)]) request_start = Inl ZeroDivisionError"
  by (rule zero_requests_crash [of _ 1 1]) (simp_all add: rx_of_def request_start_def)

definition sample_traces :: traces where
  "sample_traces n = (if n = ''DashClientRx_UE_0.txt'' \<or> n = ''DashClientRx_UE_1.txt'' then Some []
     else if n = server_rx_name then Some [''h'', ''h'', sample_row] else None)"

definition totals_of :: "(totals \<times> field list) option py \<Rightarrow> totals option" where
  "totals_of m = (case m of Inr (Some (t, _)) \<Rightarrow> Some t | _ \<Rightarrow> None)"

lemma sample_totals: "totals_of (dash_main sample_traces)
    = Some \<lparr>total_client_tx_bytes = 0, total_client_rx_bytes = 0, total_server_rx_bytes = 2800\<rparr>"
  by code_simp

theorem server_bytes_counted_witness:
  "\<exists>tot out. dash_main sample_traces = Inr (Some (tot, out)) \<and> total_server_rx_bytes tot = 2 * 1400"
proof -
  obtain tot out where m: "dash_main sample_traces = Inr (Some (tot, out))"
    using sample_totals by (auto simp: totals_of_def split: sum.splits option.splits)
  have "parse_dash_server_rx (sample_traces server_rx_name) = Inr (requests_of [(3 / 2, 700, 2, 1400)])"
    using request_steps [of "[sample_row]" "[Some (3 / 2, 700, 2, 1400)]"]
    by (simp add: parse_dash_server_rx_def sample_traces_def server_rx_name_def sample_row_parsed)
  from server_bytes_counted [OF m this]
  have "total_server_rx_bytes tot = int (length (ue_ids_of sample_traces)) * 1400" by (simp add: requests_of_def)
  moreover have "length (ue_ids_of sample_traces) = 2" by code_simp
  ultimately show ?thesis using m by simp
qed

end
