(* ===== verification/PlayStats.thy ===== *)
theory PlayStats
  imports PyNum
begin

text \<open>
  \<open>scripts/plot_bitrate_playback.py\<close>, the playback of a user: the times played and interrupted
  (\<open>calculate_playback_stats\<close>, \<open>compute_playback_metrics\<close>), the state at a time and over time
  bins, and the probability that a user is interrupted. The functions of numpy the script calls,
  \<open>np.arange\<close> and \<open>np.mean\<close>, are parameters.
\<close>

section \<open>Events\<close>

datatype kind = Playing | Interrupted | Resumed

type_synonym play_event = "kind \<times> rat \<times> rat option"

definition evt_time :: "play_event \<Rightarrow> rat" where
  "evt_time e = fst (snd e)"

definition sort_by_time :: "play_event list \<Rightarrow> play_event list" where
  "sort_by_time es = sort_key evt_time es"

section \<open>calculate_playback_stats\<close>

datatype pstate = InPlaying | InInterrupted

type_synonym period = "rat \<times> rat"

record playback =
  playback_time :: rat
  interruption_time :: rat
  playback_periods :: "period list"
  interruption_periods :: "period list"
  state :: "pstate option"
  state_start_time :: "rat option"

definition playback_start :: playback where
  "playback_start = \<lparr>playback_time = 0, interruption_time = 0, playback_periods = [], interruption_periods = [],
     state = None, state_start_time = None\<rparr>"

definition add_interruption :: "rat \<Rightarrow> playback \<Rightarrow> playback" where
  "add_interruption time s =
     (case (state s, state_start_time s) of
        (Some InInterrupted, Some start) \<Rightarrow>
          s\<lparr>interruption_time := interruption_time s + (time - start),
            interruption_periods := interruption_periods s @ [(start, time)]\<rparr>
      | _ \<Rightarrow> s)"

definition add_playback :: "rat \<Rightarrow> playback \<Rightarrow> playback" where
  "add_playback time s =
     (case (state s, state_start_time s) of
        (Some InPlaying, Some start) \<Rightarrow>
          s\<lparr>playback_time := playback_time s + (time - start),
            playback_periods := playback_periods s @ [(start, time)]\<rparr>
      | _ \<Rightarrow> s)"

definition enter :: "pstate \<Rightarrow> rat \<Rightarrow> playback \<Rightarrow> playback" where
  "enter st time s =
     (if state s \<noteq> Some st then s\<lparr>state_start_time := Some time\<rparr> else s)\<lparr>state := Some st\<rparr>"

definition stats_step :: "playback \<Rightarrow> play_event \<Rightarrow> playback" where
  "stats_step s e =
     (let (event_type, time, resolution) = e in
      case event_type of
        Playing \<Rightarrow> enter InPlaying time (add_interruption time s)
      | Interrupted \<Rightarrow> enter InInterrupted time (add_playback time s)
      | Resumed \<Rightarrow> (add_interruption time s)\<lparr>state := Some InPlaying, state_start_time := Some time\<rparr>)"

definition final_time :: "play_event list \<Rightarrow> rat option \<Rightarrow> rat" where
  "final_time sorted_events end_time =
     (let last_event_time = evt_time (last sorted_events) in
      case end_time of None \<Rightarrow> last_event_time | Some e \<Rightarrow> if last_event_time < e then e else last_event_time)"

definition calculate_playback_stats :: "play_event list \<Rightarrow> rat option \<Rightarrow> rat \<times> rat \<times> period list \<times> period list" where
  "calculate_playback_stats playback_events end_time =
     (if playback_events = [] then (0, 0, [], [])
      else
        (let sorted_events = sort_by_time playback_events;
             s = foldl stats_step playback_start sorted_events;
             t = final_time sorted_events end_time;
             s = (if state s = Some InPlaying then add_playback t s else add_interruption t s)
         in (playback_time s, interruption_time s, playback_periods s, interruption_periods s)))"

text \<open>The dictionary without events has a key more, the average bitrate.\<close>

record metrics =
  m_playback_time :: rat
  m_interruption_time :: rat
  m_rebuffer_ratio :: rat
  m_stall_count :: nat
  m_bitrate_switch_count :: nat
  m_avg_playback_bitrate_kbps :: "rat option"

definition compute_playback_metrics :: "play_event list \<Rightarrow> rat option \<Rightarrow> metrics" where
  "compute_playback_metrics playback_events end_time =
     (if playback_events = []
      then \<lparr>m_playback_time = 0, m_interruption_time = (case end_time of Some e \<Rightarrow> e | None \<Rightarrow> 0),
             m_rebuffer_ratio = 0, m_stall_count = 0, m_bitrate_switch_count = 0,
             m_avg_playback_bitrate_kbps = Some 0\<rparr>
      else
        (let (playback_time, interruption_time, _, _) = calculate_playback_stats playback_events end_time;
             stall_count = length (filter (\<lambda>e. fst e = Interrupted) playback_events);
             total_time = playback_time + interruption_time;
             rebuffer_ratio = (if 0 < total_time then interruption_time / total_time else 0)
         in \<lparr>m_playback_time = playback_time, m_interruption_time = interruption_time,
             m_rebuffer_ratio = rebuffer_ratio, m_stall_count = stall_count, m_bitrate_switch_count = 0,
             m_avg_playback_bitrate_kbps = None\<rparr>))"

section \<open>The state of a user\<close>

fun last_before :: "rat \<Rightarrow> play_event option \<Rightarrow> play_event list \<Rightarrow> play_event option" where
  "last_before t last_evt [] = last_evt"
| "last_before t last_evt (e # es) = (if evt_time e \<le> t then last_before t (Some e) es else last_evt)"

definition user_state_at_time :: "play_event list \<Rightarrow> rat \<Rightarrow> pstate" where
  "user_state_at_time events t =
     (if events = [] then InInterrupted
      else (case last_before t None (sort_by_time events) of
          None \<Rightarrow> InInterrupted
        | Some e \<Rightarrow> if fst e = Interrupted then InInterrupted else InPlaying))"

type_synonym arange = "rat \<Rightarrow> rat \<Rightarrow> rat \<Rightarrow> rat list"

text \<open>The inner loop: the events up to the centre of the bin are consumed.\<close>

fun advance :: "rat \<Rightarrow> nat \<Rightarrow> play_event list \<Rightarrow> nat \<times> play_event list" where
  "advance t_center st [] = (st, [])"
| "advance t_center st (e # es) =
     (if evt_time e \<le> t_center
      then advance t_center (if fst e = Interrupted then 0 else 1) es else (st, e # es))"

fun state_loop :: "rat list \<Rightarrow> nat \<Rightarrow> play_event list \<Rightarrow> (rat \<times> nat) list" where
  "state_loop [] st es = []"
| "state_loop (t_center # ts) st es = (let (st, es) = advance t_center st es in (t_center, st) # state_loop ts st es)"

definition centers :: "rat \<Rightarrow> rat list \<Rightarrow> rat list" where
  "centers time_interval bins = map (\<lambda>i. bins ! i + time_interval / 2) [0 ..< length bins - 1]"

definition calculate_playback_state_over_time :: "arange \<Rightarrow> play_event list \<Rightarrow> rat \<Rightarrow> rat \<Rightarrow> (rat \<times> nat) list" where
  "calculate_playback_state_over_time arange playback_events time_interval max_time =
     (let bins = arange 0 (max_time + time_interval) time_interval in
      if playback_events = [] then map (\<lambda>t. (t, 0)) (centers time_interval bins)
      else state_loop (centers time_interval bins) 0 (sort_by_time playback_events))"

section \<open>calculate_interruption_prob\<close>

text \<open>A run is a dictionary from players to their events, or one list of events.\<close>

datatype run = PerUser "(int \<times> play_event list) list" | Single "play_event list"

fun run_max_time :: "rat \<Rightarrow> run \<Rightarrow> rat" where
  "run_max_time max_time (PerUser users) =
     foldl (\<lambda>m (_, events). if events = [] then m else max m (Max (set (map evt_time events)))) max_time users"
| "run_max_time max_time (Single events) = (if events = [] then max_time else max max_time (evt_time (last events)))"

fun run_frac :: "rat \<Rightarrow> run \<Rightarrow> rat option" where
  "run_frac bin_center (PerUser users) =
     (if users = [] then None
      else Some (of_nat (length (filter (\<lambda>(_, evts). evts = [] \<or> user_state_at_time evts bin_center = InInterrupted) users))
        / of_nat (length users)))"
| "run_frac bin_center (Single events) =
     (if events = [] then None else Some (if user_state_at_time events bin_center = InInterrupted then 1 else 0))"

definition calculate_interruption_prob ::
    "arange \<Rightarrow> (rat list \<Rightarrow> rat) \<Rightarrow> run list \<Rightarrow> rat \<Rightarrow> rat list \<times> rat list" where
  "calculate_interruption_prob arange mean all_runs_playback time_bin =
     (if all_runs_playback = [] then ([], [])
      else
        (let max_time = foldl run_max_time 0 all_runs_playback;
             bins = arange 0 (max_time + time_bin) time_bin;
             bin_centers = centers time_bin bins;
             probs = map (\<lambda>c. let run_fracs = List.map_filter (run_frac c) all_runs_playback
                              in if run_fracs = [] then 0 else mean run_fracs) bin_centers
         in (bin_centers, probs)))"

section \<open>Where the time goes\<close>

text \<open>The playing time that is thrown away: that before a \<open>Resumed\<close> event which comes while playing.\<close>

fun lost_time :: "playback \<Rightarrow> play_event list \<Rightarrow> rat" where
  "lost_time s [] = 0"
| "lost_time s (e # es) =
     (if fst e = Resumed \<and> state s = Some InPlaying then evt_time e - the (state_start_time s) else 0)
     + lost_time (stats_step s e) es"

lemmas step_defs = stats_step_def enter_def add_interruption_def add_playback_def evt_time_def

lemma stats_step_total:
  assumes "state s \<noteq> None" and "state_start_time s = Some a"
  shows "state (stats_step s e) \<noteq> None \<and> (\<exists>b. state_start_time (stats_step s e) = Some b
    \<and> playback_time (stats_step s e) + interruption_time (stats_step s e) + lost_time s [e] + a
      = playback_time s + interruption_time s + b)"
proof -
  obtain k t r where e: "e = (k, t, r)" by (cases e)
  obtain st where st: "state s = Some st" using assms(1) by auto
  show ?thesis using assms(2) st by (cases k; cases st) (simp_all add: e step_defs)
qed

lemma stats_steps_total:
  assumes "state s \<noteq> None" and "state_start_time s = Some a"
  shows "state (foldl stats_step s es) \<noteq> None \<and> (\<exists>b. state_start_time (foldl stats_step s es) = Some b
    \<and> playback_time (foldl stats_step s es) + interruption_time (foldl stats_step s es) + lost_time s es + a
      = playback_time s + interruption_time s + b)"
  using assms
proof (induction es arbitrary: s a)
  case Nil
  then show ?case by simp
next
  case (Cons e es)
  from stats_step_total [OF Cons.prems, of e] obtain c where
    c: "state (stats_step s e) \<noteq> None" "state_start_time (stats_step s e) = Some c"
      "playback_time (stats_step s e) + interruption_time (stats_step s e) + lost_time s [e] + a
        = playback_time s + interruption_time s + c" by blast
  from Cons.IH [OF c(1,2)] obtain b where
    b: "state (foldl stats_step (stats_step s e) es) \<noteq> None" "state_start_time (foldl stats_step (stats_step s e) es) = Some b"
      "playback_time (foldl stats_step (stats_step s e) es) + interruption_time (foldl stats_step (stats_step s e) es)
        + lost_time (stats_step s e) es + c = playback_time (stats_step s e) + interruption_time (stats_step s e) + b" by blast
  show ?case using b c(3) by (intro conjI exI [of _ b]) simp_all
qed

text \<open>With sorted events no period is negative.\<close>

definition times_ok :: "rat \<Rightarrow> playback \<Rightarrow> bool" where
  "times_ok t s \<longleftrightarrow> 0 \<le> playback_time s \<and> 0 \<le> interruption_time s \<and> (\<forall>a. state_start_time s = Some a \<longrightarrow> a \<le> t)"

lemma stats_step_times: "times_ok t s \<Longrightarrow> t \<le> evt_time e \<Longrightarrow> times_ok (evt_time e) (stats_step s e)"
  by (cases e; cases "fst e") (auto simp: times_ok_def step_defs split: option.splits pstate.splits)

lemma stats_steps_times:
  "times_ok t s \<Longrightarrow> sorted (map evt_time (e # es)) \<Longrightarrow> t \<le> evt_time e \<Longrightarrow>
    times_ok (evt_time (last (e # es))) (foldl stats_step s (e # es))"
proof (induction es arbitrary: s t e)
  case Nil
  then show ?case by (simp add: stats_step_times)
next
  case (Cons e' es)
  have "times_ok (evt_time e) (stats_step s e)" using Cons.prems by (simp add: stats_step_times)
  from Cons.IH [OF this] Cons.prems show ?case by simp
qed

lemma add_final:
  "times_ok t s \<Longrightarrow> t \<le> f \<Longrightarrow> state s \<noteq> None \<Longrightarrow> state_start_time s = Some b \<Longrightarrow>
   (let s' = (if state s = Some InPlaying then add_playback f s else add_interruption f s) in
     playback_time s' + interruption_time s' = playback_time s + interruption_time s + (f - b)
     \<and> 0 \<le> playback_time s' \<and> 0 \<le> interruption_time s')"
  by (auto simp: Let_def times_ok_def add_playback_def add_interruption_def split: pstate.splits)

lemma final_time_last: "evt_time (last es) \<le> final_time es end_time"
  by (simp add: final_time_def Let_def split: option.splits)

lemma playback_accounted:
  assumes "playback_events \<noteq> []" and "calculate_playback_stats playback_events end_time = (p, i, pp, ip)"
  shows "p + i + lost_time playback_start (sort_by_time playback_events)
      = final_time (sort_by_time playback_events) end_time - evt_time (hd (sort_by_time playback_events))
    \<and> 0 \<le> p \<and> 0 \<le> i"
proof -
  let ?es = "sort_by_time playback_events"
  obtain e es where es: "?es = e # es" using assms(1)
    by (metis sort_by_time_def length_0_conv length_sort neq_Nil_conv)
  have sorted: "sorted (map evt_time (e # es))"
    using sorted_sort_key [of evt_time playback_events] unfolding es [symmetric] sort_by_time_def .
  let ?s1 = "stats_step playback_start e"
  have s1: "state ?s1 \<noteq> None" "state_start_time ?s1 = Some (evt_time e)" "playback_time ?s1 = 0" "interruption_time ?s1 = 0"
    "lost_time playback_start [e] = 0"
    by (cases e; cases "fst e"; simp add: step_defs playback_start_def)+
  let ?s = "foldl stats_step ?s1 es"
  obtain b where b: "state ?s \<noteq> None" "state_start_time ?s = Some b"
    "playback_time ?s + interruption_time ?s + lost_time ?s1 es + evt_time e = b"
    using stats_steps_total [OF s1(1,2), of es] s1(3,4) by auto
  have "times_ok (evt_time e) playback_start" by (simp add: times_ok_def playback_start_def)
  from stats_steps_times [OF this sorted] have t: "times_ok (evt_time (last (e # es))) ?s" by simp
  let ?f = "final_time (e # es) end_time"
  let ?s' = "if state ?s = Some InPlaying then add_playback ?f ?s else add_interruption ?f ?s"
  have "playback_time ?s' + interruption_time ?s' = playback_time ?s + interruption_time ?s + (?f - b)
     \<and> 0 \<le> playback_time ?s' \<and> 0 \<le> interruption_time ?s'"
    using add_final [OF t final_time_last b(1,2)] by (simp only: Let_def)
  moreover have "p = playback_time ?s'" "i = interruption_time ?s'"
  proof -
    have fs: "foldl stats_step playback_start (e # es) = ?s" by simp
    have "calculate_playback_stats playback_events end_time
        = (playback_time ?s', interruption_time ?s', playback_periods ?s', interruption_periods ?s')"
      unfolding calculate_playback_stats_def es Let_def fs using assms(1) by (simp only: if_False)
    then show "p = playback_time ?s'" "i = interruption_time ?s'" using assms(2) by (simp_all only: prod.inject)
  qed
  ultimately show ?thesis using b(3) s1(5) by (simp add: es)
qed

text \<open>C27: the times played and interrupted are never negative, and together with the playing time
  that is lost before a \<open>Resumed\<close> event which comes while playing, they add up to the time from the first event to
  the end; in particular nothing is lost when each \<open>Resumed\<close> comes after an interruption.\<close>

theorem playback_time_accounted:
  assumes "playback_events \<noteq> []" and "calculate_playback_stats playback_events end_time = (p, i, pp, ip)"
  shows "p + i + lost_time playback_start (sort_by_time playback_events)
      = final_time (sort_by_time playback_events) end_time - evt_time (hd (sort_by_time playback_events))
    \<and> 0 \<le> p \<and> 0 \<le> i"
  by (rule playback_accounted [OF assms])

definition sample_playback :: "play_event list" where
  "sample_playback = [(Playing, 1, Some 720), (Interrupted, 4, None), (Resumed, 6, None), (Playing, 7, Some 720)]"

lemma sample_playback_stats:
  "calculate_playback_stats sample_playback (Some 10) = (7, 2, [(1, 4), (6, 10)], [(4, 6)])"
  by (simp add: calculate_playback_stats_def sample_playback_def sort_by_time_def final_time_def playback_start_def step_defs Let_def)

theorem playback_time_accounted_witness:
  "7 + 2 + lost_time playback_start (sort_by_time sample_playback) = 10 - 1"
proof -
  have "sample_playback \<noteq> []" by (simp add: sample_playback_def)
  from playback_time_accounted [OF this sample_playback_stats] show ?thesis
    by (simp add: sample_playback_def sort_by_time_def final_time_def evt_time_def)
qed

text \<open>A \<open>Resumed\<close> event while playing starts the playing time anew: what was played before it is
  counted neither as played nor as interrupted.\<close>

theorem resumed_loses_time:
  assumes "a \<le> b" and "b \<le> e"
  shows "calculate_playback_stats [(Playing, a, r), (Resumed, b, r')] (Some e) = (e - b, 0, [(b, e)], [])"
  using assms by (auto simp: calculate_playback_stats_def sort_by_time_def final_time_def playback_start_def step_defs Let_def)

theorem resumed_loses_time_witness:
  "calculate_playback_stats [(Playing, 1, None), (Resumed, 5, None)] (Some 6) = (1, 0, [(5, 6)], [])"
  using resumed_loses_time [of 1 5 6 None None] by simp

text \<open>The rebuffer ratio lies between 0 and 1, and the two times are not negative when the end time
  is not.\<close>

theorem metrics_bounds:
  assumes "\<forall>e \<in> set_option end_time. 0 \<le> e"
  shows "0 \<le> m_rebuffer_ratio (compute_playback_metrics es end_time) \<and> m_rebuffer_ratio (compute_playback_metrics es end_time) \<le> 1
    \<and> 0 \<le> m_playback_time (compute_playback_metrics es end_time)
    \<and> 0 \<le> m_interruption_time (compute_playback_metrics es end_time)"
proof (cases "es = []")
  case True
  then show ?thesis using assms by (auto simp: compute_playback_metrics_def split: option.splits)
next
  case False
  obtain p i pp ip where s: "calculate_playback_stats es end_time = (p, i, pp, ip)"
    by (cases "calculate_playback_stats es end_time") auto
  have "0 \<le> p" "0 \<le> i" using playback_accounted [OF False s] by simp_all
  then show ?thesis using False by (auto simp: compute_playback_metrics_def s Let_def divide_le_eq)
qed

theorem metrics_bounds_witness: "m_rebuffer_ratio (compute_playback_metrics sample_playback (Some 10)) \<le> 1"
  using metrics_bounds [of "Some 10" sample_playback] by simp

section \<open>The two reconstructions of the state\<close>

text \<open>What the script relies on of numpy, and a function that does it.\<close>

definition np_arange :: arange where
  "np_arange a b d = map (\<lambda>i. a + of_nat i * d) [0 ..< nat \<lceil>(b - a) / d\<rceil>]"

definition numpy_arange :: "arange \<Rightarrow> bool" where
  "numpy_arange ar \<longleftrightarrow> (\<forall>a b d. 0 < d \<longrightarrow> ar a b d = map (\<lambda>i. a + of_nat i * d) [0 ..< nat \<lceil>(b - a) / d\<rceil>])"

definition numpy_mean :: "(rat list \<Rightarrow> rat) \<Rightarrow> bool" where
  "numpy_mean mean \<longleftrightarrow> (\<forall>xs. xs \<noteq> [] \<longrightarrow> mean xs = sum_list xs / of_nat (length xs))"

lemma np_arange_numpy: "numpy_arange np_arange"
  by (simp add: numpy_arange_def np_arange_def)

definition state_bit :: "play_event option \<Rightarrow> nat" where
  "state_bit e = (case e of None \<Rightarrow> 0 | Some e \<Rightarrow> if fst e = Interrupted then 0 else 1)"

lemma advance_last_before:
  "advance t (state_bit l) es = (st, rest) \<Longrightarrow> st = state_bit (last_before t l es)
    \<and> (\<forall>t' \<ge> t. last_before t' (last_before t l es) rest = last_before t' l es)"
proof (induction es arbitrary: l)
  case Nil
  then show ?case by simp
next
  case (Cons e es)
  show ?case
  proof (cases "evt_time e \<le> t")
    case True
    have "state_bit (Some e) = (if fst e = Interrupted then 0 else 1)" by (simp add: state_bit_def)
    with Cons.IH [of "Some e"] Cons.prems True show ?thesis by auto
  next
    case False
    then show ?thesis using Cons.prems by auto
  qed
qed

lemma state_loop_result:
  "sorted ts \<Longrightarrow> state_loop ts (state_bit l) es = map (\<lambda>t. (t, state_bit (last_before t l es))) ts"
proof (induction ts arbitrary: l es)
  case Nil
  then show ?case by simp
next
  case (Cons t ts)
  obtain st rest where a: "advance t (state_bit l) es = (st, rest)" by (cases "advance t (state_bit l) es")
  note r = advance_last_before [OF a]
  have "state_loop ts (state_bit (last_before t l es)) rest = map (\<lambda>t'. (t', state_bit (last_before t' (last_before t l es) rest))) ts"
    using Cons by simp
  also have "\<dots> = map (\<lambda>t'. (t', state_bit (last_before t' l es))) ts"
    using r Cons.prems by (intro map_cong) auto
  finally show ?case using a r by simp
qed

lemma centers_arange:
  assumes "numpy_arange ar" and "0 < d"
  shows "centers d (ar a b d) = map (\<lambda>i. a + of_nat i * d + d / 2) [0 ..< nat \<lceil>(b - a) / d\<rceil> - 1]"
proof -
  let ?n = "nat \<lceil>(b - a) / d\<rceil>"
  have e: "ar a b d = map (\<lambda>i. a + of_nat i * d) [0 ..< ?n]" using assms by (simp add: numpy_arange_def)
  have "map f [0 ..< n] ! i = f i" if "i < n - 1" for f :: "nat \<Rightarrow> rat" and i n :: nat
    using that by simp
  then have "map (\<lambda>i. map (\<lambda>i. a + of_nat i * d) [0 ..< ?n] ! i + d / 2) [0 ..< ?n - 1]
      = map (\<lambda>i. a + of_nat i * d + d / 2) [0 ..< ?n - 1]"
    by (intro map_cong refl) (simp only: set_upt atLeastLessThan_iff)
  then show ?thesis unfolding centers_def e by (simp only: length_map length_upt diff_zero)
qed

text \<open>\<open>calculate_playback_state_over_time\<close>, which walks through the events once, gives at every bin the
  state \<open>_user_state_at_time\<close> finds by searching from the start: 1 when the user plays at the centre of the bin and 0
  otherwise.\<close>

theorem state_series:
  assumes "numpy_arange ar" and "0 < d"
  shows "calculate_playback_state_over_time ar es d max_time =
    map (\<lambda>t. (t, if user_state_at_time es t = InPlaying then 1 else 0)) (centers d (ar 0 (max_time + d) d))"
proof (cases "es = []")
  case True
  then show ?thesis by (simp add: calculate_playback_state_over_time_def user_state_at_time_def)
next
  case False
  have "sorted (centers d (ar 0 (max_time + d) d))"
    unfolding centers_arange [OF assms] using assms(2)
    by (auto simp: sorted_iff_nth_mono mult_right_mono)
  from state_loop_result [OF this, of None "sort_by_time es"]
  have "calculate_playback_state_over_time ar es d max_time =
      map (\<lambda>t. (t, state_bit (last_before t None (sort_by_time es)))) (centers d (ar 0 (max_time + d) d))"
    using False by (simp add: calculate_playback_state_over_time_def state_bit_def)
  moreover have "state_bit (last_before t None (sort_by_time es)) = (if user_state_at_time es t = InPlaying then 1 else 0)" for t
    using False by (simp add: user_state_at_time_def state_bit_def split: option.splits)
  ultimately show ?thesis by simp
qed

theorem state_series_witness:
  "calculate_playback_state_over_time np_arange sample_playback 2 4 =
    map (\<lambda>t. (t, if user_state_at_time sample_playback t = InPlaying then 1 else 0)) (centers 2 (np_arange 0 (4 + 2) 2))"
  by (rule state_series [OF np_arange_numpy]) simp

text \<open>\<open>calculate_interruption_prob\<close> returns one probability, between 0 and 1, for each bin
  centre it returns.\<close>

theorem interruption_prob_bounds:
  assumes "numpy_mean mean" and "calculate_interruption_prob ar mean runs time_bin = (cs, probs)"
  shows "length cs = length probs \<and> (\<forall>p \<in> set probs. 0 \<le> p \<and> p \<le> 1)"
proof (cases "runs = []")
  case True
  then show ?thesis using assms(2) by (simp add: calculate_interruption_prob_def)
next
  case False
  have frac: "0 \<le> x \<and> x \<le> 1" if "run_frac c r = Some x" for c r x
    using that by (cases r) (auto split: if_splits simp: divide_le_eq)
  have m: "0 \<le> mean xs \<and> mean xs \<le> 1" if xs: "xs \<noteq> []" "\<forall>x \<in> set xs. 0 \<le> x \<and> x \<le> 1" for xs :: "rat list"
  proof -
    have "0 \<le> sum_list xs" using xs(2) by (intro sum_list_nonneg) simp
    moreover have "sum_list xs \<le> of_nat (length xs)" using xs(2) by (induction xs) auto
    moreover have "mean xs = sum_list xs / of_nat (length xs)" using assms(1) xs(1) by (simp add: numpy_mean_def)
    ultimately show ?thesis using xs(1) by (simp add: divide_le_eq)
  qed
  have fr: "\<forall>x \<in> set (List.map_filter (run_frac c) runs). 0 \<le> x \<and> x \<le> 1" for c
    using frac by (auto simp: List.map_filter_def)
  have "probs = map (\<lambda>c. let fs = List.map_filter (run_frac c) runs in if fs = [] then 0 else mean fs) cs"
    using assms(2) False by (auto simp: calculate_interruption_prob_def Let_def)
  then show ?thesis using m fr by (auto simp: Let_def)
qed

definition np_mean :: "rat list \<Rightarrow> rat" where
  "np_mean xs = sum_list xs / of_nat (length xs)"

theorem interruption_prob_bounds_witness:
  "\<forall>p \<in> set (snd (calculate_interruption_prob np_arange np_mean [PerUser [(0, sample_playback), (1, [])]] 2)). 0 \<le> p \<and> p \<le> 1"
proof -
  have "numpy_mean np_mean" by (simp add: numpy_mean_def np_mean_def)
  from interruption_prob_bounds [OF this, of np_arange "[PerUser [(0, sample_playback), (1, [])]]" 2
      "fst (calculate_interruption_prob np_arange np_mean [PerUser [(0, sample_playback), (1, [])]] 2)"
      "snd (calculate_interruption_prob np_arange np_mean [PerUser [(0, sample_playback), (1, [])]] 2)"]
  show ?thesis by simp
qed

end
