(* ===== verification/PlaySeries.thy ===== *)
theory PlaySeries
  imports PlayStats "HOL-Library.AList"
begin

text \<open>
  \<open>scripts/plot_bitrate_playback.py\<close>, the log parsers and the time series: the bitrates of a log,
  the packet, RTT and congestion window traces, and the rates and values over time bins. A file is
  the list of its lines, \<open>None\<close> when it does not exist; a dictionary is an association list in the
  order of insertion. \<open>np.arange\<close> is a parameter.
\<close>

section \<open>The bitrate log\<close>

type_synonym sample = "rat \<times> rat"

definition number :: "string \<Rightarrow> (string \<times> string) option" where
  "number s =
     (let a = takeWhile is_digit s; r = dropWhile is_digit s in
      case Option.bind (lit ''.'' r) (run1 is_digit) of
        Some (b, rest) \<Rightarrow> Some (a @ ''.'' @ b, rest)
      | None \<Rightarrow> run1 is_digit s)"

definition lit_nocase :: "string \<Rightarrow> string \<Rightarrow> string option" where
  "lit_nocase p s = (if prefix (lower p) (lower s) then Some (drop (length p) s) else None)"

definition match_bitrate :: "string \<Rightarrow> ((string \<times> string \<times> string) \<times> string) option" where
  "match_bitrate s = do {
     (time, s) \<leftarrow> number s; (_, s) \<leftarrow> run1 re_space s;
     s \<leftarrow> (case lit_nocase ''Node'' s of Some r \<Rightarrow> Some r | None \<Rightarrow> lit_nocase ''ue-id'' s);
     s \<leftarrow> lit '':'' s; (_, s) \<leftarrow> run1 re_space s; (node, s) \<leftarrow> run1 is_digit s;
     (_, s) \<leftarrow> run1 re_space s; s \<leftarrow> lit_nocase ''newBitRate'' s; s \<leftarrow> lit '':'' s;
     (_, s) \<leftarrow> run1 re_space s; (rate, s) \<leftarrow> run1 is_digit s;
     Some ((time, node, rate), s) }"

type_synonym by_node = "(int \<times> sample list) list"

definition append_sample :: "int \<Rightarrow> sample \<Rightarrow> by_node \<Rightarrow> by_node" where
  "append_sample node x d = AList.update node ((case map_of d node of None \<Rightarrow> [] | Some xs \<Rightarrow> xs) @ [x]) d"

definition bitrate_line :: "rat \<Rightarrow> int list option \<Rightarrow> by_node \<Rightarrow> string \<Rightarrow> by_node py" where
  "bitrate_line scale node_ids d line =
     (case search_first match_bitrate line of
        None \<Rightarrow> Inr d
      | Some ((time, node, rate), _) \<Rightarrow>
          bind_e (float_of time) (\<lambda>time. bind_e (int_of node) (\<lambda>node_id. bind_e (float_of rate) (\<lambda>bitrate.
            Inr (if node_ids = None \<or> node_id \<in> set (the node_ids)
              then append_sample node_id (time, bitrate / scale) d else d)))))"

definition sort_samples :: "sample list \<Rightarrow> sample list" where
  "sort_samples xs = sort_key fst xs"

text \<open>The last value at or before a time, of a sorted list.\<close>

fun closest_before :: "rat \<Rightarrow> rat option \<Rightarrow> sample list \<Rightarrow> rat option" where
  "closest_before time best [] = best"
| "closest_before time best ((t, b) # xs) = (if t \<le> time then closest_before time (Some b) xs else best)"

definition average :: "rat list \<Rightarrow> rat" where
  "average xs = sum_list xs / of_nat (length xs)"

definition aggregate :: "by_node \<Rightarrow> sample list" where
  "aggregate d =
     (let d = map (\<lambda>(n, xs). (n, sort_samples xs)) d;
          sorted_times = sorted_list_of_set (\<Union> (set (map (\<lambda>(n, xs). set (map fst xs)) d)))
      in List.map_filter (\<lambda>time.
           let node_bitrates = List.map_filter (\<lambda>(n, xs). closest_before time None xs) d
           in if node_bitrates = [] then None else Some (time, average node_bitrates)) sorted_times)"

definition parse_bitrate_log :: "string list option \<Rightarrow> int list option \<Rightarrow> sample list py" where
  "parse_bitrate_log file node_ids =
     (case file of
        None \<Rightarrow> Inr []
      | Some lines \<Rightarrow>
          bind_e (fold_e (bitrate_line 1 node_ids) [] lines) (\<lambda>bitrate_by_node.
            Inr (if bitrate_by_node = [] then []
              else if node_ids \<noteq> None \<and> node_ids \<noteq> Some [] \<and> 1 < length bitrate_by_node then aggregate bitrate_by_node
              else if 1 < length bitrate_by_node then aggregate bitrate_by_node
              else sort_samples (snd (hd bitrate_by_node)))))"

definition parse_bitrate_log_per_user :: "string list option \<Rightarrow> int list option \<Rightarrow> by_node py" where
  "parse_bitrate_log_per_user file node_ids =
     (case file of
        None \<Rightarrow> Inr []
      | Some lines \<Rightarrow>
          bind_e (fold_e (bitrate_line 1000 node_ids) [] lines) (\<lambda>d.
            Inr (map (\<lambda>(n, xs). (n, sort_samples xs)) d)))"

section \<open>The trace files\<close>

definition trace_parts :: "string \<Rightarrow> string list" where
  "trace_parts line = split_on tab (re_strip line)"

text \<open>A line whose numbers do not parse is passed over.\<close>

definition keep_parsed :: "'a py \<Rightarrow> 'a list" where
  "keep_parsed m = (case m of Inl _ \<Rightarrow> [] | Inr x \<Rightarrow> [x])"

definition rx_line :: "string \<Rightarrow> (rat \<times> int) list" where
  "rx_line line =
     (case trace_parts line of
        p0 # p1 # _ \<Rightarrow> keep_parsed (bind_e (float_of p0) (\<lambda>t. bind_e (int_of p1) (\<lambda>n. Inr (t, n))))
      | _ \<Rightarrow> [])"

definition third_column :: "string \<Rightarrow> sample list" where
  "third_column line =
     (case trace_parts line of
        p0 # p1 # p2 # _ \<Rightarrow> keep_parsed (bind_e (float_of p0) (\<lambda>t. bind_e (float_of p2) (\<lambda>v. Inr (t, v))))
      | _ \<Rightarrow> [])"

definition parse_client_rx_data :: "string list option \<Rightarrow> (rat \<times> int) list" where
  "parse_client_rx_data file = (case file of None \<Rightarrow> [] | Some lines \<Rightarrow> concat (map rx_line lines))"

definition parse_rtt_data :: "string list option \<Rightarrow> sample list" where
  "parse_rtt_data file = (case file of None \<Rightarrow> [] | Some lines \<Rightarrow> concat (map third_column lines))"

definition parse_cwnd_data :: "string list option \<Rightarrow> sample list" where
  "parse_cwnd_data file = (case file of None \<Rightarrow> [] | Some lines \<Rightarrow> concat (map third_column lines))"

section \<open>Rates and values over time\<close>

definition compute_mean_throughput_kbps :: "(rat \<times> int) list \<Rightarrow> rat" where
  "compute_mean_throughput_kbps rx_data =
     (if length rx_data < 2 then 0
      else
        (let total_bytes = sum_list (map snd rx_data);
             duration = fst (last rx_data) - fst (hd rx_data)
         in if duration \<le> 0 then 0 else of_int (total_bytes * 8) / (duration * 1000)))"

text \<open>The inner loop of \<open>calculate_data_rate_kbps\<close>: the packets before the end of the bin are consumed.\<close>

fun take_bin :: "rat \<Rightarrow> rat \<Rightarrow> int \<Rightarrow> (rat \<times> int) list \<Rightarrow> int \<times> (rat \<times> int) list" where
  "take_bin start_time end_time acc [] = (acc, [])"
| "take_bin start_time end_time acc ((t, n) # xs) =
     (if t < end_time then take_bin start_time end_time (if start_time \<le> t then acc + n else acc) xs
      else (acc, (t, n) # xs))"

fun rate_loop :: "rat \<Rightarrow> rat list \<Rightarrow> (rat \<times> int) list \<Rightarrow> sample list" where
  "rate_loop dt (b0 # b1 # bins) xs =
     (let (total_bytes, xs) = take_bin b0 b1 0 xs in
      (if 0 < total_bytes then [(b0 + dt / 2, of_int (total_bytes * 8) / (dt * 1000))] else [])
      @ rate_loop dt (b1 # bins) xs)"
| "rate_loop dt bins xs = []"

definition calculate_data_rate_kbps :: "arange \<Rightarrow> (rat \<times> int) list \<Rightarrow> rat \<Rightarrow> sample list" where
  "calculate_data_rate_kbps arange rx_data time_interval =
     (if rx_data = [] then []
      else
        (let rx_data = sort_key fst rx_data; min_time = fst (hd rx_data); max_time = fst (last rx_data)
         in rate_loop time_interval (arange min_time (max_time + time_interval) time_interval) rx_data))"

fun take_last :: "rat \<Rightarrow> rat \<Rightarrow> rat option \<Rightarrow> sample list \<Rightarrow> rat option \<times> sample list" where
  "take_last start_time end_time last_val [] = (last_val, [])"
| "take_last start_time end_time last_val ((t, v) # xs) =
     (if t < end_time then take_last start_time end_time (if start_time \<le> t then Some v else last_val) xs
      else (last_val, (t, v) # xs))"

fun value_loop :: "rat \<Rightarrow> rat list \<Rightarrow> rat option \<Rightarrow> sample list \<Rightarrow> sample list" where
  "value_loop dt (b0 # b1 # bins) last_val xs =
     (let (last_val, xs) = take_last b0 b1 last_val xs in
      (case last_val of None \<Rightarrow> [] | Some v \<Rightarrow> [(b0 + dt / 2, v)]) @ value_loop dt (b1 # bins) last_val xs)"
| "value_loop dt bins last_val xs = []"

definition calculate_value_over_time :: "arange \<Rightarrow> sample list \<Rightarrow> rat \<Rightarrow> sample list" where
  "calculate_value_over_time arange data time_interval =
     (if data = [] then []
      else
        (let data = sort_key fst data; min_time = fst (hd data); max_time = fst (last data)
         in value_loop time_interval (arange min_time (max_time + time_interval) time_interval) None data))"

section \<open>How much of the trace the rates count\<close>

definition bytes_between :: "rat \<Rightarrow> rat \<Rightarrow> (rat \<times> int) list \<Rightarrow> int" where
  "bytes_between a b xs = sum_list (map snd (filter (\<lambda>(t, n). a \<le> t \<and> t < b) xs))"

lemma take_bin_result:
  "sorted (map fst xs) \<Longrightarrow>
    take_bin a b n xs = (n + bytes_between a b xs, dropWhile (\<lambda>(t, n). t < b) xs)"
proof (induction xs arbitrary: n)
  case Nil
  then show ?case by (simp add: bytes_between_def)
next
  case (Cons x xs)
  obtain t k where x: "x = (t, k)" by (cases x)
  show ?case
  proof (cases "t < b")
    case True
    then show ?thesis using Cons by (simp add: x bytes_between_def)
  next
    case False
    then have "\<forall>(t', k') \<in> set xs. \<not> t' < b" using Cons.prems x by force
    then have "filter (\<lambda>(t, n). a \<le> t \<and> t < b) xs = []" by (auto simp: filter_empty_conv)
    then show ?thesis using False by (simp add: x bytes_between_def)
  qed
qed

lemma bytes_between_split:
  "a \<le> b \<Longrightarrow> b \<le> c \<Longrightarrow> bytes_between a c xs = bytes_between a b xs + bytes_between b c xs"
  by (induction xs) (auto simp: bytes_between_def)

lemma bytes_between_dropWhile:
  "sorted (map fst xs) \<Longrightarrow> b \<le> a \<Longrightarrow> bytes_between a c (dropWhile (\<lambda>(t, n). t < b) xs) = bytes_between a c xs"
  by (induction xs) (auto simp: bytes_between_def)

lemma bytes_between_empty: "bytes_between a a xs = 0"
  by (induction xs) (auto simp: bytes_between_def)

lemma bytes_nonneg: "\<forall>(t, n) \<in> set xs. 0 \<le> n \<Longrightarrow> 0 \<le> bytes_between a b xs"
  by (induction xs) (auto simp: bytes_between_def)

lemma rate_loop_total:
  assumes "sorted bins" and "sorted (map fst xs)" and "\<forall>(t, n) \<in> set xs. 0 \<le> n" and "0 < dt" and "bins \<noteq> []"
  shows "sum_list (map snd (rate_loop dt bins xs)) * (dt * 1000)
    = of_int (bytes_between (hd bins) (last bins) xs * 8)"
  using assms(1,2,3,5,4)
proof (induction dt bins xs rule: rate_loop.induct)
  case (1 dt b0 b1 bins xs)
  let ?xs = "dropWhile (\<lambda>(t, n). t < b1) xs"
  have x: "sorted (map fst ?xs)" "\<forall>(t, n) \<in> set ?xs. 0 \<le> n"
  proof -
    have "?xs = drop (length (takeWhile (\<lambda>(t, n). t < b1) xs)) xs" by (simp add: dropWhile_eq_drop)
    then show "sorted (map fst ?xs)" using 1(3) by (metis drop_map sorted_wrt_drop)
    show "\<forall>(t, n) \<in> set ?xs. 0 \<le> n" using 1(4) set_dropWhileD by fastforce
  qed
  have le: "b0 \<le> b1" "b1 \<le> last (b1 # bins)" using 1(2) by (auto simp: last_in_set)
  have ih: "sum_list (map snd (rate_loop dt (b1 # bins) ?xs)) * (dt * 1000) = of_int (bytes_between b1 (last (b1 # bins)) xs * 8)"
    using 1(1) [OF take_bin_result [OF 1(3), of b0 b1 0, symmetric] refl] 1(2,6) x bytes_between_dropWhile [OF 1(3), of b1 b1]
    by simp
  have n: "0 \<le> bytes_between b0 b1 xs" using bytes_nonneg [OF 1(4)] .
  show ?case
    using ih n 1(6) bytes_between_split [OF le, of xs]
    by (cases "bytes_between b0 b1 xs = 0") (auto simp: take_bin_result [OF 1(3)] distrib_right)
qed (simp_all add: bytes_between_empty)

lemma bytes_between_sort: "bytes_between a b (sort_key f xs) = bytes_between a b xs"
proof -
  let ?P = "\<lambda>(t :: rat, n :: int). a \<le> t \<and> t < b"
  have "mset (map snd (filter ?P (sort_key f xs))) = mset (map snd (filter ?P xs))"
    by (simp add: mset_filter)
  then have "sum_mset (mset (map snd (filter ?P (sort_key f xs)))) = sum_mset (mset (map snd (filter ?P xs)))"
    by (rule arg_cong)
  then show ?thesis unfolding bytes_between_def sum_mset_sum_list .
qed

definition first_time_of :: "(rat \<times> 'a) list \<Rightarrow> rat" where
  "first_time_of xs = Min (fst ` set xs)"

definition last_time_of :: "(rat \<times> 'a) list \<Rightarrow> rat" where
  "last_time_of xs = Max (fst ` set xs)"

lemma sort_ends:
  assumes "xs \<noteq> []"
  shows "fst (hd (sort_key fst xs)) = first_time_of xs" and "fst (last (sort_key fst xs)) = last_time_of xs"
proof -
  let ?s = "sort_key fst xs"
  have ne: "?s \<noteq> []" using assms by (metis length_0_conv length_sort)
  have s: "sorted (map fst ?s)" by simp
  have set: "set ?s = set xs" by simp
  have "fst (hd ?s) \<le> t" if "t \<in> fst ` set ?s" for t
    using that s ne by (cases ?s) auto
  then show "fst (hd ?s) = first_time_of xs"
    unfolding first_time_of_def set [symmetric] using hd_in_set [OF ne] by (intro Min_eqI [symmetric]) auto
  have "t \<le> fst (last ?s)" if "t \<in> fst ` set ?s" for t
    using that s ne by (cases ?s rule: rev_cases) (auto simp: sorted_append)
  then show "fst (last ?s) = last_time_of xs"
    unfolding last_time_of_def set [symmetric] using last_in_set [OF ne] by (intro Max_eqI [symmetric]) auto
qed

lemma bins_nonneg: "0 < (d :: rat) \<Longrightarrow> lo \<le> hi \<Longrightarrow> 0 \<le> \<lceil>(hi - lo) / d\<rceil>"
proof -
  assume "0 < d" "lo \<le> hi"
  then have "0 \<le> (hi - lo) / d" by simp
  then show ?thesis by linarith
qed

lemma bins_arange:
  assumes "numpy_arange ar" and "0 < d" and "lo \<le> hi"
  shows "ar lo (hi + d) d = map (\<lambda>i. lo + of_nat i * d) [0 ..< Suc (nat \<lceil>(hi - lo) / d\<rceil>)]"
proof -
  have "(hi + d - lo) / d = (hi - lo) / d + 1" using assms(2) by (simp add: add_divide_distrib diff_divide_distrib)
  then have "\<lceil>(hi + d - lo) / d\<rceil> = \<lceil>(hi - lo) / d\<rceil> + 1" by simp
  moreover note bins_nonneg [OF assms(2,3)]
  ultimately show ?thesis using assms(1,2) by (simp add: numpy_arange_def Suc_nat_eq_nat_zadd1 add.commute)
qed

lemma sorted_bins: "0 < (d :: rat) \<Longrightarrow> sorted (map (\<lambda>i. lo + of_nat i * d) [0 ..< n])"
  by (auto simp: sorted_iff_nth_mono mult_right_mono)

lemma first_le_last: "xs \<noteq> [] \<Longrightarrow> first_time_of xs \<le> last_time_of xs"
  by (auto simp: first_time_of_def last_time_of_def intro: Min_le Max_ge order_trans [OF Min_le Max_ge])

text \<open>C33: the rates of all bins together stand for the bytes of the packets before the end of the last bin,
  which is the first multiple of the interval, counted from the first packet, at or after the last packet. So
  the packets at the very end are left out exactly when the trace lasts a whole number of intervals; of a trace
  with all packets at one time nothing is counted.\<close>

theorem rate_total:
  assumes "numpy_arange ar" and "0 < d" and "rx \<noteq> []" and "\<forall>(t, n) \<in> set rx. 0 \<le> n"
  shows "sum_list (map snd (calculate_data_rate_kbps ar rx d)) * (d * 1000)
    = of_int (8 * sum_list (map snd (filter (\<lambda>(t, n). t < first_time_of rx
        + of_int \<lceil>(last_time_of rx - first_time_of rx) / d\<rceil> * d) rx)))"
proof -
  let ?lo = "first_time_of rx" and ?hi = "last_time_of rx" and ?s = "sort_key fst rx"
  let ?k = "\<lceil>(?hi - ?lo) / d\<rceil>"
  let ?bins = "map (\<lambda>i. ?lo + of_nat i * d) [0 ..< Suc (nat ?k)]"
  note le = first_le_last [OF assms(3)]
  have k: "0 \<le> ?k" by (rule bins_nonneg [OF assms(2) le])
  have bins: "ar ?lo (?hi + d) d = ?bins" by (rule bins_arange [OF assms(1,2) le])
  have ends: "hd ?bins = ?lo" "last ?bins = ?lo + of_int ?k * d"
  proof -
    have "[0 ..< Suc (nat ?k)] = 0 # [Suc 0 ..< Suc (nat ?k)]" by (rule upt_conv_Cons) simp
    then show "hd ?bins = ?lo" by (simp only: list.map list.sel of_nat_0 mult_zero_left add_0_right)
    have "last ?bins = ?lo + of_nat (nat ?k) * d" by (simp add: last_map)
    then show "last ?bins = ?lo + of_int ?k * d" using k by (simp only: of_nat_nat)
  qed
  have "sum_list (map snd (rate_loop d ?bins ?s)) * (d * 1000) = of_int (bytes_between (hd ?bins) (last ?bins) ?s * 8)"
    using assms(2,4) by (intro rate_loop_total sorted_bins) auto
  moreover have "calculate_data_rate_kbps ar rx d = rate_loop d ?bins ?s"
    using assms(3) by (simp only: calculate_data_rate_kbps_def if_False Let_def sort_ends [OF assms(3)] bins)
  moreover have "bytes_between ?lo b ?s = sum_list (map snd (filter (\<lambda>(t, n). t < b) rx))" for b
  proof -
    have "filter (\<lambda>(t, n). ?lo \<le> t \<and> t < b) rx = filter (\<lambda>(t, n). t < b) rx"
      by (rule filter_cong) (auto simp: first_time_of_def intro!: Min_le image_eqI)
    then show ?thesis unfolding bytes_between_sort by (simp add: bytes_between_def)
  qed
  ultimately show ?thesis unfolding ends by simp
qed

theorem rate_total_witness:
  "sum_list (map snd (calculate_data_rate_kbps np_arange [(0, 100), (1, 200), (2, 400)] 1)) * 1000 = 8 * 300"
proof -
  have e: "first_time_of [(0, 100), (1, 200), (2, 400 :: int)] = 0" "last_time_of [(0, 100), (1, 200), (2, 400 :: int)] = 2"
    by (simp_all add: first_time_of_def last_time_of_def)
  show ?thesis
    using rate_total [OF np_arange_numpy, of 1 "[(0, 100), (1, 200), (2, 400)]"] by (simp add: e)
qed

section \<open>Values over time\<close>

definition last_value :: "rat option \<Rightarrow> sample list \<Rightarrow> rat option" where
  "last_value v xs = (if xs = [] then v else Some (snd (last xs)))"

definition value_item :: "rat \<Rightarrow> rat \<Rightarrow> rat option \<Rightarrow> sample list" where
  "value_item dt a v = (case v of None \<Rightarrow> [] | Some x \<Rightarrow> [(a + dt / 2, x)])"

lemma take_last_result:
  "\<forall>(t, v) \<in> set xs. a \<le> t \<Longrightarrow>
    take_last a b lv xs = (last_value lv (takeWhile (\<lambda>(t, v). t < b) xs), dropWhile (\<lambda>(t, v). t < b) xs)"
  by (induction xs arbitrary: lv) (auto simp: last_value_def)

lemma last_value_takeWhile:
  assumes "b \<le> c"
  shows "last_value (last_value lv (takeWhile (\<lambda>(t, v). t < b) xs)) (takeWhile (\<lambda>(t, v). t < c) (dropWhile (\<lambda>(t, v). t < b) xs))
    = last_value lv (takeWhile (\<lambda>(t, v). t < c) xs)"
proof -
  have "takeWhile (\<lambda>(t, v). t < c) (takeWhile (\<lambda>(t, v). t < b) xs @ dropWhile (\<lambda>(t, v). t < b) xs)
      = takeWhile (\<lambda>(t, v). t < b) xs @ takeWhile (\<lambda>(t, v). t < c) (dropWhile (\<lambda>(t, v). t < b) xs)"
    using assms by (intro takeWhile_append2) (auto dest!: set_takeWhileD)
  then show ?thesis by (simp add: last_value_def)
qed

lemma dropWhile_from:
  "sorted (map fst xs) \<Longrightarrow> \<forall>(t, v) \<in> set (dropWhile (\<lambda>(t, v). t < b) xs). b \<le> t"
  by (induction xs) (auto simp: not_less intro: order_trans)

lemma value_loop_result:
  assumes "sorted bins" and "sorted (map fst xs)" and "\<forall>(t, v) \<in> set xs. hd bins \<le> t"
  shows "value_loop dt bins lv xs
    = concat (map (\<lambda>(a, b). value_item dt a (last_value lv (takeWhile (\<lambda>(t, v). t < b) xs))) (zip bins (tl bins)))"
  using assms
proof (induction dt bins lv xs rule: value_loop.induct)
  case (1 dt b0 b1 bins lv xs)
  let ?lv = "last_value lv (takeWhile (\<lambda>(t, v). t < b1) xs)" and ?xs = "dropWhile (\<lambda>(t, v). t < b1) xs"
  have take: "take_last b0 b1 lv xs = (?lv, ?xs)" using 1(4) by (intro take_last_result) simp
  have s: "sorted (map fst ?xs)"
    using 1(3) by (simp add: dropWhile_eq_drop drop_map [symmetric] sorted_wrt_drop)
  have "value_loop dt (b1 # bins) ?lv ?xs = concat (map (\<lambda>(a, b). value_item dt a
      (last_value ?lv (takeWhile (\<lambda>(t, v). t < b) ?xs))) (zip (b1 # bins) (tl (b1 # bins))))"
    using 1(1) [OF take [symmetric] refl] 1(2) s dropWhile_from [OF 1(3)] by simp
  also have "\<dots> = concat (map (\<lambda>(a, b). value_item dt a
      (last_value lv (takeWhile (\<lambda>(t, v). t < b) xs))) (zip (b1 # bins) (tl (b1 # bins))))"
  proof (intro arg_cong [of _ _ concat] map_cong refl)
    fix p
    assume "p \<in> set (zip (b1 # bins) (tl (b1 # bins)))"
    moreover obtain a b where p: "p = (a, b)" by (cases p)
    ultimately have "b1 \<le> b" using 1(2) by (auto dest: set_zip_rightD)
    then show "(case p of (a, b) \<Rightarrow> value_item dt a (last_value ?lv (takeWhile (\<lambda>(t, v). t < b) ?xs)))
        = (case p of (a, b) \<Rightarrow> value_item dt a (last_value lv (takeWhile (\<lambda>(t, v). t < b) xs)))"
      using last_value_takeWhile by (simp add: p)
  qed
  finally show ?case by (simp add: take value_item_def)
qed simp_all

lemma takeWhile_sorted:
  "sorted (map fst xs) \<Longrightarrow> takeWhile (\<lambda>(t, v). t < b) xs = filter (\<lambda>(t, v). t < b) xs"
proof (induction xs)
  case (Cons x xs)
  obtain t v where x: "x = (t, v)" by (cases x)
  show ?case
  proof (cases "t < b")
    case False
    then have "filter (\<lambda>(t, v). t < b) xs = []" using Cons.prems x by (fastforce simp: filter_empty_conv)
    then show ?thesis using False by (simp add: x)
  qed (use Cons x in simp)
qed simp

lemma zip_bins: "zip (map f [0 ..< Suc n]) (tl (map f [0 ..< Suc n])) = map (\<lambda>i. (f i, f (Suc i))) [0 ..< n]"
  by (rule nth_equalityI) (simp_all add: nth_tl del: upt_Suc)

text \<open>For every bin, \<open>calculate_value_over_time\<close> gives the last value of the trace before the end of
  the bin, also for the bins in which the trace has no value.\<close>

theorem values_over_time:
  assumes "numpy_arange ar" and "0 < d" and "xs \<noteq> []"
  shows "calculate_value_over_time ar xs d = map (\<lambda>i. (first_time_of xs + of_nat i * d + d / 2,
      snd (last (filter (\<lambda>(t, v). t < first_time_of xs + of_nat (Suc i) * d) (sort_key fst xs)))))
    [0 ..< nat \<lceil>(last_time_of xs - first_time_of xs) / d\<rceil>]"
proof -
  let ?lo = "first_time_of xs" and ?s = "sort_key fst xs"
  let ?n = "nat \<lceil>(last_time_of xs - ?lo) / d\<rceil>"
  let ?f = "\<lambda>i. ?lo + of_nat i * d"
  have ne: "?s \<noteq> []" using assms(3) by (metis length_0_conv length_sort)
  have first: "\<forall>(t, v) \<in> set ?s. ?lo \<le> t" by (auto simp: first_time_of_def intro!: Min_le image_eqI)
  have hd: "hd (map ?f [0 ..< Suc ?n]) = ?lo" by (simp add: upt_conv_Cons del: upt_Suc)
  have "calculate_value_over_time ar xs d = value_loop d (map ?f [0 ..< Suc ?n]) None ?s"
    using assms(3) bins_arange [OF assms(1,2) first_le_last [OF assms(3)]]
    by (simp only: calculate_value_over_time_def if_False Let_def sort_ends [OF assms(3)])
  also have "\<dots> = concat (map (\<lambda>i. value_item d (?f i) (last_value None (filter (\<lambda>(t, v). t < ?f (Suc i)) ?s))) [0 ..< ?n])"
    using first hd sorted_bins [OF assms(2)]
    by (subst value_loop_result) (simp_all only: zip_bins map_map comp_def prod.case takeWhile_sorted sorted_sort_key)
  also have "\<dots> = concat (map (\<lambda>i. [(?f i + d / 2, snd (last (filter (\<lambda>(t, v). t < ?f (Suc i)) ?s)))]) [0 ..< ?n])"
  proof (intro arg_cong [of _ _ concat] map_cong refl)
    fix i :: nat
    have "fst (hd ?s) < ?f (Suc i)" using sort_ends(1) [OF assms(3)] assms(2) by (simp add: add_pos_nonneg distrib_right)
    then have "hd ?s \<in> set (filter (\<lambda>(t, v). t < ?f (Suc i)) ?s)" using hd_in_set [OF ne] by (cases "hd ?s") simp
    then have "filter (\<lambda>(t, v). t < ?f (Suc i)) ?s \<noteq> []" by (metis list.set_cases neq_Nil_conv)
    then show "value_item d (?f i) (last_value None (filter (\<lambda>(t, v). t < ?f (Suc i)) ?s))
        = [(?f i + d / 2, snd (last (filter (\<lambda>(t, v). t < ?f (Suc i)) ?s)))]"
      by (simp add: value_item_def last_value_def)
  qed
  finally show ?thesis by (simp only: concat_map_singleton)
qed

theorem values_over_time_witness:
  "calculate_value_over_time np_arange [(0, 5), (3, 7)] 1 = [(1 / 2, 5), (3 / 2, 5), (5 / 2, 5)]"
proof -
  have "first_time_of [(0, 5), (3, 7 :: rat)] = 0" "last_time_of [(0, 5), (3, 7 :: rat)] = 3"
    by (simp_all add: first_time_of_def last_time_of_def)
  then show ?thesis
    using values_over_time [OF np_arange_numpy, of 1 "[(0, 5), (3, 7)]"] by (simp add: upt_rec)
qed

section \<open>The times of the bitrate log\<close>

lemma closest_before_Some: "\<exists>y. closest_before time (Some b) xs = Some y"
  by (induction xs arbitrary: b) auto

lemma closest_before_found:
  assumes "sorted (map fst xs)" "time \<in> fst ` set xs"
  shows "closest_before time None xs \<noteq> None"
proof (cases xs)
  case (Cons p list)
  obtain a b where p: "p = (a, b)" by (cases p)
  have "a \<le> time" using assms unfolding Cons p by auto
  then show ?thesis using closest_before_Some [of time b list] by (auto simp: Cons p)
qed (use assms in simp)

definition all_times :: "by_node \<Rightarrow> rat set" where
  "all_times d = (\<Union>(n, xs) \<in> set d. fst ` set xs)"

lemma aggregate_times: "map fst (aggregate d) = sorted_list_of_set (all_times d)"
proof -
  let ?d = "map (\<lambda>(n, xs). (n, sort_samples xs)) d"
  have times: "\<Union> (set (map (\<lambda>(n, xs). set (map fst xs)) ?d)) = all_times d"
    by (auto simp: all_times_def sort_samples_def case_prod_beta)
  have fin: "finite (all_times d)" by (auto simp: all_times_def)
  have found: "List.map_filter (\<lambda>(n, xs). closest_before time None xs) ?d \<noteq> []" if "time \<in> all_times d" for time
  proof -
    from that obtain n xs where nx: "(n, xs) \<in> set d" "time \<in> fst ` set xs" by (auto simp: all_times_def)
    then have "closest_before time None (sort_samples xs) \<noteq> None"
      by (intro closest_before_found) (simp_all add: sort_samples_def)
    moreover have "(n, sort_samples xs) \<in> set ?d" using nx(1) by force
    ultimately show ?thesis by (force simp: List.map_filter_def filter_empty_conv)
  qed
  let ?g = "\<lambda>time. List.map_filter (\<lambda>(n, xs). closest_before time None xs) ?d"
  have "aggregate d = List.map_filter (\<lambda>time. if ?g time = [] then None else Some (time, average (?g time)))
      (sorted_list_of_set (all_times d))"
    by (simp only: aggregate_def Let_def times)
  also have "\<dots> = map (\<lambda>time. (time, average (?g time))) (sorted_list_of_set (all_times d))"
  proof -
    have "List.map_filter (\<lambda>time. if ?g time = [] then None else Some (time, average (?g time))) ts
        = map (\<lambda>time. (time, average (?g time))) ts" if "set ts \<subseteq> all_times d" for ts
      using that found by (induction ts) (simp_all add: List.map_filter_simps)
    then show ?thesis using fin by simp
  qed
  finally show ?thesis by (simp add: comp_def)
qed

text \<open>The series \<open>parse_bitrate_log\<close> returns is sorted by time and has exactly the times at which the
  log gives a bitrate of some of the nodes asked for; with several nodes every time occurs once.\<close>

theorem bitrate_log_times:
  assumes "fold_e (bitrate_line 1 node_ids) [] lines = Inr d"
  shows "\<exists>xs. parse_bitrate_log (Some lines) node_ids = Inr xs \<and> sorted (map fst xs) \<and> set (map fst xs) = all_times d
    \<and> (1 < length d \<longrightarrow> distinct (map fst xs))"
proof (cases "length d \<le> 1")
  case True
  consider "d = []" | p where "d = [p]" using True by (cases d) auto
  then show ?thesis
    by cases (auto simp: parse_bitrate_log_def assms all_times_def sort_samples_def case_prod_beta)
next
  case False
  then have "parse_bitrate_log (Some lines) node_ids = Inr (aggregate d)"
    by (auto simp: parse_bitrate_log_def assms)
  moreover have fin: "finite (all_times d)" by (auto simp: all_times_def)
  moreover have "sorted (map fst (aggregate d))" "distinct (map fst (aggregate d))"
    by (simp_all only: aggregate_times sorted_list_of_set(2) sorted_sorted_list_of_set distinct_sorted_list_of_set)
  moreover have "set (map fst (aggregate d)) = all_times d"
    using fin by (simp only: aggregate_times set_sorted_list_of_set)
  ultimately show ?thesis by blast
qed

definition sample_log :: "string list" where
  "sample_log = [''1.5 Node: 2 newBitRate: 100'', ''2 ue-id: 3 NEWBITRATE: 300'', ''noise'', ''1.0 node: 2 newBitRate: 500'']"

lemma sample_log_read:
  "fold_e (bitrate_line 1 None) [] sample_log = Inr [(2, [(3 / 2, 100), (1, 500)]), (3, [(2, 300)])]"
  by code_simp

theorem bitrate_log_times_witness:
  "\<exists>xs. parse_bitrate_log (Some sample_log) None = Inr xs \<and> set (map fst xs) = {1, 3 / 2, 2}"
  using bitrate_log_times [OF sample_log_read] by (auto simp: all_times_def)

end
