(* ===== verification/Windows.thy ===== *)
theory Windows
  imports PyNum
begin

text \<open>
  Sums over the half-open time windows into which the throughput scripts cut a trace: the windows
  between consecutive bounds of an increasing list together hold what lies between the first and the
  last bound, each entry once.
\<close>

definition part_sum :: "('a \<Rightarrow> rat) \<Rightarrow> ('a \<Rightarrow> int) \<Rightarrow> 'a list \<Rightarrow> rat \<Rightarrow> rat \<Rightarrow> int" where
  "part_sum k v xs a b = sum_list (map v (filter (\<lambda>x. a \<le> k x \<and> k x < b) xs))"

lemma part_sum_split: "a \<le> b \<Longrightarrow> b \<le> c \<Longrightarrow> part_sum k v xs a c = part_sum k v xs a b + part_sum k v xs b c"
  by (induction xs) (auto simp: part_sum_def)

lemma part_sum_empty [simp]: "part_sum k v xs a a = 0"
  by (induction xs) (auto simp: part_sum_def)

lemma part_sum_all:
  "\<forall>x \<in> set xs. a \<le> k x \<and> k x < b \<Longrightarrow> part_sum k v xs a b = sum_list (map v xs)"
  unfolding part_sum_def by (subst filter_True) auto

lemma part_sum_const: "part_sum k (\<lambda>_. 1) xs a b = int (length (filter (\<lambda>x. a \<le> k x \<and> k x < b) xs))"
  by (induction xs) (auto simp: part_sum_def)

lemma part_sum_sort: "part_sum k v (sort_key f xs) a b = part_sum k v xs a b"
proof -
  have "mset (map v (filter (\<lambda>x. a \<le> k x \<and> k x < b) (sort_key f xs))) = mset (map v (filter (\<lambda>x. a \<le> k x \<and> k x < b) xs))"
    by (simp add: mset_filter)
  then show ?thesis unfolding part_sum_def by (metis sum_mset_sum_list)
qed

text \<open>The windows between consecutive elements of a list of bounds.\<close>

fun windows :: "rat list \<Rightarrow> (rat \<times> rat) list" where
  "windows (a # b # bs) = (a, b) # windows (b # bs)"
| "windows bs = []"

lemma part_sum_windows:
  "sorted bs \<Longrightarrow> bs \<noteq> [] \<Longrightarrow> sum_list (map (\<lambda>(a, b). part_sum k v xs a b) (windows bs)) = part_sum k v xs (hd bs) (last bs)"
proof (induction bs rule: windows.induct)
  case (1 a b bs)
  have "b \<le> last (b # bs)" using 1(2) by (auto simp: last_in_set)
  then show ?case using 1 part_sum_split [of a b "last (b # bs)" k v xs] by simp
qed simp_all

text \<open>Equidistant bounds.\<close>

definition equi :: "rat \<Rightarrow> rat \<Rightarrow> nat \<Rightarrow> rat list" where
  "equi a w n = map (\<lambda>i. a + of_nat i * w) [0 ..< n]"

lemma equi_simps [simp]: "equi a w 0 = []" "length (equi a w n) = n" "equi a w n = [] \<longleftrightarrow> n = 0"
  by (simp_all add: equi_def)

lemma equi_Suc: "equi a w (Suc n) = a # equi (a + w) w n"
proof -
  have "[0 ..< Suc n] = 0 # map Suc [0 ..< n]" by (simp add: upt_conv_Cons map_Suc_upt del: upt_Suc)
  then show ?thesis by (simp add: equi_def algebra_simps del: upt_Suc)
qed

lemma equi_snoc: "equi a w (Suc n) = equi a w n @ [a + of_nat n * w]"
  by (simp add: equi_def)

lemma equi_ge: "0 \<le> w \<Longrightarrow> t \<in> set (equi a w n) \<Longrightarrow> a \<le> t"
  by (auto simp: equi_def)

lemma sorted_equi: "0 \<le> w \<Longrightarrow> sorted (equi a w n)"
  by (auto simp: equi_def sorted_iff_nth_mono mult_right_mono)

lemma windows_equi: "windows (equi a w (Suc n)) = map (\<lambda>t. (t, t + w)) (equi a w n)"
proof (induction n arbitrary: a)
  case (Suc n)
  have "windows (equi a w (Suc (Suc n))) = (a, a + w) # windows (equi (a + w) w (Suc n))" by (simp only: equi_Suc windows.simps)
  then show ?case unfolding Suc by (simp only: equi_Suc list.map)
qed (simp add: equi_Suc)

lemma part_sum_equi:
  assumes "0 \<le> w"
  shows "sum_list (map (\<lambda>t. part_sum k v xs t (t + w)) (equi a w n)) = part_sum k v xs a (a + of_nat n * w)"
proof -
  have "part_sum k v xs (hd (equi a w (Suc n))) (last (equi a w (Suc n))) = part_sum k v xs a (a + of_nat n * w)"
  proof -
    have "hd (equi a w (Suc n)) = a" by (simp only: equi_Suc list.sel)
    moreover have "last (equi a w (Suc n)) = a + of_nat n * w" by (simp only: equi_snoc last_snoc)
    ultimately show ?thesis by simp
  qed
  then show ?thesis
    using part_sum_windows [OF sorted_equi [OF assms], of a "Suc n" k v xs] by (simp add: windows_equi comp_def)
qed

lemma equi_below:
  assumes "0 < w" and "t \<in> set (equi a w (nat \<lceil>(e - a) / w\<rceil>))"
  shows "a \<le> t \<and> t < e"
proof -
  have "t \<in> (\<lambda>i. a + of_nat i * w) ` {0 ..< nat \<lceil>(e - a) / w\<rceil>}" using assms(2) by (simp add: equi_def)
  then obtain i where i: "i \<in> {0 ..< nat \<lceil>(e - a) / w\<rceil>}" and t: "t = a + of_nat i * w" by blast
  from i have "of_nat i < (e - a) / w" unfolding atLeastLessThan_iff by linarith
  then show ?thesis using t assms(1) by (simp add: pos_less_divide_eq)
qed

lemma strict_equi: "0 < w \<Longrightarrow> sorted_wrt (<) (equi a w n)"
  by (auto simp: equi_def sorted_wrt_iff_nth_less)

lemma windows_strict: "sorted_wrt (<) bs \<Longrightarrow> (a, b) \<in> set (windows bs) \<Longrightarrow> a < b"
  by (induction bs rule: windows.induct) auto

end
