(* ===== verification/PlayAggregate.thy ===== *)
theory PlayAggregate
  imports PlaySeries Windows
begin

text \<open>
  \<open>scripts/plot_bitrate_playback.py\<close>, the aggregation across users and runs: the bitrates of several runs on common
  time bins (\<open>aggregate_bitrate\<close>), the rates of several users (\<open>parse_multi_user_rx_data\<close>), and the padding of a
  series to the whole of the simulated time (\<open>truncate_and_pad_data\<close>, \<open>truncate_and_pad_playback_prob\<close>).
  \<open>np.arange\<close> and \<open>np.std\<close> are parameters. Two numpy arrays of one length are a list of pairs.
\<close>

section \<open>Bitrates of several runs\<close>

fun take_upto :: "rat \<Rightarrow> sample list \<Rightarrow> rat list \<times> sample list" where
  "take_upto bin_end [] = ([], [])"
| "take_upto bin_end ((t, v) # xs) =
     (if t \<le> bin_end then (let (vs, rest) = take_upto bin_end xs in (v # vs, rest)) else ([], (t, v) # xs))"

text \<open>One run: the average of the values in a bin, or the last value before it.\<close>

fun hold_loop :: "rat list \<Rightarrow> rat \<Rightarrow> sample list \<Rightarrow> rat list" where
  "hold_loop [] current_val xs = []"
| "hold_loop (bin_end # ends) current_val xs =
     (let (values_in_bin, rest) = take_upto bin_end xs;
          current_val = (if values_in_bin = [] then current_val else last values_in_bin);
          val_to_use = (if values_in_bin = [] then current_val else average values_in_bin)
      in val_to_use # hold_loop ends current_val rest)"

definition aggregate_bitrate ::
    "arange \<Rightarrow> (rat list \<Rightarrow> rat) \<Rightarrow> sample list list \<Rightarrow> rat \<Rightarrow> rat option \<Rightarrow> rat list \<times> rat list \<times> rat list" where
  "aggregate_bitrate arange std all_runs_bitrate time_bin global_max_time =
     (let runs = filter (\<lambda>r. r \<noteq> []) all_runs_bitrate in
      if runs = [] then ([], [], [])
      else
        (let min_time = Min (set (map (fst \<circ> hd) runs));
             last_time = Max (set (map (fst \<circ> last) runs));
             max_time = (case global_max_time of None \<Rightarrow> last_time | Some g \<Rightarrow> max last_time g);
             bins = arange min_time (max_time + time_bin) time_bin;
             rows = map (hold_loop (drop 1 bins) 0) all_runs_bitrate;
             binned_values = map (\<lambda>i. map (\<lambda>row. row ! i) rows) [0 ..< length bins - 1]
         in (centers time_bin bins, map average binned_values, map std binned_values)))"

section \<open>Rates of several users\<close>

definition bin_mbps :: "rat \<Rightarrow> rat \<Rightarrow> rat \<Rightarrow> (rat \<times> int) list \<Rightarrow> rat" where
  "bin_mbps time_bin bin_start bin_end user_data =
     of_int (sum_list (map snd (filter (\<lambda>(t, n). bin_start \<le> t \<and> t < bin_end) user_data)) * 8) / (time_bin * 1000000)"

definition client_file :: "string \<Rightarrow> string \<Rightarrow> nat \<Rightarrow> string" where
  "client_file run_dir protocol_name client_node =
     path_join run_dir ((if protocol_name = ''QUIC'' then ''clientQUIC-rx-data'' else ''clientTCP-rx-data'')
       @ str_of_nat client_node @ ''.txt'')"

definition aggregate_users :: "arange \<Rightarrow> (rat \<times> int) list list \<Rightarrow> sample list" where
  "aggregate_users arange all_user_data =
     (if all_user_data = [] then []
      else
        (let time_bin = 1 / 2;
             min_time = Min (set (map (fst \<circ> hd) all_user_data));
             max_time = Max (set (map (fst \<circ> last) all_user_data));
             bins = arange min_time (max_time + time_bin) time_bin
         in map (\<lambda>(a, b). (a + time_bin / 2, average (map (bin_mbps time_bin a b) all_user_data))) (windows bins)))"

definition parse_multi_user_rx_data :: "arange \<Rightarrow> (string \<Rightarrow> string list option) \<Rightarrow> string \<Rightarrow> string \<Rightarrow> nat list \<Rightarrow> sample list" where
  "parse_multi_user_rx_data arange files run_dir protocol_name client_nodes =
     aggregate_users arange (filter (\<lambda>d. d \<noteq> [])
       (map (\<lambda>node. parse_client_rx_data (files (client_file run_dir protocol_name node))) client_nodes))"

section \<open>Padding\<close>

definition full_pad :: "arange \<Rightarrow> rat \<Rightarrow> rat \<Rightarrow> rat \<Rightarrow> sample list" where
  "full_pad arange fill max_time time_bin =
     map (\<lambda>t. (t, fill)) (filter (\<lambda>t. t \<le> max_time) (arange 0 (max_time + time_bin) time_bin))"

definition pad_front :: "arange \<Rightarrow> rat \<Rightarrow> rat \<Rightarrow> sample list \<Rightarrow> sample list" where
  "pad_front arange fill time_bin xs =
     (if 0 < fst (hd xs) then map (\<lambda>t. (t, fill)) (arange 0 (fst (hd xs)) time_bin) @ xs else xs)"

definition pad_back :: "arange \<Rightarrow> rat \<Rightarrow> rat \<Rightarrow> rat \<Rightarrow> sample list \<Rightarrow> sample list" where
  "pad_back arange fill max_time time_bin xs =
     (if fst (last xs) < max_time
      then (let pad_start = (of_int \<lfloor>fst (last xs) / time_bin\<rfloor> + 1) * time_bin in
            if pad_start \<le> max_time
            then xs @ map (\<lambda>t. (t, fill)) (filter (\<lambda>t. t \<le> max_time) (arange pad_start (max_time + time_bin) time_bin))
            else xs)
      else xs)"

definition pad_end :: "rat \<Rightarrow> rat \<Rightarrow> sample list \<Rightarrow> sample list" where
  "pad_end fill max_time xs = (if fst (last xs) < max_time then xs @ [(max_time, fill)] else xs)"

definition pad_series :: "arange \<Rightarrow> rat \<Rightarrow> rat list option \<Rightarrow> rat list option \<Rightarrow> rat \<Rightarrow> rat \<Rightarrow> sample list" where
  "pad_series arange fill ts_opt vs_opt max_time time_bin =
     (case (ts_opt, vs_opt) of
        (Some ts, Some vs) \<Rightarrow>
          (let truncated = filter (\<lambda>(t, v). t \<le> max_time) (zip ts vs) in
           if truncated = [] then full_pad arange fill max_time time_bin
           else pad_end fill max_time (pad_back arange fill max_time time_bin (pad_front arange fill time_bin truncated)))
      | _ \<Rightarrow> full_pad arange fill max_time time_bin)"

text \<open>Missing probabilities are 1, interrupted; other missing values are 0. The two lists that are returned are the columns.\<close>

definition truncate_and_pad_playback_prob ::
    "arange \<Rightarrow> rat list option \<Rightarrow> rat list option \<Rightarrow> rat \<Rightarrow> rat \<Rightarrow> rat list \<times> rat list" where
  "truncate_and_pad_playback_prob arange ts probs max_time time_bin =
     (let xs = pad_series arange 1 ts probs max_time time_bin in (map fst xs, map snd xs))"

definition truncate_and_pad_data ::
    "arange \<Rightarrow> rat list option \<Rightarrow> rat list option \<Rightarrow> rat \<Rightarrow> rat \<Rightarrow> rat list \<times> rat list" where
  "truncate_and_pad_data arange ts values max_time time_bin =
     (let xs = pad_series arange 0 ts values max_time time_bin in (map fst xs, map snd xs))"

section \<open>What the padding returns\<close>

lemma arange_equi: "numpy_arange ar \<Longrightarrow> 0 < d \<Longrightarrow> ar a b d = equi a d (nat \<lceil>(b - a) / d\<rceil>)"
  by (simp add: numpy_arange_def equi_def)

text \<open>A series whose times increase up to a bound.\<close>

definition series_upto :: "rat \<Rightarrow> sample list \<Rightarrow> bool" where
  "series_upto m xs \<longleftrightarrow> sorted_wrt (<) (map fst xs) \<and> (\<forall>x \<in> set xs. fst x \<le> m)"

lemma series_upto_append:
  "series_upto m (xs @ ys) \<longleftrightarrow> series_upto m xs \<and> series_upto m ys \<and> (\<forall>x \<in> set xs. \<forall>y \<in> set ys. fst x < fst y)"
  by (auto simp: series_upto_def sorted_wrt_append)

lemma sorted_wrt_filter_less: "sorted_wrt (<) xs \<Longrightarrow> sorted_wrt (<) (filter P xs)"
  by (induction xs) auto

lemma sorted_map_filter: "sorted_wrt (<) (map f xs) \<Longrightarrow> sorted_wrt (<) (map f (filter P xs))"
  by (induction xs) auto

lemma series_fill: "series_upto m (map (\<lambda>t. (t, fill)) ts) \<longleftrightarrow> sorted_wrt (<) ts \<and> (\<forall>t \<in> set ts. t \<le> m)"
  by (simp add: series_upto_def comp_def)

lemma strict_last: "sorted_wrt (<) xs \<Longrightarrow> x \<in> set xs \<Longrightarrow> x \<le> (last xs :: rat)"
  by (induction xs) (auto simp: less_imp_le)

text \<open>The grid of the padding: the multiples of the bin.\<close>

definition on_grid :: "rat \<Rightarrow> rat \<Rightarrow> bool" where
  "on_grid d t \<longleftrightarrow> of_int \<lfloor>t / d\<rfloor> * d = t"

lemma on_grid_iff: "0 < d \<Longrightarrow> on_grid d t \<longleftrightarrow> (\<exists>k :: int. t = of_int k * d)"
  by (auto simp: on_grid_def) (metis)

text \<open>\<open>np.arange\<close> from a point of the grid gives the points of the grid up to the bound.\<close>

lemma set_equi_grid:
  assumes "0 < d" and "a = of_int k0 * d"
  shows "set (equi a d (nat \<lceil>(b - a) / d\<rceil>)) = {t. a \<le> t \<and> t < b \<and> on_grid d t}"
proof (intro set_eqI iffI)
  fix t assume t: "t \<in> set (equi a d (nat \<lceil>(b - a) / d\<rceil>))"
  then obtain i where "t = a + of_nat i * d" by (auto simp: equi_def)
  then have "t = of_int (k0 + int i) * d" using assms(2) by (simp add: algebra_simps)
  then have "on_grid d t" unfolding on_grid_iff [OF assms(1)] by blast
  then show "t \<in> {t. a \<le> t \<and> t < b \<and> on_grid d t}"
    using equi_below [OF assms(1) t] equi_ge [OF less_imp_le [OF assms(1)] t] by simp
next
  fix t assume "t \<in> {t. a \<le> t \<and> t < b \<and> on_grid d t}"
  then obtain k where k: "t = of_int k * d" "a \<le> t" "t < b" using on_grid_iff [OF assms(1)] by blast
  then have "k0 \<le> k" using assms by simp
  moreover have "of_int (k - k0) < (b - a) / d" using k assms by (simp add: field_simps)
  then have "k - k0 < \<lceil>(b - a) / d\<rceil>" by (simp add: less_ceiling_iff)
  ultimately have "nat (k - k0) < nat \<lceil>(b - a) / d\<rceil>" "t = a + of_nat (nat (k - k0)) * d"
    using k(1) assms(2) by (linarith, simp add: algebra_simps)
  then show "t \<in> set (equi a d (nat \<lceil>(b - a) / d\<rceil>))" by (auto simp: equi_def)
qed

lemma full_pad_result:
  assumes "numpy_arange ar" and "0 < d"
  shows "\<exists>bs. full_pad ar fill m d = map (\<lambda>t. (t, fill)) bs \<and> sorted_wrt (<) bs \<and> set bs = {t. 0 \<le> t \<and> t \<le> m \<and> on_grid d t}"
proof -
  let ?bs = "filter (\<lambda>t. t \<le> m) (equi 0 d (nat \<lceil>(m + d - 0) / d\<rceil>))"
  have grid: "set (equi 0 d (nat \<lceil>(m + d - 0) / d\<rceil>)) = {t. 0 \<le> t \<and> t < m + d \<and> on_grid d t}"
    by (rule set_equi_grid [OF assms(2), of _ 0]) simp
  have "set ?bs = {t. 0 \<le> t \<and> t \<le> m \<and> on_grid d t}" unfolding set_filter grid using assms(2) by auto
  then show ?thesis using sorted_wrt_filter_less [OF strict_equi [OF assms(2)]]
    by (intro exI [of _ ?bs]) (simp add: full_pad_def arange_equi [OF assms])
qed

lemma pad_front_result:
  assumes "numpy_arange ar" and "0 < d" and "xs \<noteq> []" and "series_upto m xs"
  shows "\<exists>fs. pad_front ar fill d xs = map (\<lambda>t. (t, fill)) fs @ xs \<and> series_upto m (map (\<lambda>t. (t, fill)) fs @ xs)
    \<and> hd (fs @ map fst xs) \<le> 0 \<and> set fs = {t. 0 \<le> t \<and> t < fst (hd xs) \<and> on_grid d t}"
proof (cases "0 < fst (hd xs)")
  case True
  let ?h = "fst (hd xs)"
  let ?fs = "equi 0 d (nat \<lceil>(?h - 0) / d\<rceil>)"
  have "0 < nat \<lceil>(?h - 0) / d\<rceil>" using True assms(2) by simp
  then obtain n where n: "nat \<lceil>(?h - 0) / d\<rceil> = Suc n" by (cases "nat \<lceil>(?h - 0) / d\<rceil>") auto
  have hd: "hd (?fs @ map fst xs) = 0" unfolding n equi_Suc by simp
  have first: "?h \<le> fst x" if "x \<in> set xs" for x
    using that assms(3,4) by (cases xs) (auto simp: series_upto_def less_imp_le)
  have below: "t < ?h" if "t \<in> set ?fs" for t using equi_below [OF assms(2) that] by simp
  have "?h \<le> m" using assms(3,4) by (auto simp: series_upto_def)
  then have "series_upto m (map (\<lambda>t. (t, fill)) ?fs)"
    unfolding series_fill using strict_equi [OF assms(2)] below by (blast intro: less_imp_le less_le_trans)
  moreover have "fst x < fst y" if xy: "x \<in> set (map (\<lambda>t. (t, fill)) ?fs)" "y \<in> set xs" for x y
  proof -
    obtain t where "x = (t, fill)" "t \<in> set ?fs" using xy(1) unfolding set_map by blast
    then show ?thesis using below first [OF xy(2)] by (metis fst_conv less_le_trans)
  qed
  ultimately have "series_upto m (map (\<lambda>t. (t, fill)) ?fs @ xs)"
    unfolding series_upto_append using assms(4) by blast
  moreover have "set ?fs = {t. 0 \<le> t \<and> t < ?h \<and> on_grid d t}" by (rule set_equi_grid [OF assms(2), of _ 0]) simp
  ultimately show ?thesis using True hd by (intro exI [of _ ?fs]) (simp add: pad_front_def arange_equi [OF assms(1,2)])
next
  case False
  then have "{t. 0 \<le> t \<and> t < fst (hd xs) \<and> on_grid d t} = {}" by auto
  then show ?thesis using False assms(3,4) by (intro exI [of _ "[]"]) (simp add: pad_front_def hd_map)
qed

lemma pad_back_result:
  assumes "numpy_arange ar" and "0 < d" and "xs \<noteq> []" and "series_upto m xs"
  shows "\<exists>bs. pad_back ar fill m d xs = xs @ map (\<lambda>t. (t, fill)) bs \<and> series_upto m (xs @ map (\<lambda>t. (t, fill)) bs)
    \<and> set bs = {t. fst (last xs) < t \<and> t \<le> m \<and> on_grid d t}"
proof (cases "fst (last xs) < m")
  case True
  let ?l = "fst (last xs)"
  let ?p = "(of_int \<lfloor>?l / d\<rfloor> + 1) * d"
  let ?bs = "if ?p \<le> m then filter (\<lambda>t. t \<le> m) (equi ?p d (nat \<lceil>(m + d - ?p) / d\<rceil>)) else []"
  have "?l / d < of_int \<lfloor>?l / d\<rfloor> + 1" by linarith
  then have p: "?l < ?p" using assms(2) by (simp add: pos_divide_less_eq)
  have above: "?p \<le> t \<and> t \<le> m" if "t \<in> set ?bs" for t
    using that equi_below [OF assms(2), of t ?p "m + d"] by (auto split: if_splits)
  have last: "fst x \<le> ?l" if "x \<in> set xs" for x
    using strict_last [of "map fst xs" "fst x"] that assms(3,4) by (simp add: series_upto_def last_map)
  have "sorted_wrt (<) ?bs" using sorted_wrt_filter_less [OF strict_equi [OF assms(2)]] by simp
  then have "series_upto m (map (\<lambda>t. (t, fill)) ?bs)" unfolding series_fill using above by blast
  moreover have "fst x < t" if "x \<in> set xs" "t \<in> set ?bs" for x t
    using last [OF that(1)] p above [OF that(2)] by linarith
  ultimately have "series_upto m (xs @ map (\<lambda>t. (t, fill)) ?bs)"
    unfolding series_upto_append using assms(4) by (auto simp del: equi_simps split del: if_split)
  moreover have "pad_back ar fill m d xs = xs @ map (\<lambda>t. (t, fill)) ?bs"
    using True by (simp add: pad_back_def arange_equi [OF assms(1,2)] Let_def)
  moreover have "set ?bs = {t. ?l < t \<and> t \<le> m \<and> on_grid d t}"
  proof -
    have next_point: "?p \<le> t \<longleftrightarrow> ?l < t" if g: "on_grid d t" for t
    proof -
      obtain k :: int where k: "t = of_int k * d" using g on_grid_iff [OF assms(2)] by blast
      have "?l < t \<longleftrightarrow> ?l / d < of_int k" using assms(2) by (simp add: k pos_divide_less_eq)
      also have "\<dots> \<longleftrightarrow> \<lfloor>?l / d\<rfloor> + 1 \<le> k" by linarith
      also have "\<dots> \<longleftrightarrow> (of_int (\<lfloor>?l / d\<rfloor> + 1) :: rat) \<le> of_int k" by (simp only: of_int_le_iff)
      also have "\<dots> \<longleftrightarrow> ?p \<le> t" using assms(2) by (simp add: k)
      finally show ?thesis by simp
    qed
    have grid: "set (equi ?p d (nat \<lceil>(m + d - ?p) / d\<rceil>)) = {t. ?p \<le> t \<and> t < m + d \<and> on_grid d t}"
      by (rule set_equi_grid [OF assms(2), of _ "\<lfloor>?l / d\<rfloor> + 1"]) simp
    have "set ?bs = {t. ?p \<le> t \<and> t \<le> m \<and> on_grid d t}"
    proof (cases "?p \<le> m")
      case True
      then have "?bs = filter (\<lambda>t. t \<le> m) (equi ?p d (nat \<lceil>(m + d - ?p) / d\<rceil>))" by (rule if_P)
      then show ?thesis using assms(2) unfolding set_filter grid by (simp only: set_filter grid) force
    next
      case False
      then have "?bs = []" by (rule if_not_P)
      then show ?thesis using False by (simp only: list.set) force
    qed
    also have "\<dots> = {t. ?l < t \<and> t \<le> m \<and> on_grid d t}" using next_point by (simp only: conj_commute cong: conj_cong)
    finally show ?thesis .
  qed
  ultimately show ?thesis by blast
next
  case False
  then have "{t. fst (last xs) < t \<and> t \<le> m \<and> on_grid d t} = {}" by auto
  then show ?thesis using False assms(4) by (auto simp: pad_back_def intro: exI [of _ "[]"])
qed

lemma pad_end_result:
  assumes "xs \<noteq> []" and "series_upto m xs"
  shows "\<exists>es. pad_end fill m xs = xs @ map (\<lambda>t. (t, fill)) es \<and> series_upto m (xs @ map (\<lambda>t. (t, fill)) es)
    \<and> last (map fst xs @ es) = m \<and> set es = {t. fst (last xs) < t \<and> t = m}"
proof (cases "fst (last xs) < m")
  case True
  have "fst x < m" if "x \<in> set xs" for x
    using strict_last [of "map fst xs" "fst x"] that assms True by (force simp: series_upto_def last_map)
  then show ?thesis using True assms(2)
    by (intro exI [of _ "[m]"]) (auto simp: pad_end_def series_upto_append, auto simp: series_upto_def)
next
  case False
  moreover have "fst (last xs) \<le> m" using assms by (auto simp: series_upto_def)
  ultimately show ?thesis using assms by (intro exI [of _ "[]"]) (auto simp: pad_end_def last_map)
qed

lemma pad_series_result:
  assumes "numpy_arange ar" and "0 < d" and "kept = filter (\<lambda>(t, v). t \<le> m) (zip ts vs)" and "kept \<noteq> []"
    and "sorted_wrt (<) ts"
  shows "\<exists>fs bs. pad_series ar fill (Some ts) (Some vs) m d = map (\<lambda>t. (t, fill)) fs @ kept @ map (\<lambda>t. (t, fill)) bs
    \<and> sorted_wrt (<) (fs @ map fst kept @ bs) \<and> hd (fs @ map fst kept @ bs) \<le> 0 \<and> last (fs @ map fst kept @ bs) = m
    \<and> set fs = {t. 0 \<le> t \<and> t < fst (hd kept) \<and> on_grid d t}
    \<and> set bs = {t. fst (last kept) < t \<and> t \<le> m \<and> (on_grid d t \<or> t = m)}"
proof -
  have "sorted_wrt (<) (map fst (zip ts vs))" using assms(5) sorted_wrt_take by (simp add: map_fst_zip_take)
  then have "sorted_wrt (<) (map fst kept)" unfolding assms(3) by (rule sorted_map_filter)
  then have k: "series_upto m kept" using assms(3) by (auto simp: series_upto_def)
  obtain fs where f: "pad_front ar fill d kept = map (\<lambda>t. (t, fill)) fs @ kept" "series_upto m (map (\<lambda>t. (t, fill)) fs @ kept)"
    "hd (fs @ map fst kept) \<le> 0" "set fs = {t. 0 \<le> t \<and> t < fst (hd kept) \<and> on_grid d t}"
    using pad_front_result [OF assms(1,2,4) k] by blast
  let ?x = "map (\<lambda>t. (t, fill)) fs @ kept"
  have x: "?x \<noteq> []" "fst (last ?x) = fst (last kept)" using assms(4) by simp_all
  obtain bs where b: "pad_back ar fill m d ?x = ?x @ map (\<lambda>t. (t, fill)) bs" "series_upto m (?x @ map (\<lambda>t. (t, fill)) bs)"
    "set bs = {t. fst (last kept) < t \<and> t \<le> m \<and> on_grid d t}"
    using pad_back_result [OF assms(1,2) x(1) f(2), of fill] unfolding x(2) by blast
  let ?y = "?x @ map (\<lambda>t. (t, fill)) bs"
  have y: "?y \<noteq> []" using assms(4) by simp
  obtain es where e: "pad_end fill m ?y = ?y @ map (\<lambda>t. (t, fill)) es" "series_upto m (?y @ map (\<lambda>t. (t, fill)) es)"
    "last (map fst ?y @ es) = m" "set es = {t. fst (last ?y) < t \<and> t = m}" using pad_end_result [OF y b(2)] by blast
  have reached: "m = fst (last ?y) \<or> fst (last ?y) < m" 
    using b(2) last_in_set [OF y] unfolding series_upto_def by (metis order_le_less)
  have "fst (last ?y) = fst (last kept) \<or> fst (last ?y) \<in> set bs" by (cases "bs = []") (simp_all add: assms(4) last_map)
  then have "set (bs @ es) = {t. fst (last kept) < t \<and> t \<le> m \<and> (on_grid d t \<or> t = m)}"
    using reached unfolding set_append b(3) e(4) by auto
  moreover have "pad_series ar fill (Some ts) (Some vs) m d = map (\<lambda>t. (t, fill)) fs @ kept @ map (\<lambda>t. (t, fill)) (bs @ es)"
    using assms(4) by (simp add: pad_series_def Let_def assms(3) [symmetric] f(1) b(1) [unfolded append_assoc] e(1) [unfolded append_assoc])
  moreover have "sorted_wrt (<) (fs @ map fst kept @ (bs @ es))"
    using e(2) by (simp add: series_upto_def comp_def)
  moreover have "hd (fs @ map fst kept @ (bs @ es)) \<le> 0" using f(3) assms(4) by (cases fs; cases kept) auto
  moreover have "last (fs @ map fst kept @ (bs @ es)) = m" using e(3) assms(4) by (simp add: comp_def)
  ultimately show ?thesis using f(4) by blast
qed

text \<open>C37: the padded series has exactly the samples up to the end of the simulated time, in order, between a front and
  a back of filled in times. The front is the points of the grid, the multiples of the bin, from 0 up to the first
  sample; the back is the points of the grid behind the last sample, and the end itself when it is not on the grid.
  So the times increase, start at 0 or before, and end at the end of the simulated time. When no sample is kept, the series
  is the whole grid from 0 to the end. Missing probabilities are 1 and other missing values 0.\<close>

theorem padding:
  assumes "numpy_arange ar" and "0 < d" and "sorted_wrt (<) ts"
    and "kept = filter (\<lambda>(t, v). t \<le> m) (zip ts vs)"
  shows "\<forall>(pad, fill) \<in> {(truncate_and_pad_playback_prob, 1), (truncate_and_pad_data, 0)}. \<exists>fs bs.
    pad ar (Some ts) (Some vs) m d
      = (fs @ map fst kept @ bs, replicate (length fs) fill @ map snd kept @ replicate (length bs) fill)
    \<and> sorted_wrt (<) (fs @ map fst kept @ bs)
    \<and> (if kept = [] then fs = [] \<and> set bs = {t. 0 \<le> t \<and> t \<le> m \<and> on_grid d t}
       else set fs = {t. 0 \<le> t \<and> t < fst (hd kept) \<and> on_grid d t}
         \<and> set bs = {t. fst (last kept) < t \<and> t \<le> m \<and> (on_grid d t \<or> t = m)}
         \<and> hd (fs @ map fst kept @ bs) \<le> 0 \<and> last (fs @ map fst kept @ bs) = m)"
proof -
  let ?good = "\<lambda>fs bs. sorted_wrt (<) (fs @ map fst kept @ bs)
    \<and> (if kept = [] then fs = [] \<and> set bs = {t. 0 \<le> t \<and> t \<le> m \<and> on_grid d t}
       else set fs = {t. 0 \<le> t \<and> t < fst (hd kept) \<and> on_grid d t}
         \<and> set bs = {t. fst (last kept) < t \<and> t \<le> m \<and> (on_grid d t \<or> t = m)}
         \<and> hd (fs @ map fst kept @ bs) \<le> 0 \<and> last (fs @ map fst kept @ bs) = m)"
  have "\<exists>fs bs. (let xs = pad_series ar fill (Some ts) (Some vs) m d in (map fst xs, map snd xs))
      = (fs @ map fst kept @ bs, replicate (length fs) fill @ map snd kept @ replicate (length bs) fill) \<and> ?good fs bs" for fill
  proof -
    have "\<exists>fs bs. pad_series ar fill (Some ts) (Some vs) m d = map (\<lambda>t. (t, fill)) fs @ kept @ map (\<lambda>t. (t, fill)) bs \<and> ?good fs bs"
    proof (cases "kept = []")
      case True
      then have "pad_series ar fill (Some ts) (Some vs) m d = full_pad ar fill m d"
        using assms(4) by (simp add: pad_series_def Let_def)
      then show ?thesis using full_pad_result [OF assms(1,2), of fill m] True by (metis append_Nil list.simps(8))
    next
      case False
      then show ?thesis using pad_series_result [OF assms(1,2,4) False assms(3), of fill] by (simp only: if_False) blast
    qed
    then obtain fs bs where p: "pad_series ar fill (Some ts) (Some vs) m d = map (\<lambda>t. (t, fill)) fs @ kept @ map (\<lambda>t. (t, fill)) bs"
      "?good fs bs" by blast
    have "(let xs = pad_series ar fill (Some ts) (Some vs) m d in (map fst xs, map snd xs))
        = (fs @ map fst kept @ bs, replicate (length fs) fill @ map snd kept @ replicate (length bs) fill)"
      by (simp add: p(1) comp_def map_replicate_const)
    then show ?thesis using p(2) by blast
  qed
  then show ?thesis by (simp add: truncate_and_pad_playback_prob_def truncate_and_pad_data_def)
qed

lemma strict_unique: "sorted_wrt (<) xs \<Longrightarrow> sorted_wrt (<) ys \<Longrightarrow> set xs = set (ys :: rat list) \<Longrightarrow> xs = ys"
  by (simp add: strict_sorted_equal)

lemma unit_grid: "{t. 0 \<le> t \<and> t < 1 \<and> on_grid 1 t} = set [0 :: rat]"
  "{t. 2 < t \<and> t \<le> 9 / 2 \<and> (on_grid 1 t \<or> t = 9 / 2)} = set [3, 4, 9 / 2 :: rat]"
proof -
  have "t = 0" if g: "0 \<le> t" "t < 1" "on_grid 1 t" for t :: rat
  proof -
    obtain k :: int where k: "t = of_int k" using g(3) on_grid_iff [of 1 t] by auto
    then show ?thesis using g(1,2) by (cases "k \<le> 0") auto
  qed
  then show "{t. 0 \<le> t \<and> t < 1 \<and> on_grid 1 t} = set [0 :: rat]" by (auto simp: on_grid_def)
  have "t = 3 \<or> t = 4" if g: "2 < t" "t \<le> 9 / 2" "on_grid 1 t" for t :: rat
  proof -
    obtain k :: int where k: "t = of_int k" using g(3) on_grid_iff [of 1 t] by auto
    have "(of_int k :: rat) < 5" using g(2) k by linarith
    then have "2 < k" "k < 5" using g(1) k by simp_all
    then have "k = 3 \<or> k = 4" by presburger
    then show ?thesis using k by auto
  qed
  then show "{t. 2 < t \<and> t \<le> 9 / 2 \<and> (on_grid 1 t \<or> t = 9 / 2)} = set [3, 4, 9 / 2 :: rat]" by (auto simp: on_grid_def)
qed

theorem padding_witness:
  "truncate_and_pad_data np_arange (Some [1, 2, 9]) (Some [5, 6, 7]) (9 / 2) 1 = ([0, 1, 2, 3, 4, 9 / 2], [0, 5, 6, 0, 0, 0])"
proof -
  have "sorted_wrt (<) [1, 2, 9 :: rat]" "[(1, 5), (2, 6)] = filter (\<lambda>(t, v :: rat). t \<le> 9 / 2) (zip [1, 2, 9 :: rat] [5, 6, 7])"
    by simp_all
  from padding [OF np_arange_numpy _ this, of 1]
  obtain fs bs where p: "truncate_and_pad_data np_arange (Some [1, 2, 9]) (Some [5, 6, 7]) (9 / 2) 1
     = (fs @ [1, 2] @ bs, replicate (length fs) 0 @ [5, 6] @ replicate (length bs) 0)"
    "sorted_wrt (<) (fs @ [1, 2] @ bs)" "set fs = {t. 0 \<le> t \<and> t < 1 \<and> on_grid 1 t}"
    "set bs = {t. 2 < t \<and> t \<le> 9 / 2 \<and> (on_grid 1 t \<or> t = 9 / 2)}" by auto
  have "sorted_wrt (<) fs" "sorted_wrt (<) bs" using p(2) by (simp_all add: sorted_wrt_append)
  then have "fs = [0]" "bs = [3, 4, 9 / 2]"
    using strict_unique [of fs "[0]"] strict_unique [of bs "[3, 4, 9 / 2]"] p(3,4) unit_grid by simp_all
  then show ?thesis using p(1) by simp
qed

section \<open>One user is the data rate\<close>

lemma windows_left: "sorted (c # bs) \<Longrightarrow> (a, b) \<in> set (windows (c # bs)) \<Longrightarrow> c \<le> a"
  by (induction bs arbitrary: c) (auto intro: order_trans)

lemma bin_mbps_bytes: "bin_mbps d a b rx = of_int (bytes_between a b rx * 8) / (d * 1000000)"
  by (simp add: bin_mbps_def bytes_between_def)

lemma average_single: "average [x] = x"
  by (simp add: average_def)

lemma rate_loop_windows:
  "sorted bins \<Longrightarrow> sorted (map fst xs) \<Longrightarrow> rate_loop d bins xs =
    concat (map (\<lambda>(a, b). if 0 < bytes_between a b xs then [(a + d / 2, of_int (bytes_between a b xs * 8) / (d * 1000))] else [])
      (windows bins))"
proof (induction d bins xs rule: rate_loop.induct)
  case (1 d b0 b1 bins xs)
  let ?xs = "dropWhile (\<lambda>(t, n). t < b1) xs"
  have "sorted (map fst ?xs)" using 1(3) by (induction xs) auto
  moreover have "bytes_between a b ?xs = bytes_between a b xs" if "(a, b) \<in> set (windows (b1 # bins))" for a b
  proof -
    have "sorted (b1 # bins)" using 1(2) by simp
    then have "b1 \<le> a" using that by (rule windows_left)
    then show ?thesis by (rule bytes_between_dropWhile [OF 1(3)])
  qed
  ultimately have "rate_loop d (b1 # bins) ?xs = concat (map (\<lambda>(a, b). if 0 < bytes_between a b xs
      then [(a + d / 2, of_int (bytes_between a b xs * 8) / (d * 1000))] else []) (windows (b1 # bins)))"
    using 1(1) [OF take_bin_result [OF 1(3), of b0 b1 0, symmetric] refl] 1(2)
    by (auto intro!: arg_cong [of _ _ concat] map_cong)
  then show ?case by (simp add: take_bin_result [OF 1(3)])
qed simp_all

lemma half_second_rates:
  "concat (map (\<lambda>(a, b). if 0 < bytes_between a b rx then [(a + 1 / 2 / 2, of_int (bytes_between a b rx * 8) / (1 / 2 * 1000))] else []) ws)
    = map (\<lambda>(t, mbps). (t, mbps * 1000)) (filter (\<lambda>(t, mbps). 0 < mbps)
      (map (\<lambda>(a, b). (a + 1 / 2 / 2, average (map (bin_mbps (1 / 2) a b) [rx]))) ws))"
  by (induction ws) (auto simp: bin_mbps_bytes average_single)

text \<open>For one user the average across users is the data rate of that user: both functions cut the trace into the
  same bins, and \<open>calculate_data_rate_kbps\<close> gives in kbps the bins in which \<open>parse_multi_user_rx_data\<close> has a rate that is
  not 0.\<close>

theorem single_user:
  assumes "numpy_arange ar" and "rx \<noteq> []" and "sorted (map fst rx)"
  shows "calculate_data_rate_kbps ar rx (1 / 2)
    = map (\<lambda>(t, mbps). (t, mbps * 1000)) (filter (\<lambda>(t, mbps). 0 < mbps) (aggregate_users ar [rx]))"
proof -
  let ?bins = "ar (fst (hd rx)) (fst (last rx) + 1 / 2) (1 / 2)"
  have s: "sort_key fst rx = rx" by (rule sort_key_id [OF assms(3)])
  have "sorted ?bins" by (simp add: arange_equi [OF assms(1)] sorted_equi)
  then have "rate_loop (1 / 2) ?bins rx = concat (map (\<lambda>(a, b). if 0 < bytes_between a b rx
      then [(a + 1 / 2 / 2, of_int (bytes_between a b rx * 8) / (1 / 2 * 1000))] else []) (windows ?bins))"
    by (rule rate_loop_windows) (rule assms(3))
  also have "\<dots> = map (\<lambda>(t, mbps). (t, mbps * 1000)) (filter (\<lambda>(t, mbps). 0 < mbps)
      (map (\<lambda>(a, b). (a + 1 / 2 / 2, average (map (bin_mbps (1 / 2) a b) [rx]))) (windows ?bins)))"
    by (rule half_second_rates)
  finally show ?thesis using assms(2) by (simp add: calculate_data_rate_kbps_def s aggregate_users_def Let_def)
qed

theorem single_user_witness:
  "calculate_data_rate_kbps np_arange [(0, 100), (1, 300)] (1 / 2)
    = map (\<lambda>(t, mbps). (t, mbps * 1000)) (filter (\<lambda>(t, mbps). 0 < mbps) (aggregate_users np_arange [[(0, 100), (1, 300)]]))"
  by (rule single_user [OF np_arange_numpy]) simp_all

section \<open>The values of a run on the bins\<close>

definition held :: "rat \<Rightarrow> sample list \<Rightarrow> rat" where
  "held a run = (let before = filter (\<lambda>(t, v). t \<le> a) run in if before = [] then 0 else snd (last before))"

definition bin_val :: "sample list \<Rightarrow> rat \<times> rat \<Rightarrow> rat" where
  "bin_val run w =
     (let inside = filter (\<lambda>(t, v). fst w < t \<and> t \<le> snd w) run
      in if inside = [] then held (fst w) run else average (map snd inside))"

lemma take_upto_result:
  "take_upto e xs = (map snd (takeWhile (\<lambda>(t, v). t \<le> e) xs), dropWhile (\<lambda>(t, v). t \<le> e) xs)"
  by (induction xs) auto

lemma bin_split:
  fixes run :: "sample list"
  assumes "sorted (map fst run)" and "a < (e :: rat)"
  shows "takeWhile (\<lambda>(t, v). t \<le> e) (dropWhile (\<lambda>(t, v). t \<le> a) run) = filter (\<lambda>(t, v). a < t \<and> t \<le> e) run"
    and "dropWhile (\<lambda>(t, v). t \<le> e) (dropWhile (\<lambda>(t, v). t \<le> a) run) = dropWhile (\<lambda>(t, v). t \<le> e) run"
    and "filter (\<lambda>(t, v). t \<le> e) run = filter (\<lambda>(t, v). t \<le> a) run @ filter (\<lambda>(t, v). a < t \<and> t \<le> e) run"
proof -
  have tw: "takeWhile (\<lambda>(t, v). t \<le> e) xs = filter (\<lambda>(t, v). t \<le> e) xs" if "sorted (map fst xs)" for xs :: "sample list"
    using that by (induction xs) (auto simp: filter_empty_conv empty_filter_conv)
  show "takeWhile (\<lambda>(t, v). t \<le> e) (dropWhile (\<lambda>(t, v). t \<le> a) run) = filter (\<lambda>(t, v). a < t \<and> t \<le> e) run"
    using assms(1)
  proof (induction run)
    case (Cons x run)
    show ?case
    proof (cases "fst x \<le> a")
      case False
      then have "filter (\<lambda>(t, v). a < t \<and> t \<le> e) (x # run) = filter (\<lambda>(t, v). t \<le> e) (x # run)"
        using Cons.prems by (intro filter_cong) auto
      moreover have "takeWhile (\<lambda>(t, v). t \<le> e) (x # run) = filter (\<lambda>(t, v). t \<le> e) (x # run)" by (rule tw [OF Cons.prems])
      moreover have "dropWhile (\<lambda>(t, v). t \<le> a) (x # run) = x # run" using False by (cases x) simp
      ultimately show ?thesis by simp
    qed (use Cons in \<open>cases x, auto\<close>)
  qed simp
  show "dropWhile (\<lambda>(t, v). t \<le> e) (dropWhile (\<lambda>(t, v). t \<le> a) run) = dropWhile (\<lambda>(t, v). t \<le> e) run"
    using assms(2) by (induction run) auto
  show "filter (\<lambda>(t, v). t \<le> e) run = filter (\<lambda>(t, v). t \<le> a) run @ filter (\<lambda>(t, v). a < t \<and> t \<le> e) run"
    using assms(1)
  proof (induction run)
    case (Cons x run)
    have "filter (\<lambda>(t, v). t \<le> a) run = []" if "a < fst x"
      using that Cons.prems by (auto simp: filter_empty_conv)
    then show ?case using Cons assms(2) by (cases x) auto
  qed simp
qed

lemma hold_loop_result:
  assumes "sorted (map fst run)"
  shows "sorted_wrt (<) (a # ends) \<Longrightarrow>
    hold_loop ends (held a run) (dropWhile (\<lambda>(t, v). t \<le> a) run) = map (bin_val run) (windows (a # ends))"
proof (induction ends arbitrary: a)
  case (Cons e ends)
  have lt: "a < e" using Cons.prems by simp
  let ?in = "filter (\<lambda>(t, v). a < t \<and> t \<le> e) run"
  have "held e run = (if ?in = [] then held a run else snd (last ?in))"
    unfolding held_def bin_split(3) [OF assms lt] by (simp add: Let_def)
  then have "held e run = (if map snd ?in = [] then held a run else last (map snd ?in))" by (simp add: last_map)
  then show ?case using Cons.IH [of e] Cons.prems lt
    by (simp add: take_upto_result bin_split(1,2) [OF assms lt] Let_def bin_val_def)
qed simp

text \<open>The value of a run in the bin \<open>i\<close> of the bins of length \<open>d\<close> from \<open>start\<close> on.\<close>

definition bin_value :: "rat \<Rightarrow> rat \<Rightarrow> nat \<Rightarrow> sample list \<Rightarrow> rat" where
  "bin_value start d i run =
     (let inside = filter (\<lambda>(t, v). (i = 0 \<or> start + of_nat i * d < t) \<and> t \<le> start + of_nat (Suc i) * d) run
      in if inside = [] then held (start + of_nat i * d) run else average (map snd inside))"

lemma hold_loop_bins:
  assumes "sorted (map fst run)" and "0 < d" and "\<forall>(t, v) \<in> set run. start \<le> t"
  shows "hold_loop (equi (start + d) d n) 0 run = map (\<lambda>i. bin_value start d i run) [0 ..< n]"
proof (cases n)
  case (Suc m)
  let ?a = "start - 1"
  have none: "filter (\<lambda>(t, v). t \<le> ?a) run = []" using assms(3) by (force simp: filter_empty_conv)
  have "dropWhile (\<lambda>(t, v). t \<le> ?a) run = run" using assms(3) by (cases run) auto
  moreover have h: "held ?a run = 0" by (simp add: held_def none)
  moreover have "sorted_wrt (<) (?a # equi (start + d) d n)"
    using strict_equi [OF assms(2), of "start + d" n] equi_ge [of d _ "start + d" n] assms(2) by fastforce
  ultimately have "hold_loop (equi (start + d) d n) 0 run = map (bin_val run) (windows (?a # equi (start + d) d n))"
    using hold_loop_result [OF assms(1), of ?a "equi (start + d) d n"] by simp
  also have "windows (?a # equi (start + d) d n) = (?a, start + d) # map (\<lambda>t. (t, t + d)) (equi (start + d) d m)"
    using windows_equi [of "start + d" d m] by (simp add: Suc equi_Suc)
  also have "map (bin_val run) \<dots> = bin_value start d 0 run # map (\<lambda>i. bin_value start d (Suc i) run) [0 ..< m]"
  proof -
    have in0: "filter (\<lambda>(t, v). ?a < t \<and> t \<le> start + d) run = filter (\<lambda>(t, v). t \<le> start + d) run"
      using assms(3) by (intro filter_cong) auto
    have "held start run = 0" if "filter (\<lambda>(t, v). t \<le> start + d) run = []"
    proof -
      have "filter (\<lambda>(t, v). t \<le> start) run = []" using that assms(2) by (force simp: filter_empty_conv)
      then show ?thesis by (simp add: held_def)
    qed
    then have "bin_val run (?a, start + d) = bin_value start d 0 run" by (simp add: bin_val_def bin_value_def in0 h Let_def)
    moreover have "bin_val run (start + d + of_nat i * d, start + d + of_nat i * d + d) = bin_value start d (Suc i) run" for i
    proof -
      have "start + of_nat (Suc i) * d = start + d + of_nat i * d" "start + of_nat (Suc (Suc i)) * d = start + d + of_nat i * d + d"
        by (simp_all add: algebra_simps)
      then show ?thesis by (simp only: bin_val_def bin_value_def fst_conv snd_conv) simp
    qed
    ultimately show ?thesis by (simp add: equi_def)
  qed
  also have "\<dots> = map (\<lambda>i. bin_value start d i run) [0 ..< n]"
    unfolding Suc by (simp add: upt_conv_Cons map_Suc_upt [symmetric] comp_def del: upt_Suc)
  finally show ?thesis .
qed simp

text \<open>C36: for runs sorted by time, the aggregated series has in every bin the average over the runs of the value of
  the run in that bin, which is the average of its samples there, or its last sample before, or 0 when it has none; no
  sample lies outside the bins unless all samples have one time. The comment above the loop announces something else, the
  last value before or within the bin; a later one in the loop says that the values in a bin are averaged, which is done.\<close>

theorem aggregate_hold:
  assumes "numpy_arange ar" and "0 < d" and "\<forall>r \<in> set runs. sorted (map fst r)" and "\<exists>r \<in> set runs. r \<noteq> []"
  shows "\<exists>start n. aggregate_bitrate ar std runs d g =
      (map (\<lambda>i. start + of_nat i * d + d / 2) [0 ..< n],
       map (\<lambda>i. average (map (bin_value start d i) runs)) [0 ..< n],
       map (\<lambda>i. std (map (bin_value start d i) runs)) [0 ..< n])
    \<and> (\<forall>r \<in> set runs. \<forall>(t, v) \<in> set r. start \<le> t \<and> t \<le> start + of_nat n * d)"
proof -
  let ?runs = "filter (\<lambda>r. r \<noteq> []) runs"
  define start where "start = Min (set (map (fst \<circ> hd) ?runs))"
  define top_time where "top_time = (case g of None \<Rightarrow> Max (set (map (fst \<circ> last) ?runs))
    | Some g \<Rightarrow> max (Max (set (map (fst \<circ> last) ?runs))) g)"
  define n where "n = nat \<lceil>(top_time - start) / d\<rceil>"
  have range: "start \<le> t \<and> t \<le> top_time" if "r \<in> set runs" "(t, v) \<in> set r" for r t v
  proof -
    have r: "r \<in> set ?runs" using that by auto
    have s: "sorted (map fst r)" using assms(3) that(1) by blast
    have "start \<le> fst (hd r)" unfolding start_def using r by (intro Min_le) auto
    moreover have "fst (hd r) \<le> t" using s that(2) by (cases r) auto
    moreover have "t \<le> fst (last r)" using s that(2) by (cases r rule: rev_cases) (auto simp: sorted_append)
    moreover have "fst (last r) \<le> Max (set (map (fst \<circ> last) ?runs))" using r by (intro Max_ge) auto
    ultimately show ?thesis unfolding top_time_def by (auto split: option.splits)
  qed
  obtain r where r: "r \<in> set runs" "r \<noteq> []" using assms(4) by blast
  then have ne: "?runs \<noteq> []" by (auto simp: filter_empty_conv)
  have "start \<le> top_time" using range [OF r(1), of "fst (hd r)" "snd (hd r)"] r(2) by simp
  then have bins: "ar start (top_time + d) d = equi start d (Suc n)"
    using bins_arange [OF assms(1,2)] by (simp add: equi_def n_def)
  have rows: "map (hold_loop (drop 1 (equi start d (Suc n))) 0) runs = map (\<lambda>r. map (\<lambda>i. bin_value start d i r) [0 ..< n]) runs"
  proof (rule map_cong)
    fix r
    assume r: "r \<in> set runs"
    then have "\<forall>(t, v) \<in> set r. start \<le> t" using range by blast
    then show "hold_loop (drop 1 (equi start d (Suc n))) 0 r = map (\<lambda>i. bin_value start d i r) [0 ..< n]"
      using hold_loop_bins [OF _ assms(2)] assms(3) r by (simp add: equi_Suc)
  qed simp
  have cols: "map (\<lambda>i. map (\<lambda>row. row ! i) (map (\<lambda>r. map (\<lambda>i. bin_value start d i r) [0 ..< n]) runs)) [0 ..< n]
      = map (\<lambda>i. map (bin_value start d i) runs) [0 ..< n]"
    by (simp add: comp_def)
  have cs: "centers d (equi start d (Suc n)) = map (\<lambda>i. start + of_nat i * d + d / 2) [0 ..< n]"
    by (auto simp: centers_def equi_def nth_append simp del: upt_Suc)
  have "aggregate_bitrate ar std runs d g =
      (map (\<lambda>i. start + of_nat i * d + d / 2) [0 ..< n],
       map average (map (\<lambda>i. map (bin_value start d i) runs) [0 ..< n]),
       map std (map (\<lambda>i. map (bin_value start d i) runs) [0 ..< n]))"
    unfolding aggregate_bitrate_def Let_def start_def [symmetric] top_time_def [symmetric] bins rows cs equi_simps(2)
      if_not_P [OF ne] diff_Suc_1 cols by (rule refl)
  moreover have "t \<le> start + of_nat n * d" if "r \<in> set runs" "(t, v) \<in> set r" for r t v
  proof -
    have "(top_time - start) / d \<le> of_nat n" unfolding n_def by linarith
    then have "top_time \<le> start + of_nat n * d" using assms(2) by (simp add: pos_divide_le_eq)
    then show ?thesis using range [OF that] by simp
  qed
  ultimately show ?thesis using range by (intro exI [of _ start] exI [of _ n]) (auto simp: comp_def)
qed

theorem aggregate_hold_witness:
  "\<exists>start n. fst (snd (aggregate_bitrate np_arange average [[(0, 4), (3, 8)], [(1, 2)]] 1 None))
    = map (\<lambda>i. average (map (bin_value start 1 i) [[(0, 4), (3, 8)], [(1, 2)]])) [0 ..< n]"
proof -
  have "\<forall>r \<in> set [[(0 :: rat, 4 :: rat), (3, 8)], [(1, 2)]]. sorted (map fst r)" by simp
  from aggregate_hold [OF np_arange_numpy _ this, of 1 average None]
  obtain start n where "aggregate_bitrate np_arange average [[(0, 4), (3, 8)], [(1, 2)]] 1 None =
      (map (\<lambda>i. start + of_nat i * 1 + 1 / 2) [0 ..< n],
       map (\<lambda>i. average (map (bin_value start 1 i) [[(0, 4), (3, 8)], [(1, 2)]])) [0 ..< n],
       map (\<lambda>i. average (map (bin_value start 1 i) [[(0, 4), (3, 8)], [(1, 2)]])) [0 ..< n])"
    by auto
  then show ?thesis by (metis fst_conv snd_conv)
qed

end
