(* ===== verification/PlayBands.thy ===== *)
theory PlayBands
  imports PlayAggregate
begin

text \<open>
  \<open>scripts/plot_bitrate_playback.py\<close>, the curves across users: the percentiles of the bitrates of the users
  (\<open>aggregate_bitrate_percentiles\<close>), the resampling of a series on a grid (\<open>_stepwise_interp\<close>) and the curve of a
  group of runs (\<open>_run_median_then_mean_across_runs\<close>, \<open>smooth_data\<close>). The functions of numpy are parameters; what
  the script relies on of them is stated once, beside a function that does it.
\<close>

section \<open>Percentiles across users\<close>

type_synonym percentile = "rat list \<Rightarrow> rat \<Rightarrow> rat"

text \<open>The inner loop: the samples up to the end of the bin are consumed and the last value is kept.\<close>

fun take_held :: "rat \<Rightarrow> rat \<Rightarrow> sample list \<Rightarrow> rat \<times> sample list" where
  "take_held bin_end node_last [] = (node_last, [])"
| "take_held bin_end node_last ((t, v) # xs) =
     (if t \<le> bin_end then take_held bin_end v xs else (node_last, (t, v) # xs))"

fun user_loop :: "rat list \<Rightarrow> (rat \<times> sample list) list \<Rightarrow> rat list list" where
  "user_loop [] nodes = []"
| "user_loop (bin_end # ends) nodes =
     (let nodes = map (\<lambda>(node_last, xs). take_held bin_end node_last xs) nodes
      in map fst nodes # user_loop ends nodes)"

definition node_series :: "by_node \<Rightarrow> sample list list" where
  "node_series run_nodes = map (\<lambda>(_, series). sort_samples series) (filter (\<lambda>(_, series). series \<noteq> []) run_nodes)"

definition bin_percentile :: "percentile \<Rightarrow> rat \<Rightarrow> rat list \<Rightarrow> rat" where
  "bin_percentile percentile q values = (if values = [] then 0 else percentile values q)"

definition aggregate_bitrate_percentiles ::
    "arange \<Rightarrow> percentile \<Rightarrow> (rat list \<Rightarrow> rat) \<Rightarrow> by_node list \<Rightarrow> rat \<Rightarrow> rat option
      \<Rightarrow> rat list \<times> rat list \<times> rat list \<times> rat list" where
  "aggregate_bitrate_percentiles arange percentile median all_runs_bitrate_by_node time_bin global_max_time =
     (let series = filter (\<lambda>s. s \<noteq> []) (map snd (concat all_runs_bitrate_by_node)) in
      if series = [] then ([], [], [], [])
      else
        (let min_time = Min (set (map (fst \<circ> hd) series));
             last_time = Max (set (map (fst \<circ> last) series));
             max_time = (case global_max_time of None \<Rightarrow> last_time | Some g \<Rightarrow> max last_time g);
             bins = arange min_time (max_time + time_bin) time_bin;
             runs = filter (\<lambda>ns. ns \<noteq> []) (map node_series all_runs_bitrate_by_node);
             values = map (\<lambda>ns. user_loop (drop 1 bins) (map (Pair 0) ns)) runs;
             curve = \<lambda>q. map (\<lambda>i. median (map (\<lambda>run. bin_percentile percentile q (run ! i)) values)) [0 ..< length bins - 1]
         in (centers time_bin bins, curve 50, curve 25, curve 75)))"

section \<open>A series on a grid\<close>

definition stepwise_interp :: "(rat list \<Rightarrow> rat \<Rightarrow> nat) \<Rightarrow> rat list \<Rightarrow> rat list \<Rightarrow> rat list \<Rightarrow> rat \<Rightarrow> rat list py" where
  "stepwise_interp searchsorted grid ts values fill_value =
     fold_e (\<lambda>out g.
         let idx = int (searchsorted ts g) - 1
         in if 0 \<le> idx then (if nat idx < length values then Inr (out @ [values ! nat idx]) else Inl IndexError)
            else Inr (out @ [fill_value])) [] grid"

definition smooth_data :: "(rat list \<Rightarrow> rat list \<Rightarrow> rat list) \<Rightarrow> rat list \<Rightarrow> nat \<Rightarrow> rat list" where
  "smooth_data convolve data window_size =
     (if length data < window_size then data
      else convolve data (replicate window_size (1 / of_nat window_size)))"

text \<open>The rows of a table in groups, in the order in which the groups first occur.\<close>

definition append_row :: "'k \<Rightarrow> 'a \<Rightarrow> ('k \<times> 'a list) list \<Rightarrow> ('k \<times> 'a list) list" where
  "append_row k r d = AList.update k ((case map_of d k of None \<Rightarrow> [] | Some rs \<Rightarrow> rs) @ [r]) d"

definition group_rows :: "('a \<Rightarrow> 'k) \<Rightarrow> 'a list \<Rightarrow> ('k \<times> 'a list) list" where
  "group_rows k rows = foldl (\<lambda>d r. append_row (k r) r d) [] rows"

definition user_curve :: "(rat list \<Rightarrow> rat \<Rightarrow> nat) \<Rightarrow> rat list \<Rightarrow> sample list \<Rightarrow> rat list py" where
  "user_curve searchsorted grid series =
     (if series = [] then Inr (map (\<lambda>_. 0) grid)
      else stepwise_interp searchsorted grid (map fst series) (map snd series) 0)"

definition run_curve :: "(rat list \<Rightarrow> rat \<Rightarrow> nat) \<Rightarrow> (rat list \<Rightarrow> rat) \<Rightarrow> rat list \<Rightarrow> sample list list \<Rightarrow> rat list py" where
  "run_curve searchsorted median grid serieses =
     bind_e (fold_e (\<lambda>acc s. bind_e (user_curve searchsorted grid s) (\<lambda>v. Inr (acc @ [v]))) [] serieses) (\<lambda>interp_values.
       Inr (map (\<lambda>i. median (map (\<lambda>v. v ! i) interp_values)) [0 ..< length grid]))"

text \<open>
  A row is the algorithm, the run and the series of one user under the key. \<open>smooth\<close> says that the key is not
  \<open>playback_state_series\<close>; \<open>AGGREGATED_CURVE_SMOOTH_WINDOW\<close> is 5.
\<close>

definition run_median_then_mean_across_runs ::
    "(rat list \<Rightarrow> rat \<Rightarrow> nat) \<Rightarrow> (rat list \<Rightarrow> rat) \<Rightarrow> (rat list \<Rightarrow> rat) \<Rightarrow> (rat list \<Rightarrow> rat list \<Rightarrow> rat list)
      \<Rightarrow> bool \<Rightarrow> ((string \<times> string) \<times> sample list) list \<Rightarrow> rat list \<Rightarrow> rat list option py" where
  "run_median_then_mean_across_runs searchsorted median mean convolve smooth rows grid =
     (if rows = [] \<or> grid = [] then Inr None
      else
        bind_e (fold_e (\<lambda>acc (_, rs). bind_e (run_curve searchsorted median grid (map snd rs)) (\<lambda>c. Inr (acc @ [c])))
            [] (group_rows fst rows)) (\<lambda>run_curves.
          let curve = map (\<lambda>i. mean (map (\<lambda>c. c ! i) run_curves)) [0 ..< length grid]
          in Inr (Some (if smooth then smooth_data convolve curve 5 else curve))))"

section \<open>What the script relies on of numpy\<close>

definition np_median :: "rat list \<Rightarrow> rat" where
  "np_median xs = (let s = sort xs; n = length xs in (s ! ((n - 1) div 2) + s ! (n div 2)) / 2)"

definition numpy_median :: "(rat list \<Rightarrow> rat) \<Rightarrow> bool" where
  "numpy_median median \<longleftrightarrow> (\<forall>xs. xs \<noteq> [] \<longrightarrow> median xs =
     (sort xs ! ((length xs - 1) div 2) + sort xs ! (length xs div 2)) / 2)"

text \<open>The linear interpolation between the two closest ranks.\<close>

definition at_rank :: "rat list \<Rightarrow> rat \<Rightarrow> rat" where
  "at_rank s h =
     (let i = nat \<lfloor>h\<rfloor>; j = min (Suc i) (length s - 1) in s ! i + (h - of_nat i) * (s ! j - s ! i))"

definition np_percentile :: percentile where
  "np_percentile xs q = at_rank (sort xs) (of_nat (length xs - 1) * q / 100)"

definition numpy_percentile :: "percentile \<Rightarrow> bool" where
  "numpy_percentile percentile \<longleftrightarrow> (\<forall>xs q. xs \<noteq> [] \<longrightarrow> 0 \<le> q \<longrightarrow> q \<le> 100 \<longrightarrow>
     percentile xs q = at_rank (sort xs) (of_nat (length xs - 1) * q / 100))"

definition np_searchsorted :: "rat list \<Rightarrow> rat \<Rightarrow> nat" where
  "np_searchsorted a v = length (filter (\<lambda>x. x \<le> v) a)"

definition numpy_searchsorted :: "(rat list \<Rightarrow> rat \<Rightarrow> nat) \<Rightarrow> bool" where
  "numpy_searchsorted ss \<longleftrightarrow> (\<forall>a v. sorted a \<longrightarrow> ss a v = length (filter (\<lambda>x. x \<le> v) a))"

lemma numpy_instances: "numpy_median np_median" "numpy_percentile np_percentile" "numpy_searchsorted np_searchsorted"
  by (simp_all add: numpy_median_def np_median_def numpy_percentile_def np_percentile_def
    numpy_searchsorted_def np_searchsorted_def Let_def)

section \<open>The values of the users at the end of a bin\<close>

lemma take_held_twice:
  "a \<le> e \<Longrightarrow> take_held e (fst (take_held a l xs)) (snd (take_held a l xs)) = take_held e l xs"
  by (induction a l xs rule: take_held.induct) auto

lemma user_loop_result:
  "sorted ends \<Longrightarrow> user_loop ends nodes = map (\<lambda>e. map (\<lambda>(l, xs). fst (take_held e l xs)) nodes) ends"
proof (induction ends arbitrary: nodes)
  case (Cons e ends)
  have "user_loop ends (map (\<lambda>(l, xs). take_held e l xs) nodes)
      = map (\<lambda>e'. map (\<lambda>(l, xs). fst (take_held e' l xs)) (map (\<lambda>(l, xs). take_held e l xs) nodes)) ends"
    using Cons by simp
  also have "\<dots> = map (\<lambda>e'. map (\<lambda>(l, xs). fst (take_held e' l xs)) nodes) ends"
    using Cons.prems by (auto simp: take_held_twice case_prod_beta)
  finally show ?case by (simp add: case_prod_beta comp_def)
qed simp

lemma take_held_value: "fst (take_held e l xs) = (let w = takeWhile (\<lambda>(t, v). t \<le> e) xs in if w = [] then l else snd (last w))"
  by (induction e l xs rule: take_held.induct) (auto simp: Let_def)

lemma takeWhile_upto:
  "sorted (map fst xs) \<Longrightarrow> takeWhile (\<lambda>(t, v). t \<le> e) xs = filter (\<lambda>(t, v). t \<le> (e :: rat)) xs"
  by (induction xs) (auto simp: filter_empty_conv empty_filter_conv)

lemma take_held_held: "sorted (map fst xs) \<Longrightarrow> fst (take_held e 0 xs) = held e xs"
  by (simp add: take_held_value takeWhile_upto held_def)

section \<open>Order\<close>

lemma at_rank_mono:
  assumes "sorted s" and "0 \<le> h" and "h \<le> h'" and "h' \<le> of_nat (length s - 1)" and "s \<noteq> []"
  shows "at_rank s h \<le> at_rank s h'"
proof -
  let ?n = "length s" and ?i = "nat \<lfloor>h\<rfloor>" and ?i' = "nat \<lfloor>h'\<rfloor>"
  let ?j = "min (Suc ?i) (?n - 1)" and ?j' = "min (Suc ?i') (?n - 1)"
  have n: "0 < ?n" using assms(5) by simp
  have le: "?i \<le> ?i'" using assms(3) by (intro nat_mono floor_mono)
  have "\<lfloor>h'\<rfloor> \<le> int (?n - 1)" using assms(4) by linarith
  then have i': "?i' < ?n" using n by linarith
  have mono: "s ! a \<le> s ! b" if "a \<le> b" "b < ?n" for a b using assms(1) that by (simp add: sorted_nth_mono)
  have frac: "0 \<le> h - of_nat ?i" "h - of_nat ?i \<le> 1" "0 \<le> h' - of_nat ?i'" using assms(2,3) by linarith+
  have step: "s ! ?i \<le> s ! ?j" "s ! ?i' \<le> s ! ?j'" using le i' by (intro mono; linarith)+
  show ?thesis
  proof (cases "?i = ?i'")
    case True
    then have "(h - of_nat ?i) * (s ! ?j - s ! ?i) \<le> (h' - of_nat ?i') * (s ! ?j' - s ! ?i')"
      using assms(3) step by (auto intro: mult_right_mono)
    then show ?thesis using True by (simp add: at_rank_def Let_def)
  next
    case False
    have "(h - of_nat ?i) * (s ! ?j - s ! ?i) \<le> 1 * (s ! ?j - s ! ?i)" using frac(2) step(1) by (intro mult_right_mono) auto
    then have "at_rank s h \<le> s ! ?j" by (simp add: at_rank_def Let_def)
    also have "\<dots> \<le> s ! ?i'" using False le i' by (intro mono) linarith+
    also have "\<dots> \<le> at_rank s h'" using frac(3) step(2) by (simp add: at_rank_def Let_def)
    finally show ?thesis .
  qed
qed

lemma percentile_mono:
  assumes "numpy_percentile percentile" and "0 \<le> q" and "q \<le> q'" and "q' \<le> 100"
  shows "bin_percentile percentile q xs \<le> bin_percentile percentile q' xs"
proof (cases "xs = []")
  case False
  let ?n = "of_nat (length xs - 1) :: rat"
  have "?n * q / 100 \<le> ?n * q' / 100" using assms(3) by (simp add: divide_right_mono mult_left_mono)
  moreover have "?n * q' / 100 \<le> ?n" using mult_left_mono [OF assms(4), of ?n] by simp
  moreover have "sort xs \<noteq> []" using False by (metis length_0_conv length_sort)
  ultimately have "at_rank (sort xs) (?n * q / 100) \<le> at_rank (sort xs) (?n * q' / 100)"
    using assms(2) by (intro at_rank_mono) auto
  then show ?thesis using assms False by (simp add: bin_percentile_def numpy_percentile_def)
qed (simp add: bin_percentile_def)

lemma takeWhile_le: "sorted s \<Longrightarrow> takeWhile (\<lambda>x. x \<le> v) s = filter (\<lambda>x. x \<le> (v :: rat)) s"
  by (induction s) (auto simp: filter_empty_conv empty_filter_conv)

lemma sort_nth_le:
  assumes "list_all2 (\<le>) xs (ys :: rat list)" and "k < length xs"
  shows "sort xs ! k \<le> sort ys ! k"
proof -
  let ?v = "sort ys ! k" and ?le = "\<lambda>v xs. length (filter (\<lambda>x. x \<le> v) xs)"
  have len: "length xs = length ys" using assms(1) by (rule list_all2_lengthD)
  have sort: "?le v (sort zs) = ?le v zs" for v and zs :: "rat list"
    by (metis mset_filter mset_sort size_mset)
  have more: "?le v ys \<le> ?le v xs" for v using assms(1) by (induction rule: list_all2_induct) auto
  have "filter (\<lambda>x. x \<le> ?v) (take (Suc k) (sort ys)) = take (Suc k) (sort ys)"
    using assms(2) len by (auto simp: filter_id_conv in_set_conv_nth intro!: sorted_nth_mono)
  then have "length (take (Suc k) (sort ys)) \<le> ?le ?v (sort ys)"
    by (metis append_take_drop_id filter_append length_append le_add1)
  then have "k < ?le ?v (sort ys)" using assms(2) len by simp
  then have k: "k < ?le ?v (sort xs)" using more [of ?v] by (simp add: sort)
  have tw: "filter (\<lambda>x. x \<le> ?v) (sort xs) = takeWhile (\<lambda>x. x \<le> ?v) (sort xs)"
    by (simp add: takeWhile_le)
  have "sort xs ! k = takeWhile (\<lambda>x. x \<le> ?v) (sort xs) ! k" using k tw by (simp add: takeWhile_nth)
  also have "\<dots> \<le> ?v" using k tw nth_mem set_takeWhileD by metis
  finally show ?thesis .
qed

lemma median_mono:
  assumes "numpy_median median" and "list_all2 (\<le>) xs (ys :: rat list)" and "xs \<noteq> []"
  shows "median xs \<le> median ys"
proof -
  have len: "length xs = length ys" using assms(2) by (rule list_all2_lengthD)
  have k: "(length xs - 1) div 2 < length xs" "length xs div 2 < length xs" using assms(3) by (cases xs; auto)+
  have "sort xs ! ((length xs - 1) div 2) \<le> sort ys ! ((length xs - 1) div 2)" "sort xs ! (length xs div 2) \<le> sort ys ! (length xs div 2)"
    using sort_nth_le [OF assms(2)] k by auto
  moreover have "ys \<noteq> []" using assms(3) len by auto
  then have "median xs = (sort xs ! ((length xs - 1) div 2) + sort xs ! (length xs div 2)) / 2"
    "median ys = (sort ys ! ((length xs - 1) div 2) + sort ys ! (length xs div 2)) / 2"
    using assms(1,3) len by (simp_all add: numpy_median_def)
  ultimately show ?thesis by simp
qed

section \<open>The percentile curves\<close>

text \<open>The median over the runs of a percentile of the values that the users of the run hold at the end of the bin \<open>i\<close>.\<close>

definition band :: "percentile \<Rightarrow> (rat list \<Rightarrow> rat) \<Rightarrow> by_node list \<Rightarrow> rat \<Rightarrow> rat \<Rightarrow> rat \<Rightarrow> nat \<Rightarrow> rat" where
  "band percentile median runs start d q i =
     median (map (\<lambda>ns. percentile (map (held (start + of_nat (Suc i) * d)) ns) q) (filter (\<lambda>ns. ns \<noteq> []) (map node_series runs)))"

lemma node_series_sorted: "ns \<in> set (map node_series runs) \<Longrightarrow> s \<in> set ns \<Longrightarrow> sorted (map fst s)"
  by (auto simp: node_series_def sort_samples_def)

lemma nonempty_series:
  assumes "run \<in> set runs" and "(n, s) \<in> set run" and "s \<noteq> []"
  shows "filter (\<lambda>s. s \<noteq> []) (map snd (concat runs)) \<noteq> []" and "filter (\<lambda>ns. ns \<noteq> []) (map node_series runs) \<noteq> []"
proof -
  have "s \<in> set (filter (\<lambda>s. s \<noteq> []) (map snd (concat runs)))" using assms by force
  then show "filter (\<lambda>s. s \<noteq> []) (map snd (concat runs)) \<noteq> []" by (metis empty_iff list.set(1))
  have "sort_samples s \<in> set (node_series run)" using assms(2,3) by (force simp: node_series_def)
  then have "node_series run \<in> set (filter (\<lambda>ns. ns \<noteq> []) (map node_series runs))" using assms(1) by auto
  then show "filter (\<lambda>ns. ns \<noteq> []) (map node_series runs) \<noteq> []" by (metis empty_iff list.set(1))
qed

lemma user_values:
  assumes "ns \<in> set (map node_series runs)" and "0 < d" and "i < n"
  shows "user_loop (drop 1 (equi start d (Suc n))) (map (Pair 0) ns) ! i = map (held (start + of_nat (Suc i) * d)) ns"
proof -
  have "sorted (equi (start + d) d n)" using assms(2) by (simp add: sorted_equi)
  then have "user_loop (equi (start + d) d n) (map (Pair 0) ns) = map (\<lambda>e. map (held e) ns) (equi (start + d) d n)"
    using node_series_sorted [OF assms(1)] by (simp add: user_loop_result comp_def take_held_held)
  moreover have "equi (start + d) d n ! i = start + of_nat (Suc i) * d" using assms(3) by (simp add: equi_def algebra_simps)
  ultimately show ?thesis using assms(3) by (simp add: equi_Suc)
qed

lemma curve_result:
  assumes "0 < d"
  shows "map (\<lambda>i. median (map (\<lambda>run. bin_percentile percentile q (run ! i))
      (map (\<lambda>ns. user_loop (drop 1 (equi start d (Suc n))) (map (Pair 0) ns)) (filter (\<lambda>ns. ns \<noteq> []) (map node_series runs)))))
      [0 ..< n] = map (band percentile median runs start d q) [0 ..< n]"
proof (intro map_cong refl)
  fix i
  assume "i \<in> set [0 ..< n]"
  then have i: "i < n" by simp
  show "median (map (\<lambda>run. bin_percentile percentile q (run ! i))
      (map (\<lambda>ns. user_loop (drop 1 (equi start d (Suc n))) (map (Pair 0) ns)) (filter (\<lambda>ns. ns \<noteq> []) (map node_series runs))))
      = band percentile median runs start d q i"
    unfolding band_def map_map comp_def
  proof (intro arg_cong [of _ _ median] map_cong refl)
    fix ns
    assume "ns \<in> set (filter (\<lambda>ns. ns \<noteq> []) (map node_series runs))"
    then have ns: "ns \<in> set (map node_series runs)" "ns \<noteq> []" by auto
    show "bin_percentile percentile q (user_loop (drop 1 (equi start d (Suc n))) (map (Pair 0) ns) ! i)
        = percentile (map (held (start + of_nat (Suc i) * d)) ns) q"
      unfolding user_values [OF ns(1) assms i] by (simp add: bin_percentile_def ns(2))
  qed
qed

lemma band_mono:
  assumes "numpy_percentile percentile" and "numpy_median median" and "0 \<le> q" and "q \<le> q'" and "q' \<le> 100"
    and "filter (\<lambda>ns. ns \<noteq> []) (map node_series runs) \<noteq> []"
  shows "band percentile median runs start d q i \<le> band percentile median runs start d q' i"
  unfolding band_def
proof (rule median_mono [OF assms(2)])
  have "percentile xs q \<le> percentile xs q'" if "xs \<noteq> []" for xs
    using percentile_mono [OF assms(1,3,4,5), of xs] that by (simp add: bin_percentile_def)
  then show "list_all2 (\<le>)
      (map (\<lambda>ns. percentile (map (held (start + of_nat (Suc i) * d)) ns) q) (filter (\<lambda>ns. ns \<noteq> []) (map node_series runs)))
      (map (\<lambda>ns. percentile (map (held (start + of_nat (Suc i) * d)) ns) q') (filter (\<lambda>ns. ns \<noteq> []) (map node_series runs)))"
    unfolding list_all2_map1 list_all2_map2 list_all2_same by simp
qed (use assms(6) in simp)

text \<open>C29: the three curves of \<open>aggregate_bitrate_percentiles\<close> lie on the centres of common bins, a value of a curve is
  the median over the runs with data of the percentile, across the users of the run with data, of the last bitrate of the user at or
  before the end of the bin (0 before its first), and in every bin the curves are ordered: the 25th percentile is at most the
  50th, which is at most the 75th, so the band that is drawn between them never crosses its middle line.\<close>

theorem percentile_bands:
  assumes "numpy_arange ar" and "numpy_percentile percentile" and "numpy_median median" and "0 < d"
    and "run \<in> set runs" and "(node, s) \<in> set run" and "s \<noteq> []"
  shows "\<exists>start n. aggregate_bitrate_percentiles ar percentile median runs d g =
      (map (\<lambda>i. start + of_nat i * d + d / 2) [0 ..< n], map (band percentile median runs start d 50) [0 ..< n],
       map (band percentile median runs start d 25) [0 ..< n], map (band percentile median runs start d 75) [0 ..< n])
    \<and> (\<forall>i. band percentile median runs start d 25 i \<le> band percentile median runs start d 50 i
        \<and> band percentile median runs start d 50 i \<le> band percentile median runs start d 75 i)"
proof -
  note ne = nonempty_series [OF assms(5-7)]
  let ?series = "filter (\<lambda>s. s \<noteq> []) (map snd (concat runs))"
  define start where "start = Min (set (map (fst \<circ> hd) ?series))"
  define top_time where "top_time = (case g of None \<Rightarrow> Max (set (map (fst \<circ> last) ?series))
    | Some g \<Rightarrow> max (Max (set (map (fst \<circ> last) ?series))) g)"
  define m where "m = nat \<lceil>(top_time + d - start) / d\<rceil>"
  define n where "n = m - 1"
  have bins: "ar start (top_time + d) d = equi start d m" using arange_equi [OF assms(1,4)] by (simp add: m_def)
  have curve: "map (\<lambda>i. median (map (\<lambda>run. bin_percentile percentile q (run ! i))
      (map (\<lambda>ns. user_loop (drop 1 (equi start d m)) (map (Pair 0) ns)) (filter (\<lambda>ns. ns \<noteq> []) (map node_series runs)))))
      [0 ..< m - 1] = map (band percentile median runs start d q) [0 ..< n]" for q
  proof (cases m)
    case (Suc k)
    then show ?thesis using curve_result [OF assms(4), of median percentile q start k runs] by (simp add: n_def)
  qed (simp add: n_def)
  have "centers d (equi start d m) = map (\<lambda>i. start + of_nat i * d + d / 2) [0 ..< n]"
    by (auto simp: centers_def equi_def n_def)
  then have "aggregate_bitrate_percentiles ar percentile median runs d g =
      (map (\<lambda>i. start + of_nat i * d + d / 2) [0 ..< n], map (band percentile median runs start d 50) [0 ..< n],
       map (band percentile median runs start d 25) [0 ..< n], map (band percentile median runs start d 75) [0 ..< n])"
    unfolding aggregate_bitrate_percentiles_def Let_def start_def [symmetric] top_time_def [symmetric] bins equi_simps(2)
      if_not_P [OF ne(1)] curve by simp
  then show ?thesis using band_mono [OF assms(2,3) _ _ _ ne(2)] by (intro exI [of _ start] exI [of _ n]) simp
qed

theorem percentile_bands_witness:
  "\<exists>start n. aggregate_bitrate_percentiles np_arange np_percentile np_median [[(2, [(0, 4), (3, 8)]), (5, [])], [(2, [(1, 2)])]] 1 None =
      (map (\<lambda>i. start + of_nat i * 1 + 1 / 2) [0 ..< n],
       map (band np_percentile np_median [[(2, [(0, 4), (3, 8)]), (5, [])], [(2, [(1, 2)])]] start 1 50) [0 ..< n],
       map (band np_percentile np_median [[(2, [(0, 4), (3, 8)]), (5, [])], [(2, [(1, 2)])]] start 1 25) [0 ..< n],
       map (band np_percentile np_median [[(2, [(0, 4), (3, 8)]), (5, [])], [(2, [(1, 2)])]] start 1 75) [0 ..< n])"
  using percentile_bands [OF np_arange_numpy numpy_instances(2,1), of 1 "[(2, [(1, 2)])]" "[[(2, [(0, 4), (3, 8)]), (5, [])], [(2, [(1, 2)])]]" 2 "[(1, 2)]" None]
  by fastforce

section \<open>Resampling holds the last value\<close>

lemma filter_length_prefix:
  assumes "sorted (map fst xs)"
  shows "filter (\<lambda>(t, v). t \<le> (g :: rat)) xs = take (length (filter (\<lambda>t. t \<le> g) (map fst xs))) xs"
proof -
  have "filter (\<lambda>(t, v). t \<le> g) xs = takeWhile (\<lambda>(t, v). t \<le> g) xs" by (rule takeWhile_upto [OF assms, symmetric])
  moreover have "length (filter (\<lambda>t. t \<le> g) (map fst xs)) = length (filter (\<lambda>(t, v). t \<le> g) xs)"
    by (induction xs) auto
  ultimately show ?thesis using takeWhile_eq_take [of "\<lambda>(t, v). t \<le> g" xs] by simp
qed

lemma interp_step:
  assumes "numpy_searchsorted ss" and "sorted (map fst xs)"
  shows "(let idx = int (ss (map fst xs) g) - 1
     in if 0 \<le> idx then (if nat idx < length (map snd xs) then Inr (out @ [map snd xs ! nat idx]) else Inl IndexError)
        else Inr (out @ [0])) = (Inr (out @ [held g xs]) :: rat list py)"
proof -
  let ?k = "length (filter (\<lambda>t. t \<le> g) (map fst xs))"
  have ss: "ss (map fst xs) g = ?k" using assms by (simp add: numpy_searchsorted_def)
  have pre: "filter (\<lambda>(t, v). t \<le> g) xs = take ?k xs" by (rule filter_length_prefix [OF assms(2)])
  have k: "?k \<le> length xs" by (metis length_filter_le length_map)
  show ?thesis
  proof (cases ?k)
    case 0
    then have "held g xs = 0" unfolding held_def pre by simp
    then show ?thesis unfolding ss 0 by simp
  next
    case (Suc j)
    then have j: "j < length xs" using k by simp
    then have "take (Suc j) xs = take j xs @ [xs ! j]" by (rule take_Suc_conv_app_nth)
    then have "held g xs = snd (xs ! j)" unfolding held_def pre Suc by simp
    moreover note j
    ultimately show ?thesis unfolding ss Suc by simp
  qed
qed

lemma stepwise_held:
  assumes "numpy_searchsorted ss" and "sorted (map fst xs)"
  shows "stepwise_interp ss grid (map fst xs) (map snd xs) 0 = Inr (map (\<lambda>g. held g xs) grid)"
proof -
  have "fold_e (\<lambda>out g. Inr (out @ [held g xs])) out grid = (Inr (out @ map (\<lambda>g. held g xs) grid) :: rat list py)" for out
    by (induction grid arbitrary: out) auto
  then show ?thesis unfolding stepwise_interp_def interp_step [OF assms] by simp
qed

lemma user_curve_held:
  "numpy_searchsorted ss \<Longrightarrow> sorted (map fst xs) \<Longrightarrow> user_curve ss grid xs = Inr (map (\<lambda>g. held g xs) grid)"
  by (auto simp: user_curve_def stepwise_held held_def)

text \<open>The value of a run at a time: the median over its users of the value each holds.\<close>

definition run_value :: "(rat list \<Rightarrow> rat) \<Rightarrow> rat \<Rightarrow> sample list list \<Rightarrow> rat" where
  "run_value median g serieses = median (map (held g) serieses)"

lemma run_curve_held:
  assumes "numpy_searchsorted ss" and "\<forall>s \<in> set serieses. sorted (map fst s)"
  shows "run_curve ss median grid serieses = Inr (map (\<lambda>g. run_value median g serieses) grid)"
proof -
  have "fold_e (\<lambda>acc s. bind_e (user_curve ss grid s) (\<lambda>v. Inr (acc @ [v]))) acc serieses
      = Inr (acc @ map (\<lambda>s. map (\<lambda>g. held g s) grid) serieses)" for acc
    using assms(2) by (induction serieses arbitrary: acc) (auto simp: user_curve_held [OF assms(1)])
  then have "run_curve ss median grid serieses
      = Inr (map (\<lambda>i. median (map (\<lambda>v. v ! i) (map (\<lambda>s. map (\<lambda>g. held g s) grid) serieses))) [0 ..< length grid])"
    by (simp add: run_curve_def)
  also have "map (\<lambda>i. median (map (\<lambda>v. v ! i) (map (\<lambda>s. map (\<lambda>g. held g s) grid) serieses))) [0 ..< length grid]
      = map (\<lambda>g. run_value median g serieses) grid"
    by (rule nth_equalityI) (simp_all add: run_value_def comp_def)
  finally show ?thesis .
qed

section \<open>Grouping\<close>

lemma append_row_get: "map_of (append_row k r d) k' = (if k' = k then Some ((case map_of d k of None \<Rightarrow> [] | Some rs \<Rightarrow> rs) @ [r]) else map_of d k')"
  by (simp add: append_row_def update_conv)

lemma append_row_keys: "distinct (map fst d) \<Longrightarrow> distinct (map fst (append_row k r d))"
  by (simp add: append_row_def distinct_update)

lemma group_rows_fold:
  assumes "distinct (map fst d)"
  shows "distinct (map fst (foldl (\<lambda>d r. append_row (k r) r d) d rows))
    \<and> (\<forall>x. map_of (foldl (\<lambda>d r. append_row (k r) r d) d rows) x
        = (let old = (case map_of d x of None \<Rightarrow> [] | Some rs \<Rightarrow> rs); new = filter (\<lambda>r. k r = x) rows
           in if new = [] then map_of d x else Some (old @ new)))"
  using assms
proof (induction rows arbitrary: d)
  case (Cons r rows)
  show ?case using Cons.IH [OF append_row_keys [OF Cons.prems], of "k r" r]
    by (auto simp: append_row_get Let_def split: option.splits)
qed simp

text \<open>A group holds exactly the rows with its key, in the order of the table.\<close>

lemma group_rows_groups:
  "distinct (map fst (group_rows k rows))"
  "(x, rs) \<in> set (group_rows k rows) \<longleftrightarrow> rs = filter (\<lambda>r. k r = x) rows \<and> rs \<noteq> []"
proof -
  have f: "distinct (map fst (group_rows k rows))"
    "map_of (group_rows k rows) x = (let new = filter (\<lambda>r. k r = x) rows in if new = [] then None else Some new)"
    using group_rows_fold [of "[]" k rows] by (auto simp: group_rows_def Let_def)
  show "distinct (map fst (group_rows k rows))" by (rule f(1))
  have "(x, rs) \<in> set (group_rows k rows) \<longleftrightarrow> map_of (group_rows k rows) x = Some rs"
    by (rule map_of_eq_Some_iff [OF f(1), symmetric])
  then show "(x, rs) \<in> set (group_rows k rows) \<longleftrightarrow> rs = filter (\<lambda>r. k r = x) rows \<and> rs \<noteq> []"
    unfolding f(2) Let_def by (metis (no_types, lifting) option.distinct(1) option.inject)
qed

section \<open>The curve of a group of runs\<close>

lemma curve_held:
  assumes "numpy_searchsorted ss" and "\<forall>(k, s) \<in> set rows. sorted (map fst s)" and "rows \<noteq> []" and "grid \<noteq> []"
  shows "run_median_then_mean_across_runs ss median mean convolve smooth rows grid = Inr (Some
    (let curve = map (\<lambda>g. mean (map (\<lambda>(_, rs). run_value median g (map snd rs)) (group_rows fst rows))) grid
     in if smooth then smooth_data convolve curve 5 else curve))"
proof -
  have rs: "\<forall>s \<in> set (map snd rs). sorted (map fst s)" if "(k, rs) \<in> set (group_rows fst rows)" for k rs
    using that assms(2) unfolding group_rows_groups by auto
  have fold: "fold_e (\<lambda>acc (_, rs). bind_e (run_curve ss median grid (map snd rs)) (\<lambda>c. Inr (acc @ [c]))) acc d
      = Inr (acc @ map (\<lambda>(_, rs). map (\<lambda>g. run_value median g (map snd rs)) grid) d)"
    if "\<forall>(k, rs) \<in> set d. \<forall>s \<in> set (map snd rs). sorted (map fst s)" for acc and d :: "((string \<times> string) \<times> ((string \<times> string) \<times> sample list) list) list"
    using that by (induction d arbitrary: acc) (auto simp: run_curve_held [OF assms(1)])
  have "run_median_then_mean_across_runs ss median mean convolve smooth rows grid = Inr (Some
    (let curve = map (\<lambda>i. mean (map (\<lambda>c. c ! i) (map (\<lambda>(_, rs). map (\<lambda>g. run_value median g (map snd rs)) grid) (group_rows fst rows))))
       [0 ..< length grid]
     in if smooth then smooth_data convolve curve 5 else curve))"
    unfolding run_median_then_mean_across_runs_def using assms(3,4) rs by (subst fold) (auto simp: Let_def)
  also have "map (\<lambda>i. mean (map (\<lambda>c. c ! i) (map (\<lambda>(_, rs). map (\<lambda>g. run_value median g (map snd rs)) grid) (group_rows fst rows))))
       [0 ..< length grid] = map (\<lambda>g. mean (map (\<lambda>(_, rs). run_value median g (map snd rs)) (group_rows fst rows))) grid"
    by (rule nth_equalityI) (auto simp: comp_def case_prod_beta intro!: arg_cong [of _ _ mean])
  finally show ?thesis .
qed

lemma median_between:
  assumes "numpy_median median" and "xs \<noteq> []" and "\<forall>x \<in> set xs. a \<le> x \<and> x \<le> b"
  shows "a \<le> median xs \<and> median xs \<le> b"
proof -
  have "(length xs - 1) div 2 < length (sort xs)" "length xs div 2 < length (sort xs)" using assms(2) by (cases xs; auto)+
  then have "sort xs ! ((length xs - 1) div 2) \<in> set xs" "sort xs ! (length xs div 2) \<in> set xs"
    using nth_mem set_sort by metis+
  then have "a + a \<le> sort xs ! ((length xs - 1) div 2) + sort xs ! (length xs div 2)"
    "sort xs ! ((length xs - 1) div 2) + sort xs ! (length xs div 2) \<le> b + b" using assms(3) by (meson add_mono)+
  moreover have "median xs = (sort xs ! ((length xs - 1) div 2) + sort xs ! (length xs div 2)) / 2"
    using assms(1,2) by (simp add: numpy_median_def)
  ultimately show ?thesis by simp
qed

lemma mean_between:
  assumes "numpy_mean mean" and "xs \<noteq> []" and "\<forall>x \<in> set xs. a \<le> x \<and> x \<le> b"
  shows "a \<le> mean xs \<and> mean xs \<le> b"
proof -
  have "of_nat (length xs) * a \<le> sum_list xs \<and> sum_list xs \<le> of_nat (length xs) * b"
    using assms(3) by (induction xs) (auto simp: algebra_simps)
  moreover have "mean xs = sum_list xs / of_nat (length xs)" using assms(1,2) by (simp add: numpy_mean_def)
  moreover have "0 < (of_nat (length xs) :: rat)" using assms(2) by simp
  ultimately show ?thesis by (simp add: pos_le_divide_eq pos_divide_le_eq mult.commute)
qed

lemma held_between: "a \<le> 0 \<Longrightarrow> 0 \<le> b \<Longrightarrow> \<forall>(t, v) \<in> set s. a \<le> v \<and> v \<le> b \<Longrightarrow> a \<le> held g s \<and> held g s \<le> b"
  using last_in_set [of "filter (\<lambda>(t, v). t \<le> g) s"] by (fastforce simp: held_def Let_def)

text \<open>C30: the curve that is drawn for the playback state of an algorithm has, at every time of the grid, the mean over the
  runs of the median over the users of a run of the state that the user was last seen in (interrupted before its first
  sample and without samples); every run counts once, with exactly its users; and it stays between 0 and 1 when the states do.\<close>

theorem playback_curve:
  assumes "numpy_searchsorted ss" and "numpy_median median" and "numpy_mean mean" and "rows \<noteq> []" and "grid \<noteq> []"
    and "\<forall>(k, s) \<in> set rows. sorted (map fst s) \<and> (\<forall>(t, v) \<in> set s. 0 \<le> v \<and> v \<le> 1)"
  shows "\<exists>curve. run_median_then_mean_across_runs ss median mean convolve False rows grid = Inr (Some curve)
    \<and> curve = map (\<lambda>g. mean (map (\<lambda>(_, rs). run_value median g (map snd rs)) (group_rows fst rows))) grid
    \<and> (\<forall>x \<in> set curve. 0 \<le> x \<and> x \<le> 1)
    \<and> (\<forall>k rs. (k, rs) \<in> set (group_rows fst rows) \<longleftrightarrow> rs = filter (\<lambda>r. fst r = k) rows \<and> rs \<noteq> [])"
proof -
  have sorted: "\<forall>(k, s) \<in> set rows. sorted (map fst s)" using assms(6) by auto
  have ne: "group_rows fst rows \<noteq> []"
  proof -
    obtain r where "r \<in> set rows" using assms(4) by (cases rows) auto
    then have "(fst r, filter (\<lambda>x. fst x = fst r) rows) \<in> set (group_rows fst rows)"
      unfolding group_rows_groups by (auto simp: filter_empty_conv)
    then show ?thesis by (metis empty_iff list.set(1))
  qed
  have range: "0 \<le> run_value median g (map snd rs) \<and> run_value median g (map snd rs) \<le> 1"
    if "(k, rs) \<in> set (group_rows fst rows)" for g k rs
    unfolding run_value_def
  proof (rule median_between [OF assms(2)])
    show "map (held g) (map snd rs) \<noteq> []" using that unfolding group_rows_groups by blast
    have "set rs \<subseteq> set rows" using that unfolding group_rows_groups by auto
    then have "\<forall>s \<in> snd ` set rs. \<forall>(t, v) \<in> set s. 0 \<le> v \<and> v \<le> 1" using assms(6) by fastforce
    then show "\<forall>x \<in> set (map (held g) (map snd rs)). 0 \<le> x \<and> x \<le> 1"
      using held_between [of 0 1 _ g] by auto
  qed
  have "0 \<le> mean (map (\<lambda>(_, rs). run_value median g (map snd rs)) (group_rows fst rows))
      \<and> mean (map (\<lambda>(_, rs). run_value median g (map snd rs)) (group_rows fst rows)) \<le> 1" for g
    using ne range by (intro mean_between [OF assms(3)]) auto
  moreover have "\<forall>k rs. (k, rs) \<in> set (group_rows fst rows) \<longleftrightarrow> rs = filter (\<lambda>r. fst r = k) rows \<and> rs \<noteq> []"
    by (intro allI) (rule group_rows_groups(2))
  ultimately show ?thesis using curve_held [OF assms(1) sorted assms(4,5), of median mean convolve False] by simp
qed

theorem playback_curve_witness:
  "\<exists>curve. run_median_then_mean_across_runs np_searchsorted np_median np_mean (\<lambda>x y. x) False
      [((''QUIC BBR'', ''run_1''), [(1, 1), (3, 0)]), ((''QUIC BBR'', ''run_2''), [])] [0, 2, 4] = Inr (Some curve)
    \<and> list_all (\<lambda>x. 0 \<le> x \<and> x \<le> 1) curve"
proof -
  have "numpy_mean np_mean" by (simp add: numpy_mean_def np_mean_def)
  from playback_curve [OF numpy_instances(3,1) this, of "[((''QUIC BBR'', ''run_1''), [(1, 1), (3, 0)]), ((''QUIC BBR'', ''run_2''), [])]"
      "[0, 2, 4]" "\<lambda>x y. x"]
  show ?thesis unfolding list_all_iff by auto
qed

end
