(* ===== verification/PlayEvents.thy ===== *)
theory PlayEvents
  imports PlayAggregate
begin

text \<open>
  \<open>scripts/plot_bitrate_playback.py\<close>, the parsers of the playback log: \<open>parse_playback_log\<close>,
  \<open>parse_playback_log_per_user\<close>, \<open>parse_playback_logs_bulk\<close> and \<open>parse_ue_nodes_and_distances\<close>. The
  program \<open>grep\<close>, which the script runs to select the lines it reads, is a parameter: the arguments after
  the options \<open>-a -E\<close> are mapped to the status and the lines of the output, or to \<open>None\<close> when running it
  raises. A line holds no end of line, so the dot of a pattern matches all its characters.
\<close>

section \<open>The lines of the log\<close>

text \<open>\<open>\d+\.?\d*\<close>; backtracking cannot help, since no pattern goes on with a digit or a dot.\<close>

definition re_number :: "string \<Rightarrow> (string \<times> string) option" where
  "re_number s =
     (case run1 is_digit s of
        None \<Rightarrow> None
      | Some (a, r) \<Rightarrow>
          (case lit ''.'' r of
             None \<Rightarrow> Some (a, r)
           | Some r \<Rightarrow> Some (a @ ''.'' @ takeWhile is_digit r, dropWhile is_digit r)))"

definition is_dec :: "char \<Rightarrow> bool" where
  "is_dec c \<longleftrightarrow> is_digit c \<or> c = CHR ''.''"

text \<open>The lazy \<open>.*?\<close> before a pattern is a search for its first match.\<close>

definition match_res :: "string \<Rightarrow> (string \<times> string) option" where
  "match_res s = do { s \<leftarrow> lit ''Res:'' s; run1 is_digit (spaces0 s) }"

definition match_res1 :: "string \<Rightarrow> (string \<times> string) option" where
  "match_res1 s = do { s \<leftarrow> lit ''Res:'' s; (_, s) \<leftarrow> run1 re_space s; run1 is_digit s }"

definition match_player :: "string \<Rightarrow> ((string \<times> string) \<times> string) option" where
  "match_player s = do {
     s \<leftarrow> lit ''PlayerId:'' s; (player, s) \<leftarrow> run1 is_digit (spaces0 s);
     (res, s) \<leftarrow> search_first match_res s; Some ((player, res), s) }"

definition match_frame :: "string \<Rightarrow> (string \<times> string) option" where
  "match_frame s = do {
     (time, s) \<leftarrow> re_number s; (_, s) \<leftarrow> run1 re_space s; s \<leftarrow> lit ''PLAYING FRAME:'' s; Some (time, s) }"

definition match_playing_user :: "string \<Rightarrow> ((string \<times> string \<times> string) \<times> string) option" where
  "match_playing_user s = do {
     (time, s) \<leftarrow> match_frame s; ((player, res), s) \<leftarrow> search_first match_player s;
     Some ((time, player, res), s) }"

definition match_playing :: "string \<Rightarrow> ((string \<times> string) \<times> string) option" where
  "match_playing s = do {
     (time, s) \<leftarrow> match_frame s; (res, s) \<leftarrow> search_first match_res1 s; Some ((time, res), s) }"

definition match_at :: "string \<Rightarrow> string \<Rightarrow> (string \<times> string) option" where
  "match_at head s = do { s \<leftarrow> lit head s; (time, s) \<leftarrow> run1 is_dec s; s \<leftarrow> lit ''s.'' s; Some (time, s) }"

definition match_id :: "string \<Rightarrow> (string \<times> string) option" where
  "match_id s = do { s \<leftarrow> lit ''Player ID='' s; run1 is_digit s }"

text \<open>\<open>t=([0-9.]+)s\.\s+Player ID=(\d+)\<close>, and the form \<open>t=([0-9.]+)s\..*Player ID=(\d+)\<close>, of which only the time is used.\<close>

definition match_stall_user :: "string \<Rightarrow> string \<Rightarrow> ((string \<times> string) \<times> string) option" where
  "match_stall_user head s = do {
     (time, s) \<leftarrow> match_at head s; (_, s) \<leftarrow> run1 re_space s; (player, s) \<leftarrow> match_id s; Some ((time, player), s) }"

definition match_stall :: "string \<Rightarrow> string \<Rightarrow> (string \<times> string) option" where
  "match_stall head s = do { (time, s) \<leftarrow> match_at head s; (_, s) \<leftarrow> search_first match_id s; Some (time, s) }"

definition no_frames :: string where "no_frames = ''No frames to play at t=''"
definition play_resumed :: string where "play_resumed = ''Play resumed at t=''"

section \<open>grep\<close>

type_synonym grep = "string \<Rightarrow> string list \<Rightarrow> (nat \<times> string list) option"

definition grep_lines :: "grep \<Rightarrow> (string \<Rightarrow> bool) \<Rightarrow> string \<Rightarrow> string \<Rightarrow> string list" where
  "grep_lines grep exists filename pattern =
     (if filename = [] \<or> \<not> exists filename then []
      else (case grep pattern [filename] of
          None \<Rightarrow> []
        | Some (returncode, stdout) \<Rightarrow> if returncode \<notin> {0, 1} then [] else stdout))"

definition event_pattern :: string where
  "event_pattern = ''PLAYING FRAME|No frames to play|Play resumed''"

section \<open>Events per player\<close>

type_synonym events = "(int \<times> play_event list) list"

definition append_event :: "int \<Rightarrow> play_event \<Rightarrow> events \<Rightarrow> events" where
  "append_event p e d = AList.update p ((case map_of d p of None \<Rightarrow> [] | Some es \<Rightarrow> es) @ [e]) d"

text \<open>The event of a line, if any, with its player.\<close>

definition user_event :: "string \<Rightarrow> (int \<times> play_event) option py" where
  "user_event line =
     (case search_first match_playing_user line of
        Some ((time, player, res), _) \<Rightarrow>
          bind_e (float_of time) (\<lambda>time. bind_e (int_of player) (\<lambda>player_id. bind_e (float_of res) (\<lambda>resolution.
            Inr (Some (player_id, Playing, time, Some resolution)))))
      | None \<Rightarrow>
     (case search_first (match_stall_user no_frames) line of
        Some ((time, player), _) \<Rightarrow>
          bind_e (float_of time) (\<lambda>time. bind_e (int_of player) (\<lambda>player_id.
            Inr (Some (player_id, Interrupted, time, None))))
      | None \<Rightarrow>
     (case search_first (match_stall_user play_resumed) line of
        Some ((time, player), _) \<Rightarrow>
          bind_e (float_of time) (\<lambda>time. bind_e (int_of player) (\<lambda>player_id.
            Inr (Some (player_id, Resumed, time, None))))
      | None \<Rightarrow> Inr None)))"

definition user_line :: "events \<Rightarrow> string \<Rightarrow> events py" where
  "user_line d line =
     bind_e (user_event line) (\<lambda>r. Inr (case r of None \<Rightarrow> d | Some (p, e) \<Rightarrow> append_event p e d))"

definition parse_playback_log_per_user :: "grep \<Rightarrow> (string \<Rightarrow> bool) \<Rightarrow> string \<Rightarrow> events py" where
  "parse_playback_log_per_user grep exists filename =
     (if filename = [] \<or> \<not> exists filename then Inr []
      else bind_e (fold_e user_line [] (grep_lines grep exists filename event_pattern)) (\<lambda>d.
        Inr (map (\<lambda>(p, events). (p, sort_by_time events)) d)))"

section \<open>Events of a log\<close>

text \<open>The state of the loop: the current resolution and the events. The three patterns are tried on every line.\<close>

type_synonym log_state = "rat option \<times> play_event list"

definition playing_part :: "string \<Rightarrow> log_state \<Rightarrow> log_state py" where
  "playing_part line s =
     (case search_first match_playing line of
        None \<Rightarrow> Inr s
      | Some ((time, res), _) \<Rightarrow>
          bind_e (float_of time) (\<lambda>time. bind_e (float_of res) (\<lambda>resolution.
            Inr (Some resolution, snd s @ [(Playing, time, Some resolution)]))))"

definition stall_part :: "string \<Rightarrow> kind \<Rightarrow> string \<Rightarrow> log_state \<Rightarrow> log_state py" where
  "stall_part head kind line s =
     (case search_first (match_stall head) line of
        None \<Rightarrow> Inr s
      | Some (time, _) \<Rightarrow>
          bind_e (float_of time) (\<lambda>time. Inr (fst s, snd s @ [(kind, time, fst s)])))"

definition log_line :: "log_state \<Rightarrow> string \<Rightarrow> log_state py" where
  "log_line s line =
     bind_e (playing_part line s) (\<lambda>s. bind_e (stall_part no_frames Interrupted line s) (stall_part play_resumed Resumed line))"

text \<open>\<open>check_output\<close> raises for every status but 0, and the shell reads the command it is given.\<close>

definition parse_playback_log ::
    "(string \<Rightarrow> (nat \<times> string list) option) \<Rightarrow> (string \<Rightarrow> bool) \<Rightarrow> string \<Rightarrow> play_event list py" where
  "parse_playback_log shell exists filename =
     (if filename = [] \<or> \<not> exists filename then Inr []
      else (case shell (''grep -a -E '' @ [CHR 0x27] @ event_pattern @ [CHR 0x27] @ '' '' @ filename) of
          Some (0, output) \<Rightarrow>
            bind_e (fold_e log_line (None, []) output) (\<lambda>(_, playback_events). Inr (sort_by_time playback_events))
        | _ \<Rightarrow> Inr []))"

section \<open>Events of several logs\<close>

type_synonym bulk = "(string \<times> play_event list) list"

definition append_bulk :: "string \<Rightarrow> play_event \<Rightarrow> bulk \<Rightarrow> bulk" where
  "append_bulk f e d = AList.update f ((case map_of d f of None \<Rightarrow> [] | Some es \<Rightarrow> es) @ [e]) d"

definition bulk_line :: "bulk \<Rightarrow> string \<Rightarrow> bulk py" where
  "bulk_line d line =
     (case split_once (CHR '':'') line of
        (_, None) \<Rightarrow> Inr d
      | (filename, Some content) \<Rightarrow>
     (case search_first match_playing content of
        Some ((time, res), _) \<Rightarrow>
          bind_e (float_of time) (\<lambda>time. bind_e (float_of res) (\<lambda>resolution.
            Inr (append_bulk filename (Playing, time, Some resolution) d)))
      | None \<Rightarrow>
     (case search_first (match_stall no_frames) content of
        Some (time, _) \<Rightarrow> bind_e (float_of time) (\<lambda>time. Inr (append_bulk filename (Interrupted, time, None) d))
      | None \<Rightarrow>
     (case search_first (match_stall play_resumed) content of
        Some (time, _) \<Rightarrow> bind_e (float_of time) (\<lambda>time. Inr (append_bulk filename (Resumed, time, None) d))
      | None \<Rightarrow> Inr d))))"

text \<open>An error ends the reading of a batch; what was read before it stays.\<close>

fun bulk_lines :: "bulk \<Rightarrow> string list \<Rightarrow> bulk" where
  "bulk_lines d [] = d"
| "bulk_lines d (l # ls) = (case bulk_line d l of Inl _ \<Rightarrow> d | Inr d \<Rightarrow> bulk_lines d ls)"

function batches :: "nat \<Rightarrow> 'a list \<Rightarrow> 'a list list" where
  "batches n xs = (if xs = [] \<or> n = 0 then [] else take n xs # batches n (drop n xs))"
  by pat_completeness auto
termination by (relation "measure (\<lambda>(n, xs). length xs)") auto

declare batches.simps [simp del]

definition parse_playback_logs_bulk :: "grep \<Rightarrow> (string \<Rightarrow> bool) \<Rightarrow> string list \<Rightarrow> bulk" where
  "parse_playback_logs_bulk grep exists log_files =
     (let results = foldl (\<lambda>d batch. case grep event_pattern batch of None \<Rightarrow> d | Some (_, output) \<Rightarrow> bulk_lines d output)
            [] (batches 50 (filter exists log_files))
      in map (\<lambda>(f, events). (f, sort_by_time events)) results)"

section \<open>The users of a log\<close>

record ue_info =
  num_users :: "int option"
  ue_node_ids :: "int list"
  distances :: "rat list"

definition match_created :: "string \<Rightarrow> (string \<times> string) option" where
  "match_created s = do {
     s \<leftarrow> lit ''Actually created'' s; (_, s) \<leftarrow> run1 re_space s; (n, s) \<leftarrow> run1 is_digit s;
     (_, s) \<leftarrow> run1 re_space s; s \<leftarrow> lit ''UE nodes'' s; Some (n, s) }"

definition match_create :: "string \<Rightarrow> (string \<times> string) option" where
  "match_create s = do { s \<leftarrow> lit ''Number of UEs to create:'' s; run1 is_digit (spaces0 s) }"

definition match_ue :: "string \<Rightarrow> (string \<times> string) option" where
  "match_ue s = do {
     s \<leftarrow> lit ''Install UE with IMSI'' s; (_, s) \<leftarrow> run1 re_space s; (_, s) \<leftarrow> run1 is_digit s;
     (_, s) \<leftarrow> run1 re_space s; s \<leftarrow> lit ''on Node ID'' s; (_, s) \<leftarrow> run1 re_space s; run1 is_digit s }"

definition match_dist :: "string \<Rightarrow> (string \<times> string) option" where
  "match_dist s = do { s \<leftarrow> lit ''Closest eNB found at distance:'' s; run1 is_dec (spaces0 s) }"

definition ue_line :: "ue_info \<Rightarrow> string \<Rightarrow> ue_info py" where
  "ue_line u line =
     (case search_first match_created line of
        Some (n, _) \<Rightarrow> bind_e (int_of n) (\<lambda>n. Inr (u\<lparr>num_users := Some n\<rparr>))
      | None \<Rightarrow>
     (case search_first match_create line of
        Some (n, _) \<Rightarrow> bind_e (int_of n) (\<lambda>n. Inr (u\<lparr>num_users := Some n\<rparr>))
      | None \<Rightarrow>
     (case search_first match_ue line of
        Some (n, _) \<Rightarrow> bind_e (int_of n) (\<lambda>n. Inr (u\<lparr>ue_node_ids := ue_node_ids u @ [n]\<rparr>))
      | None \<Rightarrow>
     (case search_first match_dist line of
        Some (x, _) \<Rightarrow> bind_e (float_of x) (\<lambda>x. Inr (u\<lparr>distances := distances u @ [x]\<rparr>))
      | None \<Rightarrow> Inr u))))"

definition ue_pattern :: string where
  "ue_pattern =
     ''Install UE with IMSI|Actually created .* UE nodes|Number of UEs to create|Closest eNB found at distance''"

definition parse_ue_nodes_and_distances :: "grep \<Rightarrow> (string \<Rightarrow> bool) \<Rightarrow> string \<Rightarrow> ue_info py" where
  "parse_ue_nodes_and_distances grep exists err_file =
     bind_e (fold_e ue_line \<lparr>num_users = None, ue_node_ids = [], distances = []\<rparr>
         (grep_lines grep exists err_file ue_pattern)) (\<lambda>u.
       Inr (if num_users u = None \<and> ue_node_ids u \<noteq> [] then u\<lparr>num_users := Some (int (length (ue_node_ids u)))\<rparr> else u))"

section \<open>The lines that grep leaves out\<close>

lemma search_first_found:
  "search_first m s = Some r \<Longrightarrow> \<exists>a b. s = a @ b \<and> m b = Some r"
proof (induction m s rule: search_first.induct)
  case (1 m)
  then show ?case by (intro exI [of _ "[]"]) simp
next
  case (2 m c cs)
  show ?case
  proof (cases "m (c # cs)")
    case None
    then obtain a b where "cs = a @ b" "m b = Some r" using 2 by auto
    then show ?thesis by (intro exI [of _ "c # a"] exI [of _ b]) simp
  next
    case (Some x)
    then show ?thesis using 2 by (intro exI [of _ "[]"] exI [of _ "c # cs"]) simp
  qed
qed

lemma str_in_later: "str_in p b \<Longrightarrow> str_in p (a @ b)"
  by (induction a) auto

lemma str_in_append: "str_in (p @ q) s \<Longrightarrow> str_in p s"
  by (metis append_assoc str_in_iff)

text \<open>A pattern whose matches hold a word has none in a text without the word.\<close>

lemma search_first_word:
  assumes "\<And>b r. m b = Some r \<Longrightarrow> str_in w b" and "\<not> str_in w s"
  shows "search_first m s = None"
proof (rule ccontr)
  assume "search_first m s \<noteq> None"
  then obtain r where "search_first m s = Some r" by auto
  then obtain a b where "s = a @ b" "m b = Some r" using search_first_found by blast
  then show False using assms str_in_later by blast
qed

lemma lit_Some: "lit p s = Some r \<longleftrightarrow> s = p @ r"
  by (auto simp: lit_def prefix_def)

lemma run1_Some: "run1 P s = Some (w, r) \<Longrightarrow> s = w @ r"
  by (auto simp: run1_def Let_def split: if_splits)

lemma re_number_Some: "re_number s = Some (w, r) \<Longrightarrow> s = w @ r"
  by (auto simp: re_number_def lit_Some split: option.splits prod.splits dest!: run1_Some)

lemma frame_text: "match_frame s = Some r \<Longrightarrow> str_in ''PLAYING FRAME:'' s"
proof -
  assume "match_frame s = Some r"
  then obtain w s1 v s2 s3 where "re_number s = Some (w, s1)" "run1 re_space s1 = Some (v, s2)"
    "lit ''PLAYING FRAME:'' s2 = Some s3"
    by (auto simp: match_frame_def bind_eq_Some_conv)
  then have "s = (w @ v) @ ''PLAYING FRAME:'' @ s3"
    using re_number_Some run1_Some by (fastforce simp: lit_Some)
  then show ?thesis unfolding str_in_iff by blast
qed

lemma playing_text: "match_playing_user b = Some r \<Longrightarrow> str_in ''PLAYING FRAME:'' b"
  using frame_text by (auto simp: match_playing_user_def bind_eq_Some_conv simp del: str_in.simps)

lemma stall_text: "match_stall_user p b = Some r \<Longrightarrow> str_in p b"
  unfolding str_in_iff by (auto simp: match_stall_user_def match_at_def bind_eq_Some_conv lit_Some intro: exI [of _ "[]"])

definition event_words :: "string list" where
  "event_words = [''PLAYING FRAME'', ''No frames to play'', ''Play resumed'']"

lemma no_event:
  assumes "\<forall>w \<in> set event_words. \<not> str_in w l"
  shows "user_event l = Inr None"
proof -
  have no: "\<not> str_in ''PLAYING FRAME:'' l" "\<not> str_in no_frames l" "\<not> str_in play_resumed l"
    using assms str_in_append [of "''PLAYING FRAME''" "'':''" l] str_in_append [of "''No frames to play''" "'' at t=''" l] str_in_append [of "''Play resumed''" "'' at t=''" l]
    by (auto simp: event_words_def no_frames_def play_resumed_def simp del: str_in.simps)
  have "search_first match_playing_user l = None" by (rule search_first_word [OF playing_text no(1)])
  moreover have "search_first (match_stall_user no_frames) l = None" by (rule search_first_word [OF stall_text no(2)])
  moreover have "search_first (match_stall_user play_resumed) l = None" by (rule search_first_word [OF stall_text no(3)])
  ultimately show ?thesis by (simp add: user_event_def)
qed

text \<open>What the script relies on of \<open>grep -a -E\<close>: a pattern of letters and spaces with bars is the words between
  the bars, and the lines of the file that hold one of them are printed, in order.\<close>

definition plain_char :: "char \<Rightarrow> bool" where
  "plain_char c \<longleftrightarrow> c = CHR '' '' \<or> c = CHR ''|'' \<or> c \<in> set upper_letters \<or> c \<in> set lower_letters"

definition grep_selects :: "grep \<Rightarrow> (string \<Rightarrow> string list option) \<Rightarrow> bool" where
  "grep_selects grep files \<longleftrightarrow> (\<forall>pattern f lines. files f = Some lines \<longrightarrow> list_all plain_char pattern \<longrightarrow>
     (\<exists>status \<in> {0, 1}. grep pattern [f]
        = Some (status, filter (\<lambda>l. \<exists>w \<in> set (split_on (CHR ''|'') pattern). str_in w l) lines)))"

lemma event_pattern_words: "split_on (CHR ''|'') event_pattern = event_words" "list_all plain_char event_pattern"
  by code_simp+

lemma fold_e_filter:
  assumes "\<And>s x. x \<in> set xs \<Longrightarrow> \<not> P x \<Longrightarrow> f s x = Inr s"
  shows "fold_e f s (filter P xs) = fold_e f s xs"
  using assms by (induction xs arbitrary: s) auto

text \<open>The selection by \<open>grep\<close> loses no event.\<close>

lemma selection_exact:
  assumes "grep_selects grep files" and "files f = Some lines" and "f \<noteq> []"
  shows "parse_playback_log_per_user grep (\<lambda>f. files f \<noteq> None) f
    = bind_e (fold_e user_line [] lines) (\<lambda>d. Inr (map (\<lambda>(p, events). (p, sort_by_time events)) d))"
proof -
  have "\<exists>status \<in> {0, 1}. grep event_pattern [f]
      = Some (status, filter (\<lambda>l. \<exists>w \<in> set (split_on (CHR ''|'') event_pattern). str_in w l) lines)"
    using assms(1) [unfolded grep_selects_def, rule_format, OF assms(2) event_pattern_words(2)] .
  then obtain status where s: "status \<in> {0, 1}"
    "grep event_pattern [f] = Some (status, filter (\<lambda>l. \<exists>w \<in> set event_words. str_in w l) lines)"
    unfolding event_pattern_words(1) by blast
  then have "grep_lines grep (\<lambda>f. files f \<noteq> None) f event_pattern = filter (\<lambda>l. \<exists>w \<in> set event_words. str_in w l) lines"
    using assms(2,3) by (auto simp: grep_lines_def)
  moreover have "fold_e user_line [] (filter (\<lambda>l. \<exists>w \<in> set event_words. str_in w l) lines) = fold_e user_line [] lines"
    by (rule fold_e_filter) (simp add: user_line_def no_event)
  ultimately show ?thesis using assms(2,3) by (simp add: parse_playback_log_per_user_def)
qed

section \<open>The events of a player\<close>

definition events_of :: "int \<Rightarrow> (int \<times> play_event) option list \<Rightarrow> play_event list" where
  "events_of p rs = List.map_filter (\<lambda>r. case r of Some (q, e) \<Rightarrow> if q = p then Some e else None | None \<Rightarrow> None) rs"

lemma events_of_simps [simp]:
  "events_of p [] = []"
  "events_of p (r # rs) = (case r of Some (q, e) \<Rightarrow> if q = p then e # events_of p rs else events_of p rs | None \<Rightarrow> events_of p rs)"
  by (auto simp: events_of_def List.map_filter_simps split: option.splits)

definition entry_for :: "play_event list \<Rightarrow> play_event list option" where
  "entry_for xs = (if xs = [] then None else Some xs)"

definition held_events :: "events \<Rightarrow> int \<Rightarrow> play_event list" where
  "held_events d p = (case map_of d p of None \<Rightarrow> [] | Some es \<Rightarrow> es)"

lemma held_append: "held_events (append_event q e d) p = (if p = q then held_events d p @ [e] else held_events d p)"
  by (simp add: held_events_def append_event_def update_conv)

lemma append_event_nonempty:
  assumes "\<forall>(p, es) \<in> set d. es \<noteq> []" and "distinct (map fst d)"
  shows "(\<forall>(p, es) \<in> set (append_event q e d). es \<noteq> []) \<and> distinct (map fst (append_event q e d))"
proof -
  have "(p, es) \<in> set (AList.update q (xs @ [e]) d) \<Longrightarrow> es \<noteq> []" for p es xs
    using assms(1) by (induction d) (auto split: if_splits)
  then show ?thesis using assms(2) by (auto simp: append_event_def distinct_update)
qed

lemma map_of_held:
  assumes "\<forall>(p, es) \<in> set d. es \<noteq> []"
  shows "map_of d p = entry_for (held_events d p)"
  using assms by (auto simp: entry_for_def held_events_def split: option.splits dest: map_of_SomeD)

lemma user_lines_result:
  assumes "list_all2 (\<lambda>l r. user_event l = Inr r) lines rs"
    and "\<forall>(p, es) \<in> set d. es \<noteq> []" and "distinct (map fst d)"
  shows "\<exists>d'. fold_e user_line d lines = Inr d' \<and> (\<forall>(p, es) \<in> set d'. es \<noteq> []) \<and> distinct (map fst d')
    \<and> (\<forall>p. held_events d' p = held_events d p @ events_of p rs)"
  using assms
proof (induction arbitrary: d rule: list_all2_induct)
  case Nil
  then show ?case by simp
next
  case (Cons l lines r rs)
  show ?case
  proof (cases r)
    case None
    then show ?thesis using Cons by (simp add: user_line_def)
  next
    case (Some x)
    obtain q e where x: "x = (q, e)" by (cases x)
    obtain d' where "fold_e user_line (append_event q e d) lines = Inr d'" "\<forall>(p, es) \<in> set d'. es \<noteq> []" "distinct (map fst d')"
      "\<forall>p. held_events d' p = held_events (append_event q e d) p @ events_of p rs"
      using Cons.IH append_event_nonempty [OF Cons.prems] by blast
    moreover have "user_line d l = Inr (append_event q e d)" using Cons.hyps Some x by (simp add: user_line_def)
    ultimately show ?thesis using Some x by (intro exI [of _ d']) (simp add: held_append)
  qed
qed

lemma player_events:
  assumes "grep_selects grep files" and "files f = Some lines" and "f \<noteq> []"
    and "list_all2 (\<lambda>l r. user_event l = Inr r) lines rs"
  shows "\<exists>d. parse_playback_log_per_user grep (\<lambda>f. files f \<noteq> None) f = Inr d \<and> distinct (map fst d)
    \<and> (\<forall>p. map_of d p = map_option sort_by_time (entry_for (events_of p rs)))"
proof -
  obtain d' where d': "fold_e user_line [] lines = Inr d'" "\<forall>(p, es) \<in> set d'. es \<noteq> []" "distinct (map fst d')"
    "\<forall>p. held_events d' p = held_events [] p @ events_of p rs"
    using user_lines_result [OF assms(4), of "[]"] by auto
  let ?d = "map (\<lambda>(p, events). (p, sort_by_time events)) d'"
  have "map_of ?d p = map_option sort_by_time (entry_for (events_of p rs))" for p
    using d'(4) map_of_held [OF d'(2)] by (simp add: map_of_map held_events_def [of "[]"])
  moreover have "map fst ?d = map fst d'" by (induction d') auto
  ultimately show ?thesis using selection_exact [OF assms(1-3)] d'(1,3) by (metis bind_e_Inr)
qed

section \<open>What the player prints\<close>

text \<open>
  The lines of \<open>src/dash/model/mpeg-player.cc\<close> that the script reads, and any other line. A time is a text of
  digits with at most one dot and the number it denotes; what follows the fields that are read is a text.
\<close>

datatype log_entry =
    Frame string "string \<times> rat" nat nat nat nat string
  | Stall "string \<times> rat" nat string
  | Resume "string \<times> rat" nat string
  | Other string

fun render :: "log_entry \<Rightarrow> string" where
  "render (Frame ptr tm p vid seg r rest) =
     ptr @ '' '' @ fst tm @ '' PLAYING FRAME:  PlayerId: '' @ str_of_nat p @ '' VidId: '' @ str_of_nat vid
     @ '' SegId: '' @ str_of_nat seg @ '' Res: '' @ str_of_nat r @ '' FrameId: '' @ rest"
| "render (Stall tm p rest) =
     ''MpegPlayer No frames to play at t='' @ fst tm @ ''s. Player ID='' @ str_of_nat p @ '' State'' @ rest"
| "render (Resume tm p rest) =
     ''MpegPlayer Play resumed at t='' @ fst tm @ ''s. Player ID='' @ str_of_nat p @ '' Pause'' @ rest"
| "render (Other s) = s"

fun entry_event :: "log_entry \<Rightarrow> (int \<times> play_event) option" where
  "entry_event (Frame ptr tm p vid seg r rest) = Some (int p, Playing, snd tm, Some (of_nat r))"
| "entry_event (Stall tm p rest) = Some (int p, Interrupted, snd tm, None)"
| "entry_event (Resume tm p rest) = Some (int p, Resumed, snd tm, None)"
| "entry_event (Other s) = None"

definition time_ok :: "string \<times> rat \<Rightarrow> bool" where
  "time_ok tm \<longleftrightarrow> re_number (fst tm) = Some (fst tm, []) \<and> float_of (fst tm) = Inr (snd tm)"

text \<open>The address that starts the line of a frame is letters and digits; a stall is not told with a colon.\<close>

fun entry_ok :: "log_entry \<Rightarrow> bool" where
  "entry_ok (Frame ptr tm p vid seg r rest) \<longleftrightarrow> time_ok tm \<and> list_all re_word ptr"
| "entry_ok (Stall tm p rest) \<longleftrightarrow> time_ok tm \<and> CHR '':'' \<notin> set rest"
| "entry_ok (Resume tm p rest) \<longleftrightarrow> time_ok tm \<and> CHR '':'' \<notin> set rest \<and> CHR ''N'' \<notin> set rest"
| "entry_ok (Other s) \<longleftrightarrow> (\<forall>w \<in> set event_words. \<not> str_in w s)"

lemma run1_none: "s = [] \<or> \<not> P (hd s) \<Longrightarrow> run1 P s = None"
  by (cases s) (auto simp: run1_def Let_def)

lemma re_number_append:
  assumes "re_number t = Some (t, [])" and "s = [] \<or> (\<not> is_digit (hd s) \<and> hd s \<noteq> CHR ''.'')"
  shows "re_number (t @ s) = Some (t, s)"
proof -
  obtain a r where ar: "run1 is_digit t = Some (a, r)" using assms(1) by (auto simp: re_number_def split: option.splits)
  have a: "a = takeWhile is_digit t" "r = dropWhile is_digit t" "a \<noteq> []" using ar by (auto simp: run1_def Let_def split: if_splits)
  show ?thesis
  proof (cases "lit ''.'' r")
    case None
    then have "r = []" "t = a" using assms(1) ar by (auto simp: re_number_def)
    moreover have "run1 is_digit (a @ s) = Some (a, s)" using a assms(2) set_takeWhileD by (intro run1_append) fastforce+
    moreover have "lit ''.'' s = None" using assms(2) by (cases s) (auto simp: lit_def)
    ultimately show ?thesis by (simp add: re_number_def)
  next
    case (Some r')
    then have r: "r = ''.'' @ r'" by (simp add: lit_Some)
    then have t: "t = a @ ''.'' @ r'" using run1_Some [OF ar] by simp
    have r': "takeWhile is_digit r' = r'" "dropWhile is_digit r' = []" using assms(1) ar Some t by (auto simp: re_number_def)
    have "run1 is_digit (a @ ''.'' @ r' @ s) = Some (a, ''.'' @ r' @ s)"
    proof (rule run1_append)
      show "is_digit c" if "c \<in> set a" for c using a(1) set_takeWhileD that by fastforce
    qed (use a in \<open>simp_all add: is_digit_def\<close>)
    moreover have "takeWhile is_digit (r' @ s) = r'" "dropWhile is_digit (r' @ s) = s"
      using r' assms(2) by (cases s; auto simp: takeWhile_append dropWhile_append takeWhile_eq_all_conv)+
    ultimately show ?thesis unfolding t by (simp add: re_number_def lit_def)
  qed
qed

lemma search_first_here: "m s = Some r \<Longrightarrow> search_first m s = Some r"
  by (cases s) auto

lemma search_first_skip:
  assumes "\<And>u v. a = u @ v \<Longrightarrow> v \<noteq> [] \<Longrightarrow> m (v @ s) = None"
  shows "search_first m (a @ s) = search_first m s"
  using assms
proof (induction a)
  case (Cons c a)
  have "m ((c # a) @ s) = None" by (rule Cons.prems [of "[]"]) simp_all
  moreover have "search_first m (a @ s) = search_first m s"
    by (rule Cons.IH) (rule Cons.prems [of "c # _"], simp_all)
  ultimately show ?case by simp
qed simp

text \<open>A pattern that starts with a given character is found after the texts that do not have it.\<close>

lemma search_first_char:
  assumes "\<And>x xs. x \<noteq> c \<Longrightarrow> m (x # xs) = None" and "c \<notin> set a"
  shows "search_first m (a @ s) = search_first m s"
proof (rule search_first_skip)
  fix u v assume "a = u @ v" "v \<noteq> []"
  then show "m (v @ s) = None" using assms by (cases v) auto
qed

lemma match_res_char: "x \<noteq> CHR ''R'' \<Longrightarrow> match_res (x # xs) = None"
  and match_player_char: "x \<noteq> CHR ''P'' \<Longrightarrow> match_player (x # xs) = None"
  and match_no_frames_char: "x \<noteq> CHR ''N'' \<Longrightarrow> match_stall_user no_frames (x # xs) = None"
  by (simp_all add: match_res_def match_player_def match_stall_user_def match_at_def no_frames_def lit_def)

lemma nat_text: "CHR '' '' \<notin> set (str_of_nat n)" "CHR ''R'' \<notin> set (str_of_nat n)" "CHR '':'' \<notin> set (str_of_nat n)"
  "CHR ''N'' \<notin> set (str_of_nat n)"
  using str_of_nat_digits [of _ n] by (auto simp: is_digit_def)

lemma run1_nat: "s = [] \<or> \<not> is_digit (hd s) \<Longrightarrow> run1 is_digit (str_of_nat n @ s) = Some (str_of_nat n, s)"
  by (rule run1_append) (auto simp: str_of_nat_not_Nil str_of_nat_digits)

lemma spaces0_nat: "spaces0 (CHR '' '' # str_of_nat n @ s) = str_of_nat n @ s"
proof -
  obtain c cs where c: "str_of_nat n = c # cs" using str_of_nat_not_Nil by (cases "str_of_nat n") auto
  then have "\<not> re_space c" using str_of_nat_digits [of c n] digit_not_space by auto
  then show ?thesis by (simp add: spaces0_def c re_space_def is_space_def)
qed

lemma int_of_nat: "int_of (str_of_nat n) = Inr (int n)"
  using int_of_str_of_int [of "int n"] by (simp add: str_of_int_def)

lemma float_of_nat: "float_of (str_of_nat n) = Inr (of_nat n)"
proof -
  have d: "is_digit (hd (str_of_nat n))" "is_digit (last (str_of_nat n))"
    using str_of_nat_digits [of "hd (str_of_nat n)" n] str_of_nat_digits [of "last (str_of_nat n)" n] str_of_nat_not_Nil
    by simp_all
  have no: "c \<notin> set (str_of_nat n)" if "\<not> is_digit c" for c using str_of_nat_digits that by blast
  have s: "re_strip (str_of_nat n) = str_of_nat n" using d digit_not_space str_of_nat_not_Nil by (intro re_strip_id) simp_all
  have sg: "sign_of (str_of_nat n) = (1, str_of_nat n)"
    using no [of "CHR ''-''"] no [of "CHR ''+''"] str_of_nat_not_Nil [of n]
    by (cases "str_of_nat n") (auto simp: is_digit_def)
  have t: "takeWhile (\<lambda>c. \<not> P c) (str_of_nat n) = str_of_nat n" "dropWhile (\<lambda>c. \<not> P c) (str_of_nat n) = []"
    if "\<And>c. P c \<Longrightarrow> \<not> is_digit c" for P
    using that str_of_nat_digits by (auto simp: takeWhile_eq_all_conv)
  have e: "upto_char (\<lambda>c. c \<in> {CHR ''e'', CHR ''E''}) (str_of_nat n) = (str_of_nat n, None)"
    "upto_char (\<lambda>c. c = CHR ''.'') (str_of_nat n) = (str_of_nat n, None)"
    unfolding upto_char_def by (subst t, force simp: is_digit_def, subst t, force simp: is_digit_def, simp)+
  show ?thesis
    by (simp only: float_of_def s sg e mantissa_def Let_def prod.case option.case digits_ok_str_of_nat digits_val_str_of_nat if_True)
       simp
qed

section \<open>Each entry is read back\<close>

lemma re_number_digit: "re_number t = Some (t, []) \<Longrightarrow> \<exists>d t'. t = d # t' \<and> is_digit d"
  by (cases t) (auto simp: re_number_def run1_def Let_def split: if_splits option.splits)

lemma lit_char: "hd s \<noteq> c \<Longrightarrow> lit [c] s = None"
  by (cases s) (auto simp: lit_def)

text \<open>No number of the address is taken for the time of the frame.\<close>

lemma no_frame_in_ptr:
  assumes "list_all re_word w" and "is_digit d"
  shows "match_playing_user (w @ CHR '' '' # d # s) = None"
proof -
  let ?a = "takeWhile is_digit w" and ?r = "dropWhile is_digit w"
  have sp: "\<not> is_digit (CHR '' '')" "re_space (CHR '' '')" "\<not> re_space d" "d \<noteq> CHR ''P''"
    using digit_not_space [OF assms(2)] assms(2) by (auto simp: is_digit_def re_space_def is_space_def)
  have "takeWhile is_digit (w @ CHR '' '' # d # s) = ?a" "dropWhile is_digit (w @ CHR '' '' # d # s) = ?r @ CHR '' '' # d # s"
    using sp(1) by (induction w) auto
  then have run: "run1 is_digit (w @ CHR '' '' # d # s) = (if ?a = [] then None else Some (?a, ?r @ CHR '' '' # d # s))"
    by (simp add: run1_def)
  have "list_all re_word ?r" using assms(1) set_dropWhileD by (fastforce simp: list_all_iff)
  then have hd: "hd (?r @ CHR '' '' # d # s) \<noteq> CHR ''.''" "?r \<noteq> [] \<Longrightarrow> \<not> re_space (hd (?r @ CHR '' '' # d # s))"
    by (cases ?r; auto simp: re_word_def re_space_def is_space_def)+
  have "lit ''.'' (?r @ CHR '' '' # d # s) = None" by (rule lit_char [OF hd(1)])
  then have num: "re_number (w @ CHR '' '' # d # s) = (if ?a = [] then None else Some (?a, ?r @ CHR '' '' # d # s))"
    by (simp add: re_number_def run)
  have "run1 re_space (?r @ CHR '' '' # d # s) = (if ?r = [] then Some ('' '', d # s) else None)"
  proof (cases "?r = []")
    case True
    show ?thesis unfolding True using sp by (simp add: run1_def)
  next
    case False
    then show ?thesis using hd(2) run1_none [of "?r @ CHR '' '' # d # s" re_space] by (metis (full_types))
  qed
  then have "match_frame (w @ CHR '' '' # d # s) = None" using sp(4) by (simp add: match_frame_def num lit_def)
  then show ?thesis by (simp add: match_playing_user_def)
qed

lemma frame_read:
  assumes "entry_ok (Frame ptr tm p vid seg r rest)"
  shows "user_event (render (Frame ptr tm p vid seg r rest)) = Inr (entry_event (Frame ptr tm p vid seg r rest))"
proof -
  let ?t = "fst tm" and ?tail = "'' FrameId: '' @ rest"
  let ?res = "''Res: '' @ str_of_nat r @ ?tail"
  let ?mid = "'' VidId: '' @ str_of_nat vid @ '' SegId: '' @ str_of_nat seg @ '' ''"
  let ?player = "''PlayerId: '' @ str_of_nat p @ ?mid @ ?res"
  let ?line = "?t @ '' PLAYING FRAME: '' @ '' '' @ ?player"
  have ok: "re_number ?t = Some (?t, [])" "float_of ?t = Inr (snd tm)" "list_all re_word ptr"
    using assms by (auto simp: time_ok_def)
  obtain d t' where d: "?t = d # t'" "is_digit d" using re_number_digit [OF ok(1)] by auto
  have "match_res ?res = Some (str_of_nat r, ?tail)" by (simp add: match_res_def lit_def spaces0_nat run1_nat is_digit_def)
  then have res: "search_first match_res (?mid @ ?res) = Some (str_of_nat r, ?tail)"
    by (subst search_first_char [where c = "CHR ''R''"]) (auto simp: nat_text match_res_char intro: search_first_here)
  have "run1 is_digit (str_of_nat p @ ?mid @ ?res) = Some (str_of_nat p, ?mid @ ?res)" by (rule run1_nat) (simp add: is_digit_def)
  then have "match_player ?player = Some ((str_of_nat p, str_of_nat r), ?tail)"
    using spaces0_nat [of p "?mid @ ?res"] res by (simp add: match_player_def lit_def)
  then have player: "search_first match_player (''  '' @ ?player) = Some ((str_of_nat p, str_of_nat r), ?tail)"
    using search_first_char [of "CHR ''P''" match_player "''  ''" ?player] match_player_char search_first_here by simp
  have "re_number ?line = Some (?t, '' PLAYING FRAME: '' @ '' '' @ ?player)"
    by (rule re_number_append [OF ok(1)]) (simp add: is_digit_def)
  then have "match_frame ?line = Some (?t, ''  '' @ ?player)"
    by (simp add: match_frame_def run1_def re_space_def is_space_def lit_def)
  then have "match_playing_user ?line = Some ((?t, str_of_nat p, str_of_nat r), ?tail)"
    using player by (simp add: match_playing_user_def)
  then have found: "search_first match_playing_user ?line = Some ((?t, str_of_nat p, str_of_nat r), ?tail)"
    by (rule search_first_here)
  have "match_playing_user (v @ ?line) = None" if "ptr @ '' '' = u @ v" "v \<noteq> []" for u v
  proof -
    have "last v = CHR '' ''" using that by (metis last_appendR last_snoc)
    then have v: "v = butlast v @ '' ''" using that(2) by (metis append_butlast_last_id)
    have "ptr = u @ butlast v" using that by (metis butlast_append butlast_snoc)
    then have "list_all re_word (butlast v)" using ok(3) by simp
    then show ?thesis using no_frame_in_ptr [of "butlast v" d] d by (subst v) simp
  qed
  then have "search_first match_playing_user ((ptr @ '' '') @ ?line) = Some ((?t, str_of_nat p, str_of_nat r), ?tail)"
    unfolding found [symmetric] by (rule search_first_skip)
  then show ?thesis using ok(2) by (simp add: user_event_def int_of_nat float_of_nat)
qed

lemma dec_number:
  assumes "re_number t = Some (t, [])"
  shows "t \<noteq> []" and "\<forall>c \<in> set t. is_dec c"
proof -
  show "t \<noteq> []" using re_number_digit [OF assms] by auto
  obtain a r where ar: "run1 is_digit t = Some (a, r)" using assms by (auto simp: re_number_def split: option.splits)
  have dig: "\<forall>c \<in> set (takeWhile is_digit x). is_dec c" for x by (auto simp: is_dec_def dest: set_takeWhileD)
  have "a = takeWhile is_digit t" using ar by (auto simp: run1_def Let_def split: if_splits)
  then have a: "\<forall>c \<in> set a. is_dec c" using dig by blast
  show "\<forall>c \<in> set t. is_dec c"
  proof (cases "lit ''.'' r")
    case None
    then show ?thesis using assms ar a by (simp add: re_number_def)
  next
    case (Some r')
    then have "t = a @ ''.'' @ takeWhile is_digit r'" using assms ar by (simp add: re_number_def)
    moreover have "is_dec (CHR ''.'')" by (simp add: is_dec_def)
    ultimately show ?thesis using a dig [of r'] by auto
  qed
qed

lemma stall_read:
  assumes "time_ok tm"
  shows "match_stall_user head (head @ fst tm @ ''s. Player ID='' @ str_of_nat p @ '' '' @ s) = Some ((fst tm, str_of_nat p), '' '' @ s)"
proof -
  have "run1 is_dec (fst tm @ ''s. Player ID='' @ str_of_nat p @ '' '' @ s) = Some (fst tm, ''s. Player ID='' @ str_of_nat p @ '' '' @ s)"
    using assms dec_number [of "fst tm"] by (intro run1_append) (auto simp: time_ok_def is_dec_def is_digit_def)
  moreover have "run1 re_space ('' Player ID='' @ str_of_nat p @ '' '' @ s) = Some ('' '', ''Player ID='' @ str_of_nat p @ '' '' @ s)"
    by (simp add: run1_def re_space_def is_space_def)
  moreover have "run1 is_digit (str_of_nat p @ '' '' @ s) = Some (str_of_nat p, '' '' @ s)"
    by (rule run1_nat) (simp add: is_digit_def)
  ultimately show ?thesis by (simp add: match_stall_user_def match_at_def match_id_def lit_Some [THEN iffD2] lit_def)
qed

lemma stall_found:
  "time_ok tm \<Longrightarrow> search_first (match_stall_user head) (head @ fst tm @ ''s. Player ID='' @ str_of_nat p @ '' '' @ s)
    = Some ((fst tm, str_of_nat p), '' '' @ s)"
  by (rule search_first_here) (rule stall_read)

lemma no_colon: "CHR '':'' \<notin> set l \<Longrightarrow> search_first match_playing_user l = None"
  by (rule search_first_word [OF playing_text]) (auto simp: str_in_iff)

lemma no_stall: "CHR ''N'' \<notin> set l \<Longrightarrow> search_first (match_stall_user no_frames) l = None"
  by (rule search_first_word [OF stall_text]) (auto simp: str_in_iff no_frames_def)

lemma time_colon:
  assumes "time_ok tm"
  shows "CHR '':'' \<notin> set (fst tm)" and "CHR ''N'' \<notin> set (fst tm)"
proof -
  have "re_number (fst tm) = Some (fst tm, [])" using assms by (simp only: time_ok_def)
  from dec_number(2) [OF this] have "\<forall>c \<in> set (fst tm). is_dec c" .
  moreover have "\<not> is_dec (CHR '':'')" "\<not> is_dec (CHR ''N'')" by (simp_all add: is_dec_def is_digit_def)
  ultimately show "CHR '':'' \<notin> set (fst tm)" and "CHR ''N'' \<notin> set (fst tm)" by blast+
qed

lemma user_event_resumed:
  assumes "search_first match_playing_user l = None" and "search_first (match_stall_user no_frames) l = None"
    and "search_first (match_stall_user play_resumed) l = Some ((fst tm, str_of_nat p), s)" and "time_ok tm"
  shows "user_event l = Inr (Some (int p, Resumed, snd tm, None))"
  using assms by (simp add: user_event_def int_of_nat time_ok_def)

lemma entry_read: "entry_ok e \<Longrightarrow> user_event (render e) = Inr (entry_event e)"
proof (cases e)
  case (Stall tm p rest)
  assume ok: "entry_ok e"
  let ?l = "no_frames @ fst tm @ ''s. Player ID='' @ str_of_nat p @ '' '' @ ''State'' @ rest"
  have r: "render e = ''MpegPlayer '' @ ?l" by (simp add: Stall no_frames_def)
  have "search_first match_playing_user (render e) = None"
    using ok Stall by (intro no_colon) (auto simp: nat_text time_colon)
  moreover have "search_first (match_stall_user no_frames) (render e) = Some ((fst tm, str_of_nat p), '' State'' @ rest)"
    unfolding r using search_first_char [of "CHR ''N''" "match_stall_user no_frames" "''MpegPlayer ''" ?l]
      match_no_frames_char stall_found [of tm no_frames p "''State'' @ rest"] ok Stall by simp
  ultimately show ?thesis using ok Stall by (simp add: user_event_def int_of_nat time_ok_def)
next
  case (Resume tm p rest)
  assume ok: "entry_ok e"
  let ?l = "play_resumed @ fst tm @ ''s. Player ID='' @ str_of_nat p @ '' '' @ ''Pause'' @ rest"
  have r: "render e = ''MpegPlayer '' @ ?l" by (simp add: Resume play_resumed_def)
  have "search_first match_playing_user (render e) = None"
    using ok Resume by (intro no_colon) (auto simp: nat_text time_colon)
  moreover have "search_first (match_stall_user no_frames) (render e) = None"
    using ok Resume by (intro no_stall) (auto simp: nat_text time_colon)
  moreover have "search_first (match_stall_user play_resumed) (''MpegPlayer '' @ ?l) = search_first (match_stall_user play_resumed) ?l"
    by (simp add: match_stall_user_def match_at_def play_resumed_def lit_def)
  ultimately have "user_event (render e) = Inr (Some (int p, Resumed, snd tm, None))"
    using ok Resume stall_found [of tm play_resumed p "''Pause'' @ rest"] unfolding r
    by (intro user_event_resumed) (simp_all only: entry_ok.simps)
  then show ?thesis by (simp add: Resume)
qed (use frame_read no_event in simp_all)

section \<open>The log is read back\<close>

text \<open>C28: the script reads from a log exactly the events that the players printed: for a log made of frames, stalls,
  resumptions and other lines, in any interleaving of the players, \<open>parse_playback_log_per_user\<close> succeeds and gives
  every player its events, in the order of time and in the order of the log for equal times, and no entry to a player
  that printed none. Selecting the lines with \<open>grep\<close> first loses nothing.\<close>

theorem playback_log_read:
  assumes "grep_selects grep files" and "files f = Some (map render es)" and "f \<noteq> []" and "\<forall>e \<in> set es. entry_ok e"
  shows "\<exists>d. parse_playback_log_per_user grep (\<lambda>f. files f \<noteq> None) f = Inr d \<and> distinct (map fst d)
    \<and> (\<forall>p. map_of d p = map_option sort_by_time (entry_for (events_of p (map entry_event es))))"
proof (rule player_events [OF assms(1-3)])
  show "list_all2 (\<lambda>l r. user_event l = Inr r) (map render es) (map entry_event es)"
    using assms(4) by (induction es) (auto simp: entry_read simp del: render.simps entry_event.simps entry_ok.simps)
qed

definition sample_entries :: "log_entry list" where
  "sample_entries =
     [Other ''MpegPlayer created'', Frame ''0x55d1a0'' (''0.5'', 1 / 2) 0 3 1 45000 ''7 PlayTime: 0.14'',
      Stall (''2'', 2) 1 '' changing to PAUSED. Interruptions=0'', Frame ''0x55d1b7'' (''1.25'', 5 / 4) 1 3 1 89000 ''1'',
      Resume (''2.75'', 11 / 4) 1 '' duration=0.75s. Total interruption time=0s'']"

lemma sample_times: "time_ok (''0.5'', 1 / 2)" "time_ok (''2'', 2)" "time_ok (''1.25'', 5 / 4)" "time_ok (''2.75'', 11 / 4)"
  by code_simp+

lemma sample_words: "list_all re_word ''0x55d1a0''" "list_all re_word ''0x55d1b7''" "\<forall>w \<in> set event_words. \<not> str_in w ''MpegPlayer created''"
  by code_simp+

lemma sample_entries_ok: "\<forall>e \<in> set sample_entries. entry_ok e"
  by (simp add: sample_entries_def sample_times sample_words [unfolded list_all_iff] del: str_in.simps)

definition run_grep :: "(string \<Rightarrow> string list option) \<Rightarrow> grep" where
  "run_grep files pattern fs =
     (let found = \<lambda>l. \<exists>w \<in> set (split_on (CHR ''|'') pattern). str_in w l;
          out = concat (map (\<lambda>f. map (\<lambda>l. if 1 < length fs then f @ '':'' @ l else l)
            (filter found (case files f of None \<Rightarrow> [] | Some ls \<Rightarrow> ls))) fs)
      in Some (if out = [] then 1 else 0, out))"

lemma run_grep_selects: "grep_selects (run_grep files) files"
  by (auto simp: grep_selects_def run_grep_def Let_def)

theorem playback_log_read_witness:
  "\<exists>d. parse_playback_log_per_user (run_grep [''r.err'' \<mapsto> map render sample_entries]) (\<lambda>f. [''r.err'' \<mapsto> map render sample_entries] f \<noteq> None) ''r.err''
      = Inr d \<and> distinct (map fst d)
    \<and> (\<forall>p. map_of d p = map_option sort_by_time (entry_for (events_of p (map entry_event sample_entries))))"
proof (rule playback_log_read [OF run_grep_selects])
  show "\<forall>e \<in> set sample_entries. entry_ok e" by (rule sample_entries_ok)
qed simp_all

text \<open>\<open>grep\<close> names the file of a line only when it is given several files, and the bulk reader relies on the name: a log that is
  alone in its batch loses all its events.\<close>

definition two_logs :: "string \<Rightarrow> string list option" where
  "two_logs = [''a.err'' \<mapsto> [''MpegPlayer No frames to play at t=2s. Player ID=1 State''],
               ''b.err'' \<mapsto> [''0x5 0.5 PLAYING FRAME:  PlayerId: 0 Res: 45'', ''MpegPlayer Play resumed at t=3s. Player ID=0 Pause'']]"

theorem bulk_single_file:
  "parse_playback_logs_bulk (run_grep two_logs) (\<lambda>f. two_logs f \<noteq> None) [''b.err''] = []"
  "parse_playback_logs_bulk (run_grep two_logs) (\<lambda>f. two_logs f \<noteq> None) [''a.err'', ''b.err'']
    = [(''a.err'', [(Interrupted, 2, None)]), (''b.err'', [(Playing, 1 / 2, Some 45), (Resumed, 3, None)])]"
  by code_simp+

end
