(* ===== verification/PlayQoe.thy ===== *)
theory PlayQoe
  imports PlayBands PlayEvents "HOL-Library.List_Lexorder" "HOL-Library.Char_ord"
begin

text \<open>
  \<open>scripts/plot_bitrate_playback.py\<close>, the figures of merit: the fairness index (\<open>_jain\<close>, \<open>_jain_fairness_index\<close>), the mode
  and the distribution function of a list of values, and the composite quality of experience of the handover campaign
  (\<open>analyze_handover_campaign\<close>, its first two passes). \<open>np.log\<close> and \<open>glob\<close> are parameters. The text \<open>inf\<close> is outside
  the model, as everywhere; \<open>nan\<close> counts as 0, as \<open>max(0.0, nan)\<close> does.
\<close>

section \<open>Fairness, mode, distribution function\<close>

definition squares :: "rat list \<Rightarrow> rat" where
  "squares xs = sum_list (map (\<lambda>x. x * x) xs)"

text \<open>\<open>None\<close> stands for \<open>nan\<close> in the first and for \<open>None\<close> in the second.\<close>

definition jain :: "rat option list \<Rightarrow> rat option" where
  "jain x =
     (let a = List.map_filter id x
      in if a \<noteq> [] \<and> 0 < squares a then Some ((sum_list a)\<^sup>2 / (of_nat (length a) * squares a)) else None)"

definition jain_fairness_index :: "rat list \<Rightarrow> rat option" where
  "jain_fairness_index values =
     (let cleaned = filter (\<lambda>fv. \<not> fv < 0) values in
      if cleaned = [] then None
      else (let n = length cleaned; sq_sum = squares cleaned
            in if sq_sum \<le> 0 then None else Some ((sum_list cleaned)\<^sup>2 / (of_nat n * sq_sum))))"

definition mode_value :: "rat list \<Rightarrow> rat" where
  "mode_value values =
     (if values = [] then 0
      else (let max_count = Max (set (map (count_list values) values))
            in Min (set (filter (\<lambda>v. count_list values v = max_count) values))))"

text \<open>The inner loop of \<open>_cdf_vals\<close>: the values up to \<open>x\<close> are passed over and counted.\<close>

fun skip_upto :: "rat \<Rightarrow> nat \<Rightarrow> rat list \<Rightarrow> nat \<times> rat list" where
  "skip_upto x idx [] = (idx, [])"
| "skip_upto x idx (v # vs) = (if v \<le> x then skip_upto x (Suc idx) vs else (idx, v # vs))"

fun cdf_loop :: "rat \<Rightarrow> nat \<Rightarrow> rat list \<Rightarrow> rat list \<Rightarrow> rat list" where
  "cdf_loop n idx vs [] = []"
| "cdf_loop n idx vs (x # xs) = (let (idx, vs) = skip_upto x idx vs in of_nat idx / n # cdf_loop n idx vs xs)"

definition cdf_vals :: "rat list \<Rightarrow> rat list \<Rightarrow> rat list option" where
  "cdf_vals sorted_vals x_grid =
     (if sorted_vals = [] then None else Some (cdf_loop (of_nat (length sorted_vals)) 0 sorted_vals x_grid))"

section \<open>Composite quality of experience\<close>

text \<open>\<open>ue-id:\s*(\d+)\s+InterruptionTime:\s*(-?(?:[\d.]+(?:[eE][+-]?\d+)?|nan|inf))\<close>\<close>

definition exponent :: "string \<Rightarrow> (string \<times> string) option" where
  "exponent s =
     (case one (\<lambda>c. c = CHR ''e'' \<or> c = CHR ''E'') s of
        None \<Rightarrow> None
      | Some (e, s) \<Rightarrow>
          (let (sign, s) = (case one (\<lambda>c. c = CHR ''+'' \<or> c = CHR ''-'') s of None \<Rightarrow> ([], s) | Some (c, s) \<Rightarrow> ([c], s))
           in map_option (\<lambda>(d, s). (e # sign @ d, s)) (run1 is_digit s)))"

definition qoe_number :: "string \<Rightarrow> (string \<times> string) option" where
  "qoe_number s =
     (let (sign, s) = (case lit ''-'' s of None \<Rightarrow> ([], s) | Some s \<Rightarrow> (''-'', s)) in
      case run1 is_dec s of
        Some (a, s) \<Rightarrow> (case exponent s of None \<Rightarrow> Some (sign @ a, s) | Some (e, s) \<Rightarrow> Some (sign @ a @ e, s))
      | None \<Rightarrow>
          (case lit ''nan'' s of
             Some s \<Rightarrow> Some (sign @ ''nan'', s)
           | None \<Rightarrow> map_option (\<lambda>s. (sign @ ''inf'', s)) (lit ''inf'' s)))"

definition qoe_line :: "string \<Rightarrow> ((string \<times> string) \<times> string) option" where
  "qoe_line s = do {
     s \<leftarrow> lit ''ue-id:'' s; (ue, s) \<leftarrow> run1 is_digit (spaces0 s); (_, s) \<leftarrow> run1 re_space s;
     s \<leftarrow> lit ''InterruptionTime:'' s; (x, s) \<leftarrow> qoe_number (spaces0 s); Some ((ue, x), s) }"

definition rebuf_line :: "(int \<times> rat) list \<Rightarrow> string \<Rightarrow> (int \<times> rat) list py" where
  "rebuf_line d line =
     (case search_first qoe_line line of
        None \<Rightarrow> Inr d
      | Some ((ue, x), _) \<Rightarrow>
          bind_e (int_of ue) (\<lambda>ue. Inr (AList.update ue (case float_of x of Inl _ \<Rightarrow> 0 | Inr v \<Rightarrow> v) d)))"

record qoe_user =
  q_series :: "sample list"
  q_rebuf :: rat

text \<open>The bitrates that count: those that are not 0.\<close>

definition rates :: "sample list \<Rightarrow> rat list" where
  "rates series = filter (\<lambda>b. 0 < b) (map snd series)"

text \<open>The first pass over a run: its users, and the bounds of the ladder, which start as \<open>inf\<close> (\<open>None\<close>) and 0.\<close>

type_synonym ladder = "rat option \<times> rat"

definition widen_ladder :: "ladder \<Rightarrow> rat list \<Rightarrow> ladder" where
  "widen_ladder b rs =
     (Some (case fst b of None \<Rightarrow> Min (set rs) | Some m \<Rightarrow> min m (Min (set rs))), max (snd b) (Max (set rs)))"

definition add_user :: "(int \<times> rat) list \<Rightarrow> qoe_user list \<times> ladder \<Rightarrow> int \<times> sample list \<Rightarrow> qoe_user list \<times> ladder" where
  "add_user rebuf st u =
     (let (ue, series) = u; rs = rates series in
      if rs = [] then st
      else (fst st @ [\<lparr>q_series = series, q_rebuf = (case map_of rebuf ue of None \<Rightarrow> 0 | Some x \<Rightarrow> x)\<rparr>], widen_ladder (snd st) rs))"

definition run_users :: "(string \<Rightarrow> string list option) \<Rightarrow> qoe_user list \<times> ladder \<Rightarrow> string \<Rightarrow> (qoe_user list \<times> ladder) py" where
  "run_users files st run_dir =
     (case files (path_join run_dir ''sim.log'') of
        None \<Rightarrow> Inr st
      | Some lines \<Rightarrow>
          bind_e (parse_bitrate_log_per_user (Some lines) None) (\<lambda>br_by_ue.
          bind_e (fold_e rebuf_line [] lines) (\<lambda>rebuf.
            Inr (foldl (add_user rebuf) st br_by_ue))))"

text \<open>\<open>HO_CONFIG_LABEL\<close> and \<open>HO_ORDER\<close>.\<close>

definition ho_config_label :: "(string \<times> string) list" where
  "ho_config_label =
     [(''quic_bbr'', ''QUIC BBR''), (''quic_newreno'', ''QUIC NewReno''), (''tcp_bbr'', ''TCP BBR''),
      (''tcp_cubic'', ''TCP Cubic''), (''tcp_newreno'', ''TCP NewReno'')]"

definition ho_order :: "string list" where
  "ho_order = [''QUIC BBR'', ''QUIC NewReno'', ''TCP BBR'', ''TCP NewReno'']"

type_synonym campaign = "(string \<times> qoe_user list) list \<times> ladder"

definition config_users ::
    "(string \<Rightarrow> string list option) \<Rightarrow> (string \<Rightarrow> string list) \<Rightarrow> string \<Rightarrow> campaign \<Rightarrow> string \<times> string \<Rightarrow> campaign py" where
  "config_users files glob results_dir st c =
     bind_e (fold_e (run_users files) ([], snd st)
         (sort (glob (path_join (path_join results_dir (fst c)) ''run_*'')))) (\<lambda>(users, b).
       Inr (fst st @ [(snd c, users)], b))"

definition first_pass :: "(string \<Rightarrow> string list option) \<Rightarrow> (string \<Rightarrow> string list) \<Rightarrow> string \<Rightarrow> campaign py" where
  "first_pass files glob results_dir = fold_e (config_users files glob results_dir) ([], (None, 0)) ho_config_label"

text \<open>The second pass: what one user contributes.\<close>

fun switching :: "rat list \<Rightarrow> rat" where
  "switching (u # v # us) = \<bar>v - u\<bar> + switching (v # us)"
| "switching us = 0"

definition stall_of :: "qoe_user \<Rightarrow> rat" where
  "stall_of r = max 0 (q_rebuf r)"

definition qoe_of :: "(rat \<Rightarrow> rat) \<Rightarrow> rat \<Rightarrow> rat \<Rightarrow> qoe_user \<Rightarrow> rat" where
  "qoe_of lg gmin mu r =
     (let util = map (\<lambda>b. lg (b / gmin)) (rates (q_series r))
      in sum_list util - mu * stall_of r - 1 * switching util)"

text \<open>The columns QoE, bitrate and stall of every configuration of \<open>HO_ORDER\<close>; \<open>None\<close> when there is nothing to evaluate.\<close>

definition second_pass :: "(rat \<Rightarrow> rat) \<Rightarrow> campaign \<Rightarrow> (string \<times> (rat \<times> rat \<times> rat) list) list option" where
  "second_pass lg st =
     (case fst (snd st) of
        None \<Rightarrow> None
      | Some gmin \<Rightarrow>
          (let gmax = snd (snd st) in
           if gmax \<le> gmin then None
           else
             (let mu = lg (gmax / gmin) in
              Some (map (\<lambda>label. (label, map (\<lambda>r.
                  (qoe_of lg gmin mu r, average (rates (q_series r)) / 1000, stall_of r))
                (case map_of (fst st) label of None \<Rightarrow> [] | Some us \<Rightarrow> us))) ho_order))))"

definition analyze_handover_campaign ::
    "(rat \<Rightarrow> rat) \<Rightarrow> (string \<Rightarrow> string list option) \<Rightarrow> (string \<Rightarrow> string list) \<Rightarrow> string
      \<Rightarrow> (string \<times> (rat \<times> rat \<times> rat) list) list option py" where
  "analyze_handover_campaign lg files glob results_dir =
     bind_e (first_pass files glob results_dir) (\<lambda>st. Inr (second_pass lg st))"

section \<open>The fairness index\<close>

lemma squares_nonneg: "0 \<le> squares xs"
  by (induction xs) (auto simp: squares_def)

lemma deviation:
  "sum_list (map (\<lambda>y. (y - x) * (y - x)) xs) = squares xs - 2 * x * sum_list xs + of_nat (length xs) * (x * x)"
  by (induction xs) (auto simp: squares_def algebra_simps)

lemma deviation_nonneg: "0 \<le> (sum_list (map (\<lambda>y. (y - x) * (y - x)) xs) :: rat)"
  by (induction xs) auto

text \<open>The inequality of Cauchy and Schwarz, with how much it fails to be an equation.\<close>

fun spread_of :: "rat list \<Rightarrow> rat" where
  "spread_of [] = 0"
| "spread_of (x # xs) = sum_list (map (\<lambda>y. (y - x) * (y - x)) xs) + spread_of xs"

lemma cauchy: "of_nat (length xs) * squares xs = (sum_list xs)\<^sup>2 + spread_of xs"
proof (induction xs)
  case (Cons x xs)
  have "of_nat (length (x # xs)) * squares (x # xs)
      = of_nat (length xs) * squares xs + squares xs + of_nat (length xs) * (x * x) + x * x"
    by (simp add: squares_def algebra_simps)
  moreover have "spread_of (x # xs) = squares xs - 2 * x * sum_list xs + of_nat (length xs) * (x * x) + spread_of xs"
    by (simp only: spread_of.simps deviation)
  moreover have "(sum_list (x # xs))\<^sup>2 = x * x + 2 * x * sum_list xs + (sum_list xs)\<^sup>2"
    by (simp add: power2_eq_square algebra_simps)
  ultimately show ?case using Cons by linarith
qed (simp add: squares_def)

lemma spread_nonneg: "0 \<le> spread_of xs"
  by (induction xs) (use deviation_nonneg in auto)

lemma spread_zero: "spread_of xs = 0 \<longleftrightarrow> (\<forall>x \<in> set xs. \<forall>y \<in> set xs. x = y)"
proof (induction xs)
  case (Cons x xs)
  have "sum_list (map (\<lambda>y. (y - x) * (y - x)) ys) = 0 \<longleftrightarrow> (\<forall>y \<in> set ys. y = x)" for ys
    using deviation_nonneg [of x] by (induction ys) (auto simp: add_nonneg_eq_0_iff)
  then have "spread_of (x # xs) = 0 \<longleftrightarrow> (\<forall>y \<in> set xs. y = x) \<and> spread_of xs = 0"
    using spread_nonneg [of xs] deviation_nonneg [of x xs] by (simp add: add_nonneg_eq_0_iff)
  also have "\<dots> \<longleftrightarrow> (\<forall>y \<in> set (x # xs). \<forall>z \<in> set (x # xs). y = z)" unfolding Cons by auto
  finally show ?case .
qed simp

lemma squares_zero: "\<not> 0 < squares xs \<Longrightarrow> \<forall>x \<in> set xs. x = 0"
proof (induction xs)
  case (Cons x xs)
  then have "x * x + squares xs \<le> 0" by (simp add: squares_def not_less)
  then have "x * x = 0 \<and> squares xs \<le> 0" using squares_nonneg [of xs] zero_le_square [of x] by linarith
  then show ?case using Cons.IH by auto
qed simp

lemma squares_le_sum: "\<forall>x \<in> set xs. 0 \<le> x \<Longrightarrow> squares xs \<le> (sum_list xs)\<^sup>2"
proof (induction xs)
  case (Cons x xs)
  then have "0 \<le> sum_list xs" by (auto intro: sum_list_nonneg)
  then have "0 \<le> 2 * (x * sum_list xs)" using Cons.prems by simp
  then show ?case using Cons by (simp add: squares_def power2_eq_square algebra_simps)
qed (simp add: squares_def)

lemma index_bounds:
  assumes "0 < squares a" and "a \<noteq> []"
  shows "0 \<le> (sum_list a)\<^sup>2 / (of_nat (length a) * squares a)" and "(sum_list a)\<^sup>2 / (of_nat (length a) * squares a) \<le> 1"
    and "(sum_list a)\<^sup>2 / (of_nat (length a) * squares a) = 1 \<longleftrightarrow> (\<forall>x \<in> set a. \<forall>y \<in> set a. x = y)"
    and "\<forall>x \<in> set a. 0 \<le> x \<Longrightarrow> 1 / of_nat (length a) \<le> (sum_list a)\<^sup>2 / (of_nat (length a) * squares a)"
proof -
  let ?n = "of_nat (length a) :: rat"
  have n: "0 < ?n" using assms(2) by simp
  then have pos: "0 < ?n * squares a" using assms(1) by simp
  show "0 \<le> (sum_list a)\<^sup>2 / (?n * squares a)" using pos by simp
  show "(sum_list a)\<^sup>2 / (?n * squares a) \<le> 1"
    using pos cauchy [of a] spread_nonneg [of a] by (simp add: pos_divide_le_eq)
  show "(sum_list a)\<^sup>2 / (?n * squares a) = 1 \<longleftrightarrow> (\<forall>x \<in> set a. \<forall>y \<in> set a. x = y)"
    using pos cauchy [of a] spread_zero [of a] by (simp add: divide_eq_1_iff)
  show "1 / ?n \<le> (sum_list a)\<^sup>2 / (?n * squares a)" if "\<forall>x \<in> set a. 0 \<le> x"
    using squares_le_sum [OF that] n assms(1) by (simp add: pos_le_divide_eq field_simps)
qed

lemma all_zero: "\<not> (xs \<noteq> [] \<and> 0 < squares xs) \<Longrightarrow> \<forall>x \<in> set xs. x = 0"
  using squares_zero [of xs] by (cases xs) auto

lemma all_equal: "xs \<noteq> [] \<Longrightarrow> (\<forall>v \<in> set xs. \<forall>w \<in> set xs. v = w) \<longleftrightarrow> (\<exists>v. set xs = {v})"
  by (cases xs) auto

text \<open>C32: the fairness index of the rows of a run lies between 1/n and 1, where n is the number of values that are not
  negative, and is 1 exactly when these are all equal; it is missing exactly when none of them is positive. The index of
  the handover campaign, whose values may be negative, lies between 0 and 1.\<close>

theorem fairness_bounds:
  "(case jain_fairness_index values of
      None \<Rightarrow> \<not> (\<exists>v \<in> set values. 0 < v)
    | Some j \<Rightarrow> (let cleaned = filter (\<lambda>v. 0 \<le> v) values in
        1 / of_nat (length cleaned) \<le> j \<and> j \<le> 1 \<and> (j = 1 \<longleftrightarrow> (\<exists>v. set cleaned = {v}))))
    \<and> (case jain x of None \<Rightarrow> set x \<subseteq> {None, Some 0} | Some j \<Rightarrow> 0 \<le> j \<and> j \<le> 1)"
proof (rule conjI)
  let ?a = "filter (\<lambda>v. \<not> v < 0) values"
  have a: "filter (\<lambda>v. 0 \<le> v) values = ?a" by (rule filter_cong) auto
  show "case jain_fairness_index values of
      None \<Rightarrow> \<not> (\<exists>v \<in> set values. 0 < v)
    | Some j \<Rightarrow> (let cleaned = filter (\<lambda>v. 0 \<le> v) values in
        1 / of_nat (length cleaned) \<le> j \<and> j \<le> 1 \<and> (j = 1 \<longleftrightarrow> (\<exists>v. set cleaned = {v})))"
  proof (cases "?a \<noteq> [] \<and> 0 < squares ?a")
    case True
    then have "jain_fairness_index values = Some ((sum_list ?a)\<^sup>2 / (of_nat (length ?a) * squares ?a))"
      by (simp add: jain_fairness_index_def Let_def)
    moreover have "(\<forall>v \<in> set ?a. \<forall>w \<in> set ?a. v = w) \<longleftrightarrow> (\<exists>v. set ?a = {v})" using True by (intro all_equal) simp
    moreover have "\<forall>v \<in> set ?a. 0 \<le> v" by auto
    ultimately show ?thesis using index_bounds [of ?a] True unfolding a Let_def by (simp only: option.case) blast
  next
    case False
    then have "jain_fairness_index values = None" by (auto simp: jain_fairness_index_def Let_def not_less)
    moreover have "\<forall>v \<in> set ?a. v = 0" by (rule all_zero [OF False])
    ultimately show ?thesis by (auto simp: not_less)
  qed
  let ?x = "List.map_filter id x"
  show "case jain x of None \<Rightarrow> set x \<subseteq> {None, Some 0} | Some j \<Rightarrow> 0 \<le> j \<and> j \<le> 1"
  proof (cases "?x \<noteq> [] \<and> 0 < squares ?x")
    case True
    then have "jain x = Some ((sum_list ?x)\<^sup>2 / (of_nat (length ?x) * squares ?x))" by (simp add: jain_def Let_def)
    then show ?thesis using index_bounds(1,2) [of ?x] True by simp
  next
    case False
    have "v \<in> set ?x" if "Some v \<in> set x" for v using that by (force simp: List.map_filter_def)
    then have "\<forall>v. Some v \<in> set x \<longrightarrow> v = 0" using all_zero [OF False] by blast
    then have "set x \<subseteq> {None, Some 0}" by (metis insert_iff option.exhaust subsetI)
    then show ?thesis using False by (auto simp: jain_def)
  qed
qed

section \<open>Mode and distribution function\<close>

text \<open>The mode is a value of the list, no value is more frequent, and the values as frequent are not smaller.\<close>

theorem mode_least:
  assumes "values \<noteq> []"
  shows "mode_value values \<in> set values
    \<and> (\<forall>v. count_list values v \<le> count_list values (mode_value values)
      \<and> (count_list values v = count_list values (mode_value values) \<longrightarrow> mode_value values \<le> v))"
proof -
  define m where "m = Max (set (map (count_list values) values))"
  define S where "S = set (filter (\<lambda>v. count_list values v = m) values)"
  have fin: "finite (set (map (count_list values) values))" "set (map (count_list values) values) \<noteq> {}" using assms by auto
  have "m \<in> set (map (count_list values) values)" unfolding m_def by (rule Max_in [OF fin])
  then have "S \<noteq> {}" by (auto simp: S_def)
  moreover have "finite S" by (simp add: S_def)
  ultimately have "Min S \<in> S" by (intro Min_in)
  moreover have mode: "mode_value values = Min S" using assms by (simp add: mode_value_def S_def m_def Let_def)
  ultimately have "mode_value values \<in> S" by simp
  then have mv: "mode_value values \<in> set values" "count_list values (mode_value values) = m" by (auto simp: S_def)
  have le: "count_list values v \<le> m" for v
    by (cases "v \<in> set values") (auto simp: m_def intro!: Max_ge)
  have "0 < m" using mv by (metis count_list_0_iff gr0I)
  then have "v \<in> S" if "count_list values v = m" for v
    using that count_notin [of v] by (cases "v \<in> set values") (auto simp: S_def)
  then have "mode_value values \<le> v" if "count_list values v = m" for v using that by (auto simp: mode S_def intro!: Min_le)
  then show ?thesis using mv le by auto
qed

lemma skip_upto_result: "skip_upto x idx vs = (idx + length (takeWhile (\<lambda>v. v \<le> x) vs), dropWhile (\<lambda>v. v \<le> x) vs)"
  by (induction x idx vs rule: skip_upto.induct) auto

lemma cdf_loop_result:
  "sorted xs \<Longrightarrow> cdf_loop n idx vs xs = map (\<lambda>x. of_nat (idx + length (takeWhile (\<lambda>v. v \<le> x) vs)) / n) xs"
proof (induction xs arbitrary: idx vs)
  case (Cons x xs)
  have more: "idx + length (takeWhile (\<lambda>v. v \<le> x) vs) + length (takeWhile (\<lambda>v. v \<le> y) (dropWhile (\<lambda>v. v \<le> x) vs))
      = idx + length (takeWhile (\<lambda>v. v \<le> y) vs)" if "x \<le> y" for y
    using that by (induction vs) auto
  have "cdf_loop n (idx + length (takeWhile (\<lambda>v. v \<le> x) vs)) (dropWhile (\<lambda>v. v \<le> x) vs) xs
      = map (\<lambda>y. of_nat (idx + length (takeWhile (\<lambda>v. v \<le> y) vs)) / n) xs"
    using Cons.IH [of "idx + length (takeWhile (\<lambda>v. v \<le> x) vs)" "dropWhile (\<lambda>v. v \<le> x) vs"] Cons.prems more
    by (simp del: of_nat_add)
  then show ?case by (simp add: skip_upto_result)
qed simp

text \<open>At every grid point the distribution function is the share of the values that are not above it.\<close>

theorem cdf_share:
  assumes "sorted vals" and "sorted xs" and "vals \<noteq> []"
  shows "cdf_vals vals xs = Some (map (\<lambda>x. of_nat (length (filter (\<lambda>v. v \<le> x) vals)) / of_nat (length vals)) xs)"
  using assms by (simp add: cdf_vals_def cdf_loop_result takeWhile_le)

theorem cdf_share_witness: "cdf_vals [1, 2, 2, 5] [0, 2, 6] = Some [0, 3 / 4, 1]"
  by (subst cdf_share) simp_all

section \<open>The bounds of the quality of experience\<close>

text \<open>What the script relies on of \<open>np.log\<close>: it is 0 at 1 and does not decrease.\<close>

definition numpy_log :: "(rat \<Rightarrow> rat) \<Rightarrow> bool" where
  "numpy_log lg \<longleftrightarrow> lg 1 = 0 \<and> (\<forall>x y. 0 < x \<longrightarrow> x \<le> y \<longrightarrow> lg x \<le> lg y)"

definition on_ladder :: "ladder \<Rightarrow> qoe_user \<Rightarrow> bool" where
  "on_ladder b r \<longleftrightarrow> rates (q_series r) \<noteq> []
    \<and> (\<exists>m. fst b = Some m \<and> 0 < m \<and> (\<forall>x \<in> set (rates (q_series r)). m \<le> x \<and> x \<le> snd b))"

definition ladder_ok :: "ladder \<Rightarrow> bool" where
  "ladder_ok b \<longleftrightarrow> (case fst b of None \<Rightarrow> True | Some m \<Rightarrow> 0 < m)"

lemma widen_keeps:
  assumes "on_ladder b r" and "rs \<noteq> []" and "\<forall>x \<in> set rs. 0 < x"
  shows "on_ladder (widen_ladder b rs) r"
proof -
  have "0 < Min (set rs)" using assms(2,3) by simp
  then show ?thesis using assms(1) by (auto simp: on_ladder_def widen_ladder_def intro: order_trans)
qed

lemma widen_new:
  assumes "ladder_ok b" and "rates (q_series r) \<noteq> []"
  shows "on_ladder (widen_ladder b (rates (q_series r))) r"
proof -
  let ?rs = "rates (q_series r)"
  have "\<forall>x \<in> set ?rs. 0 < x" by (auto simp: rates_def)
  then have "0 < Min (set ?rs)" using assms(2) by simp
  moreover have "Min (set ?rs) \<le> x \<and> x \<le> Max (set ?rs)" if "x \<in> set ?rs" for x using that by simp
  ultimately show ?thesis using assms
    by (auto simp: on_ladder_def widen_ladder_def ladder_ok_def min_le_iff_disj le_max_iff_disj split: option.splits)
qed

lemma widen_ok: "ladder_ok b \<Longrightarrow> rs \<noteq> [] \<Longrightarrow> \<forall>x \<in> set rs. 0 < x \<Longrightarrow> ladder_ok (widen_ladder b rs)"
  by (auto simp: ladder_ok_def widen_ladder_def split: option.splits)

text \<open>The invariant of the first pass: the users found so far are on the ladder.\<close>

definition pass_inv :: "qoe_user set \<Rightarrow> qoe_user list \<times> ladder \<Rightarrow> bool" where
  "pass_inv others st \<longleftrightarrow> ladder_ok (snd st) \<and> (\<forall>r \<in> others \<union> set (fst st). on_ladder (snd st) r)"

lemma add_user_inv: "pass_inv others st \<Longrightarrow> pass_inv others (add_user rebuf st u)"
proof -
  assume inv: "pass_inv others st"
  obtain ue series where u: "u = (ue, series)" by (cases u)
  have pos: "\<forall>x \<in> set (rates series). 0 < x" by (auto simp: rates_def)
  show ?thesis
  proof (cases "rates series = []")
    case False
    let ?r = "\<lparr>q_series = series, q_rebuf = (case map_of rebuf ue of None \<Rightarrow> 0 | Some x \<Rightarrow> x)\<rparr>"
    have "on_ladder (widen_ladder (snd st) (rates series)) ?r"
      using widen_new [of "snd st" ?r] inv False by (simp add: pass_inv_def)
    then show ?thesis using inv False widen_keeps [OF _ False pos] widen_ok [OF _ False pos]
      by (auto simp: pass_inv_def add_user_def u)
  qed (use inv in \<open>simp add: add_user_def u\<close>)
qed

lemma add_users_inv: "pass_inv others st \<Longrightarrow> pass_inv others (foldl (add_user rebuf) st us)"
  by (induction us arbitrary: st) (auto simp: add_user_inv)

lemma run_users_inv: "pass_inv others st \<Longrightarrow> run_users files st run_dir = Inr st' \<Longrightarrow> pass_inv others st'"
  by (auto simp: run_users_def bind_e_Inr_iff add_users_inv split: option.splits)

definition all_users :: "campaign \<Rightarrow> qoe_user set" where
  "all_users st = (\<Union>(label, us) \<in> set (fst st). set us)"

lemma first_pass_result:
  assumes "first_pass files glob results_dir = Inr st"
  shows "ladder_ok (snd st) \<and> (\<forall>r \<in> all_users st. on_ladder (snd st) r)"
proof -
  have "pass_inv (all_users st) ([], snd st)"
    using assms unfolding first_pass_def
  proof (rule fold_e_invariant [where P = "\<lambda>st. pass_inv (all_users st) ([], snd st)"])
    show "pass_inv (all_users ([], None, 0)) ([], snd ([], None, 0))" by (simp add: pass_inv_def all_users_def ladder_ok_def)
    fix st c st'
    assume inv: "pass_inv (all_users st) ([], snd st)" and step: "config_users files glob results_dir st c = Inr st'"
    then obtain users b where f: "fold_e (run_users files) ([], snd st)
        (sort (glob (path_join (path_join results_dir (fst c)) ''run_*''))) = Inr (users, b)"
      and st': "st' = (fst st @ [(snd c, users)], b)"
      by (auto simp: config_users_def bind_e_Inr_iff)
    have "pass_inv (all_users st) (users, b)"
      using run_users_inv by (rule fold_e_invariant [where P = "pass_inv (all_users st)", OF f inv])
    then show "pass_inv (all_users st') ([], snd st')" by (auto simp: st' pass_inv_def all_users_def)
  qed
  then show ?thesis by (simp add: pass_inv_def)
qed

lemmas first_pass_ladder = first_pass_result [THEN conjunct1]
lemmas first_pass_inv = first_pass_result [THEN conjunct2]

lemma switching_bounds: "\<forall>u \<in> set us. 0 \<le> u \<and> u \<le> m \<Longrightarrow> us \<noteq> [] \<Longrightarrow> 0 \<le> switching us \<and> switching us \<le> of_nat (length us - 1) * m"
proof (induction us rule: switching.induct)
  case (1 u v us)
  then have "\<bar>v - u\<bar> \<le> m" by auto
  then show ?case using 1 by (auto simp: algebra_simps)
qed simp_all

lemma sum_bounds: "\<forall>u \<in> set us. 0 \<le> u \<and> u \<le> (m :: rat) \<Longrightarrow> 0 \<le> sum_list us \<and> sum_list us \<le> of_nat (length us) * m"
  by (induction us) (auto simp: algebra_simps)

lemma average_between:
  assumes "xs \<noteq> []" and "\<forall>x \<in> set xs. m \<le> x \<and> x \<le> M"
  shows "m \<le> average xs \<and> average xs \<le> M"
proof -
  have "of_nat (length xs) * m \<le> sum_list xs \<and> sum_list xs \<le> of_nat (length xs) * M"
    using assms(2) by (induction xs) (auto simp: algebra_simps)
  then show ?thesis using assms(1) by (simp add: average_def field_simps)
qed

lemma constant_util: "\<forall>u \<in> set us. u = m \<Longrightarrow> switching us = 0 \<and> sum_list us = of_nat (length us) * m"
  by (induction us rule: switching.induct) (auto simp: algebra_simps)

text \<open>
  What is expected of a row of the table, the columns quality, bitrate and stall, for a user \<open>r\<close> and a ladder from
  \<open>gmin\<close> to \<open>gmax\<close>: \<open>top\<close> is the utility of the highest rate.
\<close>

definition row_bounds :: "(rat \<Rightarrow> rat) \<Rightarrow> rat \<Rightarrow> rat \<Rightarrow> qoe_user \<Rightarrow> rat \<times> rat \<times> rat \<Rightarrow> bool" where
  "row_bounds lg gmin gmax r = (\<lambda>(q, bitrate, stall).
     let rs = rates (q_series r); n = length rs; top = lg (gmax / gmin) in
     stall = max 0 (q_rebuf r) \<and> gmin / 1000 \<le> bitrate \<and> bitrate \<le> gmax / 1000
     \<and> q \<le> (of_nat n - stall) * top \<and> - ((of_nat (n - 1) + stall) * top) \<le> q
     \<and> ((\<forall>x \<in> set rs. x = gmax) \<longrightarrow> q = (of_nat n - stall) * top \<and> bitrate = gmax / 1000)
     \<and> ((\<forall>x \<in> set rs. x = gmin) \<longrightarrow> q = - (stall * top) \<and> bitrate = gmin / 1000))"

lemma user_row_bounds:
  assumes "numpy_log lg" and "on_ladder (Some gmin, gmax) r"
  shows "row_bounds lg gmin gmax r (qoe_of lg gmin (lg (gmax / gmin)) r, average (rates (q_series r)) / 1000, stall_of r)"
proof -
  let ?rs = "rates (q_series r)" and ?mu = "lg (gmax / gmin)"
  let ?util = "map (\<lambda>b. lg (b / gmin)) ?rs"
  have rs: "?rs \<noteq> []" "0 < gmin" "\<forall>x \<in> set ?rs. gmin \<le> x \<and> x \<le> gmax"
    using assms(2) by (auto simp: on_ladder_def)
  have lg: "lg 1 = 0" "\<And>x y. 0 < x \<Longrightarrow> x \<le> y \<Longrightarrow> lg x \<le> lg y" using assms(1) by (auto simp: numpy_log_def)
  have "0 \<le> lg (x / gmin) \<and> lg (x / gmin) \<le> ?mu" if "x \<in> set ?rs" for x
  proof -
    have "1 \<le> x / gmin" "x / gmin \<le> gmax / gmin" using rs that by (simp_all add: divide_right_mono)
    then show ?thesis using lg(2) [of 1 "x / gmin"] lg(2) [of "x / gmin" "gmax / gmin"] lg(1) by simp
  qed
  then have u: "\<forall>u \<in> set ?util. 0 \<le> u \<and> u \<le> ?mu" by auto
  have "0 \<le> switching ?util \<and> switching ?util \<le> of_nat (length ?rs - 1) * ?mu"
    using switching_bounds [OF u] rs(1) by simp
  moreover have "0 \<le> sum_list ?util \<and> sum_list ?util \<le> of_nat (length ?rs) * ?mu"
    using sum_bounds [OF u] by simp
  moreover have "switching ?util = 0 \<and> sum_list ?util = of_nat (length ?rs) * lg (x / gmin) \<and> average ?rs = x"
    if "\<forall>y \<in> set ?rs. y = x" for x
    using constant_util [of ?util "lg (x / gmin)"] average_between [OF rs(1), of x x] that by auto
  moreover have "lg (gmin / gmin) = 0" using rs(2) lg(1) by simp
  ultimately show ?thesis using average_between [OF rs(1,3)]
    by (auto simp: row_bounds_def Let_def qoe_of_def stall_of_def algebra_simps divide_right_mono)
qed

text \<open>C31: the quality of experience of the handover campaign is comparable across users: when the evaluation gives a table, the
  ladder runs from a positive rate to a greater one, and every counted bitrate of every user of every configuration lies on it. The
  table has a row for every user of the configurations that are shown, in order. The quality that is stored for a user with n
  counted bitrates and s seconds of stalls is at most (n - s) times the utility of the top of the ladder, which a user who
  always has the highest rate reaches, and at least minus the most that switching and stalls can cost; a user who always
  has the lowest rate is left with the cost of the stalls. The stored
  stall is s, which is not negative, and the stored bitrate lies on the ladder as well.\<close>

theorem qoe_bounds:
  assumes "numpy_log lg" and "first_pass files glob results_dir = Inr st" and "second_pass lg st = Some table"
  shows "\<exists>gmin gmax. snd st = (Some gmin, gmax) \<and> 0 < gmin \<and> gmin < gmax
    \<and> (\<forall>r \<in> all_users st. rates (q_series r) \<noteq> [] \<and> (\<forall>x \<in> set (rates (q_series r)). gmin \<le> x \<and> x \<le> gmax))
    \<and> list_all2 (\<lambda>label entry. fst entry = label \<and>
        list_all2 (row_bounds lg gmin gmax) (case map_of (fst st) label of None \<Rightarrow> [] | Some us \<Rightarrow> us) (snd entry)) ho_order table"
proof -
  obtain gmin gmax where b: "snd st = (Some gmin, gmax)" "gmin < gmax"
    using assms(3) by (cases "snd st") (auto simp: second_pass_def Let_def split: option.splits if_splits)
  let ?users = "\<lambda>label. case map_of (fst st) label of None \<Rightarrow> [] | Some us \<Rightarrow> us"
  let ?row = "\<lambda>r. (qoe_of lg gmin (lg (gmax / gmin)) r, average (rates (q_series r)) / 1000, stall_of r)"
  have ladder: "on_ladder (Some gmin, gmax) r" if "r \<in> all_users st" for r
    using first_pass_inv [OF assms(2)] that b by simp
  have users: "r \<in> all_users st" if "r \<in> set (?users label)" for label r
    using that map_of_SomeD [of "fst st" label] by (cases "map_of (fst st) label") (auto simp: all_users_def intro!: bexI)
  have table: "table = map (\<lambda>label. (label, map ?row (?users label))) ho_order"
    using assms(3) b by (simp add: second_pass_def Let_def not_le)
  have "list_all2 (\<lambda>label entry. fst entry = label \<and> list_all2 (row_bounds lg gmin gmax) (?users label) (snd entry)) ho_order table"
    unfolding table list.rel_map fst_conv snd_conv
    by (intro list.rel_refl_strong conjI refl user_row_bounds assms(1) ladder users)
  moreover have "0 < gmin"
  proof -
    have "ladder_ok (snd st)" by (rule first_pass_ladder [OF assms(2)])
    then show ?thesis by (simp add: b ladder_ok_def)
  qed
  ultimately show ?thesis using b ladder by (auto simp: on_ladder_def)
qed

definition sample_sim_log :: "string list" where
  "sample_sim_log =
     [''1.5 ue-id: 2 newBitRate: 100'', ''2 ue-id: 2 newBitRate: 400'', ''2.5 ue-id: 3 newBitRate: 200'',
      ''ue-id: 2 InterruptionTime: 2.5e-1 s'', ''ue-id: 3  InterruptionTime: nan'']"

definition sample_campaign :: "string \<Rightarrow> string list option" where
  "sample_campaign = [''r/quic_bbr/run_1/sim.log'' \<mapsto> sample_sim_log]"

definition sample_glob :: "string \<Rightarrow> string list" where
  "sample_glob p = (if p = ''r/quic_bbr/run_*'' then [''r/quic_bbr/run_1''] else [])"

definition sample_users :: "qoe_user list" where
  "sample_users = [\<lparr>q_series = [(3 / 2, 1 / 10), (2, 2 / 5)], q_rebuf = 1 / 4\<rparr>, \<lparr>q_series = [(5 / 2, 1 / 5)], q_rebuf = 0\<rparr>]"

lemma sample_sim_log_read:
  "parse_bitrate_log_per_user (Some sample_sim_log) None = Inr [(2, [(3 / 2, 1 / 10), (2, 2 / 5)]), (3, [(5 / 2, 1 / 5)])]"
  "fold_e rebuf_line [] sample_sim_log = Inr [(2, 1 / 4), (3, 0)]"
  by code_simp+

lemma sample_first_pass:
  "first_pass sample_campaign sample_glob ''r''
    = Inr ([(''QUIC BBR'', sample_users), (''QUIC NewReno'', []), (''TCP BBR'', []), (''TCP Cubic'', []), (''TCP NewReno'', [])], (Some (1 / 10), 2 / 5))"
  by (simp add: first_pass_def ho_config_label_def config_users_def sample_glob_def path_join_def run_users_def
    sample_campaign_def sample_sim_log_read add_user_def rates_def widen_ladder_def sample_users_def)

definition sample_table :: "(string \<times> (rat \<times> rat \<times> rat) list) list" where
  "sample_table =
     [(''QUIC BBR'', [(- (3 / 4), 1 / 4000, 1 / 4), (1, 1 / 5000, 0)]), (''QUIC NewReno'', []), (''TCP BBR'', []),
      (''TCP NewReno'', [])]"

theorem qoe_bounds_witness:
  "\<exists>st. first_pass sample_campaign sample_glob ''r'' = Inr st \<and> second_pass (\<lambda>x. x - 1) st = Some sample_table
    \<and> list_all2 (row_bounds (\<lambda>x. x - 1) (1 / 10) (2 / 5)) sample_users (snd (hd sample_table))"
proof -
  have lg: "numpy_log (\<lambda>x. x - 1)" by (simp add: numpy_log_def)
  obtain st where st: "first_pass sample_campaign sample_glob ''r'' = Inr st" "snd st = (Some (1 / 10), 2 / 5)"
    "fst st = [(''QUIC BBR'', sample_users), (''QUIC NewReno'', []), (''TCP BBR'', []), (''TCP Cubic'', []), (''TCP NewReno'', [])]"
    by (simp add: sample_first_pass)
  have t: "second_pass (\<lambda>x. x - 1) st = Some sample_table"
    by (simp add: second_pass_def st(2,3) ho_order_def sample_users_def sample_table_def qoe_of_def rates_def stall_of_def
      average_def)
  obtain gmin gmax where g: "gmin = 1 / 10" "gmax = 2 / 5" and all: "list_all2 (\<lambda>label entry. fst entry = label \<and>
      list_all2 (row_bounds (\<lambda>x. x - 1) gmin gmax) (case map_of (fst st) label of None \<Rightarrow> [] | Some us \<Rightarrow> us) (snd entry))
      ho_order sample_table"
    using qoe_bounds [OF lg st(1) t] unfolding st(2) by auto
  then show ?thesis using st t by (simp add: ho_order_def sample_table_def g)
qed

end
