(* ===== verification/QuicThroughput.thy ===== *)
theory QuicThroughput
  imports Windows
begin

text \<open>
  \<open>scripts/quic_calculate_throughput.py\<close>: the throughput of the QUIC servers over time windows. A file is the
  list of its lines, \<open>None\<close> when it cannot be opened. The window loop does not end for a negative window
  size, which the command line accepts: what contains it is an option, \<open>None\<close> when it does not return. The
  report is a list of events, each with the numbers that are printed; the lines of the option
  \<open>--verbose\<close> and the layout of the text are not modelled.
\<close>

section \<open>Reading a file\<close>

type_synonym quic_rows = "rat list \<times> int list \<times> string list"

definition data_line :: "quic_rows \<Rightarrow> string \<Rightarrow> quic_rows py" where
  "data_line rows l =
     (let (timestamps, packet_sizes, nodes) = rows; line = re_strip l in
      if line = [] then Inr rows
      else (case split_on tab line of
          p0 # p1 # p2 # _ \<Rightarrow>
            bind_e (float_of p0) (\<lambda>t. bind_e (int_of p1) (\<lambda>n.
              Inr (timestamps @ [t], packet_sizes @ [n], nodes @ [p2])))
        | _ \<Rightarrow> Inr rows))"

text \<open>Every exception is turned into the end of the program.\<close>

definition parse_data_file :: "string list option \<Rightarrow> quic_rows py" where
  "parse_data_file file =
     (case file of
        None \<Rightarrow> Inl (SystemExit 1)
      | Some lines \<Rightarrow> (case fold_e data_line ([], [], []) lines of Inl _ \<Rightarrow> Inl (SystemExit 1) | Inr r \<Rightarrow> Inr r))"

section \<open>The windows\<close>

type_synonym quic_packet = "rat \<times> int"
type_synonym quic_row = "rat \<times> rat \<times> int \<times> int"

definition window_row :: "quic_packet list \<Rightarrow> rat \<Rightarrow> rat \<Rightarrow> quic_row" where
  "window_row data window_size current_time =
     (let window_end = current_time + window_size;
          inside = filter (\<lambda>p. current_time \<le> fst p \<and> fst p < window_end) data;
          total_bytes = sum_list (map snd inside);
          packet_count = int (length inside);
          throughput_mbps = of_int (total_bytes * 8) / (window_size * 1000000)
      in (current_time, throughput_mbps, total_bytes, packet_count))"

partial_function (option) window_loop ::
    "quic_packet list \<Rightarrow> rat \<Rightarrow> rat \<Rightarrow> rat \<Rightarrow> quic_row list \<Rightarrow> quic_row list py option" where
  "window_loop data window_size end_time current_time rows =
     (if current_time \<le> end_time
      then (if window_size = 0 then Some (Inl ZeroDivisionError)
            else window_loop data window_size end_time (current_time + window_size)
                   (rows @ [window_row data window_size current_time]))
      else Some (Inr rows))"

declare window_loop.simps [code]

text \<open>The four lists the function returns are the columns of the rows. \<open>zip(*data)\<close> of no data cannot be unpacked.\<close>

definition quic_calculate_throughput :: "rat list \<Rightarrow> int list \<Rightarrow> rat \<Rightarrow> (rat list \<times> rat list \<times> int list \<times> int list) py option" where
  "quic_calculate_throughput timestamps packet_sizes window_size =
     (let data = sort_key fst (zip timestamps packet_sizes) in
      if data = [] then Some (Inl ValueError)
      else (let start_time = Min (fst ` set data); end_time = Max (fst ` set data) in
        map_option (\<lambda>r. bind_e r (\<lambda>rows.
            Inr (map fst rows, map (fst \<circ> snd) rows, map (fst \<circ> snd \<circ> snd) rows, map (snd \<circ> snd \<circ> snd) rows)))
          (window_loop data window_size end_time start_time [])))"

section \<open>Statistics\<close>

record quic_stats =
  q_packets :: int
  q_bytes :: int
  q_duration :: rat
  q_avg_size :: rat
  q_min_size :: int
  q_max_size :: int
  q_average_mbps :: rat
  q_peak_mbps :: rat
  q_min_mbps :: rat
  q_overall_mbps :: rat

definition py_max :: "'a :: linorder list \<Rightarrow> 'a py" where
  "py_max xs = (if xs = [] then Inl ValueError else Inr (Max (set xs)))"

definition py_min :: "'a :: linorder list \<Rightarrow> 'a py" where
  "py_min xs = (if xs = [] then Inl ValueError else Inr (Min (set xs)))"

definition calculate_statistics :: "rat list \<Rightarrow> int list \<Rightarrow> rat list \<Rightarrow> quic_stats py" where
  "calculate_statistics timestamps packet_sizes throughputs_mbps =
     bind_e (py_max timestamps) (\<lambda>hi. bind_e (py_min timestamps) (\<lambda>lo.
     bind_e (rdiv (of_int (sum_list packet_sizes)) (of_nat (length packet_sizes))) (\<lambda>avg_size.
     bind_e (py_min packet_sizes) (\<lambda>mn. bind_e (py_max packet_sizes) (\<lambda>mx.
     bind_e (rdiv (sum_list throughputs_mbps) (of_nat (length throughputs_mbps))) (\<lambda>average.
     bind_e (py_max throughputs_mbps) (\<lambda>peak. bind_e (py_min throughputs_mbps) (\<lambda>least.
     bind_e (rdiv (of_int (sum_list packet_sizes * 8)) ((hi - lo) * 1000000)) (\<lambda>overall.
       Inr \<lparr>q_packets = int (length packet_sizes), q_bytes = sum_list packet_sizes, q_duration = hi - lo,
            q_avg_size = avg_size, q_min_size = mn, q_max_size = mx, q_average_mbps = average, q_peak_mbps = peak,
            q_min_mbps = least, q_overall_mbps = overall\<rparr>)))))))))"

definition process_single_file :: "(string \<Rightarrow> string list option) \<Rightarrow> rat \<Rightarrow> bool \<Rightarrow> string \<Rightarrow> quic_stats py option" where
  "process_single_file files window_size verbose filename =
     (case parse_data_file (files filename) of
        Inl e \<Rightarrow> Some (Inl e)
      | Inr (timestamps, packet_sizes, nodes) \<Rightarrow>
          if verbose \<and> timestamps = [] then Some (Inl ValueError)
          else map_option (\<lambda>r. bind_e r (\<lambda>(window_times, throughputs_mbps, total_bytes, packet_counts).
                 calculate_statistics timestamps packet_sizes throughputs_mbps))
               (quic_calculate_throughput timestamps packet_sizes window_size))"

section \<open>The files of a directory\<close>

text \<open>The part of a text before the first occurrence of another, and the part after it.\<close>

fun find_sub :: "string \<Rightarrow> string \<Rightarrow> (string \<times> string) option" where
  "find_sub p [] = (if p = [] then Some ([], []) else None)"
| "find_sub p (c # cs) =
     (if prefix p (c # cs) then Some ([], drop (length p) (c # cs))
      else map_option (\<lambda>(a, b). (c # a, b)) (find_sub p cs))"

text \<open>\<open>s.split(p)[1]\<close>.\<close>

definition split_second :: "string \<Rightarrow> string \<Rightarrow> string py" where
  "split_second p s =
     (case find_sub p s of
        None \<Rightarrow> Inl IndexError
      | Some (_, r) \<Rightarrow> Inr (case find_sub p r of None \<Rightarrow> r | Some (a, _) \<Rightarrow> a))"

definition upto_dot :: "string \<Rightarrow> string" where
  "upto_dot s = takeWhile (\<lambda>c. c \<noteq> CHR ''.'') s"

definition server_key :: "string \<Rightarrow> int py" where
  "server_key x =
     (if str_in ''data'' x
      then bind_e (split_second ''data'' x) (\<lambda>s.
        if upto_dot s \<noteq> [] \<and> list_all is_digit (upto_dot s)
        then bind_e (split_second ''data'' (basename x)) (\<lambda>b. int_of (upto_dot b))
        else Inr 0)
      else Inr 0)"

definition is_server_file :: "string \<Rightarrow> bool" where
  "is_server_file n =
     (starts_with n ''serverQUIC-rx-data'' \<and> ends_with (drop (length ''serverQUIC-rx-data'') n) ''.txt'')"

text \<open>\<open>names\<close> lists the directory in the order in which the file system does.\<close>

definition find_server_files :: "string list \<Rightarrow> string \<Rightarrow> string list py" where
  "find_server_files names directory =
     (let xs = map (path_join directory) (filter is_server_file names) in
      bind_e (fold_e (\<lambda>ks x. bind_e (server_key x) (\<lambda>k. Inr (ks @ [k]))) [] xs) (\<lambda>ks.
        Inr (map snd (sort_key fst (zip ks xs)))))"

section \<open>main\<close>

datatype quic_event = FileStats string quic_stats | FileError string | Summary "rat list"

definition print_summary_statistics :: "quic_stats list \<Rightarrow> quic_event list py" where
  "print_summary_statistics all_stats =
     (if length all_stats \<le> 1 then Inr []
      else
        (let total_packets = sum_list (map q_packets all_stats);
             total_bytes = sum_list (map q_bytes all_stats);
             total_duration = sum_list (map q_duration all_stats) in
         bind_e (rdiv (sum_list (map (\<lambda>s. q_overall_mbps s * q_duration s) all_stats)) total_duration) (\<lambda>weighted.
         Inr [Summary [of_nat (length all_stats), of_int total_packets, of_int total_bytes, total_duration, weighted,
            sum_list (map q_average_mbps all_stats) / of_nat (length all_stats),
            Max (set (map q_peak_mbps all_stats)), Min (set (map q_min_mbps all_stats))]])))"

text \<open>\<open>except Exception\<close> does not catch \<open>SystemExit\<close>.\<close>

fun process_files ::
    "(string \<Rightarrow> string list option) \<Rightarrow> rat \<Rightarrow> bool \<Rightarrow> string list \<Rightarrow> quic_event list \<Rightarrow> quic_stats list
      \<Rightarrow> (quic_event list \<times> quic_stats list) py option" where
  "process_files files window_size verbose [] out all_stats = Some (Inr (out, all_stats))"
| "process_files files window_size verbose (f # fs) out all_stats =
     (case process_single_file files window_size verbose f of
        None \<Rightarrow> None
      | Some (Inr stats) \<Rightarrow>
          process_files files window_size verbose fs (out @ [FileStats (basename f) stats]) (all_stats @ [stats])
      | Some (Inl (SystemExit n)) \<Rightarrow> Some (Inl (SystemExit n))
      | Some (Inl e) \<Rightarrow> process_files files window_size verbose fs (out @ [FileError f]) all_stats)"

record quic_args =
  input_file :: string
  directory :: string
  window_size :: rat
  verbose :: bool

definition quic_main :: "(string \<Rightarrow> string list option) \<Rightarrow> (string \<Rightarrow> string list) \<Rightarrow> quic_args \<Rightarrow> quic_event list py option" where
  "quic_main files dir args =
     (let found = (if input_file args \<noteq> [] then Inr [input_file args]
                   else find_server_files (dir (directory args)) (directory args)) in
      case found of
        Inl e \<Rightarrow> Some (Inl e)
      | Inr to_process \<Rightarrow>
          if to_process = [] then Some (Inl (SystemExit 1))
          else map_option (\<lambda>r. bind_e r (\<lambda>(out, all_stats).
                 bind_e (print_summary_statistics all_stats) (\<lambda>s. Inr (out @ s))))
               (process_files files (window_size args) (verbose args) to_process [] []))"

section \<open>The window loop\<close>

lemma floor_shift: "0 < w \<Longrightarrow> \<lfloor>(e - (a + w)) / w\<rfloor> = \<lfloor>(e - a) / (w :: rat)\<rfloor> - 1"
proof -
  assume "0 < w"
  then have "(e - (a + w)) / w = (e - a) / w - 1" by (simp add: field_simps)
  then show ?thesis by simp
qed

lemma window_loop_result:
  assumes "0 < w"
  shows "window_loop data w e a rows = Some (Inr (rows @ map (window_row data w) (equi a w (nat (\<lfloor>(e - a) / w\<rfloor> + 1)))))"
proof (induction "nat (\<lfloor>(e - a) / w\<rfloor> + 1)" arbitrary: a rows)
  case 0
  then have "(e - a) / w < 0" by linarith
  then have "e < a" using assms by (simp add: divide_less_0_iff)
  then show ?case using 0 by (simp add: window_loop.simps [of data w e a])
next
  case (Suc n)
  then have "0 \<le> \<lfloor>(e - a) / w\<rfloor>" by linarith
  then have "a \<le> e" using assms by (simp add: zero_le_divide_iff)
  moreover have "n = nat (\<lfloor>(e - (a + w)) / w\<rfloor> + 1)" using Suc.hyps(2) unfolding floor_shift [OF assms] by simp
  note ih = Suc.hyps(1) [OF this, of "rows @ [window_row data w a]"] and n = this
  ultimately have "window_loop data w e a rows
      = Some (Inr (rows @ window_row data w a # map (window_row data w) (equi (a + w) w n)))"
    using assms n by (subst window_loop.simps) (simp add: ih)
  then show ?case unfolding Suc.hyps(2) [symmetric] equi_Suc by simp
qed

lemma window_loop_diverges:
  assumes "w < 0" and "a \<le> e"
  shows "window_loop data w e a rows = None"
proof (cases "window_loop data w e a rows")
  case (Some r)
  have "\<not> (w < 0 \<and> a \<le> e)"
  proof (rule window_loop.raw_induct [where P = "\<lambda>data w e a rows r. \<not> (w < 0 \<and> a \<le> e)", OF _ Some])
    fix loop data w e a rows r
    assume ih: "\<And>data w e a rows r. loop data w e a rows = Some r \<Longrightarrow> \<not> (w < 0 \<and> a \<le> e)"
      and eq: "(if a \<le> e then if w = 0 then Some (Inl ZeroDivisionError)
        else loop data w e (a + w) (rows @ [window_row data w a]) else Some (Inr rows)) = Some r"
    show "\<not> (w < 0 \<and> a \<le> e)"
      using eq ih [of data w e "a + w" "rows @ [window_row data w a]" r] by (auto split: if_splits)
  qed
  then show ?thesis using assms by simp
qed

section \<open>Every packet is in one window\<close>

lemma window_row_sums:
  "fst (snd (snd (window_row data w a))) = part_sum fst snd data a (a + w)"
  "snd (snd (snd (window_row data w a))) = part_sum fst (\<lambda>_. 1) data a (a + w)"
  by (simp add: window_row_def part_sum_def Let_def) (simp add: window_row_def part_sum_const Let_def)

definition quic_data :: "rat list \<Rightarrow> int list \<Rightarrow> quic_packet list" where
  "quic_data timestamps packet_sizes = sort_key fst (zip timestamps packet_sizes)"

definition window_count :: "rat \<Rightarrow> rat list \<Rightarrow> nat" where
  "window_count w timestamps = nat (\<lfloor>(Max (set timestamps) - Min (set timestamps)) / w\<rfloor> + 1)"

lemma quic_data_times: "length ts = length ps \<Longrightarrow> fst ` set (quic_data ts ps) = set ts"
  by (metis quic_data_def set_sort list.set_map map_fst_zip)

lemma quic_data_Nil: "length ts = length ps \<Longrightarrow> quic_data ts ps = [] \<longleftrightarrow> ts = []"
  by (metis quic_data_times image_is_empty set_empty)

lemma quic_data_sum:
  assumes "length ts = length ps"
  shows "sum_list (map snd (quic_data ts ps)) = sum_list ps"
proof -
  have "mset (map snd (quic_data ts ps)) = mset (map snd (zip ts ps))" by (simp add: quic_data_def)
  then show ?thesis using assms by (metis map_snd_zip sum_mset_sum_list)
qed

lemma quic_data_length: "length ts = length ps \<Longrightarrow> length (quic_data ts ps) = length ps"
  by (simp add: quic_data_def)

lemma min_le_max: "ts \<noteq> [] \<Longrightarrow> Min (set ts) \<le> Max (set ts)"
  by (metis Max_ge Min_in List.finite_set set_empty)

lemma quic_calculate_eq:
  assumes "ts \<noteq> []" and "length ts = length ps"
  shows "quic_calculate_throughput ts ps w = map_option (\<lambda>r. bind_e r (\<lambda>rows.
    Inr (map fst rows, map (fst \<circ> snd) rows, map (fst \<circ> snd \<circ> snd) rows, map (snd \<circ> snd \<circ> snd) rows)))
    (window_loop (quic_data ts ps) w (Max (set ts)) (Min (set ts)) [])"
  using assms quic_data_Nil [OF assms(2)]
  by (simp add: quic_calculate_throughput_def quic_data_def [symmetric] quic_data_times [OF assms(2)] Let_def)

lemma quic_returns:
  assumes "ts \<noteq> []" and "length ts = length ps"
  shows "quic_calculate_throughput ts ps w = None \<longleftrightarrow> w < 0"
proof -
  note le = min_le_max [OF assms(1)]
  consider "w < 0" | "w = 0" | "0 < w" by linarith
  then show ?thesis
    by cases (use le in \<open>simp_all add: quic_calculate_eq [OF assms] window_loop_diverges window_loop_result,
      simp add: window_loop.simps\<close>)
qed

lemma quic_result:
  assumes "ts \<noteq> []" and "length ts = length ps" and "0 < w"
  shows "quic_calculate_throughput ts ps w = Some (Inr (let rows = map (window_row (quic_data ts ps) w) (equi (Min (set ts)) w (window_count w ts)) in
    (map fst rows, map (fst \<circ> snd) rows, map (fst \<circ> snd \<circ> snd) rows, map (snd \<circ> snd \<circ> snd) rows)))"
  by (simp add: quic_calculate_eq [OF assms(1,2)] window_loop_result [OF assms(3)] window_count_def Let_def)

lemma windows_cover:
  assumes "ts \<noteq> []" and "0 < w" and "t \<in> set ts"
  shows "Min (set ts) \<le> t \<and> t < Min (set ts) + of_nat (window_count w ts) * w"
proof -
  let ?x = "(Max (set ts) - Min (set ts)) / w"
  have "0 \<le> ?x" using assms(2) min_le_max [OF assms(1)] by simp
  then have "?x < of_nat (window_count w ts)" unfolding window_count_def by linarith
  then have "Max (set ts) < Min (set ts) + of_nat (window_count w ts) * w"
    using assms(2) by (simp add: pos_divide_less_eq algebra_simps)
  then show ?thesis using assms(3) by (meson List.finite_set Max_ge Min_le le_less_trans)
qed

lemma quic_sums:
  assumes "ts \<noteq> []" and "length ts = length ps" and "0 < w"
  shows "sum_list (map (\<lambda>t. part_sum fst v (quic_data ts ps) t (t + w)) (equi (Min (set ts)) w (window_count w ts)))
    = sum_list (map v (quic_data ts ps))"
proof -
  have "\<forall>x \<in> set (quic_data ts ps). Min (set ts) \<le> fst x \<and> fst x < Min (set ts) + of_nat (window_count w ts) * w"
    using windows_cover [OF assms(1,3)] quic_data_times [OF assms(2)] by blast
  then show ?thesis using assms(3) by (simp add: part_sum_equi part_sum_all)
qed

lemma quic_rows:
  assumes "ts \<noteq> []" and "length ts = length ps" and "0 < w"
  shows "\<exists>mbps bytes counts.
    quic_calculate_throughput ts ps w = Some (Inr (equi (Min (set ts)) w (window_count w ts), mbps, bytes, counts))
    \<and> sum_list bytes = sum_list ps \<and> sum_list counts = int (length ps)
    \<and> length mbps = window_count w ts \<and> length bytes = window_count w ts \<and> length counts = window_count w ts"
proof -
  let ?rows = "map (window_row (quic_data ts ps) w) (equi (Min (set ts)) w (window_count w ts))"
  have "map fst ?rows = equi (Min (set ts)) w (window_count w ts)" by (simp add: window_row_def Let_def comp_def)
  moreover have "sum_list (map (fst \<circ> snd \<circ> snd) ?rows) = sum_list ps"
    using quic_sums [OF assms, of snd] by (simp add: comp_def window_row_sums quic_data_sum [OF assms(2)])
  moreover have "sum_list (map (snd \<circ> snd \<circ> snd) ?rows) = int (length ps)"
    using quic_sums [OF assms, of "\<lambda>_. 1"] by (simp add: comp_def window_row_sums sum_list_triv quic_data_length [OF assms(2)])
  ultimately show ?thesis by (simp add: quic_result [OF assms] Let_def)
qed

text \<open>C34: for parallel lists of times and sizes the window loop returns unless the window size is negative; with
  a positive one every packet lies in exactly one of the windows, which start at the first packet and follow each
  other, so that the bytes and the packets of the windows add up to those of the trace.\<close>

theorem quic_windows:
  assumes "timestamps \<noteq> []" and "length timestamps = length packet_sizes"
  shows "(quic_calculate_throughput timestamps packet_sizes w = None \<longleftrightarrow> w < 0)
    \<and> (0 < w \<longrightarrow> (\<exists>n mbps bytes counts.
        quic_calculate_throughput timestamps packet_sizes w
          = Some (Inr (equi (Min (set timestamps)) w n, mbps, bytes, counts))
        \<and> sum_list bytes = sum_list packet_sizes \<and> sum_list counts = int (length packet_sizes)
        \<and> length mbps = n \<and> length bytes = n \<and> length counts = n))"
  using quic_returns [OF assms] quic_rows [OF assms, of w] by blast

theorem quic_windows_witness:
  "\<exists>n mbps bytes counts. quic_calculate_throughput [0, 3 / 2, 2] [100, 200, 400] 1 = Some (Inr (equi 0 1 n, mbps, bytes, counts))
    \<and> sum_list bytes = 700"
  using quic_windows [of "[0, 3 / 2, 2]" "[100, 200, 400]" 1] by auto

section \<open>The averages\<close>

lemma rat_sum_list: "of_int (sum_list xs) = (sum_list (map of_int xs) :: rat)"
  by (induction xs) simp_all

lemma window_row_mbps: "fst (snd (window_row data w a)) = of_int (part_sum fst snd data a (a + w)) * (8 / (w * 1000000))"
  by (simp add: window_row_def part_sum_def Let_def)

lemma quic_mbps_sum:
  assumes "ts \<noteq> []" and "length ts = length ps" and "0 < w"
    and "quic_calculate_throughput ts ps w = Some (Inr (wt, mbps, bytes, counts))"
  shows "sum_list mbps = of_int (sum_list ps * 8) / (w * 1000000) \<and> length mbps = window_count w ts"
proof -
  have m: "mbps = map (\<lambda>a. of_int (part_sum fst snd (quic_data ts ps) a (a + w)) * (8 / (w * 1000000)))
      (equi (Min (set ts)) w (window_count w ts))"
    using assms(4) quic_result [OF assms(1-3)] by (simp add: Let_def comp_def window_row_mbps)
  have "of_int (sum_list (map (\<lambda>a. part_sum fst snd (quic_data ts ps) a (a + w)) (equi (Min (set ts)) w (window_count w ts))))
      = (of_int (sum_list ps) :: rat)"
    by (simp add: quic_sums [OF assms(1-3)] quic_data_sum [OF assms(2)])
  then have "sum_list mbps = of_int (sum_list ps) * (8 / (w * 1000000))"
    unfolding m sum_list_mult_const by (simp add: rat_sum_list comp_def)
  then show ?thesis by (simp add: m)
qed

lemma calculate_statistics_overall:
  "calculate_statistics ts ps mbps = Inr s \<Longrightarrow>
    rdiv (of_int (sum_list ps * 8)) (q_duration s * 1000000) = Inr (q_overall_mbps s)"
  by (auto simp: calculate_statistics_def bind_e_Inr_iff py_max_def py_min_def split: if_splits)

lemma calculate_statistics_Inr:
  assumes "calculate_statistics ts ps mbps = Inr s"
  shows "ts \<noteq> []" "mbps \<noteq> []" "q_bytes s = sum_list ps" "q_packets s = int (length ps)"
    "q_duration s = Max (set ts) - Min (set ts)"
    "q_average_mbps s = sum_list mbps / of_nat (length mbps)"
    "q_peak_mbps s = Max (set mbps)" "q_min_mbps s = Min (set mbps)"
  using assms
  by (auto simp: calculate_statistics_def bind_e_Inr_iff py_max_def py_min_def rdiv_def split: if_splits)

lemma duration_pos:
  assumes "calculate_statistics ts ps mbps = Inr s"
  shows "0 < q_duration s" and "q_overall_mbps s = of_int (sum_list ps * 8) / (q_duration s * 1000000)"
proof -
  note st = calculate_statistics_Inr [OF assms]
  have "q_duration s \<noteq> 0" and o: "q_overall_mbps s = of_int (sum_list ps * 8) / (q_duration s * 1000000)"
    using calculate_statistics_overall [OF assms] by (simp_all only: rdiv_def split: if_splits) simp_all
  moreover have "0 \<le> q_duration s" using min_le_max [OF st(1)] st(5) by simp
  ultimately show "0 < q_duration s" by simp
  show "q_overall_mbps s = of_int (sum_list ps * 8) / (q_duration s * 1000000)" by (rule o)
qed

lemma sum_list_between:
  fixes xs :: "rat list"
  assumes "xs \<noteq> []"
  shows "Min (set xs) * of_nat (length xs) \<le> sum_list xs \<and> sum_list xs \<le> Max (set xs) * of_nat (length xs)"
proof -
  have "sum_list (map (\<lambda>_. Min (set xs)) xs) \<le> sum_list (map (\<lambda>x. x) xs)" by (rule sum_list_mono) simp
  moreover have "sum_list (map (\<lambda>x. x) xs) \<le> sum_list (map (\<lambda>_. Max (set xs)) xs)" by (rule sum_list_mono) simp
  ultimately show ?thesis by (simp add: sum_list_triv mult.commute)
qed

text \<open>The average over the windows lies between the least and the greatest rate of a window, and never
  exceeds the overall rate, since the windows together are longer than the trace.\<close>

theorem quic_average:
  assumes "length timestamps = length packet_sizes" and "0 < w" and "\<forall>n \<in> set packet_sizes. 0 \<le> n"
    and "quic_calculate_throughput timestamps packet_sizes w = Some (Inr (wt, mbps, bytes, counts))"
    and "calculate_statistics timestamps packet_sizes mbps = Inr s"
  shows "q_min_mbps s \<le> q_average_mbps s \<and> q_average_mbps s \<le> q_peak_mbps s \<and> q_average_mbps s \<le> q_overall_mbps s"
proof -
  note st = calculate_statistics_Inr [OF assms(5)] and dur = duration_pos(1) [OF assms(5)] and ov = duration_pos(2) [OF assms(5)]
  let ?n = "window_count w timestamps" and ?b = "of_int (sum_list packet_sizes * 8) / 1000000 :: rat"
  have m: "sum_list mbps = ?b / w" "length mbps = ?n"
    using quic_mbps_sum [OF st(1) assms(1,2,4)] by simp_all
  have n: "0 < ?n" using st(2) m(2) by (metis length_greater_0_conv)
  have "Max (set timestamps) \<in> set timestamps" using st(1) by simp
  from windows_cover [OF st(1) assms(2) this] have len: "q_duration s < of_nat ?n * w" using st(5) by simp
  have "0 \<le> ?b" using assms(3) by (simp add: sum_list_nonneg)
  then have "?b / (of_nat ?n * w) \<le> ?b / q_duration s" using len dur by (intro divide_left_mono) simp_all
  then have "q_average_mbps s \<le> q_overall_mbps s" using st(6) ov m by (simp add: field_simps)
  then show ?thesis using sum_list_between [OF st(2)] st(6,7,8) n m(2) by (simp add: pos_le_divide_eq pos_divide_le_eq)
qed

theorem quic_average_witness:
  "\<exists>wt mbps bytes counts s. quic_calculate_throughput [0, 3 / 2, 2] [100, 200, 400] 1 = Some (Inr (wt, mbps, bytes, counts))
    \<and> calculate_statistics [0, 3 / 2, 2] [100, 200, 400] mbps = Inr s \<and> q_average_mbps s \<le> q_overall_mbps s"
proof -
  obtain wt mbps bytes counts where r: "quic_calculate_throughput [0, 3 / 2, 2] [100, 200, 400] 1 = Some (Inr (wt, mbps, bytes, counts))"
    using quic_rows [of "[0, 3 / 2, 2]" "[100, 200, 400]" 1] by auto
  have "length mbps = window_count 1 [0, 3 / 2, 2]"
    using quic_mbps_sum [OF _ _ _ r] by simp
  then have "mbps \<noteq> []" by (auto simp: window_count_def)
  then obtain s where s: "calculate_statistics [0, 3 / 2, 2] [100, 200, 400] mbps = Inr s"
    by (simp add: calculate_statistics_def py_max_def py_min_def rdiv_def)
  show ?thesis using quic_average [OF _ _ _ r s] r s by auto
qed

section \<open>The summary\<close>

definition stats_ok :: "quic_stats \<Rightarrow> bool" where
  "stats_ok s \<longleftrightarrow> 0 < q_duration s \<and> q_overall_mbps s = of_int (q_bytes s * 8) / (q_duration s * 1000000)"

lemma process_single_file_ok:
  assumes "process_single_file files w v f = Some (Inr s)"
  shows "stats_ok s"
proof -
  obtain ts ps mbps where "calculate_statistics ts ps mbps = Inr s"
    using assms by (auto simp: process_single_file_def bind_e_Inr_iff split: sum.splits if_splits)
  then show ?thesis using duration_pos calculate_statistics_Inr(3) by (metis stats_ok_def)
qed

lemma process_files_ok:
  "process_files files w v fs out stats = Some (Inr (out', stats')) \<Longrightarrow> \<forall>s \<in> set stats. stats_ok s \<Longrightarrow> \<forall>s \<in> set stats'. stats_ok s"
proof (induction fs arbitrary: out stats)
  case (Cons f fs)
  obtain r where r: "process_single_file files w v f = Some r"
    using Cons.prems(1) by (cases "process_single_file files w v f") auto
  show ?case
  proof (cases r)
    case (Inl e)
    then show ?thesis using Cons r by (cases e) simp_all
  next
    case (Inr s)
    then have "stats_ok s" using r process_single_file_ok by simp
    then show ?thesis using Cons.IH [of "out @ [FileStats (basename f) s]" "stats @ [s]"] Cons.prems r Inr by simp
  qed
qed simp

lemma durations_pos: "\<forall>s \<in> set stats. stats_ok s \<Longrightarrow> stats \<noteq> [] \<Longrightarrow> 0 < sum_list (map q_duration stats)"
proof (induction stats)
  case (Cons s stats)
  then show ?case by (cases stats) (auto simp: stats_ok_def add_pos_pos)
qed simp

text \<open>When the files have been processed, the summary never divides by zero, because a file without a duration has
  been reported as an error, and the weighted average it prints is the rate of all bytes over all durations.\<close>

theorem quic_summary:
  assumes "process_files files w v fs [] [] = Some (Inr (out, all_stats))" and "2 \<le> length all_stats"
  shows "\<exists>rest. print_summary_statistics all_stats = Inr [Summary ([of_nat (length all_stats),
      of_int (sum_list (map q_packets all_stats)), of_int (sum_list (map q_bytes all_stats)), sum_list (map q_duration all_stats),
      of_int (sum_list (map q_bytes all_stats) * 8) / (sum_list (map q_duration all_stats) * 1000000)] @ rest)]"
proof -
  have ok: "\<forall>s \<in> set all_stats. stats_ok s" using process_files_ok [OF assms(1)] by simp
  have "sum_list (map (\<lambda>s. q_overall_mbps s * q_duration s) all_stats)
      = sum_list (map (\<lambda>s. of_int (q_bytes s) * (8 / 1000000)) all_stats)"
  proof (intro arg_cong [of _ _ sum_list] map_cong refl)
    fix s
    assume "s \<in> set all_stats"
    then have "stats_ok s" using ok by blast
    then show "q_overall_mbps s * q_duration s = of_int (q_bytes s) * (8 / 1000000)" by (simp add: stats_ok_def)
  qed
  also have "\<dots> = of_int (sum_list (map q_bytes all_stats) * 8) / 1000000"
    unfolding sum_list_mult_const by (simp add: rat_sum_list comp_def)
  finally have w: "sum_list (map (\<lambda>s. q_overall_mbps s * q_duration s) all_stats)
      = of_int (sum_list (map q_bytes all_stats) * 8) / 1000000" .
  have "all_stats \<noteq> []" using assms(2) by auto
  then have "sum_list (map q_duration all_stats) \<noteq> 0" using durations_pos [OF ok] by simp
  then have "rdiv (sum_list (map (\<lambda>s. q_overall_mbps s * q_duration s) all_stats)) (sum_list (map q_duration all_stats))
      = Inr (of_int (sum_list (map q_bytes all_stats) * 8) / (sum_list (map q_duration all_stats) * 1000000))"
    unfolding w rdiv_def by (simp add: mult.commute)
  then show ?thesis using assms(2) by (simp add: print_summary_statistics_def Let_def)
qed

section \<open>A file that cannot be read\<close>

lemma calculate_error:
  assumes "quic_calculate_throughput ts ps w = Some (Inl e)"
  shows "e = ValueError \<or> e = ZeroDivisionError"
proof -
  have "e = ZeroDivisionError" if "window_loop data w hi lo rows = Some (Inl e)" for data hi lo rows
  proof -
    consider "w < 0" "lo \<le> hi" | "hi < lo" | "w = 0" "lo \<le> hi" | "0 < w" by linarith
    then show ?thesis
      by cases (use that window_loop.simps [of data w hi lo rows] in \<open>auto simp: window_loop_diverges window_loop_result\<close>)
  qed
  then show ?thesis using assms
    by (auto simp: quic_calculate_throughput_def Let_def bind_e_Inl_iff split: if_splits)
qed

lemma statistics_error:
  "calculate_statistics ts ps mbps = Inl e \<Longrightarrow> e = ValueError \<or> e = ZeroDivisionError"
  by (auto simp: calculate_statistics_def bind_e_Inl_iff py_max_def py_min_def rdiv_def split: if_splits)

lemma parse_data_file_error: "parse_data_file file = Inl e \<Longrightarrow> e = SystemExit 1"
  by (auto simp: parse_data_file_def split: option.splits sum.splits)

lemma process_single_file_exit:
  assumes "process_single_file files w v f = Some (Inl e)"
  shows "e = SystemExit 1 \<or> e = ValueError \<or> e = ZeroDivisionError"
  using assms calculate_error statistics_error parse_data_file_error
  by (auto simp: process_single_file_def bind_e_Inl_iff split: sum.splits if_splits) blast+

lemma data_lengths:
  "fold_e data_line (ts0, ps0, ns0) lines = Inr (ts, ps, ns) \<Longrightarrow> length ts0 = length ps0 \<Longrightarrow> length ts = length ps"
  by (rule fold_e_invariant [where P = "\<lambda>(ts, ps, ns). length ts = length ps", THEN case_prodD, THEN case_prodD])
    (auto simp: data_line_def Let_def bind_e_Inr_iff split: if_splits list.splits)

lemma process_single_file_returns:
  assumes "0 \<le> w"
  shows "process_single_file files w v f \<noteq> None"
proof (cases "parse_data_file (files f)")
  case (Inr r)
  obtain ts ps ns where r: "r = (ts, ps, ns)" by (cases r) auto
  have "length ts = length ps"
    using Inr r data_lengths by (auto simp: parse_data_file_def split: option.splits sum.splits)
  then have "quic_calculate_throughput ts ps w \<noteq> None"
    using assms quic_returns [of ts ps w] by (cases "ts = []") (auto simp: quic_calculate_throughput_def)
  then show ?thesis using Inr r by (simp add: process_single_file_def)
qed (simp add: process_single_file_def)

lemma process_files_exit:
  assumes "0 \<le> w" and "f \<in> set fs" and "parse_data_file (files f) = Inl e"
  shows "process_files files w v fs out stats = Some (Inl (SystemExit 1))"
  using assms(2)
proof (induction fs arbitrary: out stats)
  case (Cons g fs)
  obtain r where r: "process_single_file files w v g = Some r"
    using process_single_file_returns [OF assms(1), of files v g] by auto
  show ?case
  proof (cases "r = Inl (SystemExit 1)")
    case False
    then have "f \<noteq> g" using r assms(3) parse_data_file_error [OF assms(3)] by (auto simp: process_single_file_def)
    then show ?thesis using Cons r False process_single_file_exit [of files w v g]
      by (cases r) auto
  qed (simp add: r)
qed simp

text \<open>One file with a malformed line ends the whole run with status 1, whatever the other files are: the
  handler in \<open>main\<close>, which is there to go on with the next file, does not catch the exit of the parser.\<close>

theorem quic_bad_file:
  assumes "input_file args = []" and "0 \<le> window_size args"
    and "find_server_files (dir (directory args)) (directory args) = Inr fs" and "f \<in> set fs"
    and "files f = Some lines" and "fold_e data_line ([], [], []) lines = Inl e"
  shows "quic_main files dir args = Some (Inl (SystemExit 1))"
proof -
  have "parse_data_file (files f) = Inl (SystemExit 1)" using assms(5,6) by (simp add: parse_data_file_def)
  from process_files_exit [where files = files, OF assms(2,4) this]
  show ?thesis using assms(1,3,4) by (auto simp: quic_main_def Let_def)
qed

definition sample_server :: "string \<Rightarrow> string list option" where
  "sample_server f = (if f = ''./serverQUIC-rx-data1.txt'' then Some [''0'' @ tab # ''100'' @ tab # ''n1'', ''2'' @ tab # ''300'' @ tab # ''n1'']
     else if f = ''./serverQUIC-rx-data2.txt'' then Some [''1'' @ tab # ''x'' @ tab # ''n2'']
     else if f = ''./serverQUIC-rx-data3.txt'' then Some [''1'' @ tab # ''10'' @ tab # ''n3'', ''3'' @ tab # ''30'' @ tab # ''n3'']
     else None)"

definition sample_names :: "string list" where
  "sample_names = [''serverQUIC-rx-data2.txt'', ''clientQUIC-rx-data2.txt'', ''serverQUIC-rx-data1.txt'']"

lemma sample_files: "find_server_files sample_names ''.'' = Inr [''./serverQUIC-rx-data1.txt'', ''./serverQUIC-rx-data2.txt'']"
  by code_simp

lemma sample_bad: "fold_e data_line ([], [], []) [''1'' @ tab # ''x'' @ tab # ''n2''] = Inl ValueError"
  by code_simp

theorem quic_bad_file_witness:
  "quic_main sample_server (\<lambda>_. sample_names) \<lparr>input_file = [], directory = ''.'', window_size = 1, verbose = False\<rparr>
    = Some (Inl (SystemExit 1))"
  by (rule quic_bad_file [where f = "''./serverQUIC-rx-data2.txt''" and fs = "[''./serverQUIC-rx-data1.txt'', ''./serverQUIC-rx-data2.txt'']",
      OF _ _ _ _ _ sample_bad])
    (simp_all add: sample_files sample_server_def)

theorem quic_summary_witness:
  "case process_files sample_server 1 False [''./serverQUIC-rx-data1.txt'', ''./serverQUIC-rx-data3.txt''] [] [] of
     Some (Inr (out, all_stats)) \<Rightarrow>
       (\<exists>rest. print_summary_statistics all_stats = Inr [Summary ([2, 4, 440, 4, of_int (440 * 8) / (4 * 1000000)] @ rest)])
   | _ \<Rightarrow> False"
proof -
  let ?run = "process_files sample_server 1 False [''./serverQUIC-rx-data1.txt'', ''./serverQUIC-rx-data3.txt''] [] []"
  have "case ?run of Some (Inr (out, st)) \<Rightarrow> map q_packets st = [2, 2] \<and> map q_bytes st = [400, 40] \<and> map q_duration st = [2, 2] | _ \<Rightarrow> False"
    by code_simp
  then obtain out st where run: "?run = Some (Inr (out, st))"
    and st: "map q_packets st = [2, 2]" "map q_bytes st = [400, 40]" "map q_duration st = [2, 2]"
    by (auto split: option.splits sum.splits)
  have len: "length st = 2" using arg_cong [OF st(1), of length] by simp
  show ?thesis unfolding run using quic_summary [OF run] by (simp add: st len)
qed

section \<open>The order of the files\<close>

lemma find_sub_append:
  "p \<noteq> [] \<Longrightarrow> \<not> str_in p a \<Longrightarrow> a = [] \<or> last a \<notin> set p \<Longrightarrow>
    find_sub p (a @ b) = map_option (\<lambda>(x, y). (a @ x, y)) (find_sub p b)"
proof (induction a)
  case (Cons c a)
  have "\<not> prefix p ((c # a) @ b)"
  proof
    assume pre: "prefix p ((c # a) @ b)"
    then consider "prefix p (c # a)" | q where "p = (c # a) @ q" unfolding prefix_append by blast
    then show False
    proof cases
      case 1
      then show False using Cons.prems(2) by simp
    next
      case 2
      then have "last (c # a) \<in> set p" by (auto intro: last_in_set)
      then show False using Cons.prems(3) by simp
    qed
  qed
  then show ?case using Cons by (cases "find_sub p b") (auto split: if_splits)
qed (simp add: option.map_id0 id_def [symmetric])

lemma find_sub_None: "p \<noteq> [] \<Longrightarrow> \<not> str_in p s \<Longrightarrow> find_sub p s = None"
  by (induction s) auto

definition server_name :: "nat \<Rightarrow> string" where
  "server_name n = ''serverQUIC-rx-data'' @ str_of_nat n @ ''.txt''"

lemma number_chars: "c \<in> set (str_of_nat n @ ''.txt'') \<Longrightarrow> c \<noteq> CHR ''d'' \<and> c \<noteq> CHR ''/''"
  using str_of_nat_digits [of c n] by (auto simp: is_digit_def)

lemma split_server_name: "a = [] \<or> last a = CHR ''/'' \<Longrightarrow> \<not> str_in ''data'' a \<Longrightarrow>
    split_second ''data'' (a @ server_name n) = Inr (str_of_nat n @ ''.txt'')"
proof -
  assume a: "a = [] \<or> last a = CHR ''/''" "\<not> str_in ''data'' a"
  have "\<not> str_in ''data'' (str_of_nat n @ ''.txt'')"
  proof
    assume "str_in ''data'' (str_of_nat n @ ''.txt'')"
    then obtain x y where "str_of_nat n @ ''.txt'' = x @ ''data'' @ y" unfolding str_in_iff by blast
    then have "CHR ''d'' \<in> set (str_of_nat n @ ''.txt'')" by simp
    then show False using number_chars by blast
  qed
  then have rest: "find_sub ''data'' (str_of_nat n @ ''.txt'') = None" by (intro find_sub_None) simp_all
  have "find_sub ''data'' (server_name n) = Some (''serverQUIC-rx-'', str_of_nat n @ ''.txt'')"
    by (simp add: server_name_def)
  moreover have "a = [] \<or> last a \<notin> set ''data''" using a(1) by auto
  ultimately show ?thesis
    using find_sub_append [OF _ a(2), of "server_name n"] rest by (simp add: split_second_def)
qed

lemma str_in_slash: "str_in ''data'' (d @ ''/'') \<Longrightarrow> str_in ''data'' d"
proof -
  assume "str_in ''data'' (d @ ''/'')"
  then obtain a b where ab: "d @ ''/'' = a @ ''data'' @ b" unfolding str_in_iff by blast
  show ?thesis
  proof (cases b rule: rev_cases)
    case Nil
    then have "last (d @ ''/'') = last (a @ ''data'')" using ab by simp
    then show ?thesis by simp
  next
    case (snoc b' c)
    then have "d = a @ ''data'' @ b'" using ab by simp
    then show ?thesis unfolding str_in_iff by blast
  qed
qed

lemma path_join_form: "\<not> str_in ''data'' d \<Longrightarrow> \<exists>a. (\<forall>n. \<not> prefix ''/'' n \<longrightarrow> path_join d n = a @ n) \<and> (a = [] \<or> last a = CHR ''/'') \<and> \<not> str_in ''data'' a"
  using str_in_slash [of d] by (intro exI [of _ "if d = [] \<or> last d = CHR ''/'' then d else d @ ''/''"]) (auto simp: path_join_def)

lemma basename_join: "CHR ''/'' \<notin> set n \<Longrightarrow> a = [] \<or> last a = CHR ''/'' \<Longrightarrow> basename (a @ n) = n"
proof -
  assume n: "CHR ''/'' \<notin> set n" and a: "a = [] \<or> last a = CHR ''/''"
  have "takeWhile (\<lambda>c. c \<noteq> CHR ''/'') (rev n @ rev a) = rev n @ takeWhile (\<lambda>c. c \<noteq> CHR ''/'') (rev a)"
    using n by (intro takeWhile_append2) auto
  moreover have "takeWhile (\<lambda>c. c \<noteq> CHR ''/'') (rev a) = []" using a by (cases a rule: rev_cases) auto
  ultimately show ?thesis by (simp add: basename_def)
qed

lemma server_key_name:
  assumes "\<not> str_in ''data'' d"
  shows "server_key (path_join d (server_name n)) = Inr (int n)"
proof -
  obtain a where a: "path_join d (server_name n) = a @ server_name n" "a = [] \<or> last a = CHR ''/''" "\<not> str_in ''data'' a"
    using path_join_form [OF assms] server_name_def [of n] by auto
  have "CHR ''/'' \<notin> set (server_name n)" using number_chars [of "CHR ''/''" n] by (auto simp: server_name_def)
  then have base: "basename (a @ server_name n) = server_name n" using a(2) by (rule basename_join)
  have dot: "upto_dot (str_of_nat n @ ''.txt'') = str_of_nat n"
    using str_of_nat_digits [of _ n] by (auto simp: upto_dot_def is_digit_def takeWhile_append takeWhile_eq_all_conv)
  have "str_in ''data'' (a @ server_name n)"
    unfolding str_in_iff server_name_def by (intro exI [of _ "a @ ''serverQUIC-rx-''"] exI) simp
  moreover have "int_of (str_of_nat n) = Inr (int n)" using int_of_str_of_int [of "int n"] by (simp add: str_of_int_def)
  ultimately show ?thesis
    using split_server_name [OF a(2,3), of n] split_server_name [of "[]" n] str_of_nat_digits [of _ n]
    by (simp add: a(1) server_key_def base dot str_of_nat_not_Nil list_all_iff)
qed

lemma sort_key_map: "sort_key k (map f xs) = map f (sort_key (k \<circ> f) xs)"
proof -
  have "insort_key k (f x) (map f ys) = map f (insort_key (k \<circ> f) x ys)" for x ys by (induction ys) auto
  then show ?thesis by (induction xs) auto
qed

lemma sort_key_int: "sort_key int ns = sort ns"
proof -
  have "insort_key int n ns = insort n ns" for n ns by (induction ns) auto
  then show ?thesis by (induction ns) (auto simp: sort_key_def)
qed

lemma keys_fold: "(\<And>x. x \<in> set xs \<Longrightarrow> f x = Inr (k x)) \<Longrightarrow>
    fold_e (\<lambda>ks x. bind_e (f x) (\<lambda>v. Inr (ks @ [v]))) ks xs = Inr (ks @ map k xs)"
  by (induction xs arbitrary: ks) auto

text \<open>The files of a directory come in the order of their numbers, not of their names, whatever the order
  in which the file system lists them, as long as the path of the directory does not contain \<open>data\<close>.\<close>

theorem quic_files_sorted:
  assumes "filter is_server_file names = map server_name ns" and "\<not> str_in ''data'' d"
  shows "find_server_files names d = Inr (map (\<lambda>n. path_join d (server_name n)) (sort ns))"
proof -
  let ?f = "\<lambda>n. path_join d (server_name n)"
  have xs: "map (path_join d) (filter is_server_file names) = map ?f ns" by (simp add: assms(1))
  have "fold_e (\<lambda>ks x. bind_e (server_key x) (\<lambda>k. Inr (ks @ [k]))) [] (map ?f ns) = Inr (map int ns)"
  proof -
    have "fold_e (\<lambda>ks n. bind_e (server_key (?f n)) (\<lambda>k. Inr (ks @ [k]))) ks ns = Inr (ks @ map int ns)" for ks
      by (rule keys_fold) (simp add: server_key_name [OF assms(2)])
    moreover have "fold_e g ks (map f ns) = fold_e (\<lambda>ks n. g ks (f n)) ks ns" for g :: "int list \<Rightarrow> string \<Rightarrow> int list py" and f ks
      by (induction ns arbitrary: ks) (auto intro: bind_e_cong)
    ultimately show ?thesis by simp
  qed
  moreover have "zip (map int ns) (map ?f ns) = map (\<lambda>n. (int n, ?f n)) ns" by (induction ns) auto
  ultimately show ?thesis
    by (simp add: find_server_files_def Let_def xs sort_key_map comp_def sort_key_int)
qed

theorem quic_files_sorted_witness:
  "find_server_files [''serverQUIC-rx-data10.txt'', ''sim.log'', ''serverQUIC-rx-data9.txt''] ''.''
    = Inr [''./serverQUIC-rx-data9.txt'', ''./serverQUIC-rx-data10.txt'']"
proof -
  have "filter is_server_file [''serverQUIC-rx-data10.txt'', ''sim.log'', ''serverQUIC-rx-data9.txt''] = map server_name [10, 9]"
    by code_simp
  moreover have "map (\<lambda>n. path_join ''.'' (server_name n)) (sort [10, 9]) = [''./serverQUIC-rx-data9.txt'', ''./serverQUIC-rx-data10.txt'']"
    by code_simp
  ultimately show ?thesis using quic_files_sorted [of _ "[10, 9]" "''.''"] by simp
qed

end
