(* ===== verification/UdpThroughput.thy ===== *)
theory UdpThroughput
  imports Windows
begin

text \<open>
  \<open>scripts/udp_calculate_throughput.py\<close>, run by Python 3: the throughput of a UDP server over time windows, from
  its reception trace. A file is the list of its lines, \<open>None\<close> when it cannot be opened. The loop that
  lays out the windows does not end for a window that is not positive: what contains it is an option, \<open>None\<close>
  when it does not return. \<open>math.sqrt\<close> is the parameter \<open>sq\<close>. The report holds the numbers that are
  printed, in order; the second unit in which some are printed again is left out.
\<close>

section \<open>The trace\<close>

fun remove_ns :: "string \<Rightarrow> string" where
  "remove_ns (c # d # s) = (if c = CHR ''n'' \<and> d = CHR ''s'' then remove_ns s else c # remove_ns (d # s))"
| "remove_ns s = s"

definition parse_time_ns :: "string \<Rightarrow> rat py" where
  "parse_time_ns time_str =
     bind_e (float_of (filter (\<lambda>c. c \<noteq> CHR ''+'') (remove_ns time_str))) (\<lambda>time_ns. Inr (time_ns / 1000000000))"

record udp_packet =
  p_size :: int
  from_ip :: string
  seq_num :: int
  uid :: int
  txtime :: string
  rxtime :: string
  delay :: string
  socket :: string
  node_id :: int

definition packet_line :: "udp_packet list \<Rightarrow> string \<Rightarrow> udp_packet list py" where
  "packet_line packets l =
     (case split_ws (re_strip l) of
        p0 # p1 # p2 # p3 # p4 # p5 # p6 # p7 # p8 # p9 # _ \<Rightarrow>
          bind_e (int_of p0) (\<lambda>sz. bind_e (int_of p2) (\<lambda>sq. bind_e (int_of p3) (\<lambda>u. bind_e (int_of p9) (\<lambda>n.
            Inr (packets @ [\<lparr>p_size = sz, from_ip = p1, seq_num = sq, uid = u, txtime = p5, rxtime = p6, delay = p7,
              socket = p8, node_id = n\<rparr>])))))
      | _ \<Rightarrow> Inr packets)"

text \<open>A packet with its three times in seconds.\<close>

record timed =
  packet :: udp_packet
  txtime_sec :: rat
  rxtime_sec :: rat
  delay_sec :: rat

definition time_packet :: "timed list \<Rightarrow> udp_packet \<Rightarrow> timed list py" where
  "time_packet ts p =
     bind_e (parse_time_ns (txtime p)) (\<lambda>tx. bind_e (parse_time_ns (rxtime p)) (\<lambda>rx.
     bind_e (parse_time_ns (delay p)) (\<lambda>d.
       Inr (ts @ [\<lparr>packet = p, txtime_sec = tx, rxtime_sec = rx, delay_sec = d\<rparr>]))))"

abbreviation size_of :: "timed \<Rightarrow> int" where "size_of p \<equiv> p_size (packet p)"

section \<open>The windows\<close>

partial_function (option) time_bins :: "rat \<Rightarrow> rat \<Rightarrow> rat \<Rightarrow> rat list \<Rightarrow> rat list option" where
  "time_bins end_time time_window current_time bins =
     (if current_time < end_time
      then time_bins end_time time_window (current_time + time_window) (bins @ [current_time])
      else Some bins)"

declare time_bins.simps [code]

record udp_window =
  w_start :: rat
  w_end :: rat
  w_packets :: int
  w_bytes :: int
  w_bps :: rat
  w_mbps :: rat

definition window_step :: "timed list \<Rightarrow> udp_window list \<Rightarrow> rat \<times> rat \<Rightarrow> udp_window list py" where
  "window_step packets ws b =
     (let (bin_start, bin_end) = b;
          window_packets = filter (\<lambda>p. bin_start \<le> rxtime_sec p \<and> rxtime_sec p < bin_end) packets in
      if window_packets = [] then Inr ws
      else
        (let window_bytes = sum_list (map size_of window_packets) in
         bind_e (rdiv (of_int (window_bytes * 8)) (bin_end - bin_start)) (\<lambda>bps.
           Inr (ws @ [\<lparr>w_start = bin_start, w_end = bin_end, w_packets = int (length window_packets),
              w_bytes = window_bytes, w_bps = bps, w_mbps = bps / 1000000\<rparr>]))))"

section \<open>Statistics\<close>

definition mean_of :: "rat list \<Rightarrow> rat" where
  "mean_of xs = sum_list xs / of_nat (length xs)"

definition variance_of :: "rat list \<Rightarrow> rat" where
  "variance_of xs = sum_list (map (\<lambda>x. (x - mean_of xs) ^ 2) xs) / of_nat (length xs)"

definition median_of :: "rat list \<Rightarrow> rat" where
  "median_of xs =
     (let sorted_xs = sort xs; n = length sorted_xs in
      if n mod 2 = 0 then (sorted_xs ! (n div 2 - 1) + sorted_xs ! (n div 2)) / 2 else sorted_xs ! (n div 2))"

definition spread :: "(rat \<Rightarrow> rat) \<Rightarrow> rat list \<Rightarrow> rat list" where
  "spread sq xs = [mean_of xs, Min (set xs), Max (set xs), sq (variance_of xs)]"

definition throughput_stats :: "(rat \<Rightarrow> rat) \<Rightarrow> rat list \<Rightarrow> rat list" where
  "throughput_stats sq xs =
     (if xs = [] then [] else [mean_of xs, median_of xs, Min (set xs), Max (set xs), sq (variance_of xs)])"

record udp_report =
  total_packets :: int
  total_bytes :: int
  total_time :: rat
  overall_mbps :: rat
  u_windows :: "udp_window list"
  u_stats :: "rat list"
  packet_rate :: rat
  size_stats :: "rat list"
  delay_stats :: "rat list"

section \<open>calculate_throughput\<close>

text \<open>The part after the packets are loaded; what may not return is the layout of the windows.\<close>

definition report_of :: "(rat \<Rightarrow> rat) \<Rightarrow> timed list \<Rightarrow> rat \<Rightarrow> udp_report py option" where
  "report_of sq packets time_window =
     (let bytes = sum_list (map size_of packets);
          rxtimes = map rxtime_sec packets;
          start_time = Min (set rxtimes); end_time = Max (set rxtimes); time = end_time - start_time in
      case rdiv (of_int (bytes * 8)) time of
        Inl e \<Rightarrow> Some (Inl e)
      | Inr overall_bps \<Rightarrow>
          map_option (\<lambda>bins.
            bind_e (fold_e (window_step packets) [] (windows (bins @ [end_time]))) (\<lambda>ws.
            bind_e (rdiv (of_nat (length packets)) time) (\<lambda>rate.
              Inr \<lparr>total_packets = int (length packets), total_bytes = bytes, total_time = time,
                overall_mbps = overall_bps / 1000000, u_windows = ws, u_stats = throughput_stats sq (map w_mbps ws),
                packet_rate = rate, size_stats = spread sq (map (of_int \<circ> size_of) packets),
                delay_stats = map (\<lambda>x. x * 1000) (spread sq (map delay_sec packets))\<rparr>)))
          (time_bins end_time time_window start_time []))"

text \<open>Every exception is caught: the result is \<open>None\<close>.\<close>

definition udp_calculate_throughput :: "(rat \<Rightarrow> rat) \<Rightarrow> string list option \<Rightarrow> rat \<Rightarrow> udp_report option option" where
  "udp_calculate_throughput sq file time_window =
     (case file of
        None \<Rightarrow> Some None
      | Some lines \<Rightarrow>
          (case bind_e (fold_e packet_line [] (drop 1 lines)) (fold_e time_packet []) of
             Inl _ \<Rightarrow> Some None
           | Inr packets \<Rightarrow>
               if packets = [] then Some None
               else map_option (\<lambda>r. case r of Inl _ \<Rightarrow> None | Inr rep \<Rightarrow> Some rep) (report_of sq packets time_window)))"

text \<open>The rows of the file the results are saved to, and the exit status of \<open>main\<close>, which uses windows of one second.\<close>

definition csv_rows :: "udp_report \<Rightarrow> (rat \<times> rat \<times> int \<times> int \<times> rat \<times> rat) list" where
  "csv_rows rep = map (\<lambda>w. (w_start w, w_end w, w_packets w, w_bytes w, w_bps w, w_mbps w)) (u_windows rep)"

definition udp_main :: "(rat \<Rightarrow> rat) \<Rightarrow> (string \<Rightarrow> string list option) \<Rightarrow> (int \<times> udp_report option) option" where
  "udp_main sq files =
     map_option (\<lambda>r. (if r = None then 1 else 0, r)) (udp_calculate_throughput sq (files ''UdpServerRx.txt'') 1)"

section \<open>The layout of the windows\<close>

lemma time_bins_result:
  assumes "0 < w"
  shows "time_bins e w a bins = Some (bins @ equi a w (nat \<lceil>(e - a) / w\<rceil>))"
proof (induction "nat \<lceil>(e - a) / w\<rceil>" arbitrary: a bins)
  case 0
  then have "(e - a) / w \<le> 0" by linarith
  then have "e \<le> a" using assms by (simp add: divide_le_0_iff)
  then show ?case using 0 by (simp add: time_bins.simps [of e w a])
next
  case (Suc n)
  have "(e - (a + w)) / w = (e - a) / w - 1" using assms by (simp add: field_simps)
  then have n: "n = nat \<lceil>(e - (a + w)) / w\<rceil>" using Suc.hyps(2) by simp
  have "0 < (e - a) / w" using Suc.hyps(2) by (metis ceiling_less_zero less_numeral_extra(3) nat_eq_iff nat_le_0 not_less
      ceiling_le_zero old.nat.distinct(2))
  then have "a < e" using assms by (simp add: zero_less_divide_iff)
  then have "time_bins e w a bins = Some (bins @ a # equi (a + w) w n)"
    using Suc.hyps(1) [OF n, of "bins @ [a]"] n by (subst time_bins.simps) simp
  then show ?case unfolding Suc.hyps(2) [symmetric] equi_Suc .
qed

lemma time_bins_diverges:
  assumes "w \<le> 0" and "a < e"
  shows "time_bins e w a bins = None"
proof (cases "time_bins e w a bins")
  case (Some r)
  have "\<not> (w \<le> 0 \<and> a < e)"
  proof (rule time_bins.raw_induct [where P = "\<lambda>e w a bins r. \<not> (w \<le> 0 \<and> a < e)", OF _ Some])
    fix loop :: "rat \<Rightarrow> rat \<Rightarrow> rat \<Rightarrow> rat list \<Rightarrow> rat list option" and e w a bins r
    assume ih: "\<And>e w a bins r. loop e w a bins = Some r \<Longrightarrow> \<not> (w \<le> 0 \<and> a < e)"
      and eq: "(if a < e then loop e w (a + w) (bins @ [a]) else Some bins) = Some r"
    show "\<not> (w \<le> 0 \<and> a < e)"
      using eq ih [of e w "a + w" "bins @ [a]" r] by (auto split: if_splits)
  qed
  then show ?thesis using assms by simp
qed

section \<open>The packets the windows count\<close>

lemma window_fold:
  assumes "\<forall>(a, b) \<in> set bs. a < b"
  shows "\<exists>ws'. fold_e (window_step ps) ws bs = Inr (ws @ ws')
    \<and> sum_list (map w_bytes ws') = sum_list (map (\<lambda>(a, b). part_sum rxtime_sec size_of ps a b) bs)
    \<and> sum_list (map w_packets ws') = sum_list (map (\<lambda>(a, b). part_sum rxtime_sec (\<lambda>_. 1) ps a b) bs)
    \<and> (\<forall>w \<in> set ws'. 0 < w_packets w \<and> w_bps w * (w_end w - w_start w) = of_int (w_bytes w * 8))"
  using assms
proof (induction bs arbitrary: ws)
  case (Cons x bs)
  obtain a b where x: "x = (a, b)" by (cases x)
  let ?in = "filter (\<lambda>p. a \<le> rxtime_sec p \<and> rxtime_sec p < b) ps"
  have le: "a < b" "\<forall>(a, b) \<in> set bs. a < b" using Cons.prems x by auto
  show ?case
  proof (cases "?in = []")
    case True
    obtain ws' where "fold_e (window_step ps) ws bs = Inr (ws @ ws')
      \<and> sum_list (map w_bytes ws') = sum_list (map (\<lambda>(a, b). part_sum rxtime_sec size_of ps a b) bs)
      \<and> sum_list (map w_packets ws') = sum_list (map (\<lambda>(a, b). part_sum rxtime_sec (\<lambda>_. 1) ps a b) bs)
      \<and> (\<forall>w \<in> set ws'. 0 < w_packets w \<and> w_bps w * (w_end w - w_start w) = of_int (w_bytes w * 8))"
      using Cons.IH [OF le(2), of ws] by blast
    moreover have "window_step ps ws (a, b) = Inr ws" using True by (simp add: window_step_def)
    moreover have "part_sum rxtime_sec v ps a b = 0" for v using True by (simp add: part_sum_def)
    ultimately show ?thesis by (intro exI [of _ ws']) (simp add: x)
  next
    case False
    define u where "u = \<lparr>w_start = a, w_end = b, w_packets = int (length ?in), w_bytes = sum_list (map size_of ?in),
      w_bps = of_int (sum_list (map size_of ?in) * 8) / (b - a), w_mbps = of_int (sum_list (map size_of ?in) * 8) / (b - a) / 1000000\<rparr>"
    obtain ws' where h: "fold_e (window_step ps) (ws @ [u]) bs = Inr ((ws @ [u]) @ ws')"
      "sum_list (map w_bytes ws') = sum_list (map (\<lambda>(a, b). part_sum rxtime_sec size_of ps a b) bs)"
      "sum_list (map w_packets ws') = sum_list (map (\<lambda>(a, b). part_sum rxtime_sec (\<lambda>_. 1) ps a b) bs)"
      "\<forall>w \<in> set ws'. 0 < w_packets w \<and> w_bps w * (w_end w - w_start w) = of_int (w_bytes w * 8)"
      using Cons.IH [OF le(2), of "ws @ [u]"] by blast
    have step: "window_step ps ws (a, b) = Inr (ws @ [u])" using False le(1) by (simp add: window_step_def rdiv_def Let_def u_def)
    have bytes: "part_sum rxtime_sec size_of ps a b = w_bytes u" by (simp add: part_sum_def u_def)
    have count: "part_sum rxtime_sec (\<lambda>_. 1) ps a b = w_packets u" by (simp add: part_sum_const u_def)
    have rate: "0 < w_packets u \<and> w_bps u * (w_end u - w_start u) = of_int (w_bytes u * 8)"
      using False le(1) by (simp add: u_def)
    show ?thesis
    proof (intro exI [of _ "u # ws'"] conjI)
      show "fold_e (window_step ps) ws (x # bs) = Inr (ws @ u # ws')" using h(1) by (simp add: x step)
      show "sum_list (map w_bytes (u # ws')) = sum_list (map (\<lambda>(a, b). part_sum rxtime_sec size_of ps a b) (x # bs))"
        by (simp add: x h(2) bytes)
      show "sum_list (map w_packets (u # ws')) = sum_list (map (\<lambda>(a, b). part_sum rxtime_sec (\<lambda>_. 1) ps a b) (x # bs))"
        by (simp add: x h(3) count)
      show "\<forall>w \<in> set (u # ws'). 0 < w_packets w \<and> w_bps w * (w_end w - w_start w) = of_int (w_bytes w * 8)"
        using h(4) rate by (simp only: list.set ball_simps simp_thms)
    qed
  qed
qed simp

lemma part_sum_below:
  "\<forall>x \<in> set xs. a \<le> k x \<and> k x \<le> b \<Longrightarrow> part_sum k v xs a b = sum_list (map v xs) - sum_list (map v (filter (\<lambda>x. k x = b) xs))"
  by (induction xs) (auto simp: part_sum_def)

definition first_rx :: "timed list \<Rightarrow> rat" where
  "first_rx packets = Min (rxtime_sec ` set packets)"

definition last_rx :: "timed list \<Rightarrow> rat" where
  "last_rx packets = Max (rxtime_sec ` set packets)"

lemma rx_bounds: "p \<in> set packets \<Longrightarrow> first_rx packets \<le> rxtime_sec p \<and> rxtime_sec p \<le> last_rx packets"
  by (simp add: first_rx_def last_rx_def)

lemma bins_sum:
  assumes "0 < w" and "first_rx ps < last_rx ps"
  shows "sum_list (map (\<lambda>(a, b). part_sum rxtime_sec v ps a b)
      (windows (equi (first_rx ps) w (nat \<lceil>(last_rx ps - first_rx ps) / w\<rceil>) @ [last_rx ps])))
    = sum_list (map v ps) - sum_list (map v (filter (\<lambda>p. rxtime_sec p = last_rx ps) ps))"
proof -
  let ?n = "nat \<lceil>(last_rx ps - first_rx ps) / w\<rceil>"
  let ?bs = "equi (first_rx ps) w ?n @ [last_rx ps]"
  have "0 < ?n" using assms by simp
  then obtain m where "?n = Suc m" by (cases ?n) auto
  then have hd: "hd ?bs = first_rx ps" by (simp only: equi_Suc append_Cons list.sel)
  have "sorted ?bs"
    unfolding sorted_append
  proof (intro conjI ballI)
    show "sorted (equi (first_rx ps) w ?n)" by (rule sorted_equi) (use assms(1) in simp)
    fix t u
    assume "t \<in> set (equi (first_rx ps) w ?n)" "u \<in> set [last_rx ps]"
    then show "t \<le> u" using equi_below [OF assms(1), of t "first_rx ps" "last_rx ps"] by simp
  qed simp
  then have "sum_list (map (\<lambda>(a, b). part_sum rxtime_sec v ps a b) (windows ?bs)) = part_sum rxtime_sec v ps (hd ?bs) (last ?bs)"
    by (rule part_sum_windows) simp
  also have "\<dots> = part_sum rxtime_sec v ps (first_rx ps) (last_rx ps)" unfolding hd by simp
  finally show ?thesis using rx_bounds [of _ ps] by (simp add: part_sum_below)
qed

definition packets_of :: "string list \<Rightarrow> timed list py" where
  "packets_of lines = bind_e (fold_e packet_line [] (drop 1 lines)) (fold_e time_packet [])"

lemma report_result:
  assumes "0 < w" and "first_rx ps < last_rx ps" and "ps \<noteq> []"
  shows "\<exists>rep. report_of sq ps w = Some (Inr rep) \<and> total_bytes rep = sum_list (map size_of ps)
    \<and> sum_list (map w_bytes (u_windows rep)) = sum_list (map size_of ps) - sum_list (map size_of (filter (\<lambda>p. rxtime_sec p = last_rx ps) ps))
    \<and> sum_list (map w_packets (u_windows rep)) = int (length ps) - int (length (filter (\<lambda>p. rxtime_sec p = last_rx ps) ps))
    \<and> (\<forall>w \<in> set (u_windows rep). 0 < w_packets w \<and> w_bps w * (w_end w - w_start w) = of_int (w_bytes w * 8))"
proof -
  let ?bs = "equi (first_rx ps) w (nat \<lceil>(last_rx ps - first_rx ps) / w\<rceil>)"
  have "sorted_wrt (<) (?bs @ [last_rx ps])"
    using strict_equi [OF assms(1)] equi_below [OF assms(1)] by (auto simp: sorted_wrt_append)
  then have "\<forall>(a, b) \<in> set (windows (?bs @ [last_rx ps])). a < b" using windows_strict by blast
  from window_fold [OF this, of ps "[]"] obtain ws where ws:
    "fold_e (window_step ps) [] (windows (?bs @ [last_rx ps])) = Inr ws"
    "sum_list (map w_bytes ws) = sum_list (map size_of ps) - sum_list (map size_of (filter (\<lambda>p. rxtime_sec p = last_rx ps) ps))"
    "sum_list (map w_packets ws) = sum_list (map (\<lambda>_. 1) ps) - sum_list (map (\<lambda>_. 1) (filter (\<lambda>p. rxtime_sec p = last_rx ps) ps))"
    "\<forall>w \<in> set ws. 0 < w_packets w \<and> w_bps w * (w_end w - w_start w) = of_int (w_bytes w * 8)"
    unfolding bins_sum [OF assms(1,2)] by auto
  have rx: "Min (rxtime_sec ` set ps) = first_rx ps" "Max (rxtime_sec ` set ps) = last_rx ps"
    by (simp_all add: first_rx_def last_rx_def)
  show ?thesis
    using ws assms by (simp add: report_of_def Let_def rx rdiv_def time_bins_result sum_list_triv)
qed

text \<open>C35: every window of the report has packets, and its rate times its length is what it received; but the windows
  together leave out the packets that arrived at the very end of the trace, which the overall rate counts.\<close>

theorem udp_windows:
  assumes "packets_of lines = Inr packets" and "udp_calculate_throughput sq (Some lines) w = Some (Some rep)"
  shows "sum_list (map w_bytes (u_windows rep))
      = total_bytes rep - sum_list (map size_of (filter (\<lambda>p. rxtime_sec p = last_rx packets) packets))
    \<and> sum_list (map w_packets (u_windows rep))
      = int (length packets) - int (length (filter (\<lambda>p. rxtime_sec p = last_rx packets) packets))
    \<and> (\<forall>w \<in> set (u_windows rep). 0 < w_packets w \<and> w_bps w * (w_end w - w_start w) = of_int (w_bytes w * 8))"
proof -
  have "(case z of Inl _ \<Rightarrow> None | Inr x \<Rightarrow> Some x) = Some rep \<longleftrightarrow> z = Inr rep" for z :: "udp_report py" by (cases z) auto
  then have r: "report_of sq packets w = Some (Inr rep)" "packets \<noteq> []"
    using assms by (auto simp: udp_calculate_throughput_def packets_of_def split: if_splits)
  have ne: "first_rx packets \<noteq> last_rx packets"
    using r(1) by (auto simp: report_of_def Let_def rdiv_def first_rx_def last_rx_def split: if_splits)
  moreover have "first_rx packets \<le> last_rx packets" using rx_bounds r(2) by (metis last_in_set order_trans)
  ultimately have lt: "first_rx packets < last_rx packets" by simp
  have "0 < w"
  proof (rule ccontr)
    assume "\<not> 0 < w"
    then have "time_bins (last_rx packets) w (first_rx packets) [] = None" using lt by (intro time_bins_diverges) simp_all
    then show False using r(1) ne
      by (simp add: report_of_def Let_def rdiv_def first_rx_def last_rx_def split: if_splits)
  qed
  then show ?thesis using report_result [OF _ lt r(2), of w sq] r(1) by auto
qed

text \<open>The other outcomes: a trace whose packets all arrived at one time ends in \<open>ZeroDivisionError\<close>, which is reported as a
  failure, and otherwise the report is printed exactly for a positive window.\<close>

theorem udp_outcome:
  assumes "packets_of lines = Inr packets" and "packets \<noteq> []"
  shows "(first_rx packets = last_rx packets \<longrightarrow> udp_calculate_throughput sq (Some lines) w = Some None)
    \<and> (first_rx packets \<noteq> last_rx packets \<longrightarrow>
        (if 0 < w then \<exists>rep. udp_calculate_throughput sq (Some lines) w = Some (Some rep)
         else udp_calculate_throughput sq (Some lines) w = None))"
proof -
  let ?run = "map_option (\<lambda>r. case r of Inl _ \<Rightarrow> None | Inr rep \<Rightarrow> Some rep) (report_of sq packets w)"
  have run: "udp_calculate_throughput sq (Some lines) w = ?run"
    using assms by (simp add: udp_calculate_throughput_def packets_of_def)
  have rx: "Min (rxtime_sec ` set packets) = first_rx packets" "Max (rxtime_sec ` set packets) = last_rx packets"
    by (simp_all add: first_rx_def last_rx_def)
  have le: "first_rx packets \<le> last_rx packets" using rx_bounds assms(2) by (metis last_in_set order_trans)
  show ?thesis
  proof (intro conjI impI)
    assume "first_rx packets = last_rx packets"
    then show "udp_calculate_throughput sq (Some lines) w = Some None" by (simp add: run report_of_def Let_def rx rdiv_def)
  next
    assume "first_rx packets \<noteq> last_rx packets"
    then have lt: "first_rx packets < last_rx packets" using le by simp
    show "if 0 < w then \<exists>rep. udp_calculate_throughput sq (Some lines) w = Some (Some rep)
      else udp_calculate_throughput sq (Some lines) w = None"
    proof (cases "0 < w")
      case True
      then show ?thesis using report_result [OF True lt assms(2), of sq] by (auto simp: run)
    next
      case False
      then have "time_bins (last_rx packets) w (first_rx packets) [] = None" using lt by (intro time_bins_diverges) simp_all
      then show ?thesis using False lt by (simp add: run report_of_def Let_def rx rdiv_def)
    qed
  qed
qed

section \<open>An example\<close>

definition udp_line :: "string \<Rightarrow> string \<Rightarrow> string" where
  "udp_line sz t = sz @ '' 10.0.0.1 1 7 x +0.0ns '' @ t @ '' +5.0ns 0xa 3''"

definition udp_sample :: "string list" where
  "udp_sample = [''header'', udp_line ''100'' ''+10.0ns'', udp_line ''200'' ''+25.0ns'', udp_line ''400'' ''+30.0ns'']"

lemma udp_sample_packets:
  "case packets_of udp_sample of Inr ps \<Rightarrow> map size_of ps = [100, 200, 400] \<and> map rxtime_sec ps = [1 / 100000000, 1 / 40000000, 3 / 100000000] | Inl _ \<Rightarrow> False"
  by code_simp

theorem udp_windows_witness:
  "\<exists>rep. udp_calculate_throughput (\<lambda>x. x) (Some udp_sample) (1 / 100000000) = Some (Some rep) \<and> sum_list (map w_bytes (u_windows rep)) = total_bytes rep - 400"
proof -
  obtain ps where ps: "packets_of udp_sample = Inr ps" "map size_of ps = [100, 200, 400]" "map rxtime_sec ps = [1 / 100000000, 1 / 40000000, 3 / 100000000]"
    using udp_sample_packets by (auto split: sum.splits)
  then obtain a b c where abc: "ps = [a, b, c]" by (auto simp: map_eq_Cons_conv)
  have rx: "first_rx ps = 1 / 100000000" "last_rx ps = 3 / 100000000" using ps(3) by (simp_all add: abc first_rx_def last_rx_def)
  have "first_rx ps < last_rx ps" "ps \<noteq> []" using rx abc by simp_all
  from report_result [OF _ this, of "1 / 100000000" "\<lambda>x. x"] obtain rep where "report_of (\<lambda>x. x) ps (1 / 100000000) = Some (Inr rep)" by auto
  then have "udp_calculate_throughput (\<lambda>x. x) (Some udp_sample) (1 / 100000000) = Some (Some rep)"
    using ps(1) abc by (simp add: udp_calculate_throughput_def packets_of_def)
  then show ?thesis using udp_windows [OF ps(1)] ps(2,3) rx by (auto simp: abc)
qed

theorem udp_outcome_witness: "\<exists>rep. udp_calculate_throughput (\<lambda>x. x) (Some udp_sample) (1 / 100000000) = Some (Some rep)"
proof -
  obtain ps where ps: "packets_of udp_sample = Inr ps" "map size_of ps = [100, 200, 400]" "map rxtime_sec ps = [1 / 100000000, 1 / 40000000, 3 / 100000000]"
    using udp_sample_packets by (auto split: sum.splits)
  then obtain a b c where abc: "ps = [a, b, c]" by (auto simp: map_eq_Cons_conv)
  have "first_rx ps = 1 / 100000000" "last_rx ps = 3 / 100000000" using ps(3) by (simp_all add: abc first_rx_def last_rx_def)
  then show ?thesis using udp_outcome [OF ps(1), of "\<lambda>x. x" "1 / 100000000"] abc by simp
qed

end
