(* ===== verification/Shlex.thy ===== *)
theory Shlex
  imports PyText
begin

text \<open>
  \<open>shlex.split\<close> of the standard library, as \<open>waf-tools/shellcmd.py\<close> and \<open>wutils.py\<close> use it: POSIX rules, no
  comments, words separated by blanks only. The loop of \<open>shlex.read_token\<close> is a recursion over the characters that are
  left, with the state of the lexer, the word read so far and whether a quote was seen in it.
\<close>

section \<open>The lexer\<close>

text \<open>The states of the lexer. An escape remembers the quote it stands in.\<close>

datatype lex_state = Between | Word | Quoted char | Escaped "char option"

definition shlex_space :: "char \<Rightarrow> bool" where
  "shlex_space c \<longleftrightarrow> c \<in> {CHR '' '', CHR 0x09, CHR 0x0D, CHR 0x0A}"

definition shlex_quote :: "char \<Rightarrow> bool" where
  "shlex_quote c \<longleftrightarrow> c \<in> {CHR 0x27, CHR 0x22}"

definition backslash :: char where
  "backslash = CHR 0x5C"

text \<open>A word is dropped when it is empty and nothing of it was quoted.\<close>

definition emit :: "string \<Rightarrow> bool \<Rightarrow> string list" where
  "emit tok quoted = (if tok = [] \<and> \<not> quoted then [] else [tok])"

fun shlex_loop :: "lex_state \<Rightarrow> string \<Rightarrow> bool \<Rightarrow> string \<Rightarrow> string list py" where
  "shlex_loop Between tok quoted [] = Inr []"
| "shlex_loop Between tok quoted (c # cs) =
     (if shlex_space c then shlex_loop Between tok quoted cs
      else if c = backslash then shlex_loop (Escaped None) tok quoted cs
      else if shlex_quote c then shlex_loop (Quoted c) tok quoted cs
      else shlex_loop Word [c] quoted cs)"
| "shlex_loop Word tok quoted [] = Inr (emit tok quoted)"
| "shlex_loop Word tok quoted (c # cs) =
     (if shlex_space c then bind_e (shlex_loop Between [] False cs) (\<lambda>ts. Inr (emit tok quoted @ ts))
      else if shlex_quote c then shlex_loop (Quoted c) tok quoted cs
      else if c = backslash then shlex_loop (Escaped None) tok quoted cs
      else shlex_loop Word (tok @ [c]) quoted cs)"
| "shlex_loop (Quoted q) tok quoted [] = Inl ValueError"
| "shlex_loop (Quoted q) tok quoted (c # cs) =
     (if c = q then shlex_loop Word tok True cs
      else if c = backslash \<and> q = CHR 0x22 then shlex_loop (Escaped (Some q)) tok True cs
      else shlex_loop (Quoted q) (tok @ [c]) True cs)"
| "shlex_loop (Escaped q) tok quoted [] = Inl ValueError"
| "shlex_loop (Escaped None) tok quoted (c # cs) = shlex_loop Word (tok @ [c]) quoted cs"
| "shlex_loop (Escaped (Some q)) tok quoted (c # cs) =
     shlex_loop (Quoted q) (if c \<noteq> backslash \<and> c \<noteq> q then tok @ [backslash, c] else tok @ [c]) quoted cs"

definition shlex_split :: "string \<Rightarrow> string list py" where
  "shlex_split s = shlex_loop Between [] False s"

section \<open>Texts that follow each other\<close>

text \<open>A text that ends outside of quotes is read on its own when a blank follows it.\<close>

lemma shlex_loop_append:
  assumes "shlex_loop st tok quoted s = Inr ts" and "st = Between \<Longrightarrow> tok = [] \<and> \<not> quoted" and "shlex_space b"
  shows "shlex_loop st tok quoted (s @ b # s') = bind_e (shlex_split s') (\<lambda>ts'. Inr (ts @ ts'))"
  using assms(1,2)
proof (induction st tok quoted s arbitrary: ts rule: shlex_loop.induct)
  case (1 tok quoted)
  then show ?case using assms(3) by (cases "shlex_split s'") (simp_all add: shlex_split_def)
next
  case (2 tok quoted c cs)
  then show ?case by (cases "shlex_space c"; cases "c = backslash"; cases "shlex_quote c") simp_all
next
  case (3 tok quoted)
  then show ?case using assms(3) by (auto simp: shlex_split_def)
next
  case (4 tok quoted c cs)
  show ?case
  proof (cases "shlex_space c")
    case True
    then obtain ts1 where "shlex_loop Between [] False cs = Inr ts1" "ts = emit tok quoted @ ts1"
      using 4 by (auto simp: bind_e_Inr_iff)
    then show ?thesis using 4(1) [OF True] True by (simp add: bind_e_assoc)
  next
    case False
    note plain = False
    show ?thesis
    proof (cases "shlex_quote c")
      case True
      then show ?thesis using 4(2) [OF plain True] 4(5) plain by simp
    next
      case False
      show ?thesis
      proof (cases "c = backslash")
        case True
        then have "shlex_loop (Escaped None) tok quoted cs = Inr ts" using 4(5) plain False by simp
        then show ?thesis using 4(3) [OF plain False True, of ts] plain False True by simp
      next
        case bs: False
        then have "shlex_loop Word (tok @ [c]) quoted cs = Inr ts" using 4(5) plain False by simp
        then show ?thesis using 4(4) [OF plain False bs, of ts] plain False bs by simp
      qed
    qed
  qed
next
  case (6 q tok quoted c cs)
  note IH = 6(1-3) and run = 6(4)
  show ?case
  proof (cases "c = q")
    case True
    have "shlex_loop Word tok True cs = Inr ts" using run by (simp only: shlex_loop.simps if_P [OF True])
    from IH(1) [OF True this] show ?thesis
      by (simp only: append_Cons shlex_loop.simps if_P [OF True] lex_state.distinct simp_thms)
  next
    case cq: False
    show ?thesis
    proof (cases "c = backslash \<and> q = CHR 0x22")
      case True
      have "shlex_loop (Escaped (Some q)) tok True cs = Inr ts"
        using run by (simp only: shlex_loop.simps if_not_P [OF cq] if_P [OF True])
      from IH(2) [OF cq True this] show ?thesis
        by (simp only: append_Cons shlex_loop.simps if_not_P [OF cq] if_P [OF True] lex_state.distinct simp_thms)
    next
      case False
      have "shlex_loop (Quoted q) (tok @ [c]) True cs = Inr ts"
        using run by (simp only: shlex_loop.simps if_not_P [OF cq] if_not_P [OF False])
      from IH(3) [OF cq False this] show ?thesis
        by (simp only: append_Cons shlex_loop.simps if_not_P [OF cq] if_not_P [OF False] lex_state.distinct simp_thms)
    qed
  qed
next
  case (9 q tok quoted c cs)
  define tok' where "tok' = (if c \<noteq> backslash \<and> c \<noteq> q then tok @ [backslash, c] else tok @ [c])"
  then show ?case using 9 by simp
qed simp_all

lemma shlex_split_append:
  "shlex_split s = Inr ts \<Longrightarrow> shlex_space c \<Longrightarrow>
     shlex_split (s @ c # s') = bind_e (shlex_split s') (\<lambda>ts'. Inr (ts @ ts'))"
  using shlex_loop_append [of Between "[]" False s ts c s'] by (simp add: shlex_split_def)

lemma shlex_loop_error: "shlex_loop st tok quoted s = Inl e \<Longrightarrow> e = ValueError"
proof (induction st tok quoted s rule: shlex_loop.induct)
  case (4 tok quoted c cs)
  then show ?case by (simp add: bind_e_Inl_iff split: if_split_asm)
next
  case (9 q tok quoted c cs)
  then show ?case by simp
qed (simp_all split: if_split_asm)

text \<open>A plain word is read as it is, and between quotes anything but a backslash and the quote.\<close>

definition plain_char :: "char \<Rightarrow> bool" where
  "plain_char c \<longleftrightarrow> \<not> shlex_space c \<and> \<not> shlex_quote c \<and> c \<noteq> backslash"

lemma shlex_word: "list_all plain_char w \<Longrightarrow> shlex_loop Word tok quoted w = Inr (emit (tok @ w) quoted)"
  by (induction w arbitrary: tok) (simp_all add: plain_char_def)

lemma shlex_plain: "list_all plain_char w \<Longrightarrow> w \<noteq> [] \<Longrightarrow> shlex_split w = Inr [w]"
  by (cases w) (simp_all add: shlex_split_def plain_char_def shlex_word emit_def)

lemma shlex_in_quotes:
  "q \<notin> set w \<Longrightarrow> backslash \<notin> set w \<Longrightarrow> q \<noteq> backslash \<Longrightarrow>
     shlex_loop (Quoted q) tok quoted (w @ [q]) = Inr [tok @ w]"
  by (induction w arbitrary: tok quoted) (auto simp: emit_def)

definition in_quotes :: "string \<Rightarrow> string" where
  "in_quotes w = CHR 0x22 # w @ [CHR 0x22]"

lemma shlex_quoted:
  assumes "CHR 0x22 \<notin> set w" and "backslash \<notin> set w"
  shows "shlex_split (in_quotes w) = Inr [w]"
  using shlex_in_quotes [OF assms] by (simp add: shlex_split_def in_quotes_def shlex_space_def shlex_quote_def backslash_def)

text \<open>A list of words is read back from its words in quotes.\<close>

definition shell_text :: "string list \<Rightarrow> string" where
  "shell_text ws = join_with '' '' (map in_quotes ws)"

lemma shlex_shell_text:
  "list_all (\<lambda>w. CHR 0x22 \<notin> set w \<and> backslash \<notin> set w) ws \<Longrightarrow> shlex_split (shell_text ws) = Inr ws"
proof (induction ws rule: induct_list012)
  case 1
  then show ?case by (simp add: shell_text_def shlex_split_def)
next
  case (2 w)
  then show ?case by (simp add: shell_text_def shlex_quoted)
next
  case (3 w v ws)
  then have "shlex_split (in_quotes w @ CHR '' '' # shell_text (v # ws)) = Inr (w # v # ws)"
    using shlex_split_append [of "in_quotes w" "[w]" "CHR '' ''"] by (simp add: shlex_quoted shlex_space_def)
  then show ?case by (simp add: shell_text_def)
qed

end
