(* ===== verification/ShellCmd.thy ===== *)
theory ShellCmd
  imports Shlex
begin

text \<open>
  \<open>waf-tools/shellcmd.py\<close>, the parser: a command line of the build files becomes a list of commands, changes of the
  directory and operators. \<open>Pipeline.parse\<close> is a loop over the words with a state, the command being read and the
  assignments of environment variables seen so far.
\<close>

section \<open>Nodes\<close>

text \<open>Where a stream goes: \<open>PIPE\<close>, \<open>STDOUT\<close> or the name of a file.\<close>

datatype redirect = ToPipe | ToStdout | ToFile string

record command =
  cmd_name :: string
  argv :: "string list"
  cmd_stdin :: "string option"
  cmd_stdout :: "redirect option"
  cmd_stderr :: "redirect option"
  env_vars :: "(string \<times> string) list option"

definition new_command :: "string \<Rightarrow> command" where
  "new_command name =
     \<lparr>cmd_name = name, argv = [name], cmd_stdin = None, cmd_stdout = None, cmd_stderr = None, env_vars = None\<rparr>"

datatype shell_node = Cmd command | Chdir "string option" | Pipe | And | Or

section \<open>Words\<close>

definition env_char :: "char \<Rightarrow> bool" where
  "env_char c \<longleftrightarrow> re_word c"

text \<open>\<open>env_var_rx\<close>: a name, an equals sign and a text without blanks, but for a line break at the end.\<close>

definition drop_last_nl :: "string \<Rightarrow> string" where
  "drop_last_nl s = (if s \<noteq> [] \<and> last s = nl then butlast s else s)"

definition env_var_match :: "string \<Rightarrow> (string \<times> string) option" where
  "env_var_match token =
     (let key = takeWhile env_char token in
      case dropWhile env_char token of
        [] \<Rightarrow> None
      | c # rest \<Rightarrow>
          if key \<noteq> [] \<and> c = CHR ''='' \<and> drop_last_nl rest \<noteq> [] \<and> list_all (\<lambda>d. \<not> re_space d) (drop_last_nl rest)
          then Some (key, drop_last_nl rest) else None)"

text \<open>\<open>d[key] = val\<close> on a dictionary that keeps the order of its keys\<close>

fun dict_put :: "'k \<Rightarrow> 'v \<Rightarrow> ('k \<times> 'v) list \<Rightarrow> ('k \<times> 'v) list" where
  "dict_put k v [] = [(k, v)]"
| "dict_put k v ((k', v') # d) = (if k' = k then (k, v) # d else (k', v') # dict_put k v d)"

section \<open>The parser\<close>

datatype parse_mode = BEGIN | COMMAND | CHDIR | STDERR | STDOUT | STDIN

text \<open>The command being read is a \<open>Command\<close> or, in the state \<open>CHDIR\<close>, the directory of a \<open>Chdir\<close>.\<close>

record parse_state =
  mode :: parse_mode
  current :: "shell_node option"
  nodes :: "shell_node list"
  seen_env :: "(string \<times> string) list"

definition parse_start :: parse_state where
  "parse_start = \<lparr>mode = BEGIN, current = None, nodes = [], seen_env = []\<rparr>"

definition commit_command :: "parse_state \<Rightarrow> parse_state py" where
  "commit_command st =
     (case current st of
        None \<Rightarrow> Inl AssertionError
      | Some n \<Rightarrow> Inr (st\<lparr>nodes := nodes st @ [n], current := None\<rparr>))"

definition commit_with :: "parse_state \<Rightarrow> shell_node \<Rightarrow> parse_state py" where
  "commit_with st operator =
     bind_e (commit_command st) (\<lambda>st. Inr (st\<lparr>nodes := nodes st @ [operator], mode := BEGIN\<rparr>))"

definition begin_token :: "parse_state \<Rightarrow> string \<Rightarrow> parse_state py" where
  "begin_token st token =
     (case env_var_match token of
        Some (k, v) \<Rightarrow> Inr (st\<lparr>seen_env := dict_put k v (seen_env st)\<rparr>)
      | None \<Rightarrow>
          if current st \<noteq> None then Inl AssertionError
          else if token = ''cd''
          then if seen_env st \<noteq> [] then Inl AssertionError
               else Inr (st\<lparr>current := Some (Chdir None), mode := CHDIR\<rparr>)
          else if seen_env st \<noteq> []
          then Inr (st\<lparr>current := Some (Cmd (new_command token\<lparr>env_vars := Some (seen_env st)\<rparr>)),
                       seen_env := [], mode := COMMAND\<rparr>)
          else Inr (st\<lparr>current := Some (Cmd (new_command token)), mode := COMMAND\<rparr>))"

text \<open>The attributes of the current command; a \<open>Chdir\<close> has none of them.\<close>

definition the_cmd :: "parse_state \<Rightarrow> command py" where
  "the_cmd st = (case current st of Some (Cmd c) \<Rightarrow> Inr c | _ \<Rightarrow> Inl AttributeError)"

definition set_cmd :: "parse_state \<Rightarrow> command \<Rightarrow> parse_state" where
  "set_cmd st c = st\<lparr>current := Some (Cmd c)\<rparr>"

definition command_token :: "parse_state \<Rightarrow> string \<Rightarrow> parse_state py" where
  "command_token st token =
     (if token = ''>'' then Inr (st\<lparr>mode := STDOUT\<rparr>)
      else if token = ''2>'' then Inr (st\<lparr>mode := STDERR\<rparr>)
      else if token = ''2>&1'' then
        bind_e (the_cmd st) (\<lambda>c.
          if cmd_stderr c \<noteq> None then Inl AssertionError
          else Inr (set_cmd st (c\<lparr>cmd_stderr := Some ToStdout\<rparr>)))
      else if token = ''<'' then Inr (st\<lparr>mode := STDIN\<rparr>)
      else if token = ''|'' then
        bind_e (the_cmd st) (\<lambda>c.
          if cmd_stdout c \<noteq> None then Inl AssertionError
          else commit_with (set_cmd st (c\<lparr>cmd_stdout := Some ToPipe\<rparr>)) Pipe)
      else if token = ''&&'' then commit_with st And
      else if token = ''||'' then commit_with st Or
      else bind_e (the_cmd st) (\<lambda>c. Inr (set_cmd st (c\<lparr>argv := argv c @ [token]\<rparr>))))"

definition chdir_token :: "parse_state \<Rightarrow> string \<Rightarrow> parse_state py" where
  "chdir_token st token =
     (if token = ''&&'' then commit_with st And
      else case current st of
             Some (Chdir None) \<Rightarrow> Inr (st\<lparr>current := Some (Chdir (Some token))\<rparr>)
           | Some (Chdir (Some d)) \<Rightarrow> Inl AssertionError
           | _ \<Rightarrow> Inl AttributeError)"

definition file_token :: "parse_state \<Rightarrow> string \<Rightarrow> parse_state py" where
  "file_token st token =
     bind_e (the_cmd st) (\<lambda>c.
       if mode st = STDOUT
       then if cmd_stdout c \<noteq> None then Inl AssertionError
            else Inr (set_cmd st (c\<lparr>cmd_stdout := Some (ToFile token)\<rparr>)\<lparr>mode := COMMAND\<rparr>)
       else if mode st = STDERR
       then if cmd_stderr c \<noteq> None then Inl AssertionError
            else Inr (set_cmd st (c\<lparr>cmd_stderr := Some (ToFile token)\<rparr>)\<lparr>mode := COMMAND\<rparr>)
       else if cmd_stdin c \<noteq> None then Inl AssertionError
            else Inr (set_cmd st (c\<lparr>cmd_stdin := Some token\<rparr>)\<lparr>mode := COMMAND\<rparr>))"

definition parse_token :: "parse_state \<Rightarrow> string \<Rightarrow> parse_state py" where
  "parse_token st token =
     (case mode st of
        BEGIN \<Rightarrow> begin_token st token
      | COMMAND \<Rightarrow> command_token st token
      | CHDIR \<Rightarrow> chdir_token st token
      | _ \<Rightarrow> file_token st token)"

definition parse_words :: "string list \<Rightarrow> shell_node list py" where
  "parse_words tokens =
     bind_e (fold_e parse_token parse_start tokens) (\<lambda>st.
     bind_e (commit_command st) (\<lambda>st. Inr (nodes st)))"

text \<open>A command line is a text, which is split, or a list of words.\<close>

datatype command_line = Text string | Words "string list"

definition parse :: "command_line \<Rightarrow> shell_node list py" where
  "parse line =
     bind_e (case line of Words ws \<Rightarrow> Inr ws | Text s \<Rightarrow> shlex_split s) parse_words"

text \<open>\<open>get_abbreviated_command\<close>; its second test for \<open>And\<close> is never reached, so that an \<open>Or\<close> is left out.\<close>

definition abbreviation_of :: "shell_node \<Rightarrow> string list" where
  "abbreviation_of n =
     (case n of
        Cmd c \<Rightarrow> [cmd_name c]
      | Chdir d \<Rightarrow> [''cd '' @ (case d of None \<Rightarrow> ''None'' | Some d \<Rightarrow> d)]
      | Pipe \<Rightarrow> [''|'']
      | And \<Rightarrow> [''&&'']
      | Or \<Rightarrow> [])"

definition get_abbreviated_command :: "shell_node list \<Rightarrow> string" where
  "get_abbreviated_command ns = join_with '' '' (concat (map abbreviation_of ns))"

section \<open>The shape of what is parsed\<close>

definition command_ok :: "command \<Rightarrow> bool" where
  "command_ok c \<longleftrightarrow> argv c \<noteq> [] \<and>
     cmd_stdout c \<noteq> Some ToStdout \<and> cmd_stderr c \<noteq> Some ToPipe \<and> env_vars c \<noteq> Some []"

text \<open>Commands and operators alternate, a command writes to a pipe exactly if a \<open>Pipe\<close> follows, and behind a \<open>Chdir\<close>
  stands \<open>And\<close> or nothing.\<close>

fun pipeline_ok :: "shell_node list \<Rightarrow> bool" where
  "pipeline_ok [Cmd c] \<longleftrightarrow> command_ok c \<and> cmd_stdout c \<noteq> Some ToPipe"
| "pipeline_ok [Chdir d] \<longleftrightarrow> True"
| "pipeline_ok (Cmd c # Pipe # ns) \<longleftrightarrow> command_ok c \<and> cmd_stdout c = Some ToPipe \<and> pipeline_ok ns"
| "pipeline_ok (Cmd c # And # ns) \<longleftrightarrow> command_ok c \<and> cmd_stdout c \<noteq> Some ToPipe \<and> pipeline_ok ns"
| "pipeline_ok (Cmd c # Or # ns) \<longleftrightarrow> command_ok c \<and> cmd_stdout c \<noteq> Some ToPipe \<and> pipeline_ok ns"
| "pipeline_ok (Chdir d # And # ns) \<longleftrightarrow> pipeline_ok ns"
| "pipeline_ok _ \<longleftrightarrow> False"

definition open_pipeline :: "shell_node list \<Rightarrow> bool" where
  "open_pipeline ns \<longleftrightarrow> (\<forall>rest. pipeline_ok rest \<longrightarrow> pipeline_ok (ns @ rest))"

definition current_ok :: "parse_mode \<Rightarrow> shell_node option \<Rightarrow> bool" where
  "current_ok m n \<longleftrightarrow>
     (case n of
        None \<Rightarrow> m = BEGIN
      | Some (Chdir d) \<Rightarrow> m = CHDIR
      | Some (Cmd c) \<Rightarrow> m \<noteq> BEGIN \<and> m \<noteq> CHDIR \<and> command_ok c \<and> cmd_stdout c \<noteq> Some ToPipe
      | _ \<Rightarrow> False)"

definition parse_inv :: "parse_state \<Rightarrow> bool" where
  "parse_inv st \<longleftrightarrow> open_pipeline (nodes st) \<and> current_ok (mode st) (current st)"

lemma open_snoc:
  "open_pipeline ns \<Longrightarrow> (\<And>rest. pipeline_ok rest \<Longrightarrow> pipeline_ok (new @ rest)) \<Longrightarrow> open_pipeline (ns @ new)"
  by (simp add: open_pipeline_def)

lemma new_command_ok: "command_ok (new_command w)" "cmd_stdout (new_command w) = None" "cmd_stdin (new_command w) = None"
  "cmd_stderr (new_command w) = None"
  by (simp_all add: command_ok_def new_command_def)

lemma parse_token_keeps:
  assumes "parse_inv st"
  shows "case parse_token st w of Inl e \<Rightarrow> e = AssertionError | Inr st' \<Rightarrow> parse_inv st'"
proof (cases "current st")
  case None
  then have "mode st = BEGIN" "open_pipeline (nodes st)" using assms by (auto simp: parse_inv_def current_ok_def)
  then show ?thesis using None new_command_ok [of w]
    by (auto simp: parse_token_def begin_token_def parse_inv_def current_ok_def command_ok_def split: option.splits)
next
  case (Some n)
  note cur = Some
  show ?thesis
  proof (cases n)
    case (Chdir d)
    then have "mode st = CHDIR" "open_pipeline (nodes st)" using assms cur by (auto simp: parse_inv_def current_ok_def)
    then show ?thesis using cur Chdir open_snoc [of "nodes st" "[Chdir d, And]"]
      by (auto simp: parse_token_def chdir_token_def parse_inv_def current_ok_def commit_with_def commit_command_def
          split: option.splits)
  next
    case (Cmd c)
    then have m: "mode st \<noteq> BEGIN" "mode st \<noteq> CHDIR" "open_pipeline (nodes st)" "command_ok c" "cmd_stdout c \<noteq> Some ToPipe"
      using assms cur by (auto simp: parse_inv_def current_ok_def)
    show ?thesis
    proof (cases "mode st = COMMAND")
      case True
      have "open_pipeline (nodes st @ [Cmd (c\<lparr>cmd_stdout := Some ToPipe\<rparr>), Pipe])" "open_pipeline (nodes st @ [Cmd c, And])"
        "open_pipeline (nodes st @ [Cmd c, Or])"
        using m by (auto intro!: open_snoc simp: command_ok_def)
      then show ?thesis using m cur Cmd True
        by (auto simp: parse_token_def command_token_def parse_inv_def current_ok_def commit_with_def commit_command_def
            the_cmd_def set_cmd_def command_ok_def)
    next
      case False
      then have "parse_token st w = file_token st w" using m by (cases "mode st") (simp_all add: parse_token_def)
      then show ?thesis using m cur Cmd False
        by (auto simp: file_token_def parse_inv_def current_ok_def the_cmd_def set_cmd_def command_ok_def)
    qed
  qed (use assms cur in \<open>auto simp: parse_inv_def current_ok_def\<close>)
qed

lemma parse_tokens_keep:
  "parse_inv st \<Longrightarrow> case fold_e parse_token st ws of Inl e \<Rightarrow> e = AssertionError | Inr st' \<Rightarrow> parse_inv st'"
proof (induction ws arbitrary: st)
  case (Cons w ws)
  then show ?case using parse_token_keeps [OF Cons.prems, of w] by (cases "parse_token st w") auto
qed simp

lemma commit_ok:
  assumes "parse_inv st" and "commit_command st = Inr st'"
  shows "pipeline_ok (nodes st')"
proof -
  obtain n where n: "current st = Some n" "nodes st' = nodes st @ [n]" using assms(2) by (auto simp: commit_command_def split: option.splits)
  then have "pipeline_ok [n]" using assms(1) by (cases n) (auto simp: parse_inv_def current_ok_def)
  then show ?thesis using assms(1) n by (simp add: parse_inv_def open_pipeline_def)
qed

text \<open>C11: \<open>Pipeline.parse\<close> raises nothing but the failed assertion and, for a text with an open quote or a
  backslash at its end, the \<open>ValueError\<close> of \<open>shlex\<close>; what it returns alternates commands and operators, each command that
  is followed by a pipe and no other writes to one, and a change of the directory is followed by \<open>&&\<close> or nothing.
\<close>

theorem parse_typed:
  "case parse line of
     Inl e \<Rightarrow> e = AssertionError \<or> e = ValueError \<and> (\<exists>s. line = Text s \<and> shlex_split s = Inl e)
   | Inr ns \<Rightarrow> pipeline_ok ns"
proof -
  have "parse_inv parse_start" by (simp add: parse_inv_def parse_start_def open_pipeline_def current_ok_def)
  note keep = parse_tokens_keep [OF this]
  have words: "case parse_words ws of Inl e \<Rightarrow> e = AssertionError | Inr ns \<Rightarrow> pipeline_ok ns" for ws
  proof (cases "fold_e parse_token parse_start ws")
    case (Inl e)
    then show ?thesis using keep [of ws] by (simp add: parse_words_def)
  next
    case (Inr st)
    then have "parse_inv st" using keep [of ws] by simp
    then show ?thesis using Inr commit_ok [of st]
      by (cases "commit_command st") (auto simp: parse_words_def commit_command_def split: option.splits)
  qed
  show ?thesis
  proof (cases line)
    case (Words ws)
    then show ?thesis using words [of ws] by (auto simp: parse_def split: sum.splits)
  next
    case (Text s)
    show ?thesis
    proof (cases "shlex_split s")
      case (Inl e)
      then show ?thesis using Text shlex_loop_error by (auto simp: parse_def shlex_split_def)
    next
      case (Inr ws)
      then show ?thesis using Text words [of ws] by (auto simp: parse_def split: sum.splits)
    qed
  qed
qed

section \<open>Writing a pipeline\<close>

definition env_word :: "string \<times> string \<Rightarrow> string" where
  "env_word = (\<lambda>(k, v). k @ CHR ''='' # v)"

definition command_words :: "command \<Rightarrow> string list" where
  "command_words c =
     (case env_vars c of None \<Rightarrow> [] | Some env \<Rightarrow> map env_word env) @ argv c @
     (case cmd_stdin c of None \<Rightarrow> [] | Some f \<Rightarrow> [''<'', f]) @
     (case cmd_stdout c of Some (ToFile f) \<Rightarrow> [''>'', f] | _ \<Rightarrow> []) @
     (case cmd_stderr c of Some (ToFile f) \<Rightarrow> [''2>'', f] | Some ToStdout \<Rightarrow> [''2>&1''] | _ \<Rightarrow> [])"

fun node_words :: "shell_node \<Rightarrow> string list" where
  "node_words (Cmd c) = command_words c"
| "node_words (Chdir d) = ''cd'' # (case d of None \<Rightarrow> [] | Some d \<Rightarrow> [d])"
| "node_words Pipe = [''|'']"
| "node_words And = [''&&'']"
| "node_words Or = [''||'']"

definition pipeline_words :: "shell_node list \<Rightarrow> string list" where
  "pipeline_words ns = concat (map node_words ns)"

text \<open>What a node may hold to be written as words: an argument that reads like an operator cannot.\<close>

definition operator_words :: "string list" where
  "operator_words = [''>'', ''2>'', ''2>&1'', ''<'', ''|'', ''&&'', ''||'']"

definition assignment_ok :: "string \<times> string \<Rightarrow> bool" where
  "assignment_ok = (\<lambda>(k, v). k \<noteq> [] \<and> list_all env_char k \<and> v \<noteq> [] \<and> list_all (\<lambda>d. \<not> re_space d) v)"

definition writable_command :: "command \<Rightarrow> bool" where
  "writable_command c \<longleftrightarrow>
     (case env_vars c of None \<Rightarrow> True | Some env \<Rightarrow> distinct (map fst env) \<and> list_all assignment_ok env) \<and>
     hd (argv c) = cmd_name c \<and> env_var_match (cmd_name c) = None \<and> cmd_name c \<noteq> ''cd'' \<and> list_all (\<lambda>w. w \<notin> set operator_words) (tl (argv c))"

fun writable :: "shell_node \<Rightarrow> bool" where
  "writable (Cmd c) \<longleftrightarrow> writable_command c"
| "writable (Chdir d) \<longleftrightarrow> d \<noteq> Some ''&&''"
| "writable _ \<longleftrightarrow> True"

lemma env_var_match_word:
  assumes "assignment_ok (k, v)"
  shows "env_var_match (env_word (k, v)) = Some (k, v)"
proof -
  have k: "k \<noteq> []" "list_all env_char k" and v: "v \<noteq> []" "list_all (\<lambda>d. \<not> re_space d) v"
    using assms by (simp_all add: assignment_ok_def)
  have eq: "\<not> env_char (CHR ''='')" by (simp add: env_char_def re_word_def)
  have "takeWhile env_char (k @ CHR ''='' # v) = k" "dropWhile env_char (k @ CHR ''='' # v) = CHR ''='' # v"
    using k(2) eq by (simp_all add: takeWhile_append2 dropWhile_append2 list_all_iff)
  moreover have "last v \<noteq> nl" using v last_in_set [of v] by (auto simp: list_all_iff re_space_def is_space_def nl_def)
  ultimately show ?thesis using k v by (simp add: env_var_match_def env_word_def drop_last_nl_def)
qed

lemma dict_put_new: "k \<notin> fst ` set d \<Longrightarrow> dict_put k v d = d @ [(k, v)]"
  by (induction d) auto

lemma parse_env:
  "mode st = BEGIN \<Longrightarrow> list_all assignment_ok env \<Longrightarrow> distinct (map fst (seen_env st @ env)) \<Longrightarrow>
     fold_e parse_token st (map env_word env) = Inr (st\<lparr>seen_env := seen_env st @ env\<rparr>)"
proof (induction env arbitrary: st)
  case (Cons e env)
  obtain k v where e: "e = (k, v)" by (cases e)
  have "parse_token st (env_word e) = Inr (st\<lparr>seen_env := seen_env st @ [e]\<rparr>)"
    using Cons.prems e env_var_match_word [of k v]
    by (simp add: parse_token_def begin_token_def dict_put_new)
  then show ?case using Cons.IH [of "st\<lparr>seen_env := seen_env st @ [e]\<rparr>"] Cons.prems by simp
qed simp

lemma parse_args:
  "mode st = COMMAND \<Longrightarrow> current st = Some (Cmd c) \<Longrightarrow> list_all (\<lambda>w. w \<notin> set operator_words) ws \<Longrightarrow>
     fold_e parse_token st ws = Inr (st\<lparr>current := Some (Cmd (c\<lparr>argv := argv c @ ws\<rparr>))\<rparr>)"
proof (induction ws arbitrary: st c)
  case (Cons w ws)
  have "parse_token st w = Inr (st\<lparr>current := Some (Cmd (c\<lparr>argv := argv c @ [w]\<rparr>))\<rparr>)"
    using Cons.prems by (simp add: parse_token_def command_token_def operator_words_def the_cmd_def set_cmd_def)
  then show ?case
    using Cons.IH [of "st\<lparr>current := Some (Cmd (c\<lparr>argv := argv c @ [w]\<rparr>))\<rparr>" "c\<lparr>argv := argv c @ [w]\<rparr>"] Cons.prems by simp
qed simp

lemma parse_redirects:
  assumes "mode st = COMMAND" and "current st = Some (Cmd c)"
  shows "cmd_stdin c = None \<Longrightarrow> fold_e parse_token st [''<'', f] = Inr (st\<lparr>current := Some (Cmd (c\<lparr>cmd_stdin := Some f\<rparr>))\<rparr>)"
    and "cmd_stdout c = None \<Longrightarrow> fold_e parse_token st [''>'', f] = Inr (st\<lparr>current := Some (Cmd (c\<lparr>cmd_stdout := Some (ToFile f)\<rparr>))\<rparr>)"
    and "cmd_stderr c = None \<Longrightarrow> fold_e parse_token st [''2>'', f] = Inr (st\<lparr>current := Some (Cmd (c\<lparr>cmd_stderr := Some (ToFile f)\<rparr>))\<rparr>)"
    and "cmd_stderr c = None \<Longrightarrow> fold_e parse_token st [''2>&1''] = Inr (st\<lparr>current := Some (Cmd (c\<lparr>cmd_stderr := Some ToStdout\<rparr>))\<rparr>)"
  using assms by (simp_all add: parse_token_def command_token_def file_token_def the_cmd_def set_cmd_def)

text \<open>The command as it stands before the operator behind it is read.\<close>

definition before_operator :: "command \<Rightarrow> command" where
  "before_operator c = (if cmd_stdout c = Some ToPipe then c\<lparr>cmd_stdout := None\<rparr> else c)"

lemma fold_e_then: "fold_e f s xs = Inr t \<Longrightarrow> fold_e f s (xs @ ys) = fold_e f t ys"
  by (simp add: fold_e_append)

lemma parse_command_words:
  assumes "command_ok c" and "writable_command c"
    and "mode st = BEGIN" and "current st = None" and "seen_env st = []"
  shows "fold_e parse_token st (command_words c) =
    Inr (st\<lparr>mode := COMMAND, current := Some (Cmd (before_operator c))\<rparr>)"
proof -
  obtain args where args: "argv c = cmd_name c # args" using assms(1,2) by (cases "argv c") (auto simp: command_ok_def writable_command_def)
  let ?c0 = "\<lparr>cmd_name = cmd_name c, argv = [cmd_name c], cmd_stdin = None, cmd_stdout = None, cmd_stderr = None, env_vars = env_vars c\<rparr>"
  have "fold_e parse_token st (case env_vars c of None \<Rightarrow> [] | Some env \<Rightarrow> map env_word env) =
      Inr (st\<lparr>seen_env := (case env_vars c of None \<Rightarrow> [] | Some env \<Rightarrow> env)\<rparr>)"
    using assms(2-5) parse_env [of st] by (auto simp: writable_command_def split: option.splits)
  moreover have "parse_token (st\<lparr>seen_env := (case env_vars c of None \<Rightarrow> [] | Some env \<Rightarrow> env)\<rparr>) (cmd_name c) =
      Inr (st\<lparr>mode := COMMAND, current := Some (Cmd ?c0)\<rparr>)"
    using assms by (auto simp: parse_token_def begin_token_def writable_command_def command_ok_def new_command_def split: option.splits)
  moreover have "fold_e parse_token (st\<lparr>mode := COMMAND, current := Some (Cmd ?c0)\<rparr>) args =
      Inr (st\<lparr>mode := COMMAND, current := Some (Cmd (?c0\<lparr>argv := argv c\<rparr>))\<rparr>)"
    using parse_args [of "st\<lparr>mode := COMMAND, current := Some (Cmd ?c0)\<rparr>" ?c0 args] assms(2) args
    by (simp add: writable_command_def)
  ultimately have start: "fold_e parse_token st ((case env_vars c of None \<Rightarrow> [] | Some env \<Rightarrow> map env_word env) @ argv c) =
      Inr (st\<lparr>mode := COMMAND, current := Some (Cmd (?c0\<lparr>argv := argv c\<rparr>))\<rparr>)"
    by (simp add: fold_e_append args)
  let ?st = "\<lambda>c'. st\<lparr>mode := COMMAND, current := Some (Cmd c')\<rparr>"
  let ?c1 = "?c0\<lparr>argv := argv c\<rparr>"
  let ?c2 = "?c1\<lparr>cmd_stdin := cmd_stdin c\<rparr>"
  define out where "out = (if cmd_stdout c = Some ToPipe then None else cmd_stdout c)"
  let ?c3 = "?c2\<lparr>cmd_stdout := out\<rparr>"
  have "fold_e parse_token (?st ?c1) (case cmd_stdin c of None \<Rightarrow> [] | Some f \<Rightarrow> [''<'', f]) = Inr (?st ?c2)"
    using parse_redirects(1) [of "?st ?c1" ?c1] by (simp split: option.splits)
  moreover have "fold_e parse_token (?st ?c2) (case cmd_stdout c of Some (ToFile f) \<Rightarrow> [''>'', f] | _ \<Rightarrow> []) = Inr (?st ?c3)"
    using parse_redirects(2) [of "?st ?c2" ?c2] assms(1)
    by (simp add: out_def command_ok_def split: option.splits redirect.splits)
  moreover have "fold_e parse_token (?st ?c3)
      (case cmd_stderr c of Some (ToFile f) \<Rightarrow> [''2>'', f] | Some ToStdout \<Rightarrow> [''2>&1''] | _ \<Rightarrow> []) = Inr (?st (before_operator c))"
  proof -
    have b: "before_operator c = ?c3\<lparr>cmd_stderr := cmd_stderr c\<rparr>" by (simp add: before_operator_def out_def)
    show ?thesis unfolding b
      using parse_redirects(3,4) [of "?st ?c3" ?c3] assms(1)
      by (simp add: command_ok_def split: option.splits redirect.splits)
  qed
  ultimately have "fold_e parse_token st
      (((case env_vars c of None \<Rightarrow> [] | Some env \<Rightarrow> map env_word env) @ argv c) @
       (case cmd_stdin c of None \<Rightarrow> [] | Some f \<Rightarrow> [''<'', f]) @
       (case cmd_stdout c of Some (ToFile f) \<Rightarrow> [''>'', f] | _ \<Rightarrow> []) @
       (case cmd_stderr c of Some (ToFile f) \<Rightarrow> [''2>'', f] | Some ToStdout \<Rightarrow> [''2>&1''] | _ \<Rightarrow> [])) =
      Inr (?st (before_operator c))"
    by (simp only: fold_e_then [OF start] fold_e_then)
  then show ?thesis by (simp only: command_words_def append_assoc)
qed

lemma parse_operator:
  assumes "command_ok c" and "writable_command c"
    and "mode st = BEGIN" and "current st = None" and "seen_env st = []"
  shows "cmd_stdout c = Some ToPipe \<Longrightarrow> fold_e parse_token st (command_words c @ [''|'']) = Inr (st\<lparr>nodes := nodes st @ [Cmd c, Pipe]\<rparr>)"
    and "cmd_stdout c \<noteq> Some ToPipe \<Longrightarrow> fold_e parse_token st (command_words c @ [''&&'']) = Inr (st\<lparr>nodes := nodes st @ [Cmd c, And]\<rparr>)"
    and "cmd_stdout c \<noteq> Some ToPipe \<Longrightarrow> fold_e parse_token st (command_words c @ [''||'']) = Inr (st\<lparr>nodes := nodes st @ [Cmd c, Or]\<rparr>)"
  using assms
  by (simp_all add: fold_e_then [OF parse_command_words [OF assms]] parse_token_def command_token_def the_cmd_def set_cmd_def
      commit_with_def commit_command_def before_operator_def)

lemma parse_chdir:
  assumes "d \<noteq> Some ''&&''" and "mode st = BEGIN" and "current st = None" and "seen_env st = []"
  shows "fold_e parse_token st (node_words (Chdir d)) = Inr (st\<lparr>mode := CHDIR, current := Some (Chdir d)\<rparr>)"
    and "fold_e parse_token st (node_words (Chdir d) @ [''&&'']) = Inr (st\<lparr>nodes := nodes st @ [Chdir d, And]\<rparr>)"
proof -
  have "env_var_match ''cd'' = None" by (simp add: env_var_match_def env_char_def re_word_def)
  then show run: "fold_e parse_token st (node_words (Chdir d)) = Inr (st\<lparr>mode := CHDIR, current := Some (Chdir d)\<rparr>)"
    using assms by (cases d) (simp_all add: parse_token_def begin_token_def chdir_token_def)
  show "fold_e parse_token st (node_words (Chdir d) @ [''&&'']) = Inr (st\<lparr>nodes := nodes st @ [Chdir d, And]\<rparr>)"
    unfolding fold_e_then [OF run] using assms by (simp add: parse_token_def chdir_token_def commit_with_def commit_command_def)
qed

lemma pipeline_not_Nil: "pipeline_ok ns \<Longrightarrow> ns \<noteq> []"
  by auto

lemma parse_pipeline:
  "pipeline_ok ns \<Longrightarrow> list_all writable ns \<Longrightarrow> mode st = BEGIN \<Longrightarrow> current st = None \<Longrightarrow> seen_env st = [] \<Longrightarrow>
     \<exists>st1 st2. fold_e parse_token st (pipeline_words ns) = Inr st1 \<and> commit_command st1 = Inr st2 \<and> nodes st2 = nodes st @ ns \<and>
       ((\<exists>c. last ns = Cmd c) \<longrightarrow> mode st1 = COMMAND)"
proof (induction ns arbitrary: st rule: pipeline_ok.induct)
  case (1 c)
  then show ?case
    using parse_command_words [of c st] by (simp add: pipeline_words_def commit_command_def before_operator_def)
next
  case (2 d)
  then show ?case using parse_chdir(1) [of d st] by (simp add: pipeline_words_def commit_command_def del: node_words.simps)
next
  case (3 c ns)
  have "fold_e parse_token st (command_words c @ [''|'']) = Inr (st\<lparr>nodes := nodes st @ [Cmd c, Pipe]\<rparr>)"
    by (rule parse_operator(1)) (use 3 in simp_all)
  from fold_e_then [OF this] show ?case
    using 3 "3.IH" [of "st\<lparr>nodes := nodes st @ [Cmd c, Pipe]\<rparr>"] by (simp add: pipeline_words_def pipeline_not_Nil del: fold_e.simps)
next
  case (4 c ns)
  have "fold_e parse_token st (command_words c @ [''&&'']) = Inr (st\<lparr>nodes := nodes st @ [Cmd c, And]\<rparr>)"
    by (rule parse_operator(2)) (use 4 in simp_all)
  from fold_e_then [OF this] show ?case
    using 4 "4.IH" [of "st\<lparr>nodes := nodes st @ [Cmd c, And]\<rparr>"] by (simp add: pipeline_words_def pipeline_not_Nil del: fold_e.simps)
next
  case (5 c ns)
  have "fold_e parse_token st (command_words c @ [''||'']) = Inr (st\<lparr>nodes := nodes st @ [Cmd c, Or]\<rparr>)"
    by (rule parse_operator(3)) (use 5 in simp_all)
  from fold_e_then [OF this] show ?case
    using 5 "5.IH" [of "st\<lparr>nodes := nodes st @ [Cmd c, Or]\<rparr>"] by (simp add: pipeline_words_def pipeline_not_Nil del: fold_e.simps)
next
  case (6 d ns)
  have "fold_e parse_token st (node_words (Chdir d) @ [''&&'']) = Inr (st\<lparr>nodes := nodes st @ [Chdir d, And]\<rparr>)"
    by (rule parse_chdir(2)) (use 6 in simp_all)
  from fold_e_then [OF this] show ?case
    using 6 "6.IH" [of "st\<lparr>nodes := nodes st @ [Chdir d, And]\<rparr>"] by (simp add: pipeline_words_def pipeline_not_Nil del: fold_e.simps)
qed simp_all

text \<open>C12: A pipeline of the shape \<open>parse\<close> returns, in which no name reads like an assignment or \<open>cd\<close> and no
  argument like an operator, is what \<open>parse\<close> reads back from its words, and from the text of its words in double quotes.
\<close>

theorem command_line_roundtrip:
  assumes "pipeline_ok ns" and "list_all writable ns"
  shows "parse (Words (pipeline_words ns)) = Inr ns \<and>
    (list_all (\<lambda>w. CHR 0x22 \<notin> set w \<and> backslash \<notin> set w) (pipeline_words ns) \<longrightarrow>
      parse (Text (shell_text (pipeline_words ns))) = Inr ns)"
  using parse_pipeline [OF assms, of parse_start]
  by (auto simp: parse_start_def parse_def parse_words_def shlex_shell_text)

definition sample_command :: command where
  "sample_command = (new_command ''./foo'')\<lparr>argv := [''./foo'', ''-v'', ''a b''], cmd_stdin := Some ''xxx'', cmd_stdout := Some ToPipe,
     cmd_stderr := Some ToStdout, env_vars := Some [(''N'', ''1''), (''M'', ''x='')]\<rparr>"

definition sample_nodes :: "shell_node list" where
  "sample_nodes = [Cmd sample_command, Pipe, Cmd (new_command ''cat''), And, Chdir (Some ''build''), And,
     Cmd ((new_command ''ls'')\<lparr>cmd_stdout := Some (ToFile ''out'')\<rparr>)]"

lemma sample_nodes_ok: "pipeline_ok sample_nodes" "list_all writable sample_nodes"
  "list_all (\<lambda>w. CHR 0x22 \<notin> set w \<and> backslash \<notin> set w) (pipeline_words sample_nodes)"
  by code_simp+

theorem command_line_roundtrip_witness:
  "parse (Text (shell_text (pipeline_words sample_nodes))) = Inr sample_nodes"
  using command_line_roundtrip [OF sample_nodes_ok(1,2)] sample_nodes_ok(3) by blast

text \<open>A redirection without a file at the end of a command line is dropped, and an operator at its begin is a command.\<close>

theorem dangling_redirect:
  assumes "pipeline_ok ns" and "list_all writable ns" and "last ns = Cmd c" and "r \<in> {''>'', ''2>'', ''<''}"
  shows "parse (Words (pipeline_words ns @ [r])) = Inr ns"
proof -
  obtain st1 st2 where run: "fold_e parse_token parse_start (pipeline_words ns) = Inr st1" "commit_command st1 = Inr st2"
    "nodes st2 = ns" "mode st1 = COMMAND"
    using parse_pipeline [OF assms(1,2), of parse_start] assms(3) by (auto simp: parse_start_def)
  obtain m where "parse_token st1 r = Inr (st1\<lparr>mode := m\<rparr>)"
    using assms(4) run(4) by (auto simp: parse_token_def command_token_def)
  moreover have "\<exists>st. commit_command (st1\<lparr>mode := m\<rparr>) = Inr st \<and> nodes st = ns"
    using run(2,3) by (auto simp: commit_command_def split: option.splits)
  ultimately show ?thesis using fold_e_then [OF run(1), of "[r]"] by (auto simp: parse_def parse_words_def)
qed

theorem dangling_redirect_witness: "parse (Words (pipeline_words sample_nodes @ [''2>''])) = Inr sample_nodes"
  by (rule dangling_redirect [OF sample_nodes_ok(1,2)]) (simp_all add: sample_nodes_def)

theorem leading_operator: "parse (Words [''&&'', ''ls'']) = Inr [Cmd ((new_command ''&&'')\<lparr>argv := [''&&'', ''ls'']\<rparr>)]"
  by code_simp

text \<open>The abbreviation of a command line names no \<open>||\<close>.\<close>

theorem abbreviation_without_or:
  "get_abbreviated_command (ns @ Or # ns') = get_abbreviated_command (ns @ ns')"
  by (simp add: get_abbreviated_command_def abbreviation_of_def)

end
