(* ===== verification/ShellRun.thy ===== *)
theory ShellRun
  imports ShellCmd
begin

text \<open>
  \<open>waf-tools/shellcmd.py\<close>, running a pipeline. What \<open>Pipeline.run\<close> does to the system is a list of actions; what the
  system answers (which files can be opened, which programs can be started, which code a process ends with) is a
  parameter that may depend on everything done before.
\<close>

section \<open>Actions\<close>

datatype stream = Inherit | ReadFile string | WriteFile string | DevNull | NewPipe | PipeOf nat | WithStdout

record popen =
  p_argv :: "string list"
  p_stdin :: stream
  p_stdout :: stream
  p_stderr :: stream
  p_env :: "(string \<times> string) list option"
  p_cwd :: "string option"

datatype action = Open stream | Start popen | Wait nat | Close stream | Print string

record system =
  sys_fails :: "action list \<Rightarrow> action \<Rightarrow> pyerr option"
  sys_code :: "action list \<Rightarrow> nat \<Rightarrow> int"
  environ :: "(string \<times> string) list"

text \<open>A computation takes the actions done before and returns its result and the actions done after it.\<close>

type_synonym 'a io = "action list \<Rightarrow> 'a py \<times> action list"

definition return_io :: "'a \<Rightarrow> 'a io" where
  "return_io x = (\<lambda>tr. (Inr x, tr))"

definition raise_io :: "pyerr \<Rightarrow> 'a io" where
  "raise_io e = (\<lambda>tr. (Inl e, tr))"

definition bind_io :: "'a io \<Rightarrow> ('a \<Rightarrow> 'b io) \<Rightarrow> 'b io" where
  "bind_io m f = (\<lambda>tr. case m tr of (Inl e, tr) \<Rightarrow> (Inl e, tr) | (Inr x, tr) \<Rightarrow> f x tr)"

definition act :: "system \<Rightarrow> action \<Rightarrow> unit io" where
  "act sys a = (\<lambda>tr. case sys_fails sys tr a of Some e \<Rightarrow> (Inl e, tr) | None \<Rightarrow> (Inr (), tr @ [a]))"

definition note_io :: "action list \<Rightarrow> unit io" where
  "note_io as = (\<lambda>tr. (Inr (), tr @ as))"

fun wait_all :: "system \<Rightarrow> nat list \<Rightarrow> int list io" where
  "wait_all sys [] = return_io []"
| "wait_all sys (n # ns) =
     bind_io (\<lambda>tr. (Inr (sys_code sys tr n), tr @ [Wait n])) (\<lambda>r.
     bind_io (wait_all sys ns) (\<lambda>rs. return_io (r # rs)))"

definition exec_piped_commands :: "system \<Rightarrow> nat list \<Rightarrow> int io" where
  "exec_piped_commands sys procs =
     bind_io (wait_all sys procs) (\<lambda>retvals.
       return_io (if list_ex (\<lambda>r. r \<noteq> 0) retvals then last retvals else 0))"

definition close_files :: "stream list \<Rightarrow> unit io" where
  "close_files fs = note_io (map Close (filter (\<lambda>f. f \<noteq> DevNull) fs))"

section \<open>One command\<close>

text \<open>The processes of the pipeline being started have a number, and a flag that their output is a pipe.\<close>

record run_state =
  piping :: bool
  cwd :: string
  piped :: "(nat \<times> bool) list"
  to_close :: "stream list"
  display :: "string list"
  started :: nat

definition run_start :: run_state where
  "run_start = \<lparr>piping = False, cwd = ''.'', piped = [], to_close = [], display = [], started = 0\<rparr>"

definition show_word :: "bool \<Rightarrow> string \<Rightarrow> run_state \<Rightarrow> run_state" where
  "show_word verbose w st = (if verbose then st\<lparr>display := display st @ [w]\<rparr> else st)"

definition open_out_file :: "system \<Rightarrow> string \<Rightarrow> stream io" where
  "open_out_file sys filename =
     (if filename \<in> {''NUL:'', ''/dev/null''} then return_io DevNull
      else bind_io (act sys (Open (WriteFile filename))) (\<lambda>_. return_io (WriteFile filename)))"

definition command_display :: "command \<Rightarrow> string" where
  "command_display c =
     (case env_vars c of
        Some (e # env) \<Rightarrow> join_with '' '' (map env_word (e # env)) @ '' '' @ join_with '' '' (argv c)
      | _ \<Rightarrow> join_with '' '' (argv c))"

definition open_stdin :: "system \<Rightarrow> bool \<Rightarrow> command \<Rightarrow> run_state \<Rightarrow> (stream \<times> run_state) io" where
  "open_stdin sys verbose c st =
     (if piping st
      then if piped st = [] then raise_io IndexError
           else return_io (if snd (last (piped st)) then PipeOf (fst (last (piped st))) else Inherit, st)
      else case cmd_stdin c of
             None \<Rightarrow> return_io (Inherit, st)
           | Some f \<Rightarrow>
               bind_io (act sys (Open (ReadFile f))) (\<lambda>_.
                 return_io (ReadFile f, (show_word verbose (''< '' @ f) st)\<lparr>to_close := to_close st @ [ReadFile f]\<rparr>)))"

definition open_stdout :: "system \<Rightarrow> bool \<Rightarrow> command \<Rightarrow> run_state \<Rightarrow> (stream \<times> run_state) io" where
  "open_stdout sys verbose c st =
     (case cmd_stdout c of
        None \<Rightarrow> return_io (Inherit, st)
      | Some ToPipe \<Rightarrow> return_io (NewPipe, st)
      | Some ToStdout \<Rightarrow> raise_io TypeError
      | Some (ToFile f) \<Rightarrow>
          bind_io (open_out_file sys f) (\<lambda>s.
            return_io (s, (show_word verbose (''> '' @ f) st)\<lparr>to_close := to_close st @ [s]\<rparr>)))"

definition open_stderr :: "system \<Rightarrow> bool \<Rightarrow> command \<Rightarrow> run_state \<Rightarrow> (stream \<times> run_state) io" where
  "open_stderr sys verbose c st =
     (case cmd_stderr c of
        None \<Rightarrow> return_io (Inherit, st)
      | Some ToPipe \<Rightarrow> return_io (NewPipe, st)
      | Some ToStdout \<Rightarrow> return_io (WithStdout, show_word verbose ''2>&1'' st)
      | Some (ToFile f) \<Rightarrow>
          bind_io (open_out_file sys f) (\<lambda>s.
            return_io (s, (show_word verbose (''2> '' @ f) st)\<lparr>to_close := to_close st @ [s]\<rparr>)))"

definition command_env :: "system \<Rightarrow> command \<Rightarrow> (string \<times> string) list option" where
  "command_env sys c =
     (case env_vars c of
        Some (e # env) \<Rightarrow> Some (foldl (\<lambda>d (k, v). dict_put k v d) (environ sys) (e # env))
      | _ \<Rightarrow> None)"

definition start_command :: "system \<Rightarrow> bool \<Rightarrow> command \<Rightarrow> run_state \<Rightarrow> run_state io" where
  "start_command sys verbose c st =
     bind_io (open_stdin sys verbose c (show_word verbose (command_display c) st)) (\<lambda>(stdin, st).
     bind_io (open_stdout sys verbose c st) (\<lambda>(stdout, st).
     bind_io (open_stderr sys verbose c st) (\<lambda>(stderr, st).
     bind_io (act sys (Start \<lparr>p_argv = argv c, p_stdin = stdin, p_stdout = stdout, p_stderr = stderr,
                               p_env = command_env sys c, p_cwd = (if cwd st = ''.'' then None else Some (cwd st))\<rparr>)) (\<lambda>_.
       return_io (st\<lparr>piped := piped st @ [(started st, stdout = NewPipe)], started := started st + 1\<rparr>)))))"

section \<open>The loop\<close>

text \<open>The end of the commands of a pipeline: they are awaited and their files closed.\<close>

definition finish_pipeline :: "system \<Rightarrow> run_state \<Rightarrow> int io" where
  "finish_pipeline sys st =
     bind_io (exec_piped_commands sys (map fst (piped st))) (\<lambda>r.
     bind_io (close_files (to_close st)) (\<lambda>_. return_io r))"

definition next_pipeline :: "run_state \<Rightarrow> run_state" where
  "next_pipeline st = st\<lparr>piping := False, piped := [], to_close := [], display := []\<rparr>"

text \<open>The last pipeline prints its code. The others print \<open>retval\<close>, which is not assigned before the last one has ended.\<close>

definition last_pipeline :: "system \<Rightarrow> bool \<Rightarrow> run_state \<Rightarrow> int option io" where
  "last_pipeline sys verbose st =
     bind_io (exec_piped_commands sys (map fst (piped st))) (\<lambda>r.
     bind_io (note_io (if verbose then [Print (join_with '' '' (display st) @ '': exit code '' @ str_of_int r)] else [])) (\<lambda>_.
     bind_io (close_files (to_close st)) (\<lambda>_. return_io (Some r))))"

fun run_loop :: "system \<Rightarrow> bool \<Rightarrow> run_state \<Rightarrow> shell_node list \<Rightarrow> int option io" where
  "run_loop sys verbose st [] = return_io None"
| "run_loop sys verbose st [Chdir d] = raise_io IndexError"
| "run_loop sys verbose st (Chdir d # n # ns) =
     (if n \<noteq> And then raise_io AssertionError
      else case d of
             None \<Rightarrow> raise_io TypeError
           | Some d \<Rightarrow>
               run_loop sys verbose (show_word verbose (''cd '' @ d @ '' &&'') (st\<lparr>cwd := path_join (cwd st) d\<rparr>)) ns)"
| "run_loop sys verbose st [Cmd c] =
     bind_io (start_command sys verbose c st) (\<lambda>st. last_pipeline sys verbose st)"
| "run_loop sys verbose st (Cmd c # n # ns) =
     bind_io (start_command sys verbose c st) (\<lambda>st.
       if n = Pipe then run_loop sys verbose (st\<lparr>piping := True, display := display st @ [''|'']\<rparr>) ns
       else if n = Or then
         bind_io (finish_pipeline sys st) (\<lambda>r.
           if verbose then raise_io UnboundLocalError
           else if r = 0 then return_io (Some r) else run_loop sys verbose (next_pipeline st) ns)
       else if n = And then
         bind_io (finish_pipeline sys st) (\<lambda>r.
           if verbose then raise_io UnboundLocalError
           else if r \<noteq> 0 then return_io (Some r) else run_loop sys verbose (next_pipeline st) ns)
       else run_loop sys verbose st ns)"
| "run_loop sys verbose st (n # ns) = raise_io AssertionError"

definition pipeline_run :: "system \<Rightarrow> bool \<Rightarrow> shell_node list \<Rightarrow> int option io" where
  "pipeline_run sys verbose ns = run_loop sys verbose run_start ns"

section \<open>The monad\<close>

lemma bind_io_simps [simp]:
  "bind_io (return_io x) f = f x" "bind_io (raise_io e) f = raise_io e" "bind_io (\<lambda>tr. (Inr (g tr), h tr)) f = (\<lambda>tr. f (g tr) (h tr))"
  by (simp_all add: bind_io_def return_io_def raise_io_def)

lemma bind_io_assoc: "bind_io (bind_io m f) g = bind_io m (\<lambda>x. bind_io (f x) g)"
  by (rule ext) (simp add: bind_io_def split: prod.splits sum.splits)

lemma bind_io_cong:
  assumes "\<And>tr x tr'. m tr = (Inr x, tr') \<Longrightarrow> f x tr' = g x tr'"
  shows "bind_io m f = bind_io m g"
proof (rule ext)
  fix tr
  show "bind_io m f tr = bind_io m g tr"
    using assms [of tr] by (cases "m tr"; cases "fst (m tr)") (simp_all add: bind_io_def)
qed

lemma bind_io_Inr: "bind_io m f tr = (Inr y, tr') \<longleftrightarrow> (\<exists>x tr1. m tr = (Inr x, tr1) \<and> f x tr1 = (Inr y, tr'))"
  by (cases "m tr"; cases "fst (m tr)") (auto simp: bind_io_def)

text \<open>The return code of a pipeline is that of its last command.\<close>

lemma wait_all_length: "wait_all sys procs tr = (Inr rs, tr') \<Longrightarrow> length rs = length procs"
proof (induction procs arbitrary: tr rs)
  case Nil
  then show ?case by (simp add: return_io_def)
next
  case (Cons n procs)
  then show ?case by (auto simp: bind_io_Inr return_io_def)
qed

lemma exec_last:
  assumes "procs \<noteq> []"
  shows "exec_piped_commands sys procs = bind_io (wait_all sys procs) (\<lambda>rs. return_io (last rs))"
  unfolding exec_piped_commands_def
proof (rule bind_io_cong)
  fix tr rs tr'
  assume "wait_all sys procs tr = (Inr rs, tr')"
  then have "rs \<noteq> []" using wait_all_length assms by fastforce
  then have "(if list_ex (\<lambda>r. r \<noteq> 0) rs then last rs else 0) = last rs"
    using last_in_set [of rs] by (auto simp: list_ex_iff)
  then show "return_io (if list_ex (\<lambda>r. r \<noteq> 0) rs then last rs else 0) tr' = return_io (last rs) tr'" by simp
qed

section \<open>Chains of pipelines\<close>

text \<open>
  A pipeline is a list of commands, each with the directory it is started in; a command line is a chain of pipelines
  with the operators \<open>&&\<close> and \<open>||\<close> between them.
\<close>

type_synonym stage = "command \<times> string"

fun first_pipeline :: "string \<Rightarrow> shell_node list \<Rightarrow> stage list" where
  "first_pipeline d (Cmd c # Pipe # ns) = (c, d) # first_pipeline d ns"
| "first_pipeline d (Cmd c # ns) = [(c, d)]"
| "first_pipeline d (Chdir (Some x) # And # ns) = first_pipeline (path_join d x) ns"
| "first_pipeline d _ = []"

fun further_pipelines :: "string \<Rightarrow> shell_node list \<Rightarrow> (shell_node \<times> stage list) list" where
  "further_pipelines d (Cmd c # Pipe # ns) = further_pipelines d ns"
| "further_pipelines d (Cmd c # n # ns) = (n, first_pipeline d ns) # further_pipelines d ns"
| "further_pipelines d (Chdir (Some x) # And # ns) = further_pipelines (path_join d x) ns"
| "further_pipelines d _ = []"

text \<open>One pipeline: its commands are started in order, then all are awaited and the files closed.\<close>

fun start_stages :: "system \<Rightarrow> stage list \<Rightarrow> run_state \<Rightarrow> run_state io" where
  "start_stages sys [] st = return_io st"
| "start_stages sys ((c, d) # p) st =
     bind_io (start_command sys False c (st\<lparr>cwd := d\<rparr>)) (\<lambda>st. start_stages sys p (st\<lparr>piping := True, display := display st @ [''|'']\<rparr>))"

definition run_pipeline :: "system \<Rightarrow> nat \<Rightarrow> stage list \<Rightarrow> (int \<times> nat) io" where
  "run_pipeline sys n p =
     bind_io (start_stages sys p (run_start\<lparr>started := n\<rparr>)) (\<lambda>st.
     bind_io (wait_all sys (map fst (piped st))) (\<lambda>rs.
     bind_io (close_files (to_close st)) (\<lambda>_. return_io (last rs, started st))))"

text \<open>The chain as \<open>run\<close> reads it: the first pipeline that stops an operator ends the run.\<close>

fun run_chain :: "system \<Rightarrow> nat \<Rightarrow> stage list \<Rightarrow> (shell_node \<times> stage list) list \<Rightarrow> int option io" where
  "run_chain sys n p [] = bind_io (run_pipeline sys n p) (\<lambda>(r, n). return_io (Some r))"
| "run_chain sys n p ((operator, q) # rest) =
     bind_io (run_pipeline sys n p) (\<lambda>(r, n).
       if (r = 0) = (operator = And) then run_chain sys n q rest else return_io (Some r))"

text \<open>A change of the directory names one and is not the end of the line.\<close>

fun runnable :: "shell_node list \<Rightarrow> bool" where
  "runnable [] \<longleftrightarrow> True"
| "runnable (Chdir d # ns) \<longleftrightarrow> d \<noteq> None \<and> ns \<noteq> [] \<and> runnable ns"
| "runnable (n # ns) \<longleftrightarrow> runnable ns"

section \<open>Running is running the chain\<close>

lemma open_stdin_result:
  "open_stdin sys verbose c st tr = (Inr (s, st'), tr') \<Longrightarrow>
     cwd st' = cwd st \<and> piping st' = piping st \<and> piped st' = piped st \<and> started st' = started st"
  by (auto simp: open_stdin_def show_word_def return_io_def raise_io_def bind_io_Inr split: if_splits option.splits)

lemma open_stdout_result:
  "open_stdout sys verbose c st tr = (Inr (s, st'), tr') \<Longrightarrow>
     cwd st' = cwd st \<and> piping st' = piping st \<and> piped st' = piped st \<and> started st' = started st"
  by (auto simp: open_stdout_def show_word_def return_io_def raise_io_def bind_io_Inr split: if_splits option.splits redirect.splits)

lemma open_stderr_result:
  "open_stderr sys verbose c st tr = (Inr (s, st'), tr') \<Longrightarrow>
     cwd st' = cwd st \<and> piping st' = piping st \<and> piped st' = piped st \<and> started st' = started st"
  by (auto simp: open_stderr_def show_word_def return_io_def raise_io_def bind_io_Inr split: if_splits option.splits redirect.splits)

lemma start_command_result:
  assumes "start_command sys verbose c st tr = (Inr st', tr')"
  shows "cwd st' = cwd st" and "piping st' = piping st" and "started st' = Suc (started st)"
    and "map fst (piped st') = map fst (piped st) @ [started st]"
  using assms
  by (auto simp: start_command_def bind_io_Inr return_io_def show_word_def split: prod.splits if_splits
      dest!: open_stdin_result open_stdout_result open_stderr_result)

lemma start_stages_piped:
  "start_stages sys p st tr = (Inr st', tr') \<Longrightarrow> map fst (piped st') = map fst (piped st) @ [started st..<started st + length p] \<and>
     started st' = started st + length p"
proof (induction p arbitrary: st tr)
  case Nil
  then show ?case by (simp add: return_io_def)
next
  case (Cons s p)
  obtain c d where s: "s = (c, d)" by (cases s)
  obtain st1 tr1 where st1: "start_command sys False c (st\<lparr>cwd := d\<rparr>) tr = (Inr st1, tr1)"
    "start_stages sys p (st1\<lparr>piping := True, display := display st1 @ [''|'']\<rparr>) tr1 = (Inr st', tr')"
    using Cons.prems by (auto simp: s bind_io_Inr)
  show ?case
    using Cons.IH [OF st1(2)] start_command_result [OF st1(1)] upt_conv_Cons [of "started st" "started st + Suc (length p)"]
    by (simp del: upt_Suc)
qed

lemma start_stages_cwd: "p \<noteq> [] \<Longrightarrow> start_stages sys p (st\<lparr>cwd := x\<rparr>) = start_stages sys p st"
  by (cases p) auto

lemma run_pipeline_finish:
  assumes "p \<noteq> []"
  shows "run_pipeline sys n p =
    bind_io (start_stages sys p (run_start\<lparr>started := n\<rparr>)) (\<lambda>st. bind_io (finish_pipeline sys st) (\<lambda>r. return_io (r, started st)))"
  unfolding run_pipeline_def
proof (rule bind_io_cong)
  fix tr st tr'
  assume "start_stages sys p (run_start\<lparr>started := n\<rparr>) tr = (Inr st, tr')"
  then have ne: "map fst (piped st) \<noteq> []" using start_stages_piped [of sys p _ tr st tr'] assms by (simp add: run_start_def)
  then show "bind_io (wait_all sys (map fst (piped st))) (\<lambda>rs. bind_io (close_files (to_close st)) (\<lambda>_. return_io (last rs, started st))) tr' =
      bind_io (finish_pipeline sys st) (\<lambda>r. return_io (r, started st)) tr'"
    by (simp add: finish_pipeline_def exec_last [OF ne] bind_io_assoc)
qed

lemma first_not_Nil: "pipeline_ok ns \<Longrightarrow> runnable ns \<Longrightarrow> first_pipeline d ns \<noteq> []"
  by (induction ns arbitrary: d rule: pipeline_ok.induct) auto

definition chain_end :: "system \<Rightarrow> int \<Rightarrow> nat \<Rightarrow> (shell_node \<times> stage list) list \<Rightarrow> int option io" where
  "chain_end sys r n rest =
     (case rest of
        [] \<Rightarrow> return_io (Some r)
      | (operator, q) # rest \<Rightarrow> if (r = 0) = (operator = And) then run_chain sys n q rest else return_io (Some r))"

lemma chain_end_simps:
  "chain_end sys r n [] = return_io (Some r)"
  "chain_end sys r n ((operator, q) # rest) =
     (if (r = 0) = (operator = And) then run_chain sys n q rest else return_io (Some r))"
  by (simp_all add: chain_end_def)

lemma run_chain_end: "run_chain sys n p rest = bind_io (run_pipeline sys n p) (\<lambda>(r, n). chain_end sys r n rest)"
  by (cases rest) (auto simp: chain_end_def)

lemma last_pipeline_quiet: "last_pipeline sys False = (\<lambda>st. bind_io (finish_pipeline sys st) (\<lambda>r. return_io (Some r)))"
  by (rule ext) (simp add: last_pipeline_def finish_pipeline_def note_io_def bind_io_assoc)

lemma run_loop_next:
  assumes "first_pipeline (cwd st) ns \<noteq> []"
    and "run_loop sys False (next_pipeline st) ns =
       bind_io (start_stages sys (first_pipeline (cwd (next_pipeline st)) ns) (next_pipeline st)) (\<lambda>st'.
       bind_io (finish_pipeline sys st') (\<lambda>r. chain_end sys r (started st') (further_pipelines (cwd (next_pipeline st)) ns)))"
  shows "run_loop sys False (next_pipeline st) ns = run_chain sys (started st) (first_pipeline (cwd st) ns) (further_pipelines (cwd st) ns)"
proof -
  have "next_pipeline st = run_start\<lparr>started := started st, cwd := cwd st\<rparr>" by (simp add: next_pipeline_def run_start_def)
  then have "start_stages sys (first_pipeline (cwd st) ns) (next_pipeline st) =
      start_stages sys (first_pipeline (cwd st) ns) (run_start\<lparr>started := started st\<rparr>)"
    using start_stages_cwd [OF assms(1), of sys "cwd st" "run_start\<lparr>started := started st\<rparr>"] by simp
  moreover have "cwd (next_pipeline st) = cwd st" by (simp add: next_pipeline_def)
  ultimately show ?thesis unfolding assms(2) run_chain_end run_pipeline_finish [OF assms(1)]
    by (simp add: bind_io_assoc)
qed

lemma run_loop_chain:
  "pipeline_ok ns \<Longrightarrow> runnable ns \<Longrightarrow>
     run_loop sys False st ns =
       bind_io (start_stages sys (first_pipeline (cwd st) ns) st) (\<lambda>st'.
       bind_io (finish_pipeline sys st') (\<lambda>r. chain_end sys r (started st') (further_pipelines (cwd st) ns)))"
proof (induction ns arbitrary: st rule: pipeline_ok.induct)
  case (1 c)
  then show ?case by (simp add: bind_io_assoc last_pipeline_quiet finish_pipeline_def chain_end_def)
next
  case (3 c ns)
  have "run_loop sys False (st'\<lparr>piping := True, display := display st' @ [''|'']\<rparr>) ns =
       bind_io (start_stages sys (first_pipeline (cwd st) ns) (st'\<lparr>piping := True, display := display st' @ [''|'']\<rparr>)) (\<lambda>st2.
       bind_io (finish_pipeline sys st2) (\<lambda>r. chain_end sys r (started st2) (further_pipelines (cwd st) ns)))"
    if "start_command sys False c st tr = (Inr st', tr')" for tr st' tr'
    using 3 start_command_result(1) [OF that] by simp
  then show ?case by (simp add: bind_io_assoc) (rule bind_io_cong, simp)
next
  case (4 c ns)
  have "run_loop sys False (next_pipeline st') ns =
      run_chain sys (started st') (first_pipeline (cwd st) ns) (further_pipelines (cwd st) ns)"
    if "start_command sys False c st tr = (Inr st', tr')" for tr st' tr'
    using 4 run_loop_next [of st' ns sys] first_not_Nil [of ns] start_command_result(1) [OF that] by simp
  moreover have "(if r \<noteq> (0::int) then a else b) = (if r = 0 then b else a)" for r and a b :: "int option io" by simp
  ultimately show ?case by (simp add: bind_io_assoc chain_end_def finish_pipeline_def cong: if_cong) (rule bind_io_cong, simp cong: if_cong)
next
  case (5 c ns)
  have "run_loop sys False (next_pipeline st') ns =
      run_chain sys (started st') (first_pipeline (cwd st) ns) (further_pipelines (cwd st) ns)"
    if "start_command sys False c st tr = (Inr st', tr')" for tr st' tr'
    using 5 run_loop_next [of st' ns sys] first_not_Nil [of ns] start_command_result(1) [OF that] by simp
  moreover have "(if r \<noteq> (0::int) then a else b) = (if r = 0 then b else a)" for r and a b :: "int option io" by simp
  ultimately show ?case by (simp add: bind_io_assoc chain_end_def finish_pipeline_def cong: if_cong) (rule bind_io_cong, simp cong: if_cong)
next
  case (6 d ns)
  then show ?case using start_stages_cwd [OF first_not_Nil] by (auto simp: show_word_def)
qed simp_all

lemma run_is_chain:
  assumes "pipeline_ok ns" and "runnable ns"
  shows "pipeline_run sys False ns =
    bind_io (run_pipeline sys 0 (first_pipeline ''.'' ns)) (\<lambda>(r, n). chain_end sys r n (further_pipelines ''.'' ns))"
proof -
  have "next_pipeline run_start = run_start" by (simp add: next_pipeline_def run_start_def)
  then have "pipeline_run sys False ns = run_chain sys (started run_start) (first_pipeline (cwd run_start) ns) (further_pipelines (cwd run_start) ns)"
    using run_loop_next [of run_start ns sys] run_loop_chain [OF assms, of sys run_start] first_not_Nil [OF assms]
    by (simp add: pipeline_run_def)
  then show ?thesis by (simp add: run_chain_end run_start_def)
qed

section \<open>A calm system\<close>

definition calm :: "system \<Rightarrow> bool" where
  "calm sys \<longleftrightarrow> (\<forall>tr a. sys_fails sys tr a = None)"

definition opened :: "action list \<Rightarrow> stream list" where
  "opened as = concat (map (\<lambda>a. case a of Open s \<Rightarrow> [s] | _ \<Rightarrow> []) as)"

definition closed_of :: "action list \<Rightarrow> stream list" where
  "closed_of as = concat (map (\<lambda>a. case a of Close s \<Rightarrow> [s] | _ \<Rightarrow> []) as)"

definition launched :: "action list \<Rightarrow> popen list" where
  "launched as = concat (map (\<lambda>a. case a of Start p \<Rightarrow> [p] | _ \<Rightarrow> []) as)"

definition waited :: "action list \<Rightarrow> nat list" where
  "waited as = concat (map (\<lambda>a. case a of Wait n \<Rightarrow> [n] | _ \<Rightarrow> []) as)"

lemmas trace_defs = opened_def closed_of_def launched_def waited_def

lemma trace_append [simp]:
  "opened (as @ bs) = opened as @ opened bs" "closed_of (as @ bs) = closed_of as @ closed_of bs"
  "launched (as @ bs) = launched as @ launched bs" "waited (as @ bs) = waited as @ waited bs"
  by (simp_all add: trace_defs)

lemma trace_one [simp]:
  "opened [] = []" "closed_of [] = []" "launched [] = []" "waited [] = []"
  "opened [Open s] = [s]" "closed_of [Open s] = []" "launched [Open s] = []" "waited [Open s] = []"
  "opened [Start p] = []" "closed_of [Start p] = []" "launched [Start p] = [p]" "waited [Start p] = []"
  "opened [Wait n] = []" "closed_of [Wait n] = []" "launched [Wait n] = []" "waited [Wait n] = [n]"
  by (simp_all add: trace_defs)

lemma trace_closes [simp]:
  "opened (map Close fs) = []" "closed_of (map Close fs) = fs" "launched (map Close fs) = []" "waited (map Close fs) = []"
  by (induction fs) (simp_all add: trace_defs)

abbreviation real_files :: "stream list \<Rightarrow> stream list" where
  "real_files \<equiv> filter (\<lambda>f. f \<noteq> DevNull)"

text \<open>Opening the files of a command and starting it.\<close>

definition opens_files :: "(stream \<times> run_state) io \<Rightarrow> run_state \<Rightarrow> bool" where
  "opens_files m st \<longleftrightarrow>
     (\<forall>tr. \<exists>s st' as. m tr = (Inr (s, st'), tr @ as) \<and> real_files (to_close st') = real_files (to_close st) @ opened as \<and>
        closed_of as = [] \<and> launched as = [] \<and> waited as = [] \<and> piping st' = piping st \<and> piped st' = piped st)"

lemma opens_nothing: "real_files (to_close st') = real_files (to_close st) \<Longrightarrow> piping st' = piping st \<Longrightarrow> piped st' = piped st \<Longrightarrow>
    opens_files (return_io (s, st')) st"
  unfolding opens_files_def return_io_def by force

lemma opens_one:
  assumes "calm sys" and "s \<noteq> DevNull" and "to_close st' = to_close st @ [s]" and "piping st' = piping st" and "piped st' = piped st"
  shows "opens_files (bind_io (act sys (Open s)) (\<lambda>_. return_io (s', st'))) st"
  using assms unfolding opens_files_def act_def calm_def return_io_def by (force simp: bind_io_def)

lemma opens_out_file:
  assumes "calm sys"
  shows "opens_files (bind_io (open_out_file sys f) (\<lambda>s. return_io (s, (show_word v w st)\<lparr>to_close := to_close st @ [s]\<rparr>))) st"
proof (cases "f \<in> {''NUL:'', ''/dev/null''}")
  case True
  then show ?thesis unfolding open_out_file_def by (simp only: if_P [OF True] if_True bind_io_simps)
      (rule opens_nothing, simp_all add: show_word_def)
next
  case False
  show ?thesis unfolding open_out_file_def
    by (simp only: if_not_P [OF False] bind_io_assoc bind_io_simps) (rule opens_one [OF assms], simp_all add: show_word_def)
qed

lemma streams_open:
  assumes "calm sys" and "command_ok c"
  shows "piping st \<longrightarrow> piped st \<noteq> [] \<Longrightarrow> opens_files (open_stdin sys v c st) st"
    and "opens_files (open_stdout sys v c st) st" and "opens_files (open_stderr sys v c st) st"
proof -
  show "opens_files (open_stdout sys v c st) st"
    using assms opens_out_file [OF assms(1)]
    by (auto simp: open_stdout_def command_ok_def split: option.splits redirect.splits intro!: opens_nothing)
  show "opens_files (open_stderr sys v c st) st"
    using assms opens_out_file [OF assms(1)]
    by (auto simp: open_stderr_def command_ok_def show_word_def split: option.splits redirect.splits intro!: opens_nothing)
  show "opens_files (open_stdin sys v c st) st" if "piping st \<longrightarrow> piped st \<noteq> []"
    using that by (auto simp: open_stdin_def show_word_def split: option.splits intro!: opens_nothing opens_one [OF assms(1)])
qed

definition launches :: "run_state io \<Rightarrow> run_state \<Rightarrow> nat \<Rightarrow> bool" where
  "launches m st k \<longleftrightarrow>
     (\<forall>tr. \<exists>st' as. m tr = (Inr st', tr @ as) \<and> real_files (to_close st') = real_files (to_close st) @ opened as \<and>
        closed_of as = [] \<and> length (launched as) = k \<and> waited as = [])"

lemma opensE:
  assumes "opens_files m st"
  obtains s st' as where "m tr = (Inr (s, st'), tr @ as)" "real_files (to_close st') = real_files (to_close st) @ opened as"
    "closed_of as = []" "launched as = []" "waited as = []" "piping st' = piping st" "piped st' = piped st"
  using assms unfolding opens_files_def by blast

lemma start_launches:
  assumes "calm sys" and "command_ok c" and "piping st \<longrightarrow> piped st \<noteq> []"
  shows "launches (start_command sys v c st) st 1"
  unfolding launches_def
proof
  fix tr
  define st0 where "st0 = show_word v (command_display c) st"
  have st0: "to_close st0 = to_close st" "piping st0 \<longrightarrow> piped st0 \<noteq> []" using assms(3) by (auto simp: st0_def show_word_def)
  obtain s1 st1 as1 where 1: "open_stdin sys v c st0 tr = (Inr (s1, st1), tr @ as1)"
    "real_files (to_close st1) = real_files (to_close st0) @ opened as1" "closed_of as1 = []" "launched as1 = []" "waited as1 = []"
    using opensE [OF streams_open(1) [OF assms(1,2) st0(2)], of v tr] by metis
  obtain s2 st2 as2 where 2: "open_stdout sys v c st1 (tr @ as1) = (Inr (s2, st2), (tr @ as1) @ as2)"
    "real_files (to_close st2) = real_files (to_close st1) @ opened as2" "closed_of as2 = []" "launched as2 = []" "waited as2 = []"
    using opensE [OF streams_open(2) [OF assms(1,2)], of v st1 "tr @ as1"] by metis
  obtain s3 st3 as3 where 3: "open_stderr sys v c st2 ((tr @ as1) @ as2) = (Inr (s3, st3), ((tr @ as1) @ as2) @ as3)"
    "real_files (to_close st3) = real_files (to_close st2) @ opened as3" "closed_of as3 = []" "launched as3 = []" "waited as3 = []"
    using opensE [OF streams_open(3) [OF assms(1,2)], of v st2 "(tr @ as1) @ as2"] by metis
  obtain p st4 where "start_command sys v c st tr = (Inr st4, tr @ as1 @ as2 @ as3 @ [Start p])" "to_close st4 = to_close st3"
    using 1(1) 2(1) 3(1) assms(1)
    by (simp add: start_command_def st0_def [symmetric] bind_io_def act_def calm_def return_io_def)
  then show "\<exists>st' as. start_command sys v c st tr = (Inr st', tr @ as) \<and> real_files (to_close st') = real_files (to_close st) @ opened as \<and>
      closed_of as = [] \<and> length (launched as) = 1 \<and> waited as = []"
    using 1(2-) 2(2-) 3(2-) st0(1) by (intro exI [of _ st4] exI [of _ "as1 @ as2 @ as3 @ [Start p]"]) simp
qed

lemma stages_launch:
  assumes "calm sys"
  shows "list_all (\<lambda>(c, d). command_ok c) p \<Longrightarrow> piping st \<longrightarrow> piped st \<noteq> [] \<Longrightarrow> launches (start_stages sys p st) st (length p)"
proof (induction p arbitrary: st)
  case Nil
  then show ?case by (force simp: launches_def return_io_def)
next
  case (Cons s p)
  obtain c d where s: "s = (c, d)" by (cases s)
  show ?case unfolding launches_def
  proof
    fix tr
    have "launches (start_command sys False c (st\<lparr>cwd := d\<rparr>)) (st\<lparr>cwd := d\<rparr>) 1"
      using Cons.prems s by (intro start_launches [OF assms]) auto
    then obtain st1 as1 where 1: "start_command sys False c (st\<lparr>cwd := d\<rparr>) tr = (Inr st1, tr @ as1)"
      "real_files (to_close st1) = real_files (to_close st) @ opened as1" "closed_of as1 = []" "length (launched as1) = 1" "waited as1 = []"
      unfolding launches_def by (metis run_state.select_convs(4) run_state.surjective run_state.update_convs(2))
    let ?st = "st1\<lparr>piping := True, display := display st1 @ [''|'']\<rparr>"
    have "piped st1 \<noteq> []" using start_command_result(4) [OF 1(1)] by auto
    then have "launches (start_stages sys p ?st) ?st (length p)" using Cons by simp
    then obtain st2 as2 where "start_stages sys p ?st (tr @ as1) = (Inr st2, (tr @ as1) @ as2)"
      "real_files (to_close st2) = real_files (to_close ?st) @ opened as2" "closed_of as2 = []" "length (launched as2) = length p" "waited as2 = []"
      unfolding launches_def by blast
    then show "\<exists>st' as. start_stages sys (s # p) st tr = (Inr st', tr @ as) \<and> real_files (to_close st') = real_files (to_close st) @ opened as \<and>
        closed_of as = [] \<and> length (launched as) = length (s # p) \<and> waited as = []"
      using 1 by (intro exI [of _ st2] exI [of _ "as1 @ as2"]) (simp add: s bind_io_def)
  qed
qed

lemma wait_all_calm: "\<exists>rs. wait_all sys ns tr = (Inr rs, tr @ map Wait ns)"
proof (induction ns arbitrary: tr)
  case (Cons n ns)
  obtain rs where "wait_all sys ns (tr @ [Wait n]) = (Inr rs, (tr @ [Wait n]) @ map Wait ns)" using Cons.IH by blast
  then show ?case by (simp add: return_io_def bind_io_def)
qed (simp add: return_io_def)

text \<open>What a pipeline of \<open>k\<close> commands leaves behind: every file it opened is closed, every process awaited.\<close>

definition tidy :: "nat \<Rightarrow> nat \<Rightarrow> action list \<Rightarrow> bool" where
  "tidy n k as \<longleftrightarrow> closed_of as = opened as \<and> length (launched as) = k \<and> waited as = [n..<n + k]"

lemma tidy_append: "tidy n k as \<Longrightarrow> tidy (n + k) m bs \<Longrightarrow> tidy n (k + m) (as @ bs)"
  by (simp add: tidy_def upt_add_eq_append [of n "n + k" m] add.assoc [symmetric])

lemma waits_trace [simp]: "opened (map Wait ns) = []" "closed_of (map Wait ns) = []" "launched (map Wait ns) = []" "waited (map Wait ns) = ns"
  by (induction ns) (simp_all add: trace_defs)

lemma pipeline_tidy:
  assumes "calm sys" and "list_all (\<lambda>(c, d). command_ok c) p"
  shows "\<exists>r as. run_pipeline sys n p tr = (Inr (r, n + length p), tr @ as) \<and> tidy n (length p) as"
proof -
  have "launches (start_stages sys p (run_start\<lparr>started := n\<rparr>)) (run_start\<lparr>started := n\<rparr>) (length p)"
    by (rule stages_launch [OF assms]) (simp add: run_start_def)
  then obtain st as where 1: "start_stages sys p (run_start\<lparr>started := n\<rparr>) tr = (Inr st, tr @ as)"
    "real_files (to_close st) = opened as" "closed_of as = []" "length (launched as) = length p" "waited as = []"
    unfolding launches_def run_start_def by fastforce
  have ids: "map fst (piped st) = [n..<n + length p]" "started st = n + length p"
    using start_stages_piped [OF 1(1)] by (simp_all add: run_start_def)
  obtain rs where "wait_all sys [n..<n + length p] (tr @ as) = (Inr rs, (tr @ as) @ map Wait [n..<n + length p])"
    using wait_all_calm by blast
  then have "run_pipeline sys n p tr = (Inr (last rs, n + length p), tr @ as @ map Wait [n..<n + length p] @ map Close (real_files (to_close st)))"
    by (simp add: run_pipeline_def bind_io_def 1(1) ids return_io_def close_files_def note_io_def)
  then show ?thesis using 1
    by (intro exI [of _ "last rs"] exI [of _ "as @ map Wait [n..<n + length p] @ map Close (real_files (to_close st))"])
       (simp add: tidy_def)
qed

section \<open>Running what was parsed\<close>

lemma first_commands: "pipeline_ok ns \<Longrightarrow> list_all (\<lambda>(c, d). command_ok c) (first_pipeline d ns)"
proof (induction ns arbitrary: d rule: pipeline_ok.induct)
  case (6 x ns)
  then show ?case by (cases x) auto
qed auto

lemma further_ok:
  "pipeline_ok ns \<Longrightarrow> runnable ns \<Longrightarrow> (operator, q) \<in> set (further_pipelines d ns) \<Longrightarrow>
     operator \<in> {And, Or} \<and> q \<noteq> [] \<and> list_all (\<lambda>(c, d). command_ok c) q"
  by (induction ns arbitrary: d rule: pipeline_ok.induct) (auto simp: first_not_Nil first_commands)

lemma chain_tidy:
  assumes "calm sys" and "\<And>operator q. (operator, q) \<in> set rest \<Longrightarrow> list_all (\<lambda>(c, d). command_ok c) q"
  shows "\<exists>r' k as. chain_end sys r n rest tr = (Inr (Some r'), tr @ as) \<and> tidy n k as"
  using assms(2)
proof (induction rest arbitrary: r n tr)
  case Nil
  then show ?case by (auto simp: chain_end_def return_io_def tidy_def intro!: exI [of _ 0])
next
  case (Cons oq rest)
  obtain operator q where oq: "oq = (operator, q)" by (cases oq)
  show ?case
  proof (cases "(r = 0) = (operator = And)")
    case True
    obtain r1 as1 where 1: "run_pipeline sys n q tr = (Inr (r1, n + length q), tr @ as1)" "tidy n (length q) as1"
      using pipeline_tidy [OF assms(1), of q n tr] Cons.prems oq by auto
    obtain r2 k as2 where 2: "chain_end sys r1 (n + length q) rest (tr @ as1) = (Inr (Some r2), (tr @ as1) @ as2)"
      "tidy (n + length q) k as2"
    proof -
      have "\<exists>r' k as. chain_end sys r1 (n + length q) rest (tr @ as1) = (Inr (Some r'), (tr @ as1) @ as) \<and> tidy (n + length q) k as"
        by (rule Cons.IH) (use Cons.prems in auto)
      then show thesis using that by blast
    qed
    have "chain_end sys r n (oq # rest) tr = (Inr (Some r2), tr @ as1 @ as2)"
      using True 1(1) 2(1) by (simp add: chain_end_simps oq run_chain_end bind_io_def)
    then show ?thesis using tidy_append [OF 1(2) 2(2)] by blast
  next
    case False
    then have "chain_end sys r n (oq # rest) tr = (Inr (Some r), tr @ [])" by (simp add: chain_end_def oq return_io_def)
    then show ?thesis by (intro exI [of _ r] exI [of _ 0] exI [of _ "[]"]) (simp add: tidy_def)
  qed
qed

lemma pipeline_runs:
  assumes "pipeline_ok ns" and "runnable ns" and "calm sys"
  shows "\<exists>r k tr. pipeline_run sys False ns [] = (Inr (Some r), tr) \<and> 0 < k \<and> tidy 0 k tr"
proof -
  let ?p = "first_pipeline ''.'' ns"
  obtain r1 as1 where 1: "run_pipeline sys 0 ?p [] = (Inr (r1, length ?p), as1)" "tidy 0 (length ?p) as1"
    using pipeline_tidy [OF assms(3) first_commands [OF assms(1)], of 0 "''.''" "[]"] by auto
  obtain r2 k as2 where 2: "chain_end sys r1 (length ?p) (further_pipelines ''.'' ns) as1 = (Inr (Some r2), as1 @ as2)"
    "tidy (length ?p) k as2"
    using chain_tidy [OF assms(3), of "further_pipelines ''.'' ns" r1 "length ?p" as1] further_ok [OF assms(1,2)] by blast
  have "pipeline_run sys False ns [] = (Inr (Some r2), as1 @ as2)"
    using 1(1) 2(1) by (simp add: run_is_chain [OF assms(1,2)] bind_io_def)
  moreover have "0 < length ?p" using first_not_Nil [OF assms(1,2)] by simp
  ultimately show ?thesis using tidy_append [of 0 "length ?p" as1 k as2] 1(2) 2(2) by (intro exI conjI) auto
qed

text \<open>
  A command line that was parsed and in which \<open>cd\<close> names a directory and a command follows it runs to its end
  on a system that refuses nothing: it returns a code, every process it started has been awaited, once and in order,
  and every file it opened has been closed.
\<close>

theorem parsed_runs:
  assumes "parse line = Inr ns" and "runnable ns" and "calm sys"
  shows "\<exists>r k tr. pipeline_run sys False ns [] = (Inr (Some r), tr) \<and> 0 < k \<and> tidy 0 k tr"
  using pipeline_runs [OF _ assms(2,3)] parse_typed [of line] assms(1) by simp

text \<open>A system on which every process ends with the same code.\<close>

definition always_ends :: "int \<Rightarrow> system" where
  "always_ends k = \<lparr>sys_fails = (\<lambda>_ _. None), sys_code = (\<lambda>_ _. k), environ = []\<rparr>"

lemma always_ends_calm: "calm (always_ends k)"
  by (simp add: calm_def always_ends_def)




theorem parsed_runs_witness:
  "\<exists>r k tr. pipeline_run (always_ends 0) False sample_nodes [] = (Inr (Some r), tr) \<and> 0 < k \<and> tidy 0 k tr"
proof -
  have "parse (Text (shell_text (pipeline_words sample_nodes))) = Inr sample_nodes" by code_simp
  moreover have "runnable sample_nodes" by (simp add: sample_nodes_def)
  ultimately show ?thesis using parsed_runs always_ends_calm by blast
qed

section \<open>Verbose\<close>




end
