(* ===== verification/ShellAgree.thy ===== *)
theory ShellAgree
  imports ShellRun
begin

text \<open>
  \<open>waf-tools/shellcmd.py\<close>: its command lines should mean what they mean to a shell. A shell is described on its own,
  on the nodes of a line and on systems that refuse nothing, and compared with what \<open>Pipeline.run\<close> does there.
\<close>

section \<open>A shell\<close>

text \<open>
  What a POSIX shell does with the same nodes on a system that refuses nothing. It splits the line at \<open>&&\<close> and \<open>||\<close>, which
  have the same precedence and skip the pipeline behind them and no more; \<open>cd\<close> changes the directory in which the
  rest of the line runs, and so the one in which the files of the redirections are opened; behind a pipe \<open>cd\<close> has its own
  process and changes nothing; a redirection of the input wins over a pipe. The words are those of the nodes, without
  expansions. The nodes do not keep the order of the redirections of a command: they are read, and the files opened, in the order
  input, output, error, in which they are usually written. A shell reads \<open>2>&1 > f\<close> differently, but it has the nodes of
  \<open>> f 2>&1\<close> (\<open>redirect_order_lost\<close>).
\<close>

fun and_or :: "shell_node list \<Rightarrow> shell_node list \<times> (shell_node \<times> shell_node list) list" where
  "and_or [] = ([], [])"
| "and_or (n # ns) =
     (let (p, rest) = and_or ns in if n = And \<or> n = Or then ([], (n, p) # rest) else (n # p, rest))"

definition here_dir :: "string \<Rightarrow> bool" where
  "here_dir d \<longleftrightarrow> \<not> prefix ''/'' d \<and> list_all (\<lambda>x. x = [] \<or> x = ''.'') (split_on (CHR ''/'') d)"

definition in_dir :: "string \<Rightarrow> string \<Rightarrow> string" where
  "in_dir d f = (if here_dir d then f else path_join d f)"

fun sh_target :: "string \<Rightarrow> redirect option \<Rightarrow> stream" where
  "sh_target d None = Inherit"
| "sh_target d (Some ToPipe) = NewPipe"
| "sh_target d (Some ToStdout) = WithStdout"
| "sh_target d (Some (ToFile f)) = (if f = ''/dev/null'' then DevNull else WriteFile (in_dir d f))"

text \<open>\<open>prev\<close>: the process before it in the pipeline.\<close>

definition sh_streams :: "string \<Rightarrow> nat option \<Rightarrow> command \<Rightarrow> stream \<times> stream \<times> stream" where
  "sh_streams d prev c =
     (case cmd_stdin c of
        Some f \<Rightarrow> ReadFile (in_dir d f)
      | None \<Rightarrow> (case prev of Some n \<Rightarrow> PipeOf n | None \<Rightarrow> Inherit),
      sh_target d (cmd_stdout c), sh_target d (cmd_stderr c))"

fun on_disk :: "stream \<Rightarrow> bool" where
  "on_disk (ReadFile f) = True"
| "on_disk (WriteFile f) = True"
| "on_disk _ = False"

definition launch :: "(string \<times> string) list \<Rightarrow> string \<Rightarrow> stream \<times> stream \<times> stream \<Rightarrow> command \<Rightarrow> action list" where
  "launch env d = (\<lambda>(i, o1, e) c.
     map Open (filter on_disk [i, o1, e]) @
     [Start \<lparr>p_argv = argv c, p_stdin = i, p_stdout = o1, p_stderr = e,
             p_env = map_option (foldl (\<lambda>vars (k, v). dict_put k v vars) env) (env_vars c),
             p_cwd = (if d = ''.'' then None else Some d)\<rparr>])"

fun sh_start :: "(string \<times> string) list \<Rightarrow> string \<Rightarrow> nat \<Rightarrow> nat option \<Rightarrow> shell_node list \<Rightarrow> action list" where
  "sh_start env d n prev (Cmd c # ns) = launch env d (sh_streams d prev c) c @ sh_start env d (Suc n) (Some n) ns"
| "sh_start env d n prev (Pipe # ns) = sh_start env d n prev ns"
| "sh_start env d n prev ns = []"

definition sh_count :: "shell_node list \<Rightarrow> nat" where
  "sh_count ns = length (filter (\<lambda>n. case n of Cmd c \<Rightarrow> True | _ \<Rightarrow> False) ns)"

text \<open>A pipeline, with the directory, the number of processes and the actions so far: its code is that of its last command.\<close>

definition sh_pipeline :: "system \<Rightarrow> string \<Rightarrow> nat \<Rightarrow> action list \<Rightarrow> shell_node list \<Rightarrow> int \<times> string \<times> nat \<times> action list" where
  "sh_pipeline sys d n tr p =
     (case p of
        [Chdir (Some x)] \<Rightarrow> (0, path_join d x, n, tr)
      | _ \<Rightarrow>
          (let starts = sh_start (environ sys) d n None p; procs = [n..<n + sh_count p]
           in (case last p of Cmd c \<Rightarrow> sys_code sys (tr @ starts @ map Wait (butlast procs)) (last procs) | _ \<Rightarrow> 0,
               d, n + sh_count p, tr @ starts @ map Wait procs @ map Close (opened starts))))"

fun sh_rest :: "system \<Rightarrow> int \<times> string \<times> nat \<times> action list \<Rightarrow> (shell_node \<times> shell_node list) list \<Rightarrow> int \<times> action list" where
  "sh_rest sys (r, d, n, tr) [] = (r, tr)"
| "sh_rest sys (r, d, n, tr) ((operator, p) # rest) =
     (if (r = 0) = (operator = And) then sh_rest sys (sh_pipeline sys d n tr p) rest
      else sh_rest sys (r, d, n, tr) rest)"

definition shell_from :: "system \<Rightarrow> string \<Rightarrow> nat \<Rightarrow> action list \<Rightarrow> shell_node list \<Rightarrow> int \<times> action list" where
  "shell_from sys d n tr ns = (let (p, rest) = and_or ns in sh_rest sys (sh_pipeline sys d n tr p) rest)"

definition shell :: "system \<Rightarrow> shell_node list \<Rightarrow> int \<times> action list" where
  "shell sys ns = shell_from sys ''.'' 0 [] ns"







section \<open>What the program does on a calm system\<close>













text \<open>A pipeline whose commands are connected: all but the last write to a pipe.\<close>

fun bars :: "command list \<Rightarrow> shell_node list" where
  "bars [] = []"
| "bars [c] = [Cmd c]"
| "bars (c # cs) = Cmd c # Pipe # bars cs"









section \<open>Lines\<close>








text \<open>How the three readers split a line.\<close>

lemma bars_no_operator: "operator \<in> {And, Or} \<Longrightarrow> operator \<notin> set (bars cs)"
  by (induction cs rule: bars.induct) auto















section \<open>Where the two agree\<close>















section \<open>Where they differ\<close>













abbreviation as_shell :: "int \<times> action list \<Rightarrow> int option py \<times> action list" where
  "as_shell \<equiv> \<lambda>(r, tr). (Inr (Some r), tr)"







definition cd_in_pipe :: "shell_node list" where
  "cd_in_pipe = [Cmd (new_command ''a''\<lparr>cmd_stdout := Some ToPipe\<rparr>), Pipe, Chdir (Some ''d''), And, Cmd (new_command ''b'')]"



lemma redirect_order_lost: "parse (Text ''ls 2>&1 > out'') = parse (Text ''ls > out 2>&1'')"
  by code_simp

lemma piped_cd_differs: "pipeline_run (always_ends 0) False cd_in_pipe [] \<noteq> as_shell (shell (always_ends 0) cd_in_pipe)"
proof -
  have "length (launched (snd (pipeline_run (always_ends 0) False cd_in_pipe []))) = 2"
    "waited (take 2 (snd (pipeline_run (always_ends 0) False cd_in_pipe []))) = []"
    "waited (take 2 (snd (shell (always_ends 0) cd_in_pipe))) = [0]" by code_simp+
  then show ?thesis by (auto simp: case_prod_unfold)
qed

end
