(* ===== verification/WafCommand.thy ===== *)
theory WafCommand
  imports ShellRun
begin

text \<open>
  \<open>waf-tools/command.py\<close>: the task that runs a command line of a build file. The words of the parsed line may hold
  \<open>$$\<close>, for a dollar, and \<open>${...}\<close>, for the value of an expression. \<open>eval\<close> in the variables of the task is a parameter, as
  are the paths of the nodes of the build tree.
\<close>

section \<open>Substitution\<close>

record build_node =
  bld_abspath :: string
  src_path :: string

text \<open>What \<open>eval\<close> gives: a node, the list of the sources or of the targets themselves, another list, a text,
  \<open>None\<close>, or a value that is none of these.\<close>

datatype pyval = NodeVal build_node | TheInputs | TheOutputs | ListVal "pyval list" | TextVal string | NoneVal | OtherVal

record task =
  inputs :: "build_node list"
  outputs :: "build_node list"
  evaluate :: "string \<Rightarrow> pyval py"

text \<open>A replacement is a text, \<open>None\<close>, which \<open>re.sub\<close> takes for the empty one, or a value it cannot join.\<close>

type_synonym replacement = "string option"

definition replacement_of :: "pyval \<Rightarrow> replacement" where
  "replacement_of v = (case v of TextVal s \<Rightarrow> Some s | NoneVal \<Rightarrow> Some [] | _ \<Rightarrow> None)"

definition node_text :: "string \<Rightarrow> build_node \<Rightarrow> replacement py" where
  "node_text var n =
     (if var = ''TGT'' then Inr (Some (bld_abspath n))
      else if var = ''SRC'' then Inr (Some (src_path n)) else Inl ValueError)"

definition repl :: "task \<Rightarrow> string \<Rightarrow> string \<Rightarrow> replacement py" where
  "repl t var code =
     bind_e (evaluate t (var @ code)) (\<lambda>result.
       case result of
         NodeVal n \<Rightarrow> node_text var n
       | TheInputs \<Rightarrow> (case inputs t of [n] \<Rightarrow> Inr (Some (src_path n)) | _ \<Rightarrow> Inl ValueError)
       | TheOutputs \<Rightarrow> (case outputs t of [n] \<Rightarrow> Inr (Some (bld_abspath n)) | _ \<Rightarrow> Inl ValueError)
       | ListVal vs \<Rightarrow> (case vs of [v] \<Rightarrow> Inr (replacement_of v) | _ \<Rightarrow> Inl AssertionError)
       | _ \<Rightarrow> Inr (replacement_of result))"

text \<open>\<open>arg_rx\<close> behind \<open>${\<close>: a name, the rest of the expression up to the first closing brace on the line, and what follows.\<close>

definition subst_match :: "string \<Rightarrow> (string \<times> string \<times> string) option" where
  "subst_match s =
     (let var = takeWhile re_word s; rest = dropWhile re_word s; code = takeWhile (\<lambda>c. c \<noteq> CHR ''}'' \<and> c \<noteq> nl) rest in
      case dropWhile (\<lambda>c. c \<noteq> CHR ''}'' \<and> c \<noteq> nl) rest of
        [] \<Rightarrow> None
      | c # after \<Rightarrow> if var \<noteq> [] \<and> c = CHR ''}'' then Some (var, code, after) else None)"

lemma subst_match_shorter: "subst_match s = Some (var, code, after) \<Longrightarrow> length after < length s"
proof -
  assume "subst_match s = Some (var, code, after)"
  then have d: "dropWhile (\<lambda>c. c \<noteq> CHR ''}'' \<and> c \<noteq> nl) (dropWhile re_word s) = CHR ''}'' # after"
    by (auto simp: subst_match_def Let_def split: list.splits if_splits)
  have "length (dropWhile (\<lambda>c. c \<noteq> CHR ''}'' \<and> c \<noteq> nl) (dropWhile re_word s)) \<le> length s"
    by (meson le_trans length_dropWhile_le)
  then show ?thesis unfolding d by simp
qed

text \<open>\<open>arg_rx.sub(repl, arg)\<close>: the leftmost matches are replaced, the rest is kept, and in the end all is joined.\<close>

function subst_pieces :: "task \<Rightarrow> string \<Rightarrow> replacement list py" where
  "subst_pieces t s =
     (case s of
        [] \<Rightarrow> Inr []
      | c # cs \<Rightarrow>
          if c = CHR ''$'' \<and> prefix ''$'' cs then bind_e (subst_pieces t (tl cs)) (\<lambda>ps. Inr (Some ''$'' # ps))
          else case (if c = CHR ''$'' \<and> prefix ''{'' cs then subst_match (tl cs) else None) of
                 Some (var, code, after) \<Rightarrow>
                   bind_e (repl t var code) (\<lambda>p. bind_e (subst_pieces t after) (\<lambda>ps. Inr (p # ps)))
               | None \<Rightarrow> bind_e (subst_pieces t cs) (\<lambda>ps. Inr (Some [c] # ps)))"
  by pat_completeness auto
termination
  by (relation "measure (\<lambda>(t, s). length s)")
    (auto dest!: subst_match_shorter simp: less_Suc_eq_le split: if_splits)

declare subst_pieces.simps [simp del]

definition subst_arg :: "task \<Rightarrow> string \<Rightarrow> string py" where
  "subst_arg t s =
     bind_e (subst_pieces t s) (\<lambda>ps. if None \<in> set ps then Inl TypeError else Inr (concat (map the ps)))"

section \<open>The task\<close>








text \<open>\<open>__str__\<close>, with the paths of the nodes in the build directory\<close>

definition task_str :: "string list \<Rightarrow> string list \<Rightarrow> command_line \<Rightarrow> string py" where
  "task_str srcs tgts line =
     bind_e (parse line) (\<lambda>ns.
       Inr (''command ('' @ get_abbreviated_command ns @ ''): '' @ join_with '' '' srcs @
            (if tgts \<noteq> [] then '' -> '' else []) @ join_with '' '' tgts @ [nl]))"

section \<open>Templates\<close>

text \<open>A word of a command line, written of its parts.\<close>

datatype part = Lit string | Dollar | Expr string string

fun part_text :: "part \<Rightarrow> string" where
  "part_text (Lit s) = s"
| "part_text Dollar = ''$$''"
| "part_text (Expr var code) = ''${'' @ var @ code @ ''}''"

fun part_ok :: "part \<Rightarrow> bool" where
  "part_ok (Lit s) \<longleftrightarrow> CHR ''$'' \<notin> set s"
| "part_ok Dollar \<longleftrightarrow> True"
| "part_ok (Expr var code) \<longleftrightarrow> var \<noteq> [] \<and> list_all re_word var \<and> list_all (\<lambda>c. c \<noteq> CHR ''}'' \<and> c \<noteq> nl) code \<and>
     (code = [] \<or> \<not> re_word (hd code))"

fun part_pieces :: "task \<Rightarrow> part \<Rightarrow> replacement list py" where
  "part_pieces t (Lit s) = Inr (map (\<lambda>c. Some [c]) s)"
| "part_pieces t Dollar = Inr [Some ''$'']"
| "part_pieces t (Expr var code) = bind_e (repl t var code) (\<lambda>p. Inr [p])"

lemma subst_match_expr:
  assumes "part_ok (Expr var code)"
  shows "subst_match (var @ code @ CHR ''}'' # after) = Some (var, code, after)"
proof -
  have w: "\<not> re_word (CHR ''}'')" by (simp add: re_word_def)
  have "takeWhile re_word (code @ CHR ''}'' # after) = []" "dropWhile re_word (code @ CHR ''}'' # after) = code @ CHR ''}'' # after"
    using assms w by (cases code; simp)+
  then have "takeWhile re_word (var @ code @ CHR ''}'' # after) = var"
    "dropWhile re_word (var @ code @ CHR ''}'' # after) = code @ CHR ''}'' # after"
    using assms by (simp_all add: takeWhile_append2 dropWhile_append2 list_all_iff)
  moreover have "takeWhile (\<lambda>c. c \<noteq> CHR ''}'' \<and> c \<noteq> nl) (code @ CHR ''}'' # after) = code"
    "dropWhile (\<lambda>c. c \<noteq> CHR ''}'' \<and> c \<noteq> nl) (code @ CHR ''}'' # after) = CHR ''}'' # after"
    using assms by (simp_all add: takeWhile_append2 dropWhile_append2 list_all_iff)
  ultimately show ?thesis using assms by (simp add: subst_match_def)
qed

lemma subst_lit:
  "CHR ''$'' \<notin> set s \<Longrightarrow> subst_pieces t (s @ r) = bind_e (subst_pieces t r) (\<lambda>ps. Inr (map (\<lambda>c. Some [c]) s @ ps))"
proof (induction s)
  case Nil
  then show ?case by (cases "subst_pieces t r") simp_all
next
  case (Cons c s)
  then have "c \<noteq> CHR ''$''" by auto
  then show ?case using Cons by (subst subst_pieces.simps) (simp add: bind_e_assoc)
qed

lemma subst_part:
  assumes "part_ok x"
  shows "subst_pieces t (part_text x @ r) = bind_e (part_pieces t x) (\<lambda>ps. bind_e (subst_pieces t r) (\<lambda>qs. Inr (ps @ qs)))"
proof (cases x)
  case (Lit s)
  then show ?thesis using assms subst_lit by simp
next
  case Dollar
  then show ?thesis by (subst subst_pieces.simps) simp
next
  case (Expr var code)
  then have "subst_match (var @ code @ CHR ''}'' # r) = Some (var, code, r)" using assms subst_match_expr by simp
  then show ?thesis using Expr by (subst subst_pieces.simps) (simp add: bind_e_assoc)
qed

text \<open>
  In a word made of literal parts without a dollar, of \<open>$$\<close> and of expressions \<open>${...}\<close> whose values are texts,
  exactly the expressions are replaced by their values and \<open>$$\<close> by a dollar.
\<close>

theorem command_template:
  assumes "list_all part_ok parts"
    and "\<And>var code. Expr var code \<in> set parts \<Longrightarrow> repl t var code = Inr (Some (val var code))"
  shows "subst_arg t (concat (map part_text parts)) =
    Inr (concat (map (\<lambda>x. case x of Lit s \<Rightarrow> s | Dollar \<Rightarrow> ''$'' | Expr var code \<Rightarrow> val var code) parts))"
proof -
  have "\<exists>ps. subst_pieces t (concat (map part_text parts)) = Inr ps \<and> None \<notin> set ps \<and>
      concat (map the ps) = concat (map (\<lambda>x. case x of Lit s \<Rightarrow> s | Dollar \<Rightarrow> ''$'' | Expr var code \<Rightarrow> val var code) parts)"
    using assms
  proof (induction parts)
    case Nil
    then show ?case by (simp add: subst_pieces.simps)
  next
    case (Cons x parts)
    have "\<exists>ps. part_pieces t x = Inr ps \<and> None \<notin> set ps \<and>
        concat (map the ps) = (case x of Lit s \<Rightarrow> s | Dollar \<Rightarrow> ''$'' | Expr var code \<Rightarrow> val var code)"
      using Cons.prems(2) by (cases x) (auto simp: comp_def)
    moreover have "\<exists>ps. subst_pieces t (concat (map part_text parts)) = Inr ps \<and> None \<notin> set ps \<and>
        concat (map the ps) = concat (map (\<lambda>x. case x of Lit s \<Rightarrow> s | Dollar \<Rightarrow> ''$'' | Expr var code \<Rightarrow> val var code) parts)"
      by (rule Cons.IH) (use Cons.prems in auto)
    ultimately show ?case using subst_part [of x t] Cons.prems(1) by (force simp: comp_def)
  qed
  then show ?thesis by (auto simp: subst_arg_def)
qed

section \<open>Running a task\<close>








definition sample_task :: task where
  "sample_task = \<lparr>inputs = [\<lparr>bld_abspath = ''/b/a.in'', src_path = ''a.in''\<rparr>], outputs = [\<lparr>bld_abspath = ''/b/a.out'', src_path = ''a.out''\<rparr>],
     evaluate = (\<lambda>e. if e = ''SRC'' then Inr TheInputs else if e = ''TGT[0]'' then Inr (NodeVal \<lparr>bld_abspath = ''/b/a.out'', src_path = ''a.out''\<rparr>)
                     else Inl NameError)\<rparr>"

theorem command_template_witness:
  "subst_arg sample_task ''cost=$$5:${SRC}'' = Inr ''cost=$5:a.in''"
  using command_template [of "[Lit ''cost='', Dollar, Lit ''5:'', Expr ''SRC'' []]" sample_task "\<lambda>_ _. ''a.in''"]
  by (simp add: re_word_def repl_def sample_task_def)


end
