(* ===== verification/Wutils.thy ===== *)
theory Wutils
  imports ShellCmd
begin

text \<open>
  \<open>wutils.py\<close>: which program of the build a name means, the environment it is run in, the command that runs it and what is
  made of its exit code. The build (\<open>bld\<close>, \<open>bld.env\<close>), the options and the answers of the system are parameters.
\<close>

section \<open>Programs\<close>

record task_gen =
  is_ns3_program :: bool
  tg_path :: string
  tg_bld_path :: string
  tg_name :: string
  tg_program :: string

record waf_build =
  all_task_gen :: "task_gen list"
  launch_dir :: string
  module_path :: "string list"
  executable_path :: "string list"
  pymoddir :: string
  pyvizdir :: string
  VALGRIND :: "string list"
  PYTHON :: "string list"

text \<open>An error of waf, with what its message tells.\<close>

datatype waf_error =
    NotFound "string list"
  | Conflicting
  | NoValgrind
  | Exited int
  | Terminated string
  | Raised pyerr

definition in_subtree :: "string \<Rightarrow> task_gen \<Rightarrow> bool" where
  "in_subtree dir obj \<longleftrightarrow> prefix dir (tg_path obj) \<or> prefix dir (tg_bld_path obj)"

definition program_names :: "string \<Rightarrow> task_gen \<Rightarrow> string list" where
  "program_names dir obj = [tg_name obj, path_join (relpath dir (tg_path obj) dir) (tg_name obj)]"

fun find_in :: "string \<Rightarrow> string \<Rightarrow> task_gen list \<Rightarrow> string list \<Rightarrow> waf_error + task_gen" where
  "find_in dir name [] found = Inl (NotFound found)"
| "find_in dir name (obj # objs) found =
     (if \<not> is_ns3_program obj then find_in dir name objs found
      else if \<not> in_subtree dir obj then find_in dir name objs found
      else if name \<in> set (program_names dir obj) then Inr obj
      else find_in dir name objs (found @ program_names dir obj))"

definition find_program :: "waf_build \<Rightarrow> string \<Rightarrow> string \<Rightarrow> waf_error + task_gen" where
  "find_program bld cwd name = find_in (abspath cwd (launch_dir bld)) name (all_task_gen bld) []"

section \<open>The environment\<close>

type_synonym dict = "(string \<times> string) list"

definition path_variable :: "string \<Rightarrow> string" where
  "path_variable platform =
     (if platform = ''linux2'' \<or> platform = ''linux'' then ''LD_LIBRARY_PATH''
      else if platform = ''darwin'' then ''DYLD_LIBRARY_PATH''
      else if platform = ''win32'' then ''PATH''
      else if platform = ''cygwin'' then ''PATH''
      else ''LD_LIBRARY_PATH'')"

definition put_first :: "string \<Rightarrow> string list \<Rightarrow> string \<Rightarrow> dict \<Rightarrow> dict" where
  "put_first sep paths var env =
     (case map_of env var of
        Some old \<Rightarrow> dict_put var (join_with sep (paths @ [old])) env
      | None \<Rightarrow> dict_put var (join_with sep paths) env)"

definition get_proc_env :: "waf_build \<Rightarrow> string \<Rightarrow> string \<Rightarrow> dict \<Rightarrow> dict option \<Rightarrow> dict" where
  "get_proc_env bld platform pathsep environ os_env =
     (let env = (case os_env of None \<Rightarrow> environ | Some e \<Rightarrow> foldl (\<lambda>d (k, v). dict_put k v d) environ e);
          env = put_first pathsep (module_path bld) (path_variable platform) env;
          env = put_first pathsep [pymoddir bld, pyvizdir bld] ''PYTHONPATH'' env
      in put_first pathsep (executable_path bld) ''PATH'' env)"

section \<open>Running\<close>

record wopts =
  valgrind :: bool
  command_template :: "string option"

text \<open>A started command: what it is, and what comes back from it, its exit code and its standard error.\<close>

record launch =
  l_argv :: "string list"
  l_env :: dict
  l_cwd :: "string option"
  l_catch_stderr :: bool

text \<open>What the functions read of the process they run in.\<close>

record world =
  w_platform :: string
  w_pathsep :: string
  w_environ :: dict
  w_signals :: "(string \<times> int) list"
  w_start :: "launch \<Rightarrow> int \<times> string"

abbreviation proc_env_of :: "waf_build \<Rightarrow> world \<Rightarrow> dict option \<Rightarrow> dict" where
  "proc_env_of bld w os_env \<equiv> get_proc_env bld (w_platform w) (w_pathsep w) (w_environ w) os_env"

text \<open>The loop over \<open>stderrdata\<close>, a text, runs over its characters.\<close>

definition leak_reported :: "string \<Rightarrow> bool" where
  "leak_reported stderrdata = list_ex (\<lambda>line. str_in ''== LEAK SUMMARY'' line) (map (\<lambda>c. [c]) stderrdata)"

definition signal_name :: "(string \<times> int) list \<Rightarrow> int \<Rightarrow> string option" where
  "signal_name signals retval =
     (if retval < 0
      then map_option fst (find (\<lambda>(name, val).
             3 < length name \<and> take 3 name = ''SIG'' \<and> name ! 3 \<noteq> CHR ''_'' \<and> val = - retval) signals)
      else None)"

definition check_code :: "(string \<times> int) list \<Rightarrow> int \<Rightarrow> waf_error + int" where
  "check_code signals retval =
     (if retval \<noteq> 0
      then case signal_name signals retval of
             Some name \<Rightarrow> if name \<noteq> [] then Inl (Terminated name) else Inl (Exited retval)
           | None \<Rightarrow> Inl (Exited retval)
      else Inr retval)"

definition run_argv ::
  "waf_build \<Rightarrow> wopts \<Rightarrow> world \<Rightarrow> dict option \<Rightarrow> string option \<Rightarrow> bool \<Rightarrow> string list \<Rightarrow> waf_error + int" where
  "run_argv bld opt w os_env cwd force_no_valgrind args =
     (let env = proc_env_of bld w os_env in
      if valgrind opt \<and> \<not> force_no_valgrind then
        if command_template opt \<noteq> None \<and> command_template opt \<noteq> Some [] then Inl Conflicting
        else (case VALGRIND bld of
                [] \<Rightarrow> Inl NoValgrind
              | v # _ \<Rightarrow>
                  let (retval, stderrdata) = w_start w
                        \<lparr>l_argv = [v, ''--leak-check=full'', ''--show-reachable=yes'', ''--error-exitcode=1''] @ args,
                         l_env = env, l_cwd = cwd, l_catch_stderr = True\<rparr>;
                      retval = (if retval = 0 \<and> leak_reported stderrdata then 1 else retval)
                  in check_code (w_signals w) retval)
      else check_code (w_signals w)
             (fst (w_start w \<lparr>l_argv = args, l_env = env, l_cwd = cwd, l_catch_stderr = False\<rparr>)))"

section \<open>The command of a program\<close>

text \<open>\<open>template % (path,)\<close>: \<open>%s\<close> takes the path and \<open>%%\<close> is a percent sign; what another conversion makes of the rest
  of the template is a parameter. A value too few
  or too many raises.\<close>

fun format_one :: "(string \<Rightarrow> string \<Rightarrow> string py) \<Rightarrow> string option \<Rightarrow> string \<Rightarrow> string py" where
  "format_one conv arg [] = (case arg of None \<Rightarrow> Inr [] | Some _ \<Rightarrow> Inl TypeError)"
| "format_one conv arg [c] = (if c = CHR ''%'' then Inl ValueError else bind_e (format_one conv arg []) (\<lambda>r. Inr (c # r)))"
| "format_one conv arg (c # d # cs) =
     (if c \<noteq> CHR ''%'' then bind_e (format_one conv arg (d # cs)) (\<lambda>r. Inr (c # r))
      else if d = CHR ''%'' then bind_e (format_one conv arg cs) (\<lambda>r. Inr (CHR ''%'' # r))
      else case arg of
             None \<Rightarrow> Inl TypeError
           | Some a \<Rightarrow>
               if d = CHR ''s'' then bind_e (format_one conv None cs) (\<lambda>r. Inr (a @ r))
               else conv (d # cs) a)"

definition lift_py :: "'a py \<Rightarrow> waf_error + 'a" where
  "lift_py m = (case m of Inl e \<Rightarrow> Inl (Raised e) | Inr x \<Rightarrow> Inr x)"

definition double_backslashes :: "string \<Rightarrow> string" where
  "double_backslashes s = concat (map (\<lambda>c. if c = backslash then [backslash, backslash] else [c]) s)"

definition get_run_program ::
  "waf_build \<Rightarrow> string \<Rightarrow> (string \<Rightarrow> string \<Rightarrow> string py) \<Rightarrow> string \<Rightarrow> string option \<Rightarrow> waf_error + (string \<times> string list)" where
  "get_run_program bld cwd conv program_string template =
     (if template = None \<or> template = Some ''%s''
      then bind_e (lift_py (shlex_split program_string)) (\<lambda>args.
           bind_e (lift_py (py_get args 0)) (\<lambda>name.
           bind_e (find_program bld cwd name) (\<lambda>obj. Inr (name, tg_program obj # tl args))))
      else bind_e (find_program bld cwd program_string) (\<lambda>obj.
           bind_e (lift_py (format_one conv (Some (tg_program obj)) (the template))) (\<lambda>tmpl.
           bind_e (lift_py (shlex_split (double_backslashes tmpl))) (\<lambda>execvec. Inr (program_string, execvec)))))"

definition visualizer_arg :: string where
  "visualizer_arg = ''--SimulatorImplementationType=ns3::VisualSimulatorImpl''"

text \<open>The directory a program is started in: the one asked for, else that of the option, else that of the launch.\<close>

definition launch_cwd :: "string option \<Rightarrow> string option \<Rightarrow> string \<Rightarrow> string" where
  "launch_cwd cwd option_cwd default_cwd =
     (case cwd of
        Some d \<Rightarrow> d
      | None \<Rightarrow> (case option_cwd of Some d \<Rightarrow> if d \<noteq> [] then d else default_cwd | None \<Rightarrow> default_cwd))"

definition run_program ::
  "waf_build \<Rightarrow> wopts \<Rightarrow> world \<Rightarrow> (string \<Rightarrow> string \<Rightarrow> string py) \<Rightarrow> string \<Rightarrow> string option \<Rightarrow> string \<Rightarrow> string \<Rightarrow>
   string option \<Rightarrow> string option \<Rightarrow> bool \<Rightarrow> waf_error + int" where
  "run_program bld opt w conv here option_cwd default_cwd program_string template cwd visualize =
     bind_e (get_run_program bld here conv program_string template) (\<lambda>(_, execvec).
       run_argv bld opt w None (Some (launch_cwd cwd option_cwd default_cwd)) False
         (if visualize then execvec @ [visualizer_arg] else execvec))"

definition run_python_program ::
  "waf_build \<Rightarrow> wopts \<Rightarrow> world \<Rightarrow> string option \<Rightarrow> string \<Rightarrow> string \<Rightarrow> bool \<Rightarrow> waf_error + int" where
  "run_python_program bld opt w option_cwd default_cwd program_string visualize =
     bind_e (lift_py (shlex_split program_string)) (\<lambda>execvec.
     bind_e (lift_py (py_get (PYTHON bld) 0)) (\<lambda>python.
       run_argv bld opt w None (Some (launch_cwd None option_cwd default_cwd)) False
         (python # (if visualize then execvec @ [visualizer_arg] else execvec))))"

fun uniquify :: "'a set \<Rightarrow> 'a list \<Rightarrow> 'a list" where
  "uniquify seen [] = []"
| "uniquify seen (x # xs) = (if x \<in> seen then uniquify seen xs else x # uniquify (insert x seen) xs)"

definition uniquify_list :: "'a list \<Rightarrow> 'a list" where
  "uniquify_list xs = uniquify {} xs"

section \<open>Finding a program\<close>

definition means :: "string \<Rightarrow> string \<Rightarrow> task_gen \<Rightarrow> bool" where
  "means dir name obj \<longleftrightarrow> is_ns3_program obj \<and> in_subtree dir obj \<and> name \<in> set (program_names dir obj)"

lemma find_in_find:
  "find_in dir name objs found =
     (case find (means dir name) objs of
        Some obj \<Rightarrow> Inr obj
      | None \<Rightarrow> Inl (NotFound (found @ concat (map (program_names dir) (filter (\<lambda>obj. is_ns3_program obj \<and> in_subtree dir obj) objs)))))"
  by (induction objs arbitrary: found) (auto simp: means_def split: option.splits)

text \<open>
  \<open>find_program\<close> returns the first program below the directory waf was launched in whose name, or path from there, is
  the name asked for; if there is none it raises, with the names and paths of all programs below that directory.
\<close>

theorem program_found:
  "find_program bld cwd name =
     (let dir = abspath cwd (launch_dir bld) in
      case find (means dir name) (all_task_gen bld) of
        Some obj \<Rightarrow> Inr obj
      | None \<Rightarrow> Inl (NotFound (concat (map (program_names dir)
                 (filter (\<lambda>obj. is_ns3_program obj \<and> in_subtree dir obj) (all_task_gen bld))))))"
  by (simp add: find_program_def find_in_find Let_def split: option.split)

section \<open>The paths of the environment\<close>

lemma map_of_dict_put: "map_of (dict_put k v d) = (map_of d)(k \<mapsto> v)"
  by (induction d) auto

lemma map_of_put_first:
  "map_of (put_first sep paths var env) =
     (map_of env)(var \<mapsto> join_with sep (paths @ (case map_of env var of None \<Rightarrow> [] | Some old \<Rightarrow> [old])))"
  by (cases "map_of env var") (simp_all add: put_first_def map_of_dict_put)

lemma map_of_dict_update: "map_of (foldl (\<lambda>d (k, v). dict_put k v d) d e) = map_of d ++ map_of (rev e)"
  by (induction e arbitrary: d) (auto simp: map_of_dict_put map_add_def fun_eq_iff split: option.splits)

text \<open>What the variables were before: those of the process, then those the caller adds.\<close>

definition base_env :: "dict \<Rightarrow> dict option \<Rightarrow> string \<Rightarrow> string option" where
  "base_env environ os_env = map_of environ ++ map_of (rev (case os_env of None \<Rightarrow> [] | Some e \<Rightarrow> e))"

definition added :: "string \<Rightarrow> string list \<Rightarrow> string option \<Rightarrow> string" where
  "added sep paths old = join_with sep (paths @ (case old of None \<Rightarrow> [] | Some v \<Rightarrow> [v]))"

text \<open>C15: The environment of a program is that of the process and of the caller in which three variables are extended in front:
  the library path of the platform by the directories of the modules, \<open>PYTHONPATH\<close> by those of the bindings and the
  visualizer, and \<open>PATH\<close> by those of the programs. Where the library path is \<open>PATH\<close> itself it is extended twice.
\<close>

theorem proc_env:
  fixes environ os_env
  defines "base \<equiv> base_env environ os_env"
  shows "map_of (get_proc_env bld platform sep environ os_env) =
    (if path_variable platform = ''PATH''
     then base(''PYTHONPATH'' \<mapsto> added sep [pymoddir bld, pyvizdir bld] (base ''PYTHONPATH''),
               ''PATH'' \<mapsto> added sep (executable_path bld) (Some (added sep (module_path bld) (base ''PATH''))))
     else base(path_variable platform \<mapsto> added sep (module_path bld) (base (path_variable platform)),
               ''PYTHONPATH'' \<mapsto> added sep [pymoddir bld, pyvizdir bld] (base ''PYTHONPATH''),
               ''PATH'' \<mapsto> added sep (executable_path bld) (base ''PATH'')))"
proof -
  have b: "map_of (case os_env of None \<Rightarrow> environ | Some e \<Rightarrow> foldl (\<lambda>d (k, v). dict_put k v d) environ e) = base"
    by (simp add: base_def base_env_def map_of_dict_update split: option.splits)
  have "path_variable platform \<noteq> ''PYTHONPATH''" by (simp add: path_variable_def)
  then show ?thesis
    by (auto simp: get_proc_env_def Let_def map_of_put_first b added_def fun_eq_iff)
qed

section \<open>Exit codes\<close>

lemma check_code_ok: "check_code signals r = Inr x \<longleftrightarrow> r = 0 \<and> x = 0"
  by (auto simp: check_code_def split: option.splits)

lemma no_leak_reported: "\<not> leak_reported s"
proof -
  have "\<not> str_in ''== LEAK SUMMARY'' [c]" for c
  proof
    assume "str_in ''== LEAK SUMMARY'' [c]"
    then have "length ''== LEAK SUMMARY'' \<le> length [c]" using str_in_iff by (auto dest: sublist_length_le)
    then show False by simp
  qed
  then show ?thesis by (simp add: leak_reported_def list_ex_iff)
qed

text \<open>C13: \<open>run_argv\<close> returns exactly when the command ended with code 0. Under valgrind this is so whatever valgrind has written: the
  test for a leak is made on single characters, and a leak is reported only if valgrind itself ends with another code.
\<close>

theorem leak_missed:
  assumes "command_template opt = None" and "VALGRIND bld = v # vs"
  shows "run_argv bld opt w os_env cwd force args = Inr r \<longleftrightarrow>
    r = 0 \<and> fst (w_start w \<lparr>l_argv = (if valgrind opt \<and> \<not> force
        then [v, ''--leak-check=full'', ''--show-reachable=yes'', ''--error-exitcode=1''] @ args else args),
      l_env = proc_env_of bld w os_env, l_cwd = cwd, l_catch_stderr = valgrind opt \<and> \<not> force\<rparr>) = 0"
  using assms no_leak_reported by (auto simp: run_argv_def check_code_ok Let_def split: prod.splits)

definition leaky :: world where
  "leaky = \<lparr>w_platform = ''linux'', w_pathsep = '':'', w_environ = [], w_signals = [],
     w_start = (\<lambda>_. (0, ''==7== LEAK SUMMARY: definitely lost: 8 bytes''))\<rparr>"

definition sample_build :: waf_build where
  "sample_build = \<lparr>all_task_gen =
       [\<lparr>is_ns3_program = True, tg_path = ''/n/src/a'', tg_bld_path = ''/n/build/src/a'', tg_name = ''first'', tg_program = ''/n/my build/first''\<rparr>],
     launch_dir = ''/n'', module_path = [''/n/build''], executable_path = [], pymoddir = ''/n/p'', pyvizdir = ''/n/v'',
     VALGRIND = [''valgrind''], PYTHON = [''python3'']\<rparr>"

theorem leak_missed_witness:
  "run_argv sample_build \<lparr>valgrind = True, command_template = None\<rparr> leaky None None False [''first''] = Inr 0"
  using leak_missed [of "\<lparr>valgrind = True, command_template = None\<rparr>" sample_build "''valgrind''" "[]" leaky None None False "[''first'']" 0]
  by (simp add: sample_build_def leaky_def)

section \<open>The command\<close>

text \<open>
  Without a template, a program string that is split into a name and arguments runs the program of that name with
  exactly these arguments, whatever its path is.
\<close>

theorem run_program_command:
  assumes "list_all (\<lambda>w. CHR 0x22 \<notin> set w \<and> backslash \<notin> set w) (name # args)"
    and "find (means (abspath cwd (launch_dir bld)) name) (all_task_gen bld) = Some obj"
  shows "get_run_program bld cwd conv (shell_text (name # args)) None = Inr (name, tg_program obj # args)"
  using shlex_shell_text [OF assms(1)] assms(2)
  by (simp add: get_run_program_def lift_py_def program_found Let_def py_get_def norm_index_def)

text \<open>With a template the path of the program is split at its blanks.\<close>

theorem template_splits_path:
  "get_run_program sample_build ''/n'' conv ''first'' (Some ''gdb --args %s'') =
     Inr (''first'', [''gdb'', ''--args'', ''/n/my'', ''build/first''])"
proof -
  have "find_program sample_build ''/n'' ''first'' = Inr (hd (all_task_gen sample_build))" by code_simp
  moreover have "format_one conv (Some ''/n/my build/first'') ''gdb --args %s'' = Inr ''gdb --args /n/my build/first''" by simp
  moreover have "shlex_split (double_backslashes ''gdb --args /n/my build/first'') = Inr [''gdb'', ''--args'', ''/n/my'', ''build/first'']"
    by code_simp
  ultimately show ?thesis by (simp add: get_run_program_def lift_py_def sample_build_def)
qed

theorem run_program_command_witness:
  "get_run_program sample_build ''/n'' (\<lambda>_ _. Inl TypeError) (shell_text [''first'', ''--n=a b'']) None =
     Inr (''first'', [''/n/my build/first'', ''--n=a b''])"
proof -
  have "find (means (abspath ''/n'' (launch_dir sample_build)) ''first'') (all_task_gen sample_build) = Some (hd (all_task_gen sample_build))"
    by code_simp
  from run_program_command [OF _ this, of "[''--n=a b'']" "\<lambda>_ _. Inl TypeError"] show ?thesis
    by (simp add: backslash_def sample_build_def)
qed

text \<open>A program of a directory whose name only begins like the one waf was launched in is found too.\<close>

theorem sibling_found:
  "is_ok (find_program (sample_build\<lparr>launch_dir := ''/n/sr''\<rparr>) ''/n'' ''first'')"
  by code_simp

section \<open>Duplicates\<close>

lemma uniquify_remdups: "uniquify seen xs = rev (remdups (rev (filter (\<lambda>x. x \<notin> seen) xs)))"
proof (induction xs arbitrary: seen)
  case (Cons x xs)
  have snoc: "remdups (ys @ [x]) = remdups (filter (\<lambda>y. y \<noteq> x) ys) @ [x]" for ys
    by (induction ys) (auto simp: filter_empty_conv)
  have "filter (\<lambda>y. y \<notin> insert x seen) xs = filter (\<lambda>y. y \<noteq> x) (filter (\<lambda>y. y \<notin> seen) xs)" by (auto simp: conj_commute)
  then show ?case using Cons.IH by (simp add: snoc rev_filter conj_commute)
qed simp

theorem uniquify_first: "uniquify_list xs = rev (remdups (rev xs))"
  by (simp add: uniquify_list_def uniquify_remdups)

end
