(* ===== verification/Spec2Isabelle.thy ===== *)
theory Spec2Isabelle
  imports GridUi FindCycles StyleCheck ErrCheck TestMain TestHtml DashTrace PlayQoe QuicThroughput UdpThroughput ShellAgree WafCommand Wutils
begin

text \<open>
  The repository is a fork of the network simulator ns-3 with an extension for non-terrestrial
  integrated access and backhaul. Its simulator is C++; its Python is the tooling around it: the
  viewer of scheduler traces, the test driver, the dependency sorting of the bindings, the style checker, the
  readers of the configuration, and the scripts that check and evaluate simulation campaigns. This development
  models that tooling, translated from the sources line by line into executable definitions.

  \<^bold>\<open>Theories and sources.\<close>
  \<^item> \<open>Py\<close>, \<open>PyText\<close>, \<open>PyNum\<close>, \<open>Py2Num\<close>: what the scripts use of Python. An exception is a value of \<open>pyerr\<close>, a
    computation that may raise has type \<open>'a py\<close>, \<open>fold_e\<close> is a \<open>for\<close> loop that may raise; indexing,
    slices, string methods, regular expressions as matching functions, \<open>int\<close> and \<open>float\<close> of a text, the
    numbers of Python 2 with their rounding division.
  \<^item> \<open>Bisect\<close>, \<open>NamedStore\<close>: the interfaces of \<open>utils/grid.py\<close>, a binary search over an ordered list and a
    list of named objects with get-or-create lookup, as locales. Each is interpreted on every routine of the
    program that implements it, and the properties of those routines rest on the interpretations.
  \<^item> \<open>Steps\<close>: the interface of the step relations, invariants and measures, as locales that are interpreted on the
    window of the viewer and on the threads of the test driver.
  \<^item> \<open>GridData\<close>, \<open>GridStore\<close>, \<open>GridScale\<close>, \<open>GridLines\<close>, \<open>GridGraphic\<close>, \<open>GridUi\<close>: \<open>utils/grid.py\<close>. The trace is
    read into timelines of ranges and events, which are searched by binary search; the renderers compute a
    layout and draw lists of cairo calls; the window is a state machine whose handlers are the GTK
    callbacks, with the states reachable from the first one as an inductive predicate. A callback that raises does not end
    a run: \<open>left_by\<close> is the state it leaves, with the renderer in any state when the exception comes out of it.
  \<^item> \<open>Topsort\<close>, \<open>FindCycles\<close>: \<open>bindings/python/topsort.py\<close> and \<open>is_rotated\<close> of \<open>rad_util.py\<close>.
  \<^item> \<open>PatchSet\<close>, \<open>StyleCheck\<close>: \<open>utils/check-style.py\<close>. Unified diffs are parsed, filtered and written; the
    checker runs \<open>uncrustify\<close> on copies of the files, applies the filtered diff and compares.
  \<^item> \<open>ErrCheck\<close>: \<open>scripts/err_check.py\<close>, on a tree of files: scanning the ends of the logs of a campaign for
    crashes, mapping array ids to algorithms as the slurm scripts do, and deleting the files of crashed jobs.
  \<^item> \<open>Ns3rc\<close>: the configuration readers of \<open>utils.py\<close>, and the files they read as lists of settings.
  \<^item> \<open>TestJobs\<close>, \<open>TestSetup\<close>, \<open>TestReport\<close>, \<open>TestThreads\<close>, \<open>TestDriver\<close>, \<open>TestMain\<close>:
    \<open>test.py\<close>. \<open>prepare\<close> is \<open>run_tests\<close> up to
    the first thread, with the list of jobs as its result; \<open>driver_step\<close> is one step of the main thread or of a
    worker thread, on the state of the two queues, the program counters and \<open>thread_exit\<close>; \<open>collect\<close> counts a
    job that came back and writes its part of the results file; \<open>play_all\<close> runs a given schedule.
  \<^item> \<open>Xml\<close>, \<open>TestTranslate\<close>, \<open>TestHtml\<close>: the part of \<open>xml.etree.ElementTree\<close> that \<open>test.py\<close> uses, its reports as text and
    HTML, and which HTML reports are closed properly. What a suite reported is a tree of test cases (\<open>reported\<close>), in the element
    that the test runner writes for it.
  \<^item> \<open>Shlex\<close>, \<open>ShellCmd\<close>, \<open>ShellRun\<close>, \<open>ShellAgree\<close>, \<open>WafCommand\<close>: \<open>waf-tools/shellcmd.py\<close> and \<open>waf-tools/command.py\<close>, the command
    lines of the build files. \<open>parse\<close> is a loop over the words with the states of the source; \<open>run\<close> gives the actions done to a
    system (files opened and closed, processes started and awaited), whose answers are a parameter that may depend on all
    actions before; \<open>shell\<close> describes a POSIX shell on its own, with its directory, and \<open>run\<close> is compared with it.
  \<^item> \<open>Wutils\<close>: \<open>wutils.py\<close>, how waf finds and runs a program.
  \<^item> \<open>DashTrace\<close>: \<open>scripts/verify_dash_traces.py\<close>.
  \<^item> \<open>PlayStats\<close>, \<open>PlaySeries\<close>, \<open>PlayAggregate\<close>, \<open>PlayEvents\<close>, \<open>PlayBands\<close>, \<open>PlayQoe\<close>:
    \<open>scripts/plot_bitrate_playback.py\<close>, its statistics, the parsers of the bitrate and playback logs, the curves across
    users and runs, and the fairness and quality of experience of a campaign.
  \<^item> \<open>Windows\<close>, \<open>QuicThroughput\<close>, \<open>UdpThroughput\<close>: \<open>scripts/quic_calculate_throughput.py\<close> and
    \<open>scripts/udp_calculate_throughput.py\<close>, over a shared theory of half-open time windows.

  \<^bold>\<open>What the lemmas show.\<close> For the trace viewer: reading files every entry of the trace exactly once, the
  searches return the entries of the window, the layouts leave room for what is drawn (and where they do
  not), the handlers keep the state of the window consistent, those that raise as well, and selecting and zooming are inverse to
  drawing. For sorting: \<open>topsort\<close> and \<open>topsort_levels\<close> return a topological order or report exactly the elements
  on or behind cycles, and \<open>find_cycles\<close> lists every simple cycle once. For the style checker: writing and
  parsing a patch set are inverse, the filter changes nothing but trailing blanks, and a check does not change
  the files. A \<open>.ns3rc\<close> is read back as it was written, with its comments and lists over several lines. For the test driver: in every interleaving each job is processed and counted once, the
  result is that of running the jobs in order, and there is no deadlock; where a thread raises there is one; and
  the results file can be parsed unless a suite crashed, the text report has every test case and failure that the suites
  reported, and the HTML report can be parsed unless an example was skipped or a test case failed. For \<open>err_check\<close>: reading a file backwards in blocks finds its last lines, and only the files of
  crashed jobs are deleted. For the command lines of the build: what is parsed is of a shape that runs to its end, leaves
  no process and no file behind, and does what a shell does with it unless \<open>&&\<close> and \<open>||\<close> are mixed, a redirection
  stands behind \<open>cd\<close>, or the input is redirected behind a pipe. For the evaluation scripts: no time of a playback log and no byte of a trace is
  counted twice, and which of them are not counted at all; the events the players print are read back; and the curves and
  indices that are reported stay within the bounds they are read with. Where the code departs from what its
  documentation or its own guards say, a theorem states what it does instead.

  \<^bold>\<open>Termination.\<close> No definition uses fuel: the loops of the sources are structural recursions, or \<open>function\<close>s
  with a measure (the binary searches, the block-wise reading, the work lists of \<open>topsort\<close> and \<open>find_cycles\<close>),
  except one \<open>while\<close> combinator for the power of ten of a scale, whose termination is a lemma, and the window loops of the
  throughput scripts, which do not end for every window size: they are partial functions into an option, and
  theorems say for which sizes they return.

  \<^bold>\<open>Parameters.\<close> What is not under the sources is an argument: the order in which a Python 2 dictionary
  lists its keys (assumed to be a permutation), the text extents cairo measures (assumed not negative where a
  layout needs it), the programs \<open>uncrustify\<close>, \<open>patch\<close> and \<open>hg\<close> with \<open>difflib\<close> and \<open>mkstemp\<close> (assumed to apply
  the diff they are given, and to give unused names), the modification times of files (assumed to tell files of one size apart
  where a comparison must not miss a difference), the commands \<open>test.py\<close> runs (a relation between jobs and the ways they can end), the functions \<open>eval\<close>
  and \<open>exec\<close>, the program \<open>grep\<close> (assumed to print the lines that hold one of the words of its pattern), and of numpy
  \<open>arange\<close>, \<open>mean\<close>, \<open>median\<close>, \<open>percentile\<close>, \<open>searchsorted\<close> and \<open>log\<close> (assumed to be what its documentation says:
  the multiples of the step below the end, the average, the middle of the sorted values, the interpolation between
  closest ranks, the number of values up to a bound; of the logarithm that it is 0 at 1 and does not decrease). Each
  theorem with such an assumption is applied at a concrete instance in its witness.

  \<^bold>\<open>Not modelled.\<close> A float is the rational number it stands for: rounding, infinity and NaN are not
  modelled. Texts are ASCII. Of \<open>test.py\<close> the
  messages of \<open>--verbose\<close>, the parsing of the command line and the number of processors are left out; a get from
  a queue, a test of \<open>thread_exit\<close> and the end of a command are atomic. The registration code \<open>modulegen__gcc_*.py\<close> of every module is generated, and the
  scanners that generate it drive \<open>pybindgen\<close>, which is not part of the repository. The build files and the other tools of \<open>waf-tools\<close> drive waf;
  the visualizer drives GTK; the documentation settings and example
  programs have no logic of their own. Of the evaluation scripts, the figures (\<open>matplotlib\<close>, \<open>pandas\<close>), the
  tables of statistics per algorithm and the scripts that only feed a data frame to a plot are not modelled.
\<close>

end
